(* ===== verification/Val_Prelude.thy ===== *)
theory Val_Prelude
  imports Main "HOL-Library.Word" "HOL-Library.Monad_Syntax"
begin

text \<open>
  Shared vocabulary of the development: the fixed-width integers of the C code, the contents of
  its byte buffers as lists with explicit reads and writes, the collections of simplification
  facts the component theories fill, and generic facts on lists and words.
\<close>

unbundle bit_operations_syntax

named_theorems le_bits \<open>bits of the bytes that make up a little-endian word\<close>
named_theorems lane_bits \<open>bits of a word assembled from byte lanes\<close>
named_theorems mem_simps \<open>reads and writes of byte buffers\<close>
named_theorems wire_defs \<open>serializers and deserializers of the wire format\<close>
named_theorems hook_defs \<open>calls of the configuration's hooks\<close>
named_theorems sess_defs \<open>small updates of the session\<close>

section \<open>C integer types\<close>

type_synonym u8 = "8 word"
type_synonym u16 = "16 word"
type_synonym u32 = "32 word"
type_synonym u64 = "64 word"

text \<open>\<open>size_t\<close> has 64 bits; C's \<open>int\<close> results (return codes, truth values of hooks) are \<open>int\<close>.\<close>

type_synonym size_t = "64 word"

text \<open>A C string is the list of its bytes before the terminating NUL.\<close>

type_synonym cstr = "u8 list"

abbreviation (input) UINT64_MAX :: u64 where "UINT64_MAX \<equiv> - 1"
abbreviation (input) UINT32_MAX :: u32 where "UINT32_MAX \<equiv> - 1"

section \<open>Byte buffers\<close>

text \<open>
  \<open>mem_write buf p bs\<close> is the buffer after \<open>memcpy(buf + p, bs, length bs)\<close>. A write that
  reaches past the end of the buffer makes the list longer, so that an overrun is visible as a
  change of length instead of being lost.
\<close>

definition mem_write :: "u8 list \<Rightarrow> nat \<Rightarrow> u8 list \<Rightarrow> u8 list" where
  "mem_write buf p bs = take p buf @ bs @ drop (p + length bs) buf"

definition mem_read :: "u8 list \<Rightarrow> nat \<Rightarrow> nat \<Rightarrow> u8 list" where
  "mem_read buf p n = take n (drop p buf)"

lemma length_mem_write [mem_simps]:
  "p + length bs \<le> length buf \<Longrightarrow> length (mem_write buf p bs) = length buf"
  by (simp add: mem_write_def)

lemma length_mem_write_ge:
  "p \<le> length buf \<Longrightarrow> length (mem_write buf p bs) = max (length buf) (p + length bs)"
  by (simp add: mem_write_def max_def)

lemma length_mem_read [mem_simps]: "p + n \<le> length buf \<Longrightarrow> length (mem_read buf p n) = n"
  by (simp add: mem_read_def)

lemma mem_read_write_same [mem_simps]:
  "p \<le> length buf \<Longrightarrow> n = length bs \<Longrightarrow> mem_read (mem_write buf p bs) p n = bs"
  by (simp add: mem_read_def mem_write_def)

lemma mem_read_write_below [mem_simps]:
  "q + n \<le> p \<Longrightarrow> p \<le> length buf \<Longrightarrow> mem_read (mem_write buf p bs) q n = mem_read buf q n"
proof -
  assume a: "q + n \<le> p" "p \<le> length buf"
  have "take n (drop q (take p buf @ bs @ drop (p + length bs) buf)) = take n (drop q (take p buf))"
    using a by simp
  also have "\<dots> = take n (drop q buf)" using a by (simp add: drop_take min_def)
  finally show ?thesis by (simp add: mem_read_def mem_write_def)
qed

lemma mem_read_write_above [mem_simps]:
  assumes "p + length bs \<le> q" and "p \<le> length buf"
  shows "mem_read (mem_write buf p bs) q n = mem_read buf q n"
proof -
  have "drop q (mem_write buf p bs) = drop q buf"
    using assms by (simp add: mem_write_def)
  then show ?thesis by (simp add: mem_read_def)
qed

lemma take_mem_write [mem_simps]:
  "n \<le> p \<Longrightarrow> p \<le> length buf \<Longrightarrow> take n (mem_write buf p bs) = take n buf"
  by (simp add: mem_write_def)

lemma take_mem_write_end [mem_simps]:
  "p \<le> length buf \<Longrightarrow> n = p + length bs \<Longrightarrow> take n (mem_write buf p bs) = take p buf @ bs"
  by (simp add: mem_write_def)

lemma mem_write_0 [mem_simps]: "mem_write buf 0 bs = bs @ drop (length bs) buf"
  by (simp add: mem_write_def)

lemma mem_write_append [mem_simps]:
  "length pre \<le> p \<Longrightarrow> mem_write (pre @ rest) p bs = pre @ mem_write rest (p - length pre) bs"
  by (simp add: mem_write_def)

lemma mem_write_Cons [mem_simps]:
  "0 < p \<Longrightarrow> mem_write (x # rest) p bs = x # mem_write rest (p - 1) bs"
  by (cases p) (simp_all add: mem_write_def)

lemma mem_read_append [mem_simps]:
  "length pre \<le> p \<Longrightarrow> mem_read (pre @ rest) p n = mem_read rest (p - length pre) n"
  by (simp add: mem_read_def)

lemma mem_read_Cons [mem_simps]: "0 < p \<Longrightarrow> mem_read (x # rest) p n = mem_read rest (p - 1) n"
  by (cases p) (simp_all add: mem_read_def)

lemma mem_read_first [mem_simps]: "n = length bs \<Longrightarrow> mem_read (bs @ rest) 0 n = bs"
  by (simp add: mem_read_def)

lemma mem_write_prefix:
  "p = length pre \<Longrightarrow> mem_write (pre @ rest) p bs = pre @ bs @ drop (length bs) rest"
  by (simp add: mem_write_def)

lemma mem_write_Nil [simp]: "mem_write buf p [] = buf"
  by (simp add: mem_write_def)

section \<open>Lists\<close>

lemma take_add_slice: "take (m + n) xs = take m xs @ take n (drop m xs)"
  by (rule take_add)

lemma list_eq_takes: "length xs = m + n \<Longrightarrow> xs = take m xs @ drop m xs"
  by simp

lemma foldl_inj_state:
  assumes "\<And>b. inj (\<lambda>c. f c b)"
  shows "foldl f c xs = foldl f d xs \<longleftrightarrow> c = d"
proof (induction xs arbitrary: c d)
  case Nil
  then show ?case by simp
next
  case (Cons x xs)
  from Cons.IH show ?case using assms [of x] by (auto dest: injD)
qed

section \<open>Words\<close>

lemma ucast_and_255 [simp]: "(ucast (v AND 0xFF) :: u8) = ucast (v :: 'a::len word)"
proof -
  have m: "(0xFF :: 'a word) = mask 8" by (simp add: mask_eq_exp_minus_1)
  show ?thesis
    by (rule bit_word_eqI) (auto simp: m bit_simps dest: bit_imp_le_length)
qed

lemma bit_ucast_u8:
  "bit (ucast (x :: u8) :: 'a::len word) n \<longleftrightarrow> n < LENGTH('a) \<and> n < 8 \<and> bit x n"
  by (auto simp: bit_simps dest: bit_imp_le_length)

lemma bit_ucast_byte: "bit (ucast (x :: 'a::len word) :: u8) n \<longleftrightarrow> n < 8 \<and> bit x n"
  by (auto simp: bit_simps dest: bit_imp_le_length)

lemma bit_byte_lane [le_bits]:
  "bit (push_bit k (ucast (ucast (drop_bit k v) :: u8)) :: 'a::len word) n \<longleftrightarrow>
     n < LENGTH('a) \<and> k \<le> n \<and> n < k + 8 \<and> bit (v :: 'a word) n"
  by (auto simp: bit_push_bit_iff bit_ucast_u8 bit_ucast_byte bit_drop_bit_eq)

lemma bit_byte_lane0 [le_bits]:
  "bit (ucast (ucast v :: u8) :: 'a::len word) n \<longleftrightarrow> n < LENGTH('a) \<and> n < 8 \<and> bit (v :: 'a word) n"
  by (auto simp: bit_ucast_u8 bit_ucast_byte)

lemma bit_lane_of [lane_bits]:
  "bit (push_bit k (ucast (b :: u8)) :: 'a::len word) n \<longleftrightarrow>
     n < LENGTH('a) \<and> k \<le> n \<and> n < k + 8 \<and> bit b (n - k)"
  by (auto simp: bit_push_bit_iff bit_ucast_u8)

lemma unat_ucast_up [simp]:
  "LENGTH('a::len) \<le> LENGTH('b::len) \<Longrightarrow> unat (ucast (x :: 'a word) :: 'b word) = unat x"
proof -
  assume up: "LENGTH('a) \<le> LENGTH('b)"
  have "unat x < 2 ^ LENGTH('a)" by (rule unsigned_less)
  also have "(2::nat) ^ LENGTH('a) \<le> 2 ^ LENGTH('b)" using up by simp
  finally show ?thesis by (simp add: unsigned_ucast_eq take_bit_nat_eq_self)
qed

lemma unat_less_2p8: "unat (x :: u8) < 256"
  using unsigned_less [of x, where ?'a = nat] by simp

lemma unat_less_2p16: "unat (x :: u16) < 65536"
  using unsigned_less [of x, where ?'a = nat] by simp

lemma unat_less_2p32: "unat (x :: u32) < 4294967296"
  using unsigned_less [of x, where ?'a = nat] by simp

lemma unat_less_2p64: "unat (x :: u64) < 18446744073709551616"
  using unsigned_less [of x, where ?'a = nat] by simp

end
