(* ===== verification/Val_Bytes.thy ===== *)
theory Val_Bytes
  imports Val_Prelude
begin

text \<open>
  Byte order (\<^verbatim>\<open>include/val_byte_order.h\<close>): the byte-swap and host/little-endian conversions, the
  \<^verbatim>\<open>VAL_PUT_LE*\<close> / \<^verbatim>\<open>VAL_GET_LE*\<close> accessors in their three compile-time variants, and the facts the
  wire format needs: the accessors are inverse to each other, and the bytes they produce do not
  depend on the byte order of the host.
\<close>

section \<open>The host\<close>

text \<open>The byte order of the host; the header picks it at compile time or asks at run time.\<close>

datatype host_order = Little | Big

text \<open>The object representation of an unsigned integer (a fact about the host, not library code).\<close>

definition native16 :: "host_order \<Rightarrow> u16 \<Rightarrow> u8 list" where
  "native16 e v = (let bs = [ucast v, ucast (drop_bit 8 v)] in case e of Little \<Rightarrow> bs | Big \<Rightarrow> rev bs)"

definition native32 :: "host_order \<Rightarrow> u32 \<Rightarrow> u8 list" where
  "native32 e v = (let bs = map (\<lambda>i. ucast (drop_bit (8 * i) v)) [0..<4]
                   in case e of Little \<Rightarrow> bs | Big \<Rightarrow> rev bs)"

definition native64 :: "host_order \<Rightarrow> u64 \<Rightarrow> u8 list" where
  "native64 e v = (let bs = map (\<lambda>i. ucast (drop_bit (8 * i) v)) [0..<8]
                   in case e of Little \<Rightarrow> bs | Big \<Rightarrow> rev bs)"

definition val_runtime_is_little_endian :: "host_order \<Rightarrow> bool" where
  "val_runtime_is_little_endian e \<longleftrightarrow> native16 e 0x00FF ! 0 = 0xFF"

section \<open>Byte swaps and conversions\<close>

definition val_bswap16 :: "u16 \<Rightarrow> u16" where
  "val_bswap16 v = drop_bit 8 v OR push_bit 8 v"

definition val_bswap32 :: "u32 \<Rightarrow> u32" where
  "val_bswap32 v =
     push_bit 24 (v AND 0x000000FF) OR push_bit 8 (v AND 0x0000FF00) OR
     drop_bit 8 (v AND 0x00FF0000) OR drop_bit 24 (v AND 0xFF000000)"

definition val_bswap64 :: "u64 \<Rightarrow> u64" where
  "val_bswap64 v =
     push_bit 32 (ucast (val_bswap32 (ucast (v AND 0xFFFFFFFF)))) OR
     ucast (val_bswap32 (ucast (drop_bit 32 v)))"

definition val_htole16 :: "host_order \<Rightarrow> u16 \<Rightarrow> u16" where
  "val_htole16 e v = (if val_runtime_is_little_endian e then v else val_bswap16 v)"

definition val_htole32 :: "host_order \<Rightarrow> u32 \<Rightarrow> u32" where
  "val_htole32 e v = (if val_runtime_is_little_endian e then v else val_bswap32 v)"

definition val_htole64 :: "host_order \<Rightarrow> u64 \<Rightarrow> u64" where
  "val_htole64 e v = (if val_runtime_is_little_endian e then v else val_bswap64 v)"

definition val_letoh16 :: "host_order \<Rightarrow> u16 \<Rightarrow> u16" where
  "val_letoh16 e v = val_htole16 e v"

definition val_letoh32 :: "host_order \<Rightarrow> u32 \<Rightarrow> u32" where
  "val_letoh32 e v = val_htole32 e v"

definition val_letoh64 :: "host_order \<Rightarrow> u64 \<Rightarrow> u64" where
  "val_letoh64 e v = val_htole64 e v"

section \<open>Little-endian accessors\<close>

text \<open>The explicit variants: shifts and masks, as on a big-endian host.\<close>

definition VAL_PUT_LE16 :: "u16 \<Rightarrow> u8 list" where
  "VAL_PUT_LE16 v = [ucast (v AND 0xFF), ucast (drop_bit 8 v AND 0xFF)]"

definition VAL_PUT_LE32 :: "u32 \<Rightarrow> u8 list" where
  "VAL_PUT_LE32 v =
     [ucast (v AND 0xFF), ucast (drop_bit 8 v AND 0xFF),
      ucast (drop_bit 16 v AND 0xFF), ucast (drop_bit 24 v AND 0xFF)]"

definition VAL_PUT_LE64 :: "u64 \<Rightarrow> u8 list" where
  "VAL_PUT_LE64 v =
     [ucast (v AND 0xFF), ucast (drop_bit 8 v AND 0xFF),
      ucast (drop_bit 16 v AND 0xFF), ucast (drop_bit 24 v AND 0xFF),
      ucast (drop_bit 32 v AND 0xFF), ucast (drop_bit 40 v AND 0xFF),
      ucast (drop_bit 48 v AND 0xFF), ucast (drop_bit 56 v AND 0xFF)]"

definition VAL_GET_LE16 :: "u8 list \<Rightarrow> u16" where
  "VAL_GET_LE16 b = ucast (b ! 0) OR push_bit 8 (ucast (b ! 1))"

definition VAL_GET_LE32 :: "u8 list \<Rightarrow> u32" where
  "VAL_GET_LE32 b =
     ucast (b ! 0) OR push_bit 8 (ucast (b ! 1)) OR
     push_bit 16 (ucast (b ! 2)) OR push_bit 24 (ucast (b ! 3))"

definition VAL_GET_LE64 :: "u8 list \<Rightarrow> u64" where
  "VAL_GET_LE64 b =
     ucast (b ! 0) OR push_bit 8 (ucast (b ! 1)) OR
     push_bit 16 (ucast (b ! 2)) OR push_bit 24 (ucast (b ! 3)) OR
     push_bit 32 (ucast (b ! 4)) OR push_bit 40 (ucast (b ! 5)) OR
     push_bit 48 (ucast (b ! 6)) OR push_bit 56 (ucast (b ! 7))"

text \<open>
  The variants with the run-time check: a store or load through a pointer cast on a
  little-endian host, shifts otherwise. A load through a cast is the inverse of the object
  representation.
\<close>

definition load16 :: "host_order \<Rightarrow> u8 list \<Rightarrow> u16" where
  "load16 e b = VAL_GET_LE16 (case e of Little \<Rightarrow> take 2 b | Big \<Rightarrow> rev (take 2 b))"

definition load32 :: "host_order \<Rightarrow> u8 list \<Rightarrow> u32" where
  "load32 e b = VAL_GET_LE32 (case e of Little \<Rightarrow> take 4 b | Big \<Rightarrow> rev (take 4 b))"

definition load64 :: "host_order \<Rightarrow> u8 list \<Rightarrow> u64" where
  "load64 e b = VAL_GET_LE64 (case e of Little \<Rightarrow> take 8 b | Big \<Rightarrow> rev (take 8 b))"

definition val_put_le16_runtime :: "host_order \<Rightarrow> u16 \<Rightarrow> u8 list" where
  "val_put_le16_runtime e v =
     (if val_runtime_is_little_endian e then native16 e v
      else [ucast (v AND 0xFF), ucast (drop_bit 8 v AND 0xFF)])"

definition val_put_le32_runtime :: "host_order \<Rightarrow> u32 \<Rightarrow> u8 list" where
  "val_put_le32_runtime e v =
     (if val_runtime_is_little_endian e then native32 e v
      else [ucast (v AND 0xFF), ucast (drop_bit 8 v AND 0xFF),
            ucast (drop_bit 16 v AND 0xFF), ucast (drop_bit 24 v AND 0xFF)])"

definition val_put_le64_runtime :: "host_order \<Rightarrow> u64 \<Rightarrow> u8 list" where
  "val_put_le64_runtime e v =
     (if val_runtime_is_little_endian e then native64 e v
      else [ucast (v AND 0xFF), ucast (drop_bit 8 v AND 0xFF),
            ucast (drop_bit 16 v AND 0xFF), ucast (drop_bit 24 v AND 0xFF),
            ucast (drop_bit 32 v AND 0xFF), ucast (drop_bit 40 v AND 0xFF),
            ucast (drop_bit 48 v AND 0xFF), ucast (drop_bit 56 v AND 0xFF)])"

definition val_get_le16_runtime :: "host_order \<Rightarrow> u8 list \<Rightarrow> u16" where
  "val_get_le16_runtime e b =
     (if val_runtime_is_little_endian e then load16 e b
      else ucast (b ! 0) OR push_bit 8 (ucast (b ! 1)))"

definition val_get_le32_runtime :: "host_order \<Rightarrow> u8 list \<Rightarrow> u32" where
  "val_get_le32_runtime e b =
     (if val_runtime_is_little_endian e then load32 e b
      else ucast (b ! 0) OR push_bit 8 (ucast (b ! 1)) OR
           push_bit 16 (ucast (b ! 2)) OR push_bit 24 (ucast (b ! 3)))"

definition val_get_le64_runtime :: "host_order \<Rightarrow> u8 list \<Rightarrow> u64" where
  "val_get_le64_runtime e b =
     (if val_runtime_is_little_endian e then load64 e b
      else ucast (b ! 0) OR push_bit 8 (ucast (b ! 1)) OR
           push_bit 16 (ucast (b ! 2)) OR push_bit 24 (ucast (b ! 3)) OR
           push_bit 32 (ucast (b ! 4)) OR push_bit 40 (ucast (b ! 5)) OR
           push_bit 48 (ucast (b ! 6)) OR push_bit 56 (ucast (b ! 7)))"

section \<open>Round trips\<close>

lemma length_VAL_PUT_LE [simp, mem_simps]:
  "length (VAL_PUT_LE16 v) = 2" "length (VAL_PUT_LE32 w) = 4" "length (VAL_PUT_LE64 x) = 8"
  by (simp_all add: VAL_PUT_LE16_def VAL_PUT_LE32_def VAL_PUT_LE64_def)

lemma VAL_GET_PUT_LE16 [simp, mem_simps]: "VAL_GET_LE16 (VAL_PUT_LE16 v) = v"
  unfolding VAL_GET_LE16_def VAL_PUT_LE16_def
  by (rule bit_word_eqI) (auto simp: bit_or_iff le_bits)

lemma VAL_GET_PUT_LE32 [simp, mem_simps]: "VAL_GET_LE32 (VAL_PUT_LE32 v) = v"
proof (rule bit_word_eqI)
  fix n assume "n < LENGTH(32)"
  then show "bit (VAL_GET_LE32 (VAL_PUT_LE32 v)) n \<longleftrightarrow> bit v n"
    by (cases "bit v n")
      (simp_all add: VAL_GET_LE32_def VAL_PUT_LE32_def bit_or_iff le_bits, linarith)
qed

lemma VAL_GET_PUT_LE64 [simp, mem_simps]: "VAL_GET_LE64 (VAL_PUT_LE64 v) = v"
proof (rule bit_word_eqI)
  fix n assume "n < LENGTH(64)"
  then show "bit (VAL_GET_LE64 (VAL_PUT_LE64 v)) n \<longleftrightarrow> bit v n"
    by (cases "bit v n")
      (simp_all add: VAL_GET_LE64_def VAL_PUT_LE64_def bit_or_iff le_bits, linarith)
qed

text \<open>Extracting byte \<open>k\<close> from a word assembled from byte lanes.\<close>

lemma ucast_lane:
  assumes "\<And>n. n < 8 \<Longrightarrow> bit (w :: 'a::len word) (k + n) \<longleftrightarrow> bit (b :: u8) n"
  shows "(ucast (drop_bit k w) :: u8) = b"
  by (rule bit_word_eqI) (simp add: bit_ucast_byte bit_drop_bit_eq assms)

lemma ucast_lane0:
  assumes "\<And>n. n < 8 \<Longrightarrow> bit (w :: 'a::len word) n \<longleftrightarrow> bit (b :: u8) n"
  shows "(ucast w :: u8) = b"
  by (rule bit_word_eqI) (simp add: bit_ucast_byte assms)

lemma VAL_PUT_GET_LE16 [mem_simps]:
  assumes "length bs = 2" shows "VAL_PUT_LE16 (VAL_GET_LE16 bs) = bs"
proof -
  have "bit (VAL_GET_LE16 bs) n \<longleftrightarrow> n < 8 \<and> bit (bs ! 0) n \<or> 8 \<le> n \<and> n < 16 \<and> bit (bs ! 1) (n - 8)"
    for n by (auto simp: VAL_GET_LE16_def bit_or_iff lane_bits bit_ucast_u8)
  then have "VAL_PUT_LE16 (VAL_GET_LE16 bs) = [bs ! 0, bs ! 1]"
    unfolding VAL_PUT_LE16_def by (simp add: ucast_lane ucast_lane0)
  also have "\<dots> = bs" using assms by (auto simp: numeral_eq_Suc length_Suc_conv)
  finally show ?thesis .
qed

lemma VAL_PUT_GET_LE32 [mem_simps]:
  assumes "length bs = 4" shows "VAL_PUT_LE32 (VAL_GET_LE32 bs) = bs"
proof -
  have "bit (VAL_GET_LE32 bs) n \<longleftrightarrow>
      n < 8 \<and> bit (bs ! 0) n \<or> 8 \<le> n \<and> n < 16 \<and> bit (bs ! 1) (n - 8) \<or>
      16 \<le> n \<and> n < 24 \<and> bit (bs ! 2) (n - 16) \<or> 24 \<le> n \<and> n < 32 \<and> bit (bs ! 3) (n - 24)"
    for n by (auto simp: VAL_GET_LE32_def bit_or_iff lane_bits bit_ucast_u8)
  then have "VAL_PUT_LE32 (VAL_GET_LE32 bs) = [bs ! 0, bs ! 1, bs ! 2, bs ! 3]"
    unfolding VAL_PUT_LE32_def by (simp add: ucast_lane ucast_lane0)
  also have "\<dots> = bs" using assms by (auto simp: numeral_eq_Suc length_Suc_conv)
  finally show ?thesis .
qed

lemma VAL_PUT_GET_LE64 [mem_simps]:
  assumes "length bs = 8" shows "VAL_PUT_LE64 (VAL_GET_LE64 bs) = bs"
proof -
  have "bit (VAL_GET_LE64 bs) n \<longleftrightarrow>
      n < 8 \<and> bit (bs ! 0) n \<or> 8 \<le> n \<and> n < 16 \<and> bit (bs ! 1) (n - 8) \<or>
      16 \<le> n \<and> n < 24 \<and> bit (bs ! 2) (n - 16) \<or> 24 \<le> n \<and> n < 32 \<and> bit (bs ! 3) (n - 24) \<or>
      32 \<le> n \<and> n < 40 \<and> bit (bs ! 4) (n - 32) \<or> 40 \<le> n \<and> n < 48 \<and> bit (bs ! 5) (n - 40) \<or>
      48 \<le> n \<and> n < 56 \<and> bit (bs ! 6) (n - 48) \<or> 56 \<le> n \<and> bit (bs ! 7) (n - 56)"
    if "n < 64" for n
    using that by (simp add: VAL_GET_LE64_def bit_or_iff lane_bits bit_ucast_u8)
  then have "VAL_PUT_LE64 (VAL_GET_LE64 bs) =
      [bs ! 0, bs ! 1, bs ! 2, bs ! 3, bs ! 4, bs ! 5, bs ! 6, bs ! 7]"
    unfolding VAL_PUT_LE64_def by (simp add: ucast_lane ucast_lane0)
  also have "\<dots> = bs" using assms by (auto simp: numeral_eq_Suc length_Suc_conv)
  finally show ?thesis .
qed

section \<open>Independence of the host\<close>

lemma runtime_check [simp]:
  "val_runtime_is_little_endian Little" "\<not> val_runtime_is_little_endian Big"
  by (simp_all add: val_runtime_is_little_endian_def native16_def)

lemma native_little:
  "native16 Little v = VAL_PUT_LE16 v" "native32 Little w = VAL_PUT_LE32 w"
  "native64 Little x = VAL_PUT_LE64 x"
  by (simp_all add: native16_def native32_def native64_def upt_rec
      VAL_PUT_LE16_def VAL_PUT_LE32_def VAL_PUT_LE64_def)

lemma native_big:
  "native16 Big v = rev (VAL_PUT_LE16 v)" "native32 Big w = rev (VAL_PUT_LE32 w)"
  "native64 Big x = rev (VAL_PUT_LE64 x)"
  by (simp_all add: native16_def native32_def native64_def upt_rec
      VAL_PUT_LE16_def VAL_PUT_LE32_def VAL_PUT_LE64_def)

lemma put_le_runtime:
  "val_put_le16_runtime e v = VAL_PUT_LE16 v" "val_put_le32_runtime e w = VAL_PUT_LE32 w"
  "val_put_le64_runtime e x = VAL_PUT_LE64 x"
  by (cases e; simp add: val_put_le16_runtime_def val_put_le32_runtime_def
      val_put_le64_runtime_def native_little VAL_PUT_LE16_def VAL_PUT_LE32_def VAL_PUT_LE64_def)+

lemma get_le_runtime:
  "val_get_le16_runtime e b = VAL_GET_LE16 b" "val_get_le32_runtime e b = VAL_GET_LE32 b"
  "val_get_le64_runtime e b = VAL_GET_LE64 b"
  by (cases e; simp add: val_get_le16_runtime_def val_get_le32_runtime_def
      val_get_le64_runtime_def load16_def load32_def load64_def
      VAL_GET_LE16_def VAL_GET_LE32_def VAL_GET_LE64_def)+

text \<open>The byte swaps reverse the little-endian bytes.\<close>

lemma bit_lane_mask32:
  "bit (0x000000FF :: u32) n \<longleftrightarrow> n < 8" "bit (0x0000FF00 :: u32) n \<longleftrightarrow> 8 \<le> n \<and> n < 16"
  "bit (0x00FF0000 :: u32) n \<longleftrightarrow> 16 \<le> n \<and> n < 24" "bit (0xFF000000 :: u32) n \<longleftrightarrow> 24 \<le> n \<and> n < 32"
proof -
  have m: "(0x000000FF :: u32) = mask 8" "(0x0000FF00 :: u32) = push_bit 8 (mask 8)"
    "(0x00FF0000 :: u32) = push_bit 16 (mask 8)" "(0xFF000000 :: u32) = push_bit 24 (mask 8)"
    by (simp_all add: mask_eq_exp_minus_1 push_bit_eq_mult)
  show "bit (0x000000FF :: u32) n \<longleftrightarrow> n < 8" "bit (0x0000FF00 :: u32) n \<longleftrightarrow> 8 \<le> n \<and> n < 16"
    "bit (0x00FF0000 :: u32) n \<longleftrightarrow> 16 \<le> n \<and> n < 24" "bit (0xFF000000 :: u32) n \<longleftrightarrow> 24 \<le> n \<and> n < 32"
    by (auto simp: m bit_simps)
qed

lemma bit_bswap16: "bit (val_bswap16 v) n \<longleftrightarrow> (if n < 8 then bit v (n + 8) else n < 16 \<and> bit v (n - 8))"
  by (auto simp: val_bswap16_def bit_simps add.commute dest: bit_imp_le_length)

lemma bit_bswap32:
  "bit (val_bswap32 v) n \<longleftrightarrow>
     (if n < 8 then bit v (n + 24) else if n < 16 then bit v (n + 8)
      else if n < 24 then bit v (n - 8) else n < 32 \<and> bit v (n - 24))"
  by (simp only: val_bswap32_def bit_or_iff bit_and_iff bit_push_bit_iff bit_drop_bit_eq o_apply
      bit_lane_mask32) (auto simp: add.commute dest: bit_imp_le_length)

lemma put_bswap16: "VAL_PUT_LE16 (val_bswap16 v) = rev (VAL_PUT_LE16 v)"
  by (auto simp: VAL_PUT_LE16_def bit_bswap16 bit_ucast_byte bit_drop_bit_eq add.commute
      intro!: bit_word_eqI)

lemma put_bswap32: "VAL_PUT_LE32 (val_bswap32 v) = rev (VAL_PUT_LE32 v)"
  by (auto simp: VAL_PUT_LE32_def bit_bswap32 bit_ucast_byte bit_drop_bit_eq add.commute
      intro!: bit_word_eqI)

lemma put_le64_halves:
  "VAL_PUT_LE64 x = VAL_PUT_LE32 (ucast x) @ VAL_PUT_LE32 (ucast (drop_bit 32 x))"
  by (auto simp: VAL_PUT_LE64_def VAL_PUT_LE32_def bit_ucast_byte bit_drop_bit_eq bit_ucast_iff
      intro!: bit_word_eqI)

lemma put_bswap64: "VAL_PUT_LE64 (val_bswap64 x) = rev (VAL_PUT_LE64 x)"
proof -
  have lo: "(ucast (x AND 0xFFFFFFFF) :: u32) = ucast x"
  proof -
    have "x AND 0xFFFFFFFF = x AND mask 32" by (simp add: mask_eq_exp_minus_1)
    then show ?thesis by (auto simp: bit_simps intro!: bit_word_eqI)
  qed
  have l: "(ucast (push_bit 32 (ucast a) OR ucast b :: u64) :: u32) = b" for a b :: u32
    by (rule bit_word_eqI) (auto simp: bit_simps dest: bit_imp_le_length)
  have h: "(ucast (drop_bit 32 (push_bit 32 (ucast a) OR ucast b :: u64)) :: u32) = a" for a b :: u32
    by (rule bit_word_eqI) (auto simp: bit_simps dest: bit_imp_le_length)
  show ?thesis
    by (simp only: put_le64_halves val_bswap64_def lo l h put_bswap32 rev_append)
qed

text \<open>
  The bytes put on the wire and the values read from it do not depend on the byte order of
  the host: for either byte order, the accessors with the run-time check write the little-endian
  bytes of the value, read back any such bytes to the value, and reading any bytes gives the value
  whose little-endian bytes they are.
\<close>

lemma wire_bytes_host_independent:
  "val_put_le16_runtime e v = VAL_PUT_LE16 v \<and> val_get_le16_runtime e (VAL_PUT_LE16 v) = v \<and>
   val_put_le32_runtime e w = VAL_PUT_LE32 w \<and> val_get_le32_runtime e (VAL_PUT_LE32 w) = w \<and>
   val_put_le64_runtime e x = VAL_PUT_LE64 x \<and> val_get_le64_runtime e (VAL_PUT_LE64 x) = x"
  by (simp add: put_le_runtime get_le_runtime)

text \<open>
  The host-to-little-endian conversions do what their name says on either byte order: the
  object representation of the converted value is the value's little-endian bytes, and the
  conversion back is its inverse.
\<close>

lemma htole_is_little_endian:
  "native16 e (val_htole16 e v) = VAL_PUT_LE16 v \<and> val_letoh16 e (val_htole16 e v) = v \<and>
   native32 e (val_htole32 e w) = VAL_PUT_LE32 w \<and> val_letoh32 e (val_htole32 e w) = w \<and>
   native64 e (val_htole64 e x) = VAL_PUT_LE64 x \<and> val_letoh64 e (val_htole64 e x) = x"
proof -
  have "val_bswap16 (val_bswap16 v) = v"
    using put_bswap16 [of "val_bswap16 v"] put_bswap16 [of v] VAL_GET_PUT_LE16 by (metis rev_rev_ident)
  moreover have "val_bswap32 (val_bswap32 w) = w"
    using put_bswap32 [of "val_bswap32 w"] put_bswap32 [of w] VAL_GET_PUT_LE32 by (metis rev_rev_ident)
  moreover have "val_bswap64 (val_bswap64 x) = x"
    using put_bswap64 [of "val_bswap64 x"] put_bswap64 [of x] VAL_GET_PUT_LE64 by (metis rev_rev_ident)
  ultimately show ?thesis
    by (cases e)
      (simp_all add: val_htole16_def val_htole32_def val_htole64_def val_letoh16_def
        val_letoh32_def val_letoh64_def native_little native_big put_bswap16 put_bswap32 put_bswap64)
qed

end
