(* ===== verification/Val_Errors.thy ===== *)
theory Val_Errors
  imports Val_Prelude
begin

text \<open>
  Status codes, the segmented 32-bit detail mask (\<^verbatim>\<open>include/val_errors.h\<close>) and the host-side
  rendering of both (\<^verbatim>\<open>src/val_error_strings.c\<close>). Shows that codes survive the cast to and from
  the wire, how much of a feature mask survives in a detail mask, which category an error is
  reported under, and that rendering a mask is the join of the names of its flags cut to the
  buffer.
\<close>

section \<open>Status codes\<close>

text \<open>
  \<^verbatim>\<open>val_status_t\<close>. The enum is cast from a wire integer in places, so a value outside the
  enumerators is possible; \<open>VAL_STATUS_OTHER\<close> carries it.
\<close>

datatype val_status_t =
    VAL_OK | VAL_SKIPPED
  | VAL_ERR_INVALID_ARG | VAL_ERR_NO_MEMORY | VAL_ERR_IO | VAL_ERR_TIMEOUT | VAL_ERR_PROTOCOL
  | VAL_ERR_CRC | VAL_ERR_RESUME_VERIFY | VAL_ERR_INCOMPATIBLE_VERSION
  | VAL_ERR_PACKET_SIZE_MISMATCH | VAL_ERR_FEATURE_NEGOTIATION | VAL_ERR_ABORTED
  | VAL_ERR_MODE_NEGOTIATION_FAILED | VAL_ERR_UNSUPPORTED_TX_MODE | VAL_ERR_PERFORMANCE
  | VAL_STATUS_OTHER int

fun status_code :: "val_status_t \<Rightarrow> int" where
  "status_code VAL_OK = 0"
| "status_code VAL_SKIPPED = 1"
| "status_code VAL_ERR_INVALID_ARG = -1"
| "status_code VAL_ERR_NO_MEMORY = -2"
| "status_code VAL_ERR_IO = -3"
| "status_code VAL_ERR_TIMEOUT = -4"
| "status_code VAL_ERR_PROTOCOL = -5"
| "status_code VAL_ERR_CRC = -6"
| "status_code VAL_ERR_RESUME_VERIFY = -7"
| "status_code VAL_ERR_INCOMPATIBLE_VERSION = -8"
| "status_code VAL_ERR_PACKET_SIZE_MISMATCH = -9"
| "status_code VAL_ERR_FEATURE_NEGOTIATION = -10"
| "status_code VAL_ERR_ABORTED = -11"
| "status_code VAL_ERR_MODE_NEGOTIATION_FAILED = -12"
| "status_code VAL_ERR_UNSUPPORTED_TX_MODE = -14"
| "status_code VAL_ERR_PERFORMANCE = -15"
| "status_code (VAL_STATUS_OTHER c) = c"

definition status_of_code :: "int \<Rightarrow> val_status_t" where
  "status_of_code c =
     (if c = 0 then VAL_OK else if c = 1 then VAL_SKIPPED
      else if c = -1 then VAL_ERR_INVALID_ARG else if c = -2 then VAL_ERR_NO_MEMORY
      else if c = -3 then VAL_ERR_IO else if c = -4 then VAL_ERR_TIMEOUT
      else if c = -5 then VAL_ERR_PROTOCOL else if c = -6 then VAL_ERR_CRC
      else if c = -7 then VAL_ERR_RESUME_VERIFY else if c = -8 then VAL_ERR_INCOMPATIBLE_VERSION
      else if c = -9 then VAL_ERR_PACKET_SIZE_MISMATCH
      else if c = -10 then VAL_ERR_FEATURE_NEGOTIATION else if c = -11 then VAL_ERR_ABORTED
      else if c = -12 then VAL_ERR_MODE_NEGOTIATION_FAILED
      else if c = -14 then VAL_ERR_UNSUPPORTED_TX_MODE else if c = -15 then VAL_ERR_PERFORMANCE
      else VAL_STATUS_OTHER c)"

text \<open>The last error of a session; \<open>err_op\<close> is the static name of the recording function.\<close>

record val_error_t =
  err_code :: val_status_t
  err_detail :: u32
  err_op :: "string option"

text \<open>The casts \<^verbatim>\<open>(uint32_t)status\<close> and \<^verbatim>\<open>(val_status_t)(int32_t)word\<close>.\<close>

definition status_to_u32 :: "val_status_t \<Rightarrow> u32" where
  "status_to_u32 st = word_of_int (status_code st)"

definition status_of_u32 :: "u32 \<Rightarrow> val_status_t" where
  "status_of_u32 w = status_of_code (sint w)"

section \<open>Detail masks\<close>

abbreviation (input) VAL_ERROR_DETAIL_NET_MASK :: u32 where "VAL_ERROR_DETAIL_NET_MASK \<equiv> 0x000000FF"
abbreviation (input) VAL_ERROR_DETAIL_CRC_MASK :: u32 where "VAL_ERROR_DETAIL_CRC_MASK \<equiv> 0x0000FF00"
abbreviation (input) VAL_ERROR_DETAIL_PROTO_MASK :: u32 where "VAL_ERROR_DETAIL_PROTO_MASK \<equiv> 0x00FF0000"
abbreviation (input) VAL_ERROR_DETAIL_FS_MASK :: u32 where "VAL_ERROR_DETAIL_FS_MASK \<equiv> 0x0F000000"
abbreviation (input) VAL_ERROR_DETAIL_CONTEXT_MASK :: u32 where "VAL_ERROR_DETAIL_CONTEXT_MASK \<equiv> 0xF0000000"

abbreviation (input) VAL_ERROR_DETAIL_NETWORK_RESET :: u32 where "VAL_ERROR_DETAIL_NETWORK_RESET \<equiv> 0x00000001"
abbreviation (input) VAL_ERROR_DETAIL_TIMEOUT_ACK :: u32 where "VAL_ERROR_DETAIL_TIMEOUT_ACK \<equiv> 0x00000002"
abbreviation (input) VAL_ERROR_DETAIL_TIMEOUT_DATA :: u32 where "VAL_ERROR_DETAIL_TIMEOUT_DATA \<equiv> 0x00000004"
abbreviation (input) VAL_ERROR_DETAIL_TIMEOUT_META :: u32 where "VAL_ERROR_DETAIL_TIMEOUT_META \<equiv> 0x00000008"
abbreviation (input) VAL_ERROR_DETAIL_TIMEOUT_HELLO :: u32 where "VAL_ERROR_DETAIL_TIMEOUT_HELLO \<equiv> 0x00000010"
abbreviation (input) VAL_ERROR_DETAIL_SEND_FAILED :: u32 where "VAL_ERROR_DETAIL_SEND_FAILED \<equiv> 0x00000020"
abbreviation (input) VAL_ERROR_DETAIL_RECV_FAILED :: u32 where "VAL_ERROR_DETAIL_RECV_FAILED \<equiv> 0x00000040"
abbreviation (input) VAL_ERROR_DETAIL_CONNECTION :: u32 where "VAL_ERROR_DETAIL_CONNECTION \<equiv> 0x00000080"

abbreviation (input) VAL_ERROR_DETAIL_CRC_HEADER :: u32 where "VAL_ERROR_DETAIL_CRC_HEADER \<equiv> 0x00000100"
abbreviation (input) VAL_ERROR_DETAIL_CRC_TRAILER :: u32 where "VAL_ERROR_DETAIL_CRC_TRAILER \<equiv> 0x00000200"
abbreviation (input) VAL_ERROR_DETAIL_CRC_RESUME :: u32 where "VAL_ERROR_DETAIL_CRC_RESUME \<equiv> 0x00000800"
abbreviation (input) VAL_ERROR_DETAIL_SIZE_MISMATCH :: u32 where "VAL_ERROR_DETAIL_SIZE_MISMATCH \<equiv> 0x00001000"
abbreviation (input) VAL_ERROR_DETAIL_PACKET_CORRUPT :: u32 where "VAL_ERROR_DETAIL_PACKET_CORRUPT \<equiv> 0x00002000"
abbreviation (input) VAL_ERROR_DETAIL_SEQ_ERROR :: u32 where "VAL_ERROR_DETAIL_SEQ_ERROR \<equiv> 0x00004000"
abbreviation (input) VAL_ERROR_DETAIL_OFFSET_ERROR :: u32 where "VAL_ERROR_DETAIL_OFFSET_ERROR \<equiv> 0x00008000"

abbreviation (input) VAL_ERROR_DETAIL_VERSION :: u32 where "VAL_ERROR_DETAIL_VERSION \<equiv> 0x00010000"
abbreviation (input) VAL_ERROR_DETAIL_PACKET_SIZE :: u32 where "VAL_ERROR_DETAIL_PACKET_SIZE \<equiv> 0x00020000"
abbreviation (input) VAL_ERROR_DETAIL_FEATURE_MISSING :: u32 where "VAL_ERROR_DETAIL_FEATURE_MISSING \<equiv> 0x00040000"
abbreviation (input) VAL_ERROR_DETAIL_INVALID_STATE :: u32 where "VAL_ERROR_DETAIL_INVALID_STATE \<equiv> 0x00080000"
abbreviation (input) VAL_ERROR_DETAIL_MALFORMED_PKT :: u32 where "VAL_ERROR_DETAIL_MALFORMED_PKT \<equiv> 0x00100000"
abbreviation (input) VAL_ERROR_DETAIL_UNKNOWN_TYPE :: u32 where "VAL_ERROR_DETAIL_UNKNOWN_TYPE \<equiv> 0x00200000"
abbreviation (input) VAL_ERROR_DETAIL_PAYLOAD_SIZE :: u32 where "VAL_ERROR_DETAIL_PAYLOAD_SIZE \<equiv> 0x00400000"
abbreviation (input) VAL_ERROR_DETAIL_EXCESSIVE_RETRIES :: u32 where "VAL_ERROR_DETAIL_EXCESSIVE_RETRIES \<equiv> 0x00800000"

abbreviation (input) VAL_ERROR_DETAIL_FILE_NOT_FOUND :: u32 where "VAL_ERROR_DETAIL_FILE_NOT_FOUND \<equiv> 0x01000000"
abbreviation (input) VAL_ERROR_DETAIL_FILE_LOCKED :: u32 where "VAL_ERROR_DETAIL_FILE_LOCKED \<equiv> 0x02000000"
abbreviation (input) VAL_ERROR_DETAIL_DISK_FULL :: u32 where "VAL_ERROR_DETAIL_DISK_FULL \<equiv> 0x04000000"
abbreviation (input) VAL_ERROR_DETAIL_PERMISSION :: u32 where "VAL_ERROR_DETAIL_PERMISSION \<equiv> 0x08000000"

abbreviation (input) VAL_ERROR_CONTEXT_NONE :: u32 where "VAL_ERROR_CONTEXT_NONE \<equiv> 0"
abbreviation (input) VAL_ERROR_CONTEXT_MISSING_FEATURES :: u32 where "VAL_ERROR_CONTEXT_MISSING_FEATURES \<equiv> 1"
abbreviation (input) VAL_ERROR_CONTEXT_MISSING_HOOKS :: u32 where "VAL_ERROR_CONTEXT_MISSING_HOOKS \<equiv> 2"

definition VAL_ERROR_CONTEXT :: "u32 \<Rightarrow> u32" where
  "VAL_ERROR_CONTEXT detail = drop_bit 28 (detail AND VAL_ERROR_DETAIL_CONTEXT_MASK)"

definition VAL_SET_MISSING_FEATURE :: "u32 \<Rightarrow> u32" where
  "VAL_SET_MISSING_FEATURE m =
     push_bit 28 VAL_ERROR_CONTEXT_MISSING_FEATURES OR (m AND 0x00FFFFFF) OR
     VAL_ERROR_DETAIL_FEATURE_MISSING"

definition VAL_GET_MISSING_FEATURE :: "u32 \<Rightarrow> u32" where
  "VAL_GET_MISSING_FEATURE detail =
     (if VAL_ERROR_CONTEXT detail = VAL_ERROR_CONTEXT_MISSING_FEATURES
      then (detail AND 0x00FFFFFF) AND NOT VAL_ERROR_DETAIL_PROTO_MASK else 0)"

definition VAL_SET_MISSING_HOOKS :: u32 where
  "VAL_SET_MISSING_HOOKS =
     push_bit 28 VAL_ERROR_CONTEXT_MISSING_HOOKS OR VAL_ERROR_DETAIL_INVALID_STATE"

definition VAL_ERROR_IS_MISSING_HOOKS :: "u32 \<Rightarrow> bool" where
  "VAL_ERROR_IS_MISSING_HOOKS detail \<longleftrightarrow> VAL_ERROR_CONTEXT detail = VAL_ERROR_CONTEXT_MISSING_HOOKS"

definition VAL_ERROR_IS_NETWORK_RELATED :: "u32 \<Rightarrow> bool" where
  "VAL_ERROR_IS_NETWORK_RELATED detail \<longleftrightarrow> detail AND VAL_ERROR_DETAIL_NET_MASK \<noteq> 0"

definition VAL_ERROR_IS_CRC_RELATED :: "u32 \<Rightarrow> bool" where
  "VAL_ERROR_IS_CRC_RELATED detail \<longleftrightarrow> detail AND VAL_ERROR_DETAIL_CRC_MASK \<noteq> 0"

definition VAL_ERROR_IS_PROTOCOL_RELATED :: "u32 \<Rightarrow> bool" where
  "VAL_ERROR_IS_PROTOCOL_RELATED detail \<longleftrightarrow> detail AND VAL_ERROR_DETAIL_PROTO_MASK \<noteq> 0"

definition VAL_ERROR_IS_FILESYSTEM_RELATED :: "u32 \<Rightarrow> bool" where
  "VAL_ERROR_IS_FILESYSTEM_RELATED detail \<longleftrightarrow> detail AND VAL_ERROR_DETAIL_FS_MASK \<noteq> 0"

section \<open>Error strings\<close>

fun val_status_to_string :: "val_status_t \<Rightarrow> string" where
  "val_status_to_string VAL_OK = ''OK''"
| "val_status_to_string VAL_SKIPPED = ''SKIPPED''"
| "val_status_to_string VAL_ERR_INVALID_ARG = ''INVALID_ARG''"
| "val_status_to_string VAL_ERR_NO_MEMORY = ''NO_MEMORY''"
| "val_status_to_string VAL_ERR_IO = ''IO_ERROR''"
| "val_status_to_string VAL_ERR_TIMEOUT = ''TIMEOUT''"
| "val_status_to_string VAL_ERR_PROTOCOL = ''PROTOCOL_ERROR''"
| "val_status_to_string VAL_ERR_CRC = ''CRC_ERROR''"
| "val_status_to_string VAL_ERR_RESUME_VERIFY = ''RESUME_VERIFY_FAIL''"
| "val_status_to_string VAL_ERR_INCOMPATIBLE_VERSION = ''INCOMPATIBLE_VERSION''"
| "val_status_to_string VAL_ERR_PACKET_SIZE_MISMATCH = ''PACKET_SIZE_MISMATCH''"
| "val_status_to_string VAL_ERR_FEATURE_NEGOTIATION = ''FEATURE_NEGOTIATION''"
| "val_status_to_string VAL_ERR_ABORTED = ''ABORTED''"
| "val_status_to_string VAL_ERR_MODE_NEGOTIATION_FAILED = ''MODE_NEGOTIATION_FAILED''"
| "val_status_to_string VAL_ERR_UNSUPPORTED_TX_MODE = ''UNSUPPORTED_TX_MODE''"
| "val_status_to_string VAL_ERR_PERFORMANCE = ''PERFORMANCE_UNACCEPTABLE''"
| "val_status_to_string (VAL_STATUS_OTHER c) = ''UNKNOWN''"

text \<open>
  \<^verbatim>\<open>append_flag\<close>: the buffer's text before its NUL and the running length \<^verbatim>\<open>*len\<close>.
  \<^verbatim>\<open>snprintf\<close> writes at most \<open>cap - len - 1\<close> characters and a NUL and returns the untruncated
  length, which is added to \<^verbatim>\<open>*len\<close>; once that passes \<open>cap\<close>, later flags are dropped.
\<close>

definition append_flag :: "nat \<Rightarrow> string \<times> nat \<Rightarrow> string \<Rightarrow> string \<times> nat" where
  "append_flag cap bl s =
     (let buf = fst bl; len = snd bl in
      if cap \<le> len then (buf, len)
      else let out = (if len \<noteq> 0 then ''|'' else '''') @ s
           in (take len buf @ take (cap - len - 1) out, len + length out))"

text \<open>The flags in the order of the source's tests.\<close>

definition detail_flags :: "(u32 \<times> string) list" where
  "detail_flags =
     [(VAL_ERROR_DETAIL_NETWORK_RESET, ''NETWORK_RESET''),
      (VAL_ERROR_DETAIL_TIMEOUT_ACK, ''TIMEOUT_ACK''),
      (VAL_ERROR_DETAIL_TIMEOUT_DATA, ''TIMEOUT_DATA''),
      (VAL_ERROR_DETAIL_TIMEOUT_META, ''TIMEOUT_META''),
      (VAL_ERROR_DETAIL_TIMEOUT_HELLO, ''TIMEOUT_HELLO''),
      (VAL_ERROR_DETAIL_SEND_FAILED, ''SEND_FAILED''),
      (VAL_ERROR_DETAIL_RECV_FAILED, ''RECV_FAILED''),
      (VAL_ERROR_DETAIL_CONNECTION, ''CONNECTION''),
      (VAL_ERROR_DETAIL_CRC_HEADER, ''CRC_HEADER''),
      (VAL_ERROR_DETAIL_CRC_TRAILER, ''CRC_TRAILER''),
      (VAL_ERROR_DETAIL_CRC_RESUME, ''CRC_RESUME''),
      (VAL_ERROR_DETAIL_SIZE_MISMATCH, ''SIZE_MISMATCH''),
      (VAL_ERROR_DETAIL_PACKET_CORRUPT, ''PACKET_CORRUPT''),
      (VAL_ERROR_DETAIL_SEQ_ERROR, ''SEQ_ERROR''),
      (VAL_ERROR_DETAIL_OFFSET_ERROR, ''OFFSET_ERROR''),
      (VAL_ERROR_DETAIL_VERSION, ''VERSION''),
      (VAL_ERROR_DETAIL_PACKET_SIZE, ''PACKET_SIZE''),
      (VAL_ERROR_DETAIL_FEATURE_MISSING, ''FEATURE_MISSING''),
      (VAL_ERROR_DETAIL_INVALID_STATE, ''INVALID_STATE''),
      (VAL_ERROR_DETAIL_MALFORMED_PKT, ''MALFORMED_PKT''),
      (VAL_ERROR_DETAIL_UNKNOWN_TYPE, ''UNKNOWN_TYPE''),
      (VAL_ERROR_DETAIL_PAYLOAD_SIZE, ''PAYLOAD_SIZE''),
      (VAL_ERROR_DETAIL_EXCESSIVE_RETRIES, ''EXCESSIVE_RETRIES''),
      (VAL_ERROR_DETAIL_FILE_NOT_FOUND, ''FILE_NOT_FOUND''),
      (VAL_ERROR_DETAIL_FILE_LOCKED, ''FILE_LOCKED''),
      (VAL_ERROR_DETAIL_DISK_FULL, ''DISK_FULL''),
      (VAL_ERROR_DETAIL_PERMISSION, ''PERMISSION'')]"

text \<open>\<^verbatim>\<open>printf\<close>'s \<^verbatim>\<open>%0nX\<close> and \<^verbatim>\<open>%d\<close>.\<close>

definition hex_digit :: "nat \<Rightarrow> char" where
  "hex_digit d = (if d < 10 then char_of (48 + d) else char_of (55 + d))"

fun hex_str :: "nat \<Rightarrow> string" where
  "hex_str n = (if n < 16 then [hex_digit n] else hex_str (n div 16) @ [hex_digit (n mod 16)])"

fun dec_str :: "nat \<Rightarrow> string" where
  "dec_str n = (if n < 10 then [char_of (48 + n)] else dec_str (n div 10) @ [char_of (48 + n mod 10)])"

declare hex_str.simps [simp del] dec_str.simps [simp del]

definition hex_pad :: "nat \<Rightarrow> nat \<Rightarrow> string" where
  "hex_pad w n = replicate (w - length (hex_str n)) (CHR ''0'') @ hex_str n"

definition int_str :: "int \<Rightarrow> string" where
  "int_str i = (if i < 0 then ''-'' @ dec_str (nat (- i)) else dec_str (nat i))"

definition val_error_detail_to_string :: "u32 \<Rightarrow> string" where
  "val_error_detail_to_string d =
     (let bl = foldl (\<lambda>bl f. if d AND fst f \<noteq> 0 then append_flag 256 bl (snd f) else bl)
                 ([], 0) detail_flags;
          bl = (if VAL_ERROR_CONTEXT d = VAL_ERROR_CONTEXT_MISSING_FEATURES
                then append_flag 256 bl
                       (''MISSING_FEATURES=0x'' @ hex_pad 6 (unat (VAL_GET_MISSING_FEATURE d)))
                else bl)
      in if snd bl = 0 then ''NONE'' else fst bl)"

record val_error_info_t =
  info_category :: string
  info_description :: string
  info_suggestion :: string

definition val_analyze_error :: "val_status_t \<Rightarrow> u32 \<Rightarrow> val_error_info_t" where
  "val_analyze_error code detail =
     (if VAL_ERROR_IS_NETWORK_RELATED detail then
        \<lparr>info_category = ''NETWORK'', info_description = val_status_to_string code,
         info_suggestion = ''Verify connectivity, timeouts, and transport reliability''\<rparr>
      else if VAL_ERROR_IS_CRC_RELATED detail then
        \<lparr>info_category = ''INTEGRITY'', info_description = val_status_to_string code,
         info_suggestion = ''Investigate data corruption or resume window size''\<rparr>
      else if VAL_ERROR_IS_PROTOCOL_RELATED detail then
        \<lparr>info_category = ''PROTOCOL'', info_description = val_status_to_string code,
         info_suggestion =
           (if VAL_ERROR_CONTEXT detail = VAL_ERROR_CONTEXT_MISSING_FEATURES
            then ''Adjust required/requested features or upgrade peer''
            else ''Validate version/packet size and payload formatting'')\<rparr>
      else if VAL_ERROR_IS_FILESYSTEM_RELATED detail then
        \<lparr>info_category = ''FILESYSTEM'', info_description = val_status_to_string code,
         info_suggestion = ''Check file path, permissions, and disk space''\<rparr>
      else
        \<lparr>info_category = ''GENERAL'', info_description = val_status_to_string code,
         info_suggestion = ''Check logs and detail mask''\<rparr>)"

text \<open>The text left in a buffer of \<open>buffer_size > 0\<close> bytes by \<^verbatim>\<open>snprintf\<close>.\<close>

definition val_format_error_report :: "val_status_t \<Rightarrow> u32 \<Rightarrow> nat \<Rightarrow> string" where
  "val_format_error_report code detail buffer_size =
     take (buffer_size - 1)
       (val_status_to_string code @ '' ('' @ int_str (status_code code) @ ''); '' @
        val_error_detail_to_string detail @ '' (0x'' @ hex_pad 8 (unat detail) @ '')'')"

section \<open>Properties\<close>

lemma status_code_of_code [simp]: "status_code (status_of_code c) = c"
  by (simp add: status_of_code_def)

fun status_enumerator :: "val_status_t \<Rightarrow> bool" where
  "status_enumerator (VAL_STATUS_OTHER c) = False"
| "status_enumerator _ = True"

lemma status_of_code_code: "status_enumerator st \<Longrightarrow> status_of_code (status_code st) = st"
  by (cases st) (simp_all add: status_of_code_def)

text \<open>
  A status that is an enumerator of the enum survives its trip over the wire: the cast to an
  unsigned 32-bit value and back through a signed one returns the same status, so no two
  enumerators are confused by the peer.
\<close>

lemma status_of_u32_to_u32 [simp]:
  "status_enumerator st \<Longrightarrow> status_of_u32 (status_to_u32 st) = st"
proof -
  assume e: "status_enumerator st"
  have "sint (word_of_int (status_code st) :: u32) = status_code st"
    using e by (cases st) simp_all
  then show ?thesis
    by (simp add: status_of_u32_def status_to_u32_def status_of_code_code [OF e])
qed

text \<open>
  Encoding a set of missing features in a detail mask and decoding it again keeps the low
  sixteen feature bits only: the encoder stores twenty-four bits, but the decoder also masks out
  the protocol category, which overlaps bits 16 to 23.
\<close>

lemma missing_feature_roundtrip:
  "VAL_GET_MISSING_FEATURE (VAL_SET_MISSING_FEATURE m) = m AND 0x0000FFFF \<and>
   VAL_ERROR_CONTEXT (VAL_SET_MISSING_FEATURE m) = VAL_ERROR_CONTEXT_MISSING_FEATURES"
proof -
  let ?d = "VAL_SET_MISSING_FEATURE m"
  have c: "?d AND VAL_ERROR_DETAIL_CONTEXT_MASK = 0x10000000"
    by (simp add: VAL_SET_MISSING_FEATURE_def bit.conj_disj_distrib2 and.assoc)
  have g: "(?d AND 0x00FFFFFF) AND NOT VAL_ERROR_DETAIL_PROTO_MASK = m AND 0x0000FFFF"
    by (simp add: VAL_SET_MISSING_FEATURE_def bit.conj_disj_distrib2 and.assoc)
  have x: "VAL_ERROR_CONTEXT ?d = VAL_ERROR_CONTEXT_MISSING_FEATURES"
    by (simp add: VAL_ERROR_CONTEXT_def c)
  show ?thesis
    by (simp only: VAL_GET_MISSING_FEATURE_def x g if_True simp_thms)
qed

text \<open>The reference rendering of a detail mask: the names of its flags joined by bars.\<close>

fun join_bar :: "string list \<Rightarrow> string" where
  "join_bar [] = []"
| "join_bar [x] = x"
| "join_bar (x # y # xs) = x @ ''|'' @ join_bar (y # xs)"

definition detail_names :: "u32 \<Rightarrow> string list" where
  "detail_names d =
     map snd (filter (\<lambda>f. d AND fst f \<noteq> 0) detail_flags) @
     (if VAL_ERROR_CONTEXT d = VAL_ERROR_CONTEXT_MISSING_FEATURES
      then [''MISSING_FEATURES=0x'' @ hex_pad 6 (unat (VAL_GET_MISSING_FEATURE d))] else [])"

lemma join_bar_snoc:
  "join_bar (xs @ [x]) = join_bar xs @ (if xs = [] then '''' else ''|'') @ x"
  by (induction xs rule: join_bar.induct) auto

lemma join_bar_eq_Nil: "[] \<notin> set xs \<Longrightarrow> join_bar xs = [] \<longleftrightarrow> xs = []"
  by (induction xs rule: join_bar.induct) auto

text \<open>What the buffer and the length say after some names were appended.\<close>

definition flags_state :: "nat \<Rightarrow> string list \<Rightarrow> string \<times> nat \<Rightarrow> bool" where
  "flags_state cap ns bl \<longleftrightarrow>
     fst bl = take (cap - 1) (join_bar ns) \<and>
     (if length (join_bar ns) < cap then snd bl = length (join_bar ns) else cap \<le> snd bl)"

lemma flags_state_append:
  assumes "flags_state cap ns bl" "[] \<notin> set ns" "n \<noteq> []"
  shows "flags_state cap (ns @ [n]) (append_flag cap bl n)"
proof (cases "length (join_bar ns) < cap")
  case True
  with assms have s: "snd bl = length (join_bar ns)" and f: "fst bl = join_bar ns"
    by (auto simp: flags_state_def)
  from assms(2) have z: "join_bar ns = [] \<longleftrightarrow> ns = []" by (rule join_bar_eq_Nil)
  show ?thesis
    using True s f z by (auto simp: flags_state_def append_flag_def Let_def join_bar_snoc)
next
  case False
  with assms have "cap \<le> snd bl" and "fst bl = take (cap - 1) (join_bar ns)"
    by (auto simp: flags_state_def)
  with False show ?thesis
    by (auto simp: flags_state_def append_flag_def Let_def join_bar_snoc)
qed

lemma flags_state_foldl:
  assumes "flags_state cap ns bl" "[] \<notin> set ns" "[] \<notin> snd ` set fs"
  shows "flags_state cap (ns @ map snd (filter (\<lambda>f. P (fst f)) fs))
           (foldl (\<lambda>bl f. if P (fst f) then append_flag cap bl (snd f) else bl) bl fs)"
  using assms
proof (induction fs arbitrary: ns bl)
  case Nil
  then show ?case by simp
next
  case (Cons f fs)
  show ?case
  proof (cases "P (fst f)")
    case True
    have "flags_state cap (ns @ [snd f]) (append_flag cap bl (snd f))"
      using Cons.prems by (intro flags_state_append) auto
    from Cons.IH [OF this] Cons.prems True show ?thesis by simp
  next
    case False
    with Cons show ?thesis by simp
  qed
qed

text \<open>
  Rendering a detail mask yields exactly the names of the flags set in it, in the order of
  the source and joined by bars, cut to the 255 characters the thread-local buffer has room for,
  and \<open>NONE\<close> exactly when no known flag is set; the buffer is never overrun.
\<close>

lemma detail_to_string_spec:
  "val_error_detail_to_string d =
     (if detail_names d = [] then ''NONE'' else take 255 (join_bar (detail_names d)))"
proof -
  let ?ns = "map snd (filter (\<lambda>f. d AND fst f \<noteq> 0) detail_flags)"
  let ?bl = "foldl (\<lambda>bl f. if d AND fst f \<noteq> 0 then append_flag 256 bl (snd f) else bl) ([], 0) detail_flags"
  have nn: "[] \<notin> snd ` set detail_flags" by (simp add: detail_flags_def)
  have init: "flags_state 256 [] ([], 0)" by (simp add: flags_state_def)
  have a: "flags_state 256 ?ns ?bl"
    using flags_state_foldl [OF init _ nn, where P = "\<lambda>w. d AND w \<noteq> 0"] by simp
  have na: "[] \<notin> set ?ns" using nn by auto
  let ?m = "''MISSING_FEATURES=0x'' @ hex_pad 6 (unat (VAL_GET_MISSING_FEATURE d))"
  let ?bl' = "if VAL_ERROR_CONTEXT d = VAL_ERROR_CONTEXT_MISSING_FEATURES
              then append_flag 256 ?bl ?m else ?bl"
  have b: "flags_state 256 (detail_names d) ?bl'"
    using a flags_state_append [OF a na, of ?m] by (simp add: detail_names_def)
  have nb: "[] \<notin> set (detail_names d)" using na by (auto simp: detail_names_def)
  have z: "snd ?bl' = 0 \<longleftrightarrow> detail_names d = []"
    using b join_bar_eq_Nil [OF nb] by (auto simp: flags_state_def split: if_splits)
  have f: "fst ?bl' = take 255 (join_bar (detail_names d))"
    using b by (simp add: flags_state_def)
  have "val_error_detail_to_string d = (if snd ?bl' = 0 then ''NONE'' else fst ?bl')"
    by (simp only: val_error_detail_to_string_def Let_def)
  then show ?thesis by (simp only: z f)
qed

end
