(* ===== verification/Val_Wire.thy ===== *)
theory Val_Wire
  imports Val_Bytes Val_Errors
begin

text \<open>
  The wire format (\<^verbatim>\<open>src/val_wire.c\<close>, \<^verbatim>\<open>include/val_wire.h\<close>) and the payload structures of
  \<^verbatim>\<open>include/val_protocol.h\<close>. A serializer takes the destination buffer and returns it updated, one
  write per assignment of the source; a deserializer reads the fields back. The locale \<open>codec\<close>
  states what the packet layer needs of such a pair, and is interpreted for every payload.
  The pointer arguments are objects here, so the NULL tests of the source have no counterpart.
\<close>

section \<open>Protocol constants and enumerations\<close>

abbreviation (input) VAL_MAGIC :: u32 where "VAL_MAGIC \<equiv> 0x56414C00"
abbreviation (input) VAL_VERSION_MAJOR :: u8 where "VAL_VERSION_MAJOR \<equiv> 0"
abbreviation (input) VAL_VERSION_MINOR :: u8 where "VAL_VERSION_MINOR \<equiv> 7"
abbreviation (input) VAL_MIN_PACKET_SIZE :: size_t where "VAL_MIN_PACKET_SIZE \<equiv> 512"
abbreviation (input) VAL_MAX_PACKET_SIZE :: size_t where "VAL_MAX_PACKET_SIZE \<equiv> 2097152"
abbreviation (input) VAL_MAX_FILENAME :: nat where "VAL_MAX_FILENAME \<equiv> 127"
abbreviation (input) VAL_MAX_PATH :: nat where "VAL_MAX_PATH \<equiv> 127"

abbreviation (input) VAL_WIRE_HEADER_SIZE :: nat where "VAL_WIRE_HEADER_SIZE \<equiv> 8"
abbreviation (input) VAL_WIRE_HANDSHAKE_SIZE :: nat where "VAL_WIRE_HANDSHAKE_SIZE \<equiv> 44"
abbreviation (input) VAL_WIRE_META_SIZE :: nat where
  "VAL_WIRE_META_SIZE \<equiv> (VAL_MAX_FILENAME + 1) + (VAL_MAX_PATH + 1) + 8"
abbreviation (input) VAL_WIRE_RESUME_RESP_SIZE :: nat where "VAL_WIRE_RESUME_RESP_SIZE \<equiv> 24"
abbreviation (input) VAL_WIRE_VERIFY_REQ_SIZE :: nat where "VAL_WIRE_VERIFY_REQ_SIZE \<equiv> 16"
abbreviation (input) VAL_WIRE_VERIFY_RESP_SIZE :: nat where "VAL_WIRE_VERIFY_RESP_SIZE \<equiv> 8"
abbreviation (input) VAL_WIRE_ERROR_PAYLOAD_SIZE :: nat where "VAL_WIRE_ERROR_PAYLOAD_SIZE \<equiv> 8"
abbreviation (input) VAL_WIRE_TRAILER_SIZE :: nat where "VAL_WIRE_TRAILER_SIZE \<equiv> 4"

abbreviation (input) VAL_DATA_OFFSET_PRESENT :: u8 where "VAL_DATA_OFFSET_PRESENT \<equiv> 1"
abbreviation (input) VAL_ACK_DONE_FILE :: u8 where "VAL_ACK_DONE_FILE \<equiv> 2"
abbreviation (input) VAL_ACK_EOT :: u8 where "VAL_ACK_EOT \<equiv> 4"

text \<open>
  \<^verbatim>\<open>val_packet_type_t\<close> with the separately defined \<^verbatim>\<open>VAL_PKT_CANCEL\<close>; the type byte of a received
  frame may be any other value, which \<open>VAL_PKT_UNKNOWN\<close> carries.
\<close>

datatype val_packet_type_t =
    VAL_PKT_HELLO | VAL_PKT_SEND_META | VAL_PKT_RESUME_REQ | VAL_PKT_RESUME_RESP | VAL_PKT_DATA
  | VAL_PKT_DATA_ACK | VAL_PKT_VERIFY | VAL_PKT_DONE | VAL_PKT_ERROR | VAL_PKT_EOT
  | VAL_PKT_EOT_ACK | VAL_PKT_DONE_ACK | VAL_PKT_DATA_NAK | VAL_PKT_CANCEL
  | VAL_PKT_UNKNOWN u8

fun pkt_byte :: "val_packet_type_t \<Rightarrow> u8" where
  "pkt_byte VAL_PKT_HELLO = 1"
| "pkt_byte VAL_PKT_SEND_META = 2"
| "pkt_byte VAL_PKT_RESUME_REQ = 3"
| "pkt_byte VAL_PKT_RESUME_RESP = 4"
| "pkt_byte VAL_PKT_DATA = 5"
| "pkt_byte VAL_PKT_DATA_ACK = 6"
| "pkt_byte VAL_PKT_VERIFY = 7"
| "pkt_byte VAL_PKT_DONE = 8"
| "pkt_byte VAL_PKT_ERROR = 9"
| "pkt_byte VAL_PKT_EOT = 10"
| "pkt_byte VAL_PKT_EOT_ACK = 11"
| "pkt_byte VAL_PKT_DONE_ACK = 12"
| "pkt_byte VAL_PKT_DATA_NAK = 13"
| "pkt_byte VAL_PKT_CANCEL = 0x18"
| "pkt_byte (VAL_PKT_UNKNOWN b) = b"

definition pkt_of_byte :: "u8 \<Rightarrow> val_packet_type_t" where
  "pkt_of_byte b =
     (if b = 1 then VAL_PKT_HELLO else if b = 2 then VAL_PKT_SEND_META
      else if b = 3 then VAL_PKT_RESUME_REQ else if b = 4 then VAL_PKT_RESUME_RESP
      else if b = 5 then VAL_PKT_DATA else if b = 6 then VAL_PKT_DATA_ACK
      else if b = 7 then VAL_PKT_VERIFY else if b = 8 then VAL_PKT_DONE
      else if b = 9 then VAL_PKT_ERROR else if b = 10 then VAL_PKT_EOT
      else if b = 11 then VAL_PKT_EOT_ACK else if b = 12 then VAL_PKT_DONE_ACK
      else if b = 13 then VAL_PKT_DATA_NAK else if b = 0x18 then VAL_PKT_CANCEL
      else VAL_PKT_UNKNOWN b)"

fun pkt_known :: "val_packet_type_t \<Rightarrow> bool" where
  "pkt_known (VAL_PKT_UNKNOWN b) = False"
| "pkt_known _ = True"

lemma pkt_of_byte_byte [simp]: "pkt_known t \<Longrightarrow> pkt_of_byte (pkt_byte t) = t"
  by (cases t) (simp_all add: pkt_of_byte_def)

lemma pkt_byte_of_byte [simp]: "pkt_byte (pkt_of_byte b) = b"
  by (simp add: pkt_of_byte_def)

datatype val_resume_action_t =
    VAL_RESUME_START_ZERO | VAL_RESUME_START_OFFSET | VAL_RESUME_VERIFY_FIRST
  | VAL_RESUME_SKIP_FILE | VAL_RESUME_ABORT_FILE | VAL_RESUME_ACTION_OTHER u32

fun action_code :: "val_resume_action_t \<Rightarrow> u32" where
  "action_code VAL_RESUME_START_ZERO = 0"
| "action_code VAL_RESUME_START_OFFSET = 1"
| "action_code VAL_RESUME_VERIFY_FIRST = 2"
| "action_code VAL_RESUME_SKIP_FILE = 3"
| "action_code VAL_RESUME_ABORT_FILE = 4"
| "action_code (VAL_RESUME_ACTION_OTHER w) = w"

definition action_of_code :: "u32 \<Rightarrow> val_resume_action_t" where
  "action_of_code w =
     (if w = 0 then VAL_RESUME_START_ZERO else if w = 1 then VAL_RESUME_START_OFFSET
      else if w = 2 then VAL_RESUME_VERIFY_FIRST else if w = 3 then VAL_RESUME_SKIP_FILE
      else if w = 4 then VAL_RESUME_ABORT_FILE else VAL_RESUME_ACTION_OTHER w)"

fun action_known :: "val_resume_action_t \<Rightarrow> bool" where
  "action_known (VAL_RESUME_ACTION_OTHER w) = False"
| "action_known _ = True"

lemma action_of_code_code [simp]: "action_known a \<Longrightarrow> action_of_code (action_code a) = a"
  by (cases a) (simp_all add: action_of_code_def)

section \<open>Payload structures\<close>

record val_handshake_t =
  hs_magic :: u32
  hs_version_major :: u8
  hs_version_minor :: u8
  hs_reserved :: u16
  hs_packet_size :: u32
  hs_features :: u32
  hs_required :: u32
  hs_requested :: u32
  hs_tx_max_window_packets :: u16
  hs_rx_max_window_packets :: u16
  hs_ack_stride_packets :: u8
  hs_reserved_capabilities :: "u8 \<times> u8 \<times> u8"
  hs_supported_features16 :: u16
  hs_required_features16 :: u16
  hs_requested_features16 :: u16
  hs_reserved2 :: u32

text \<open>The character arrays of the metadata are kept with all their 128 bytes.\<close>

record val_meta_payload_t =
  meta_filename :: "u8 list"
  meta_sender_path :: "u8 list"
  meta_file_size :: u64

record val_resume_resp_t =
  rr_action :: val_resume_action_t
  rr_resume_offset :: u64
  rr_verify_crc :: u32
  rr_verify_length :: u64

record val_error_payload_t =
  ep_code :: u32
  ep_detail :: u32

section \<open>Serializers\<close>

definition val_serialize_frame_header ::
    "u8 \<Rightarrow> u8 \<Rightarrow> u16 \<Rightarrow> u32 \<Rightarrow> u8 list \<Rightarrow> u8 list" where [wire_defs]:
  "val_serialize_frame_header type flags content_len type_data wiredata =
     (let w = mem_write wiredata 0 [type];
          w = mem_write w 1 [flags];
          w = mem_write w 2 (VAL_PUT_LE16 content_len);
          w = mem_write w 4 (VAL_PUT_LE32 type_data)
      in w)"

definition val_deserialize_frame_header :: "u8 list \<Rightarrow> u8 \<times> u8 \<times> u16 \<times> u32" where [wire_defs]:
  "val_deserialize_frame_header wiredata =
     (wiredata ! 0, wiredata ! 1, VAL_GET_LE16 (mem_read wiredata 2 2), VAL_GET_LE32 (mem_read wiredata 4 4))"

definition val_serialize_handshake :: "val_handshake_t \<Rightarrow> u8 list \<Rightarrow> u8 list" where [wire_defs]:
  "val_serialize_handshake hs wire_data =
     (let w = mem_write wire_data 0 (VAL_PUT_LE32 (hs_magic hs));
          w = mem_write w 4 [hs_version_major hs];
          w = mem_write w 5 [hs_version_minor hs];
          w = mem_write w 6 (VAL_PUT_LE16 (hs_reserved hs));
          w = mem_write w 8 (VAL_PUT_LE32 (hs_packet_size hs));
          w = mem_write w 12 (VAL_PUT_LE32 (hs_features hs));
          w = mem_write w 16 (VAL_PUT_LE32 (hs_required hs));
          w = mem_write w 20 (VAL_PUT_LE32 (hs_requested hs));
          w = mem_write w 24 (VAL_PUT_LE16 (hs_tx_max_window_packets hs));
          w = mem_write w 26 (VAL_PUT_LE16 (hs_rx_max_window_packets hs));
          w = mem_write w 28 [hs_ack_stride_packets hs];
          w = mem_write w 29 [fst (hs_reserved_capabilities hs)];
          w = mem_write w 30 [fst (snd (hs_reserved_capabilities hs))];
          w = mem_write w 31 [snd (snd (hs_reserved_capabilities hs))];
          w = mem_write w 32 (VAL_PUT_LE16 (hs_supported_features16 hs));
          w = mem_write w 34 (VAL_PUT_LE16 (hs_required_features16 hs));
          w = mem_write w 36 (VAL_PUT_LE16 (hs_requested_features16 hs));
          w = mem_write w 38 [0];
          w = mem_write w 39 [0];
          w = mem_write w 40 (VAL_PUT_LE32 (hs_reserved2 hs))
      in w)"

definition val_deserialize_handshake :: "u8 list \<Rightarrow> val_handshake_t" where [wire_defs]:
  "val_deserialize_handshake w =
     \<lparr>hs_magic = VAL_GET_LE32 (mem_read w 0 4),
      hs_version_major = w ! 4,
      hs_version_minor = w ! 5,
      hs_reserved = VAL_GET_LE16 (mem_read w 6 2),
      hs_packet_size = VAL_GET_LE32 (mem_read w 8 4),
      hs_features = VAL_GET_LE32 (mem_read w 12 4),
      hs_required = VAL_GET_LE32 (mem_read w 16 4),
      hs_requested = VAL_GET_LE32 (mem_read w 20 4),
      hs_tx_max_window_packets = VAL_GET_LE16 (mem_read w 24 2),
      hs_rx_max_window_packets = VAL_GET_LE16 (mem_read w 26 2),
      hs_ack_stride_packets = w ! 28,
      hs_reserved_capabilities = (w ! 29, w ! 30, w ! 31),
      hs_supported_features16 = VAL_GET_LE16 (mem_read w 32 2),
      hs_required_features16 = VAL_GET_LE16 (mem_read w 34 2),
      hs_requested_features16 = VAL_GET_LE16 (mem_read w 36 2),
      hs_reserved2 = VAL_GET_LE32 (mem_read w 40 4)\<rparr>"

definition val_serialize_meta :: "val_meta_payload_t \<Rightarrow> u8 list \<Rightarrow> u8 list" where [wire_defs]:
  "val_serialize_meta meta wire_data =
     (let w = mem_write wire_data 0 (take (VAL_MAX_FILENAME + 1) (meta_filename meta));
          w = mem_write w (VAL_MAX_FILENAME + 1) (take (VAL_MAX_PATH + 1) (meta_sender_path meta));
          w = mem_write w ((VAL_MAX_FILENAME + 1) + (VAL_MAX_PATH + 1)) (VAL_PUT_LE64 (meta_file_size meta))
      in w)"

definition val_deserialize_meta :: "u8 list \<Rightarrow> val_meta_payload_t" where [wire_defs]:
  "val_deserialize_meta w =
     \<lparr>meta_filename = mem_read w 0 (VAL_MAX_FILENAME + 1),
      meta_sender_path = mem_read w (VAL_MAX_FILENAME + 1) (VAL_MAX_PATH + 1),
      meta_file_size = VAL_GET_LE64 (mem_read w ((VAL_MAX_FILENAME + 1) + (VAL_MAX_PATH + 1)) 8)\<rparr>"

definition val_serialize_resume_resp :: "val_resume_resp_t \<Rightarrow> u8 list \<Rightarrow> u8 list" where [wire_defs]:
  "val_serialize_resume_resp resp wire_data =
     (let w = mem_write wire_data 0 (VAL_PUT_LE32 (action_code (rr_action resp)));
          w = mem_write w 4 (VAL_PUT_LE64 (rr_resume_offset resp));
          w = mem_write w 12 (VAL_PUT_LE32 (rr_verify_crc resp));
          w = mem_write w 16 (VAL_PUT_LE64 (rr_verify_length resp))
      in w)"

definition val_deserialize_resume_resp :: "u8 list \<Rightarrow> val_resume_resp_t" where [wire_defs]:
  "val_deserialize_resume_resp w =
     \<lparr>rr_action = action_of_code (VAL_GET_LE32 (mem_read w 0 4)),
      rr_resume_offset = VAL_GET_LE64 (mem_read w 4 8),
      rr_verify_crc = VAL_GET_LE32 (mem_read w 12 4),
      rr_verify_length = VAL_GET_LE64 (mem_read w 16 8)\<rparr>"

definition val_serialize_verify_request :: "u64 \<Rightarrow> u32 \<Rightarrow> u32 \<Rightarrow> u8 list \<Rightarrow> u8 list" where [wire_defs]:
  "val_serialize_verify_request offset crc len wire_data =
     (let w = mem_write wire_data 0 (VAL_PUT_LE64 offset);
          w = mem_write w 8 (VAL_PUT_LE32 crc);
          w = mem_write w 12 (VAL_PUT_LE32 len)
      in w)"

definition val_deserialize_verify_request :: "u8 list \<Rightarrow> u64 \<times> u32 \<times> u32" where [wire_defs]:
  "val_deserialize_verify_request w =
     (VAL_GET_LE64 (mem_read w 0 8), VAL_GET_LE32 (mem_read w 8 4), VAL_GET_LE32 (mem_read w 12 4))"

definition val_serialize_verify_response :: "val_status_t \<Rightarrow> u32 \<Rightarrow> u8 list \<Rightarrow> u8 list" where [wire_defs]:
  "val_serialize_verify_response result receiver_crc wire_data =
     (let w = mem_write wire_data 0 (VAL_PUT_LE32 (status_to_u32 result));
          w = mem_write w 4 (VAL_PUT_LE32 receiver_crc)
      in w)"

definition val_deserialize_verify_response :: "u8 list \<Rightarrow> val_status_t \<times> u32" where [wire_defs]:
  "val_deserialize_verify_response w =
     (status_of_u32 (VAL_GET_LE32 (mem_read w 0 4)), VAL_GET_LE32 (mem_read w 4 4))"

definition val_serialize_error_payload :: "val_error_payload_t \<Rightarrow> u8 list \<Rightarrow> u8 list" where [wire_defs]:
  "val_serialize_error_payload payload wire_data =
     (let w = mem_write wire_data 0 (VAL_PUT_LE32 (ep_code payload));
          w = mem_write w 4 (VAL_PUT_LE32 (ep_detail payload))
      in w)"

definition val_deserialize_error_payload :: "u8 list \<Rightarrow> val_error_payload_t" where [wire_defs]:
  "val_deserialize_error_payload w =
     \<lparr>ep_code = VAL_GET_LE32 (mem_read w 0 4), ep_detail = VAL_GET_LE32 (mem_read w 4 4)\<rparr>"

section \<open>The contract of a payload codec\<close>

text \<open>
  What the packet layer relies on: a serializer fills exactly \<open>size\<close> bytes of the buffer, whatever
  was there before, and touches no other byte; the deserializer reads these \<open>size\<close> bytes only and
  inverts the serializer.
\<close>

locale codec =
  fixes enc :: "'a \<Rightarrow> u8 list \<Rightarrow> u8 list"
    and dec :: "u8 list \<Rightarrow> 'a"
    and size :: nat
    and ok :: "'a \<Rightarrow> bool"
    and bytes :: "'a \<Rightarrow> u8 list"
  assumes enc_eq: "ok x \<Longrightarrow> size \<le> length buf \<Longrightarrow> enc x buf = bytes x @ drop size buf"
    and bytes_length: "ok x \<Longrightarrow> length (bytes x) = size"
    and dec_bytes: "ok x \<Longrightarrow> dec (bytes x @ rest) = x"
begin

lemma dec_enc: "ok x \<Longrightarrow> size \<le> length buf \<Longrightarrow> dec (enc x buf) = x"
  by (simp add: enc_eq dec_bytes)

lemma enc_length: "ok x \<Longrightarrow> size \<le> length buf \<Longrightarrow> length (enc x buf) = length buf"
  by (simp add: enc_eq bytes_length)

lemma enc_exact: "ok x \<Longrightarrow> length buf = size \<Longrightarrow> enc x buf = bytes x"
  by (simp add: enc_eq)

lemma enc_frame: "ok x \<Longrightarrow> size \<le> length buf \<Longrightarrow> drop size (enc x buf) = drop size buf"
  by (simp add: enc_eq bytes_length)

lemma enc_inj: "ok x \<Longrightarrow> ok y \<Longrightarrow> size \<le> length b \<Longrightarrow> size \<le> length c \<Longrightarrow> enc x b = enc y c \<Longrightarrow> x = y"
  by (metis dec_enc)

lemma roundtrip:
  "ok x \<Longrightarrow> size \<le> length buf \<Longrightarrow>
     dec (enc x buf) = x \<and> length (enc x buf) = length buf \<and> drop size (enc x buf) = drop size buf"
  by (simp add: dec_enc enc_length enc_frame)

end

section \<open>The payloads of the protocol are codecs\<close>

text \<open>The bytes each payload has on the wire, field after field.\<close>

definition header_bytes :: "u8 \<times> u8 \<times> u16 \<times> u32 \<Rightarrow> u8 list" where
  "header_bytes h = (case h of (type, flags, content_len, type_data) \<Rightarrow>
     [type, flags] @ VAL_PUT_LE16 content_len @ VAL_PUT_LE32 type_data)"

definition handshake_bytes :: "val_handshake_t \<Rightarrow> u8 list" where
  "handshake_bytes hs =
     VAL_PUT_LE32 (hs_magic hs) @ [hs_version_major hs, hs_version_minor hs]
     @ VAL_PUT_LE16 (hs_reserved hs) @ VAL_PUT_LE32 (hs_packet_size hs)
     @ VAL_PUT_LE32 (hs_features hs) @ VAL_PUT_LE32 (hs_required hs) @ VAL_PUT_LE32 (hs_requested hs)
     @ VAL_PUT_LE16 (hs_tx_max_window_packets hs) @ VAL_PUT_LE16 (hs_rx_max_window_packets hs)
     @ [hs_ack_stride_packets hs, fst (hs_reserved_capabilities hs),
        fst (snd (hs_reserved_capabilities hs)), snd (snd (hs_reserved_capabilities hs))]
     @ VAL_PUT_LE16 (hs_supported_features16 hs) @ VAL_PUT_LE16 (hs_required_features16 hs)
     @ VAL_PUT_LE16 (hs_requested_features16 hs) @ [0, 0] @ VAL_PUT_LE32 (hs_reserved2 hs)"

definition meta_bytes :: "val_meta_payload_t \<Rightarrow> u8 list" where
  "meta_bytes m = meta_filename m @ meta_sender_path m @ VAL_PUT_LE64 (meta_file_size m)"

definition meta_ok :: "val_meta_payload_t \<Rightarrow> bool" where
  "meta_ok m \<longleftrightarrow> length (meta_filename m) = VAL_MAX_FILENAME + 1 \<and>
     length (meta_sender_path m) = VAL_MAX_PATH + 1"

definition resume_resp_bytes :: "val_resume_resp_t \<Rightarrow> u8 list" where
  "resume_resp_bytes r = VAL_PUT_LE32 (action_code (rr_action r)) @ VAL_PUT_LE64 (rr_resume_offset r)
     @ VAL_PUT_LE32 (rr_verify_crc r) @ VAL_PUT_LE64 (rr_verify_length r)"

definition verify_request_bytes :: "u64 \<times> u32 \<times> u32 \<Rightarrow> u8 list" where
  "verify_request_bytes v = (case v of (offset, crc, len) \<Rightarrow>
     VAL_PUT_LE64 offset @ VAL_PUT_LE32 crc @ VAL_PUT_LE32 len)"

definition verify_response_bytes :: "val_status_t \<times> u32 \<Rightarrow> u8 list" where
  "verify_response_bytes v = VAL_PUT_LE32 (status_to_u32 (fst v)) @ VAL_PUT_LE32 (snd v)"

definition error_payload_bytes :: "val_error_payload_t \<Rightarrow> u8 list" where
  "error_payload_bytes e = VAL_PUT_LE32 (ep_code e) @ VAL_PUT_LE32 (ep_detail e)"

lemmas bytes_defs = header_bytes_def handshake_bytes_def meta_bytes_def meta_ok_def
  resume_resp_bytes_def verify_request_bytes_def verify_response_bytes_def error_payload_bytes_def

lemmas codec_simps = wire_defs bytes_defs mem_simps Let_def nth_append nth_Cons_numeral

interpretation header: codec
  "\<lambda>h. val_serialize_frame_header (fst h) (fst (snd h)) (fst (snd (snd h))) (snd (snd (snd h)))"
  val_deserialize_frame_header VAL_WIRE_HEADER_SIZE "\<lambda>_. True" header_bytes
  by unfold_locales (auto simp: codec_simps split: prod.splits)

interpretation handshake: codec
  val_serialize_handshake val_deserialize_handshake VAL_WIRE_HANDSHAKE_SIZE "\<lambda>_. True" handshake_bytes
  by unfold_locales (simp_all add: codec_simps)

interpretation meta: codec
  val_serialize_meta val_deserialize_meta VAL_WIRE_META_SIZE meta_ok meta_bytes
  by unfold_locales (auto simp: codec_simps)

interpretation resume_resp: codec
  val_serialize_resume_resp val_deserialize_resume_resp VAL_WIRE_RESUME_RESP_SIZE
  "\<lambda>r. action_known (rr_action r)" resume_resp_bytes
  by unfold_locales (simp_all add: codec_simps)

interpretation verify_request: codec
  "\<lambda>v. val_serialize_verify_request (fst v) (fst (snd v)) (snd (snd v))"
  val_deserialize_verify_request VAL_WIRE_VERIFY_REQ_SIZE "\<lambda>_. True" verify_request_bytes
  by unfold_locales (auto simp: codec_simps split: prod.splits)

interpretation verify_response: codec
  "\<lambda>v. val_serialize_verify_response (fst v) (snd v)"
  val_deserialize_verify_response VAL_WIRE_VERIFY_RESP_SIZE "\<lambda>v. status_enumerator (fst v)" verify_response_bytes
  by unfold_locales (auto simp: codec_simps)

interpretation error_payload: codec
  val_serialize_error_payload val_deserialize_error_payload VAL_WIRE_ERROR_PAYLOAD_SIZE "\<lambda>_. True" error_payload_bytes
  by unfold_locales (simp_all add: codec_simps)

section \<open>Properties\<close>

text \<open>
  The frame header is read back as it was written: type, flags, content length and type data
  return unchanged from any buffer with room for the eight bytes, and the serializer changes no
  byte behind them.
\<close>

lemma frame_header_roundtrip:
  assumes "VAL_WIRE_HEADER_SIZE \<le> length buf"
  shows "val_deserialize_frame_header (val_serialize_frame_header type flags content_len type_data buf)
           = (type, flags, content_len, type_data) \<and>
         length (val_serialize_frame_header type flags content_len type_data buf) = length buf \<and>
         drop VAL_WIRE_HEADER_SIZE (val_serialize_frame_header type flags content_len type_data buf)
           = drop VAL_WIRE_HEADER_SIZE buf"
  using header.roundtrip [of buf "(type, flags, content_len, type_data)"] assms by simp

text \<open>
  C29. The handshake payload is read back as it was written, all sixteen fields of it, from any
  buffer with room for the forty-four bytes; the serializer touches nothing behind them, and two
  different handshakes never have the same bytes.
\<close>

theorem handshake_roundtrip:
  assumes "VAL_WIRE_HANDSHAKE_SIZE \<le> length buf"
  shows "val_deserialize_handshake (val_serialize_handshake hs buf) = hs \<and>
         length (val_serialize_handshake hs buf) = length buf \<and>
         drop VAL_WIRE_HANDSHAKE_SIZE (val_serialize_handshake hs buf) = drop VAL_WIRE_HANDSHAKE_SIZE buf \<and>
         (val_serialize_handshake hs buf = val_serialize_handshake hs' buf \<longleftrightarrow> hs = hs')"
  using handshake.roundtrip [of buf hs] handshake.enc_inj [of buf buf hs hs'] assms by auto

theorem handshake_roundtrip_witness:
  "VAL_WIRE_HANDSHAKE_SIZE \<le> length (replicate 44 (0 :: u8)) \<and>
   val_deserialize_handshake (val_serialize_handshake
     (val_deserialize_handshake (replicate 44 9)) (replicate 44 0)) = val_deserialize_handshake (replicate 44 9)"
  using handshake_roundtrip [of "replicate 44 0" "val_deserialize_handshake (replicate 44 9)"] by simp

text \<open>
  The metadata payload (file name, sender path and file size) is read back as it was written,
  including every byte behind the terminating NULs of the two character arrays.
\<close>

lemma metadata_roundtrip:
  assumes "meta_ok m" and "VAL_WIRE_META_SIZE \<le> length buf"
  shows "val_deserialize_meta (val_serialize_meta m buf) = m \<and>
         length (val_serialize_meta m buf) = length buf \<and>
         drop VAL_WIRE_META_SIZE (val_serialize_meta m buf) = drop VAL_WIRE_META_SIZE buf"
  using meta.roundtrip assms by simp

text \<open>
  C30. The three payloads of the resume negotiation - the receiver's resume response, the sender's
  verify request and the receiver's verify response - are read back as they were written, for
  every resume action and every status of the protocol.
\<close>

theorem resume_payloads_roundtrip:
  assumes "action_known (rr_action r)" and "VAL_WIRE_RESUME_RESP_SIZE \<le> length b1"
    and "VAL_WIRE_VERIFY_REQ_SIZE \<le> length b2"
    and "status_enumerator st" and "VAL_WIRE_VERIFY_RESP_SIZE \<le> length b3"
  shows "val_deserialize_resume_resp (val_serialize_resume_resp r b1) = r \<and>
         val_deserialize_verify_request (val_serialize_verify_request off crc len b2) = (off, crc, len) \<and>
         val_deserialize_verify_response (val_serialize_verify_response st rcrc b3) = (st, rcrc)"
  using resume_resp.dec_enc [of r b1] verify_request.dec_enc [of b2 "(off, crc, len)"]
    verify_response.dec_enc [of "(st, rcrc)" b3] assms
  by simp

theorem resume_payloads_roundtrip_witness:
  "action_known VAL_RESUME_VERIFY_FIRST \<and> status_enumerator VAL_ERR_RESUME_VERIFY \<and>
   val_deserialize_resume_resp (val_serialize_resume_resp
     \<lparr>rr_action = VAL_RESUME_VERIFY_FIRST, rr_resume_offset = 100, rr_verify_crc = 5, rr_verify_length = 50\<rparr>
     (replicate 24 1)) =
     \<lparr>rr_action = VAL_RESUME_VERIFY_FIRST, rr_resume_offset = 100, rr_verify_crc = 5, rr_verify_length = 50\<rparr>"
  using resume_payloads_roundtrip
    [of "\<lparr>rr_action = VAL_RESUME_VERIFY_FIRST, rr_resume_offset = 100, rr_verify_crc = 5, rr_verify_length = 50\<rparr>"
        "replicate 24 1" "replicate 16 0" VAL_ERR_RESUME_VERIFY "replicate 8 0"]
  by simp

end
