(* ===== verification/Val_Crc.thy ===== *)
theory Val_Crc
  imports Val_Bytes
begin

text \<open>
  The built-in CRC-32 of \<^verbatim>\<open>src/val_core.c\<close>: the 256-entry table, the one-shot function the packet
  layer uses for the trailer, and the incremental functions used over file regions. The table is
  the constant its lazy initialisation computes. The theorems relate the table-driven loops to a
  bit-serial reference, the incremental functions to the one-shot one, and give the error
  detection the trailer is for: no error burst of up to 32 bits goes unnoticed.
\<close>

section \<open>Definitions\<close>

abbreviation (input) crc32_poly :: u32 where "crc32_poly \<equiv> 0xEDB88320"

text \<open>The inner loop's body, and the inner loop (eight rounds) for one table index.\<close>

definition crc32_bit_step :: "u32 \<Rightarrow> u32" where
  "crc32_bit_step c = (if c AND 1 \<noteq> 0 then crc32_poly XOR drop_bit 1 c else drop_bit 1 c)"

fun crc32_bits :: "nat \<Rightarrow> u32 \<Rightarrow> u32" where
  "crc32_bits 0 c = c"
| "crc32_bits (Suc n) c = crc32_bits n (crc32_bit_step c)"

definition crc32_init_table :: "u32 list" where
  "crc32_init_table = map (\<lambda>i. crc32_bits 8 (of_nat i)) [0..<256]"

definition crc32_byte :: "u32 \<Rightarrow> u8 \<Rightarrow> u32" where
  "crc32_byte c b = (crc32_init_table ! unat ((c XOR ucast b) AND 0xFF)) XOR drop_bit 8 c"

definition val_crc32 :: "u8 list \<Rightarrow> u32" where
  "val_crc32 data = foldl crc32_byte 0xFFFFFFFF data XOR 0xFFFFFFFF"

definition val_crc32_init_state :: u32 where
  "val_crc32_init_state = 0xFFFFFFFF"

definition val_crc32_update_state :: "u32 \<Rightarrow> u8 list \<Rightarrow> u32" where
  "val_crc32_update_state state data = foldl crc32_byte state data"

definition val_crc32_finalize_state :: "u32 \<Rightarrow> u32" where
  "val_crc32_finalize_state state = state XOR 0xFFFFFFFF"

section \<open>The bit-serial reference\<close>

text \<open>The textbook definition: the next byte is added to the low end and shifted out bit by bit.\<close>

definition crc32_spec_byte :: "u32 \<Rightarrow> u8 \<Rightarrow> u32" where
  "crc32_spec_byte c b = crc32_bits 8 (c XOR ucast b)"

definition crc32_spec :: "u8 list \<Rightarrow> u32" where
  "crc32_spec data = NOT (foldl crc32_spec_byte (NOT 0) data)"

lemma crc32_bit_step_alt:
  "crc32_bit_step c = (if bit c 0 then crc32_poly else 0) XOR drop_bit 1 c"
  by (auto simp: crc32_bit_step_def and_one_eq odd_iff_mod_2_eq_one bit_0)

lemma drop_bit_xor_u32: "drop_bit n (a XOR b :: u32) = drop_bit n a XOR drop_bit n b"
  by (rule drop_bit_xor)

lemma crc32_bit_step_xor: "crc32_bit_step (a XOR b) = crc32_bit_step a XOR crc32_bit_step b"
  by (auto simp: crc32_bit_step_alt drop_bit_xor bit_xor_iff ac_simps)

lemma crc32_bits_xor: "crc32_bits n (a XOR b) = crc32_bits n a XOR crc32_bits n b"
  by (induction n arbitrary: a b) (simp_all add: crc32_bit_step_xor)

lemma crc32_bits_add: "crc32_bits (m + n) c = crc32_bits n (crc32_bits m c)"
  by (induction m arbitrary: c) simp_all

lemma crc32_bits_shift: "(\<And>i. i < n \<Longrightarrow> \<not> bit c i) \<Longrightarrow> crc32_bits n c = drop_bit n c"
proof (induction n arbitrary: c)
  case 0
  then show ?case by simp
next
  case (Suc n)
  have s: "crc32_bit_step c = drop_bit 1 c" using Suc.prems [of 0] by (simp add: crc32_bit_step_alt)
  have "crc32_bits n (drop_bit 1 c) = drop_bit n (drop_bit 1 c)"
    by (rule Suc.IH) (use Suc.prems in \<open>simp add: bit_drop_bit_eq\<close>)
  then show ?case by (simp add: s ac_simps drop_bit_drop_bit)
qed

lemma crc32_init_table_nth: "i < 256 \<Longrightarrow> crc32_init_table ! i = crc32_bits 8 (of_nat i)"
  by (simp add: crc32_init_table_def)

lemma and_255_take_bit: "c AND 0xFF = take_bit 8 (c :: u32)"
  by (simp add: take_bit_eq_mask mask_eq_exp_minus_1)

lemma take_bit_xor_high: "c = take_bit 8 c XOR push_bit 8 (drop_bit 8 (c :: u32))"
  by (rule bit_word_eqI) (auto simp: bit_simps)

lemma crc32_bits_push: "crc32_bits 8 (push_bit 8 c) = drop_bit 8 (push_bit 8 c)"
  by (rule crc32_bits_shift) (simp add: bit_push_bit_iff)

lemma drop_bit_push_drop: "drop_bit 8 (push_bit 8 (drop_bit 8 c)) = drop_bit 8 (c :: u32)"
  by (rule bit_word_eqI) (auto simp: bit_simps dest: bit_imp_le_length)

lemma drop_bit_8_ucast_u8 [simp]: "drop_bit 8 (ucast (b :: u8) :: u32) = 0"
  by (rule bit_word_eqI) (simp add: bit_drop_bit_eq bit_ucast_u8)

text \<open>One table lookup does eight bit steps.\<close>

lemma crc32_byte_spec: "crc32_byte c b = crc32_spec_byte c b"
proof -
  let ?x = "c XOR ucast b :: u32"
  have "unat (take_bit 8 ?x) < 256"
    using take_bit_nat_less_exp [of 8 "unat ?x"] by (simp only: unsigned_take_bit_eq) simp
  then have l: "crc32_init_table ! unat (?x AND 0xFF) = crc32_bits 8 (take_bit 8 ?x)"
    by (simp only: and_255_take_bit crc32_init_table_nth of_nat_unat ucast_id)
  have "crc32_spec_byte c b = crc32_bits 8 (take_bit 8 ?x) XOR crc32_bits 8 (push_bit 8 (drop_bit 8 ?x))"
    using take_bit_xor_high [of ?x] by (metis crc32_spec_byte_def crc32_bits_xor)
  also have "crc32_bits 8 (push_bit 8 (drop_bit 8 ?x)) = drop_bit 8 c"
    by (simp only: crc32_bits_push drop_bit_push_drop drop_bit_xor drop_bit_8_ucast_u8 xor.right_neutral)
  finally show ?thesis by (simp only: crc32_byte_def l)
qed

lemma foldl_crc32_byte: "foldl crc32_byte c data = foldl crc32_spec_byte c data"
  by (simp add: crc32_byte_spec [abs_def, symmetric])

lemma val_crc32_eq_spec: "val_crc32 data = crc32_spec data"
proof -
  have m: "(0xFFFFFFFF :: u32) = NOT 0" by simp
  have "x XOR NOT 0 = NOT x" for x :: u32 by (simp add: bit_eq_iff bit_simps)
  then show ?thesis by (simp only: val_crc32_def crc32_spec_def foldl_crc32_byte m)
qed

lemma xor_right_cancel: "a XOR c = b XOR c \<longleftrightarrow> a = (b :: 'a::len word)"
proof
  assume "a XOR c = b XOR c"
  then have "(a XOR c) XOR c = (b XOR c) XOR c" by simp
  then show "a = b" by (simp add: xor.assoc)
qed simp

lemma xor_left_cancel: "c XOR a = c XOR b \<longleftrightarrow> a = (b :: 'a::len word)"
  using xor_right_cancel [of a c b] by (simp add: ac_simps)

lemma bit_u8_less: "bit (b :: u8) n \<Longrightarrow> n < 8"
  using bit_imp_le_length [of b n] by simp

section \<open>Error detection\<close>

text \<open>
  Both halves of the detection argument are stated once for any fold whose byte step is
  injective in the state.
\<close>

locale injective_step =
  fixes step :: "'s \<Rightarrow> 'b \<Rightarrow> 's"
  assumes step_inj: "step c b = step d b \<Longrightarrow> c = d"
begin

lemma foldl_inj: "foldl step c xs = foldl step d xs \<longleftrightarrow> c = d"
  by (rule foldl_inj_state) (auto intro: injI step_inj)

lemma foldl_burst:
  "foldl step (foldl step c xs) ys \<noteq> foldl step (foldl step c xs) zs \<Longrightarrow>
     foldl step c (xs @ ys @ ws) \<noteq> foldl step c (xs @ zs @ ws)"
  by (simp add: foldl_inj)

end

lemma crc32_bit_step_inj: "crc32_bit_step c = crc32_bit_step d \<Longrightarrow> c = d"
proof -
  assume e: "crc32_bit_step c = crc32_bit_step d"
  have p31: "bit crc32_poly 31" by (simp add: bit_iff_odd)
  have top: "\<not> bit (drop_bit 1 (x :: u32)) 31" for x
    by (auto simp: bit_drop_bit_eq dest: bit_imp_le_length)
  have z: "bit (crc32_bit_step x) 31 \<longleftrightarrow> bit x 0" for x
    using p31 top [of x] by (simp add: crc32_bit_step_alt bit_xor_iff)
  have b0: "bit c 0 \<longleftrightarrow> bit d 0" using z [of c] z [of d] e by simp
  then have "drop_bit 1 c = drop_bit 1 d" using e by (auto simp: crc32_bit_step_alt xor_left_cancel)
  then have "bit c (Suc n) \<longleftrightarrow> bit d (Suc n)" for n by (metis bit_drop_bit_eq comp_apply plus_1_eq_Suc)
  with b0 have "bit c n \<longleftrightarrow> bit d n" for n by (cases n) auto
  then show "c = d" by (intro bit_word_eqI) simp
qed

lemma crc32_bits_inj: "crc32_bits n c = crc32_bits n d \<Longrightarrow> c = d"
  by (induction n arbitrary: c d) (auto dest: crc32_bit_step_inj)

interpretation crc32: injective_step crc32_spec_byte
proof
  fix c d b
  assume "crc32_spec_byte c b = crc32_spec_byte d b"
  then have "c XOR ucast b = d XOR ucast b" unfolding crc32_spec_byte_def by (rule crc32_bits_inj)
  then show "c = d" by (simp only: xor_right_cancel)
qed

text \<open>Four bytes in a row act on the state as one little-endian word shifted out bit by bit.\<close>

lemma crc32_bits_later_shift:
  "k + 8 \<le> 32 \<Longrightarrow> crc32_bits k c XOR ucast (b :: u8) = crc32_bits k (c XOR push_bit k (ucast b))"
proof -
  assume k: "k + 8 \<le> 32"
  have "crc32_bits k (push_bit k (ucast b)) = drop_bit k (push_bit k (ucast b :: u32))"
    by (rule crc32_bits_shift) (simp add: bit_push_bit_iff)
  also have "\<dots> = ucast b"
    by (rule bit_word_eqI) (use k in \<open>auto simp: bit_simps dest: bit_u8_less\<close>)
  finally show ?thesis by (simp add: crc32_bits_xor)
qed

lemma foldl_crc32_word:
  "length bs = 4 \<Longrightarrow> foldl crc32_spec_byte c bs = crc32_bits 32 (c XOR VAL_GET_LE32 bs)"
proof -
  assume "length bs = 4"
  then obtain b0 b1 b2 b3 where bs: "bs = [b0, b1, b2, b3]"
    by (auto simp: length_Suc_conv eval_nat_numeral)
  have m: "crc32_bits m (crc32_bits n x) = crc32_bits (n + m) x" for m n x
    by (simp add: crc32_bits_add)
  have "VAL_GET_LE32 bs =
      ucast b0 XOR push_bit 8 (ucast b1) XOR push_bit 16 (ucast b2) XOR push_bit 24 (ucast b3)"
  proof (rule bit_word_eqI)
    fix n assume "n < LENGTH(32)"
    then consider "n < 8" | "8 \<le> n" "n < 16" | "16 \<le> n" "n < 24" | "24 \<le> n" "n < 32"
      by fastforce
    then show "bit (VAL_GET_LE32 bs) n =
        bit (ucast b0 XOR push_bit 8 (ucast b1) XOR push_bit 16 (ucast b2) XOR push_bit 24 (ucast b3) :: u32) n"
      by cases (simp_all add: bs VAL_GET_LE32_def bit_or_iff bit_xor_iff bit_ucast_u8 lane_bits)
  qed
  then show ?thesis
    by (simp add: bs crc32_spec_byte_def m crc32_bits_later_shift xor.assoc)
qed

text \<open>Two different four-byte groups drive any state apart.\<close>

lemma foldl_crc32_word_neq:
  assumes "length ys = 4" "length zs = 4" "ys \<noteq> zs"
  shows "foldl crc32_spec_byte c ys \<noteq> foldl crc32_spec_byte c zs"
proof
  assume "foldl crc32_spec_byte c ys = foldl crc32_spec_byte c zs"
  then have "crc32_bits 32 (c XOR VAL_GET_LE32 ys) = crc32_bits 32 (c XOR VAL_GET_LE32 zs)"
    using assms by (simp only: foldl_crc32_word)
  then have "c XOR VAL_GET_LE32 ys = c XOR VAL_GET_LE32 zs" by (rule crc32_bits_inj)
  then have "VAL_GET_LE32 ys = VAL_GET_LE32 zs" by (simp only: xor_left_cancel)
  then have "ys = zs" using assms VAL_PUT_GET_LE32 by metis
  then show False using assms by simp
qed

lemma crc32_spec_burst:
  assumes "length ys = 4" "length zs = 4" "ys \<noteq> zs"
  shows "crc32_spec (xs @ ys @ ws) \<noteq> crc32_spec (xs @ zs @ ws)"
proof -
  have "foldl crc32_spec_byte (NOT 0) (xs @ ys @ ws) \<noteq> foldl crc32_spec_byte (NOT 0) (xs @ zs @ ws)"
    by (rule crc32.foldl_burst) (rule foldl_crc32_word_neq [OF assms])
  then show ?thesis by (simp add: crc32_spec_def)
qed

section \<open>Properties\<close>

text \<open>
  C26. The table-driven CRC loop computes the bit-serial CRC-32 of IEEE 802.3 on every message, and
  gives the published check value on the standard test message.
\<close>

theorem crc32_table_driven_correct:
  "val_crc32 data = crc32_spec data \<and>
   val_crc32 [0x31, 0x32, 0x33, 0x34, 0x35, 0x36, 0x37, 0x38, 0x39] = 0xCBF43926"
proof
  show "val_crc32 data = crc32_spec data" by (rule val_crc32_eq_spec)
  have "crc32_spec [0x31, 0x32, 0x33, 0x34, 0x35, 0x36, 0x37, 0x38, 0x39] = 0xCBF43926"
    by code_simp
  then show "val_crc32 [0x31, 0x32, 0x33, 0x34, 0x35, 0x36, 0x37, 0x38, 0x39] = 0xCBF43926"
    by (simp only: val_crc32_eq_spec)
qed

text \<open>
  C27. Computing the CRC incrementally over any division of a message into chunks gives the value
  of the one-shot function on the whole message.
\<close>

theorem crc32_incremental_correct:
  "val_crc32_finalize_state (foldl val_crc32_update_state val_crc32_init_state chunks) =
   val_crc32 (concat chunks)"
proof -
  have "foldl val_crc32_update_state c chunks = foldl crc32_byte c (concat chunks)" for c
    by (induction chunks arbitrary: c) (simp_all add: val_crc32_update_state_def)
  then show ?thesis
    by (simp add: val_crc32_finalize_state_def val_crc32_init_state_def val_crc32_def)
qed

text \<open>
  C28. The CRC detects every error burst of up to 32 bits: two messages that agree except in four
  consecutive bytes have different CRCs, wherever the four bytes are.
\<close>

theorem crc32_detects_bursts:
  assumes "length ys = 4" and "length zs = 4" and "ys \<noteq> zs"
  shows "val_crc32 (xs @ ys @ ws) \<noteq> val_crc32 (xs @ zs @ ws)"
  using crc32_spec_burst [OF assms] by (simp add: val_crc32_eq_spec)

theorem crc32_detects_bursts_witness:
  "val_crc32 ([7, 7] @ [1, 2, 3, 4] @ [9]) \<noteq> val_crc32 ([7, 7] @ [1, 2, 8, 4] @ [9])"
  by (rule crc32_detects_bursts) simp_all

end
