(* ===== verification/Val_Text.thy ===== *)
theory Val_Text
  imports Val_Prelude
begin

text \<open>
  Text utilities of \<^verbatim>\<open>src/val_core.c\<close> and \<^verbatim>\<open>src/val_internal.h\<close>: the bounded string length, the
  sanitizers for the file name and the path sent in the metadata, and the path join of the
  receiver (with the POSIX separator). A NULL string is \<open>None\<close>; the sanitizers return what the output
  buffer holds before its terminating NUL, or \<open>None\<close> when they leave it untouched.
\<close>

section \<open>Definitions\<close>

abbreviation (input) SLASH :: u8 where "SLASH \<equiv> 47"
abbreviation (input) BACKSLASH :: u8 where "BACKSLASH \<equiv> 92"
abbreviation (input) DOT :: u8 where "DOT \<equiv> 46"
abbreviation (input) UNDERSCORE :: u8 where "UNDERSCORE \<equiv> 95"

definition is_sep :: "u8 \<Rightarrow> bool" where
  "is_sep c \<longleftrightarrow> c = SLASH \<or> c = BACKSLASH"

text \<open>Letters, digits, dot, underscore, hyphen and space.\<close>

definition safe_char :: "u8 \<Rightarrow> bool" where
  "safe_char c \<longleftrightarrow> (0x41 \<le> c \<and> c \<le> 0x5A) \<or> (0x61 \<le> c \<and> c \<le> 0x7A) \<or> (0x30 \<le> c \<and> c \<le> 0x39) \<or>
     c = DOT \<or> c = UNDERSCORE \<or> c = 0x2D \<or> c = 0x20"

text \<open>The loop of \<^verbatim>\<open>val_internal_strnlen\<close> over the bytes of an array.\<close>

fun strnlen_loop :: "u8 list \<Rightarrow> nat \<Rightarrow> nat \<Rightarrow> nat" where
  "strnlen_loop [] maxlen n = n"
| "strnlen_loop (c # p) maxlen n = (if n < maxlen \<and> c \<noteq> 0 then strnlen_loop p maxlen (n + 1) else n)"

definition val_internal_strnlen :: "u8 list option \<Rightarrow> nat \<Rightarrow> nat" where
  "val_internal_strnlen s maxlen = (case s of None \<Rightarrow> 0 | Some b \<Rightarrow> strnlen_loop b maxlen 0)"

fun clean_filename_loop :: "cstr \<Rightarrow> nat \<Rightarrow> cstr \<Rightarrow> cstr" where
  "clean_filename_loop [] output_size out = out"
| "clean_filename_loop (c # p) output_size out =
     (if length out + 1 < output_size then
        if is_sep c then clean_filename_loop p output_size out
        else if safe_char c then clean_filename_loop p output_size (out @ [c])
        else clean_filename_loop p output_size (out @ [UNDERSCORE])
      else out)"

definition val_clean_filename :: "cstr option \<Rightarrow> nat \<Rightarrow> cstr option" where
  "val_clean_filename input output_size =
     (if output_size = 0 then None
      else case input of
        None \<Rightarrow> Some []
      | Some p \<Rightarrow>
          let out = clean_filename_loop p output_size [];
              out = (if length out = 0 \<and> output_size > 1 then out @ [UNDERSCORE] else out)
          in Some out)"

text \<open>
  The loop of \<^verbatim>\<open>val_clean_path\<close>: \<open>p\<close> is the rest of the input, \<open>q\<close> what follows the dots in front
  of it.
\<close>

function clean_path_loop :: "cstr \<Rightarrow> nat \<Rightarrow> cstr \<Rightarrow> bool \<Rightarrow> cstr" where
  "clean_path_loop p output_size out prev_sep =
     (if p \<noteq> [] \<and> length out + 1 < output_size then
        (let c = hd p; q = dropWhile (\<lambda>b. b = DOT) p in
         if is_sep c then
           (if \<not> prev_sep then clean_path_loop (tl p) output_size (out @ [SLASH]) True
            else clean_path_loop (tl p) output_size out prev_sep)
         else if c = DOT \<and> (q = [] \<or> is_sep (hd q)) then clean_path_loop q output_size out True
         else if safe_char c then clean_path_loop (tl p) output_size (out @ [c]) False
         else clean_path_loop (tl p) output_size (out @ [UNDERSCORE]) False)
      else out)"
  by pat_completeness auto
termination
proof (relation "measure (\<lambda>(p, _). length p)", goal_cases)
  case (4 p output_size out prev_sep x q)
  then have "q = dropWhile (\<lambda>b. b = DOT) (tl p)" by (cases p) auto
  then have "length q \<le> length (tl p)" using length_dropWhile_le by metis
  then show ?case using 4 by (cases p) auto
qed auto

declare clean_path_loop.simps [simp del]

text \<open>The trailing separators are dropped by a loop that moves \<open>w\<close> back.\<close>

fun trim_seps :: "cstr \<Rightarrow> nat \<Rightarrow> nat" where
  "trim_seps out 0 = 0"
| "trim_seps out (Suc w) = (if out ! w = SLASH then trim_seps out w else Suc w)"

definition val_clean_path :: "cstr option \<Rightarrow> nat \<Rightarrow> cstr option" where
  "val_clean_path input output_size =
     (if output_size = 0 then None
      else case input of
        None \<Rightarrow> Some []
      | Some p \<Rightarrow>
          let out = clean_path_loop p output_size [] True
          in Some (take (trim_seps out (length out)) out))"

text \<open>
  \<^verbatim>\<open>snprintf\<close> into a buffer of \<open>cap > 0\<close> bytes: the return value is the length of the whole text,
  the buffer keeps what fits before the NUL.
\<close>

definition snprintf :: "nat \<Rightarrow> cstr \<Rightarrow> int \<times> cstr" where
  "snprintf cap txt = (int (length txt), take (cap - 1) txt)"

definition val_internal_join_path :: "nat \<Rightarrow> cstr option \<Rightarrow> cstr option \<Rightarrow> int \<times> cstr" where
  "val_internal_join_path cap dir name =
     (if cap = 0 then (- 1, [])
      else
        let name = (case name of None \<Rightarrow> [] | Some n \<Rightarrow> n)
        in case dir of
             None \<Rightarrow> snprintf cap name
           | Some d \<Rightarrow> if d \<noteq> [] then snprintf cap (d @ [SLASH] @ name) else snprintf cap name)"

section \<open>String length\<close>

lemma strnlen_loop_eq:
  "n \<le> maxlen \<Longrightarrow>
     strnlen_loop b maxlen n = n + min (maxlen - n) (length (takeWhile (\<lambda>c. c \<noteq> 0) b))"
  by (induction b maxlen n rule: strnlen_loop.induct) (auto simp: min_def)

lemma val_internal_strnlen_eq:
  "val_internal_strnlen (Some b) maxlen = min maxlen (length (takeWhile (\<lambda>c. c \<noteq> 0) b))"
  by (simp add: val_internal_strnlen_def strnlen_loop_eq)

section \<open>File names\<close>

text \<open>What the loop does, in one expression: drop the separators, replace the unsafe characters.\<close>

definition clean_char :: "u8 \<Rightarrow> u8" where
  "clean_char c = (if safe_char c then c else UNDERSCORE)"

lemma safe_clean_char [simp]: "safe_char (clean_char c)"
  by (simp add: clean_char_def safe_char_def)

lemma safe_not_sep: "safe_char c \<Longrightarrow> \<not> is_sep c \<and> c \<noteq> 0"
  by (auto simp: safe_char_def is_sep_def word_le_nat_alt)

lemma clean_char_safe [simp]: "safe_char c \<Longrightarrow> clean_char c = c"
  by (simp add: clean_char_def)

lemma clean_filename_loop_eq:
  "length out < output_size \<Longrightarrow>
     clean_filename_loop p output_size out =
       take (output_size - 1) (out @ map clean_char (filter (\<lambda>c. \<not> is_sep c) p))"
  by (induction p output_size out rule: clean_filename_loop.induct) (auto simp: clean_char_def)

lemma val_clean_filename_eq:
  "0 < output_size \<Longrightarrow>
     val_clean_filename (Some p) output_size =
       Some (let f = take (output_size - 1) (map clean_char (filter (\<lambda>c. \<not> is_sep c) p))
             in if f = [] \<and> 1 < output_size then [UNDERSCORE] else f)"
  by (simp add: val_clean_filename_def clean_filename_loop_eq Let_def)

text \<open>
  C31. A cleaned file name consists of safe characters only, so it has no path separator and no
  NUL; it fits the output buffer with its terminating NUL, is not empty unless the buffer has no
  room, and cleaning it again changes nothing. (It may still be the name \<open>..\<close>, which has safe
  characters only.)
\<close>

theorem clean_filename_safe:
  assumes "val_clean_filename (Some p) output_size = Some f"
  shows "(\<forall>c \<in> set f. safe_char c \<and> \<not> is_sep c) \<and> length f < output_size \<and>
         (1 < output_size \<longrightarrow> f \<noteq> []) \<and> val_clean_filename (Some f) output_size = Some f"
proof -
  from assms have pos: "0 < output_size" by (simp add: val_clean_filename_def split: if_splits)
  let ?g = "take (output_size - 1) (map clean_char (filter (\<lambda>c. \<not> is_sep c) p))"
  have f: "f = (if ?g = [] \<and> 1 < output_size then [UNDERSCORE] else ?g)"
    using assms unfolding val_clean_filename_eq [OF pos] Let_def by (simp only: option.inject)
  have "\<forall>c \<in> set ?g. safe_char c" by (auto dest!: in_set_takeD)
  moreover have "safe_char UNDERSCORE" by (simp add: safe_char_def)
  ultimately have safe: "\<forall>c \<in> set f. safe_char c" by (simp add: f)
  have len: "length f < output_size" using pos by (auto simp: f)
  have "filter (\<lambda>c. \<not> is_sep c) f = f" using safe by (simp add: filter_id_conv safe_not_sep)
  moreover have "map clean_char f = f" using safe by (simp add: map_idI)
  moreover have ne: "1 < output_size \<longrightarrow> f \<noteq> []" by (simp add: f)
  ultimately have "val_clean_filename (Some f) output_size = Some f"
    using pos len by (auto simp: val_clean_filename_eq Let_def)
  then show ?thesis using safe len ne by (simp add: safe_not_sep)
qed

theorem clean_filename_safe_witness:
  "val_clean_filename (Some [0x61, SLASH, 0x2A, DOT]) 128 = Some [0x61, UNDERSCORE, DOT] \<and>
   val_clean_filename (Some [0x61, UNDERSCORE, DOT]) 128 = Some [0x61, UNDERSCORE, DOT]"
proof -
  have h: "val_clean_filename (Some [0x61, SLASH, 0x2A, DOT]) 128 = Some [0x61, UNDERSCORE, DOT]"
    by (simp add: val_clean_filename_def is_sep_def safe_char_def)
  from clean_filename_safe [OF h] h show ?thesis by simp
qed

section \<open>Paths\<close>

text \<open>The components of a path, separated by slashes.\<close>

fun comps :: "cstr \<Rightarrow> cstr list" where
  "comps [] = [[]]"
| "comps (c # s) = (if c = SLASH then [] # comps s else (c # hd (comps s)) # tl (comps s))"

lemma comps_not_Nil [simp]: "comps s \<noteq> []"
  by (cases s) auto

lemma comps_snoc:
  "comps (s @ [c]) =
     (if c = SLASH then comps s @ [[]] else butlast (comps s) @ [last (comps s) @ [c]])"
proof (induction s)
  case Nil
  then show ?case by simp
next
  case (Cons a s)
  have "comps s = hd (comps s) # tl (comps s)" by simp
  then show ?case using Cons by (cases "comps s") (auto split: if_splits)
qed

lemma concat_comps: "set (concat (comps s)) = {c \<in> set s. c \<noteq> SLASH}"
proof (induction s)
  case Nil
  then show ?case by simp
next
  case (Cons a s)
  then show ?case by (cases "comps s") auto
qed

lemma set_comps: "x \<in> set (comps s) \<longleftrightarrow> x \<in> set (butlast (comps s)) \<or> x = last (comps s)"
  by (cases "comps s" rule: rev_cases) auto

definition good_comp :: "cstr \<Rightarrow> bool" where
  "good_comp s \<longleftrightarrow> (\<exists>c \<in> set s. c \<noteq> DOT)"

lemma good_comp_not_Nil: "good_comp s \<Longrightarrow> s \<noteq> []"
  by (auto simp: good_comp_def)

lemma good_comp_snoc: "good_comp (s @ [c]) \<longleftrightarrow> good_comp s \<or> c \<noteq> DOT"
  by (auto simp: good_comp_def)

text \<open>What the loop keeps of its output, whether or not the output is cut by the buffer's size.\<close>

definition out_ok :: "cstr \<Rightarrow> bool \<Rightarrow> bool" where
  "out_ok out prev_sep \<longleftrightarrow>
     (\<forall>c \<in> set out. safe_char c \<or> c = SLASH) \<and> [] \<notin> set (butlast (comps out)) \<and>
     (last (comps out) = [] \<longrightarrow> prev_sep)"

lemma out_ok_char: "out_ok out ps \<Longrightarrow> safe_char c \<Longrightarrow> out_ok (out @ [c]) False"
  using safe_not_sep [of c] by (auto simp: out_ok_def comps_snoc is_sep_def)

lemma out_ok_sep: "out_ok out False \<Longrightarrow> out_ok (out @ [SLASH]) True"
  by (auto simp: out_ok_def comps_snoc set_comps)

lemma out_ok_weaken: "out_ok out ps \<Longrightarrow> out_ok out True"
  by (simp add: out_ok_def)

lemma safe_UNDERSCORE [simp]: "safe_char UNDERSCORE"
  by (simp add: safe_char_def)

lemma clean_path_loop_ok:
  "out_ok out ps \<Longrightarrow> length out < n \<Longrightarrow>
     out_ok (clean_path_loop p n out ps) True \<and> length (clean_path_loop p n out ps) < n"
proof (induction p n out ps rule: clean_path_loop.induct)
  case (1 p n out ps)
  let ?q = "dropWhile (\<lambda>b. b = DOT) p"
  show ?case
  proof (cases "p \<noteq> [] \<and> length out + 1 < n")
    case False
    then have "clean_path_loop p n out ps = out" by (subst clean_path_loop.simps) auto
    then show ?thesis using "1.prems" out_ok_weaken by simp
  next
    case True
    note IH = "1.IH" [OF True refl refl]
    show ?thesis
      using True "1.prems" IH
      by (subst (1 2) clean_path_loop.simps) (auto simp: Let_def out_ok_char out_ok_sep out_ok_weaken)
  qed
qed

text \<open>When the buffer has room for the whole input, no component is left that has dots only.\<close>

definition dots_ok :: "cstr \<Rightarrow> cstr \<Rightarrow> bool \<Rightarrow> bool" where
  "dots_ok p out prev_sep \<longleftrightarrow>
     (\<forall>s \<in> set (butlast (comps out)). good_comp s) \<and>
     (last (comps out) = [] \<and> prev_sep \<or> good_comp (last (comps out)) \<or>
      \<not> prev_sep \<and> dropWhile (\<lambda>b. b = DOT) p \<noteq> [] \<and> \<not> is_sep (hd (dropWhile (\<lambda>b. b = DOT) p)))"

lemma dots_ok_sep:
  assumes "dots_ok p out False" "p \<noteq> []" "is_sep (hd p)"
  shows "dots_ok (tl p) (out @ [SLASH]) True"
proof -
  from assms(2,3) have "dropWhile (\<lambda>b. b = DOT) p = p" by (cases p) (auto simp: is_sep_def)
  with assms have "\<forall>s \<in> set (comps out). good_comp s"
    by (auto simp: dots_ok_def set_comps)
  then show ?thesis by (simp add: dots_ok_def comps_snoc)
qed

lemma dots_ok_skip_sep:
  assumes "dots_ok p out True" shows "dots_ok q out True"
  using assms by (auto simp: dots_ok_def)

lemma dots_ok_skip_dots:
  assumes "dots_ok p out ps" "dropWhile (\<lambda>b. b = DOT) p = q" "q = [] \<or> is_sep (hd q)"
  shows "dots_ok q out True"
  using assms by (auto simp: dots_ok_def)

lemma dots_ok_char:
  assumes "dots_ok p out ps" "p \<noteq> []" "\<not> is_sep (hd p)"
    and "\<not> (hd p = DOT \<and> (dropWhile (\<lambda>b. b = DOT) p = [] \<or> is_sep (hd (dropWhile (\<lambda>b. b = DOT) p))))"
    and "c = clean_char (hd p)"
  shows "dots_ok (tl p) (out @ [c]) False"
proof -
  from assms(2) obtain x r where p: "p = x # r" by (cases p) auto
  have c: "c \<noteq> SLASH" using assms(5) safe_not_sep [of c] by (auto simp: is_sep_def)
  have d: "c = DOT \<longleftrightarrow> x = DOT" by (simp add: assms(5) p clean_char_def safe_char_def)
  show ?thesis
    using assms(1,3,4) c d by (auto simp: p dots_ok_def comps_snoc good_comp_snoc)
qed

lemma clean_path_loop_dots:
  "dots_ok p out ps \<Longrightarrow> length out + length p < n \<Longrightarrow> dots_ok [] (clean_path_loop p n out ps) True"
proof (induction p n out ps rule: clean_path_loop.induct)
  case (1 p n out ps)
  let ?q = "dropWhile (\<lambda>b. b = DOT) p"
  show ?case
  proof (cases "p \<noteq> []")
    case False
    then have "clean_path_loop p n out ps = out" by (subst clean_path_loop.simps) auto
    then show ?thesis using "1.prems" False by (auto simp: dots_ok_def)
  next
    case True
    have len: "length out + 1 < n" "length (tl p) < length p"
      using True "1.prems"(2) by (cases p; simp)+
    have q: "length out + length ?q < n"
      using length_dropWhile_le [of "\<lambda>b. b = DOT" p] "1.prems"(2) by simp
    from True len have g: "p \<noteq> [] \<and> length out + 1 < n" by simp
    note IH = "1.IH" [OF g refl refl]
    consider (sep) "is_sep (hd p)" "\<not> ps" | (skip) "is_sep (hd p)" ps
      | (dots) "\<not> is_sep (hd p)" "hd p = DOT" "?q = [] \<or> is_sep (hd ?q)"
      | (char) "\<not> is_sep (hd p)" "\<not> (hd p = DOT \<and> (?q = [] \<or> is_sep (hd ?q)))"
      by blast
    then show ?thesis
    proof cases
      case sep
      then have e: "clean_path_loop p n out ps = clean_path_loop (tl p) n (out @ [SLASH]) True"
        using g by (subst clean_path_loop.simps) simp
      have "dots_ok (tl p) (out @ [SLASH]) True" using dots_ok_sep "1.prems"(1) True sep by simp
      then show ?thesis unfolding e using IH(1) sep len "1.prems"(2) by simp
    next
      case skip
      then have e: "clean_path_loop p n out ps = clean_path_loop (tl p) n out ps"
        using g by (subst clean_path_loop.simps) simp
      show ?thesis unfolding e using IH(2) dots_ok_skip_sep skip len "1.prems" by simp
    next
      case dots
      then have e: "clean_path_loop p n out ps = clean_path_loop ?q n out True"
        using g by (subst clean_path_loop.simps) (auto simp: Let_def)
      show ?thesis
        unfolding e using IH(3) dots dots_ok_skip_dots [OF "1.prems"(1) refl] q by blast
    next
      case char
      then have e: "clean_path_loop p n out ps = clean_path_loop (tl p) n (out @ [clean_char (hd p)]) False"
        using g by (subst clean_path_loop.simps) (auto simp: Let_def clean_char_def)
      have "dots_ok (tl p) (out @ [clean_char (hd p)]) False"
        using dots_ok_char [OF "1.prems"(1) True char refl] .
      then show ?thesis
        unfolding e using IH(4,5) char len "1.prems"(2) by (cases "safe_char (hd p)") (simp_all add: clean_char_def)
    qed
  qed
qed

text \<open>The final loop removes the trailing slashes.\<close>

lemma trim_seps_le: "trim_seps out w \<le> w"
  by (induction out w rule: trim_seps.induct) auto

lemma trim_seps_last: "0 < trim_seps out w \<Longrightarrow> out ! (trim_seps out w - 1) \<noteq> SLASH"
  by (induction out w rule: trim_seps.induct) auto

lemma trim_seps_append [simp]: "w \<le> length out \<Longrightarrow> trim_seps (out @ xs) w = trim_seps out w"
  by (induction w) (simp_all add: nth_append)

lemma trim_comps:
  assumes "[] \<notin> set (butlast (comps out))"
  shows "take (trim_seps out (length out)) out =
    (if last (comps out) = [] \<and> out \<noteq> [] then butlast out else out)"
proof (cases out rule: rev_cases)
  case Nil
  then show ?thesis by simp
next
  case (snoc o' c)
  show ?thesis
  proof (cases "c = SLASH")
    case False
    then show ?thesis by (simp add: snoc comps_snoc)
  next
    case True
    with assms snoc have n: "[] \<notin> set (comps o')" by (simp add: comps_snoc)
    have "trim_seps o' (length o') = length o'"
    proof (cases o' rule: rev_cases)
      case (snoc o2 d)
      then have "d \<noteq> SLASH" using n by (auto simp: comps_snoc)
      then show ?thesis by (simp add: snoc)
    qed simp
    then show ?thesis by (simp add: snoc True comps_snoc)
  qed
qed

lemma comps_trim:
  assumes "[] \<notin> set (butlast (comps out))"
  shows "set (comps (take (trim_seps out (length out)) out)) - {[]} =
         set (comps out) - {[]} \<and>
         (take (trim_seps out (length out)) out \<noteq> [] \<longrightarrow>
          [] \<notin> set (comps (take (trim_seps out (length out)) out)))"
proof (cases "last (comps out) = [] \<and> out \<noteq> []")
  case True
  then obtain o' c where o: "out = o' @ [c]" by (cases out rule: rev_cases) auto
  with True have c: "c = SLASH" by (auto simp: comps_snoc split: if_splits)
  have "take (trim_seps out (length out)) out = o'" using trim_comps [OF assms] True o by simp
  then show ?thesis using assms by (auto simp: o c comps_snoc)
next
  case False
  then have "take (trim_seps out (length out)) out = out" by (simp only: trim_comps [OF assms] if_False)
  then show ?thesis using assms False by (auto simp: set_comps)
qed

section \<open>Properties of paths\<close>

text \<open>
  C32. A cleaned path consists of safe characters and single slashes: it fits the output buffer,
  is relative (no leading slash), has no trailing slash and no empty component. When the buffer
  has room for the whole input, no component consists of dots only, so neither \<open>.\<close> nor \<open>..\<close> is left.
\<close>

theorem clean_path_safe:
  assumes "val_clean_path (Some p) output_size = Some f"
  shows "(\<forall>c \<in> set f. safe_char c \<or> c = SLASH) \<and> length f < output_size \<and>
         (f \<noteq> [] \<longrightarrow> [] \<notin> set (comps f) \<and> (length p < output_size \<longrightarrow> (\<forall>s \<in> set (comps f). good_comp s)))"
proof -
  let ?o = "clean_path_loop p output_size [] True"
  from assms have pos: "0 < output_size" by (simp add: val_clean_path_def split: if_splits)
  from assms pos have f: "f = take (trim_seps ?o (length ?o)) ?o"
    by (simp add: val_clean_path_def Let_def)
  have ok: "out_ok ?o True" and len: "length ?o < output_size"
    using clean_path_loop_ok [of "[]" True output_size p] pos by (auto simp: out_ok_def)
  have ne: "[] \<notin> set (butlast (comps ?o))" using ok by (simp add: out_ok_def)
  note ct = comps_trim [OF ne, folded f]
  have chars: "\<forall>c \<in> set f. safe_char c \<or> c = SLASH"
    using ok by (auto simp: f out_ok_def dest: in_set_takeD)
  have flen: "length f < output_size" using len by (simp add: f)
  have "length p < output_size \<longrightarrow> f \<noteq> [] \<longrightarrow> (\<forall>s \<in> set (comps f). good_comp s)"
  proof (intro impI)
    assume "length p < output_size" "f \<noteq> []"
    then have d: "dots_ok [] ?o True"
      using clean_path_loop_dots [of p "[]" True output_size] by (simp add: dots_ok_def)
    have "set (comps f) \<subseteq> set (comps ?o) - {[]}" using ct \<open>f \<noteq> []\<close> by blast
    moreover have "\<forall>s \<in> set (comps ?o) - {[]}. good_comp s"
      using d set_comps [of _ ?o] unfolding dots_ok_def by (metis DiffE insertCI list.distinct(1) dropWhile.simps(1))
    ultimately show "\<forall>s \<in> set (comps f). good_comp s" by blast
  qed
  then show ?thesis using chars flen ct by blast
qed

theorem clean_path_safe_witness:
  "val_clean_path (Some [DOT, DOT, SLASH, 0x61, BACKSLASH, SLASH, 0x62, SLASH]) 128 = Some [0x61, SLASH, 0x62] \<and>
   good_comp [0x61] \<and> good_comp [0x62]"
proof -
  let ?p = "[DOT, DOT, SLASH, 0x61, BACKSLASH, SLASH, 0x62, SLASH]"
  have h: "val_clean_path (Some ?p) 128 = Some [0x61, SLASH, 0x62]"
    by (simp add: val_clean_path_def clean_path_loop.simps is_sep_def safe_char_def Let_def)
  from clean_path_safe [OF h] h show ?thesis by simp
qed

text \<open>
  Two limits of the path sanitizer. Cutting the path at the buffer's size can leave a
  trailing \<open>..\<close> component, because the dots were judged by the character that no longer fits;
  and a component that ends in dots loses them together with the separator that follows, so two
  components are merged into one.
\<close>

lemma clean_path_limits:
  "val_clean_path (Some [0x61, SLASH, DOT, DOT, 0x62]) 5 = Some [0x61, SLASH, DOT, DOT] \<and>
   val_clean_path (Some [0x61, DOT, SLASH, 0x62]) 128 = Some [0x61, 0x62]"
  by (simp add: val_clean_path_def clean_path_loop.simps is_sep_def safe_char_def Let_def)

end
