(* ===== verification/Val_Session.thy ===== *)
theory Val_Session
  imports Val_Wire Val_Crc Val_Text
begin

text \<open>
  The configuration, the session and the session-level services of \<^verbatim>\<open>src/val_core.c\<close> and
  \<^verbatim>\<open>src/val_internal.h\<close>: creation, error recording, adaptive timeouts, the congestion window,
  metrics, health and the small hook wrappers.

  The hooks of the configuration are parameters: functions over a world \<open>'w\<close> that stands for
  everything outside the library (transport, file system, clock, application). A hook that may be
  NULL is an option. The two staging buffers are memory of the application; the session keeps
  their contents. The build options \<^verbatim>\<open>VAL_ENABLE_METRICS\<close> and \<^verbatim>\<open>VAL_BUILD_DIAGNOSTICS\<close> are a record,
  so both builds are covered; logging is compiled out, as in the release build. The recursive
  mutex is its depth.
\<close>

section \<open>Configuration\<close>

text \<open>
  \<^verbatim>\<open>recv\<close> returns its result and the bytes it stored (their number is \<^verbatim>\<open>*received\<close>); \<^verbatim>\<open>fread\<close> returns
  the bytes it read, \<^verbatim>\<open>fopen\<close> a handle or NULL.
\<close>

record 'w val_transport =
  tr_send :: "('w \<Rightarrow> u8 list \<Rightarrow> int \<times> 'w) option"
  tr_recv :: "('w \<Rightarrow> size_t \<Rightarrow> u32 \<Rightarrow> int \<times> u8 list \<times> 'w) option"
  tr_is_connected :: "('w \<Rightarrow> int \<times> 'w) option"
  tr_flush :: "('w \<Rightarrow> 'w) option"

datatype whence = SEEK_SET | SEEK_END

record 'w val_filesystem =
  fs_fopen :: "('w \<Rightarrow> cstr \<Rightarrow> string \<Rightarrow> nat option \<times> 'w) option"
  fs_fread :: "('w \<Rightarrow> size_t \<Rightarrow> nat \<Rightarrow> u8 list \<times> 'w) option"
  fs_fwrite :: "('w \<Rightarrow> u8 list \<Rightarrow> nat \<Rightarrow> size_t \<times> 'w) option"
  fs_fseek :: "('w \<Rightarrow> nat \<Rightarrow> int \<Rightarrow> whence \<Rightarrow> int \<times> 'w) option"
  fs_ftell :: "('w \<Rightarrow> nat \<Rightarrow> int \<times> 'w) option"
  fs_fclose :: "('w \<Rightarrow> nat \<Rightarrow> int \<times> 'w) option"

record 'w val_system =
  sys_get_ticks_ms :: "('w \<Rightarrow> u32 \<times> 'w) option"
  sys_delay_ms :: "('w \<Rightarrow> u32 \<Rightarrow> 'w) option"

record val_timeouts =
  to_min_timeout_ms :: u32
  to_max_timeout_ms :: u32
  to_handshake_budget_ms :: u32

record val_features =
  feat_required :: u32
  feat_requested :: u32

record val_retries =
  meta_retries :: u8
  data_retries :: u8
  ack_retries :: u8
  handshake_retries :: u8
  backoff_ms_base :: u32

text \<open>A buffer pointer of the configuration, with the memory it points to.\<close>

record val_buffers =
  send_buffer :: "u8 list option"
  recv_buffer :: "u8 list option"
  packet_size :: size_t

datatype val_resume_mode_t = VAL_RESUME_NEVER | VAL_RESUME_SKIP_EXISTING | VAL_RESUME_TAIL

record val_resume_config_t =
  rc_mode :: val_resume_mode_t
  rc_tail_cap_bytes :: u32
  rc_min_verify_bytes :: u32
  rc_mismatch_skip :: bool

text \<open>The allocator hooks: \<^verbatim>\<open>alloc\<close> says whether the pointer is not NULL.\<close>

record 'w val_tx_flow_config_t =
  window_cap_packets :: u16
  initial_cwnd_packets :: u16
  retransmit_cache_enabled :: bool
  degrade_error_threshold :: u16
  recovery_success_threshold :: u16
  al_alloc :: "('w \<Rightarrow> size_t \<Rightarrow> bool \<times> 'w) option"
  al_free :: "('w \<Rightarrow> 'w) option"

record val_progress_info_t =
  pi_bytes_transferred :: u64
  pi_total_bytes :: u64
  pi_current_file_bytes :: u64
  pi_files_completed :: u32
  pi_total_files :: u32
  pi_transfer_rate_bps :: u32
  pi_eta_seconds :: u32
  pi_current_filename :: cstr

text \<open>
  The progress callback may ask for the session to be cancelled, as the applications do by calling
  \<^verbatim>\<open>val_emergency_cancel\<close> from it: its first result.
\<close>

record 'w val_callbacks =
  on_file_start :: "('w \<Rightarrow> cstr \<Rightarrow> cstr \<Rightarrow> u64 \<Rightarrow> u64 \<Rightarrow> 'w) option"
  on_file_complete :: "('w \<Rightarrow> cstr \<Rightarrow> cstr \<Rightarrow> val_status_t \<Rightarrow> 'w) option"
  on_progress :: "('w \<Rightarrow> val_progress_info_t \<Rightarrow> bool \<times> 'w) option"

text \<open>Any value the validator returns that is no enumerator is \<open>VAL_VALIDATION_OTHER\<close>.\<close>

datatype val_validation_action_t =
    VAL_VALIDATION_ACCEPT | VAL_VALIDATION_SKIP | VAL_VALIDATION_ABORT | VAL_VALIDATION_OTHER

type_synonym 'w val_metadata_validator_t =
  "'w \<Rightarrow> val_meta_payload_t \<Rightarrow> cstr \<Rightarrow> val_validation_action_t \<times> 'w"

datatype val_packet_direction_t = VAL_DIR_TX | VAL_DIR_RX

record val_packet_record_t =
  pr_direction :: val_packet_direction_t
  pr_type :: u8
  pr_wire_len :: u32
  pr_payload_len :: u32
  pr_offset :: u64
  pr_crc_ok :: bool
  pr_timestamp_ms :: u32

record 'w val_config =
  transport :: "'w val_transport"
  filesystem :: "'w val_filesystem"
  crc32_provider :: "(u32 \<Rightarrow> u8 list \<Rightarrow> u32) option"
  system :: "'w val_system"
  timeouts :: val_timeouts
  features :: val_features
  retries :: val_retries
  buffers :: val_buffers
  resume :: val_resume_config_t
  tx_flow :: "'w val_tx_flow_config_t"
  callbacks :: "'w val_callbacks"
  validator :: "'w val_metadata_validator_t option"
  capture :: "('w \<Rightarrow> val_packet_record_t \<Rightarrow> 'w) option"
  debug_min_level :: int

section \<open>Session\<close>

record val_timing_t =
  srtt_ms :: u32
  rttvar_ms :: u32
  min_timeout_ms :: u32
  max_timeout_ms :: u32
  samples_taken :: u8
  in_retransmit :: u8

record val_inflight_packet_t =
  sequence :: u32
  file_offset :: u64
  payload_length :: u32
  send_timestamp :: u32
  retransmit_count :: u8
  state :: u8

record val_health_t =
  operations :: u32
  health_retries :: u32
  soft_trips :: u32

record val_metrics_t =
  packets_sent :: u64
  packets_recv :: u64
  bytes_sent :: u64
  bytes_recv :: u64
  send_by_type :: "u64 list"
  recv_by_type :: "u64 list"
  timeouts_soft :: u32
  timeouts_hard :: u32
  retransmits :: u32
  crc_errors :: u32
  handshakes :: u32
  files_sent :: u32
  files_recv :: u32
  rtt_samples :: u32

text \<open>The compile-time switches.\<close>

record val_build =
  enable_metrics :: bool
  build_diagnostics :: bool

record 'w val_session =
  build :: val_build
  cfg :: "'w val_config"
  output_directory :: cstr
  seq_counter :: u32
  effective_packet_size :: size_t
  handshake_done :: bool
  peer_features :: u32
  timing :: val_timing_t
  last_error :: val_error_t
  negotiated_window_packets :: u16
  current_window_packets :: u16
  peer_tx_window_packets :: u16
  ack_stride_packets :: u16
  consecutive_errors :: u32
  consecutive_successes :: u32
  packets_since_mode_change :: u32
  packets_in_flight :: u32
  next_seq_to_send :: u32
  oldest_unacked_seq :: u32
  tracking_slots :: "val_inflight_packet_t list"
  max_tracking_slots :: u32
  current_file_handle :: "nat option"
  current_file_position :: u64
  total_file_size :: u64
  last_keepalive_send_time :: u32
  last_keepalive_recv_time :: u32
  health :: val_health_t
  metrics :: val_metrics_t
  lock_depth :: nat
  send_buf :: "u8 list"
  recv_buf :: "u8 list"
  world :: 'w

section \<open>Locking, errors, hooks\<close>

definition val_internal_lock :: "'w val_session \<Rightarrow> 'w val_session" where [sess_defs]:
  "val_internal_lock s = s\<lparr>lock_depth := lock_depth s + 1\<rparr>"

definition val_internal_unlock :: "'w val_session \<Rightarrow> 'w val_session" where [sess_defs]:
  "val_internal_unlock s = s\<lparr>lock_depth := lock_depth s - 1\<rparr>"

definition val_internal_set_last_error_full ::
    "'w val_session \<Rightarrow> val_status_t \<Rightarrow> u32 \<Rightarrow> string \<Rightarrow> 'w val_session" where [sess_defs]:
  "val_internal_set_last_error_full s code detail opname =
     s\<lparr>last_error := \<lparr>err_code = code, err_detail = detail, err_op = Some opname\<rparr>\<rparr>"

definition val_internal_set_last_error ::
    "'w val_session \<Rightarrow> val_status_t \<Rightarrow> u32 \<Rightarrow> 'w val_session" where [sess_defs]:
  "val_internal_set_last_error s code detail =
     val_internal_set_last_error_full s code detail ''val_internal_set_last_error''"

definition val_internal_set_error_detailed ::
    "'w val_session \<Rightarrow> val_status_t \<Rightarrow> u32 \<Rightarrow> 'w val_session" where [sess_defs]:
  "val_internal_set_error_detailed s code detail =
     val_internal_set_last_error_full s code detail ''val_internal_set_error_detailed''"

abbreviation (input) VAL_SET_NETWORK_ERROR :: "'w val_session \<Rightarrow> u32 \<Rightarrow> 'w val_session" where
  "VAL_SET_NETWORK_ERROR s d \<equiv> val_internal_set_error_detailed s VAL_ERR_IO d"
abbreviation (input) VAL_SET_CRC_ERROR :: "'w val_session \<Rightarrow> u32 \<Rightarrow> 'w val_session" where
  "VAL_SET_CRC_ERROR s d \<equiv> val_internal_set_error_detailed s VAL_ERR_CRC d"
abbreviation (input) VAL_SET_TIMEOUT_ERROR :: "'w val_session \<Rightarrow> u32 \<Rightarrow> 'w val_session" where
  "VAL_SET_TIMEOUT_ERROR s d \<equiv> val_internal_set_error_detailed s VAL_ERR_TIMEOUT d"
abbreviation (input) VAL_SET_PROTOCOL_ERROR :: "'w val_session \<Rightarrow> u32 \<Rightarrow> 'w val_session" where
  "VAL_SET_PROTOCOL_ERROR s d \<equiv> val_internal_set_error_detailed s VAL_ERR_PROTOCOL d"
abbreviation (input) VAL_SET_FEATURE_ERROR :: "'w val_session \<Rightarrow> u32 \<Rightarrow> 'w val_session" where
  "VAL_SET_FEATURE_ERROR s m \<equiv>
     val_internal_set_error_detailed s VAL_ERR_FEATURE_NEGOTIATION (VAL_SET_MISSING_FEATURE m)"
abbreviation (input) VAL_SET_PERFORMANCE_ERROR :: "'w val_session \<Rightarrow> u32 \<Rightarrow> 'w val_session" where
  "VAL_SET_PERFORMANCE_ERROR s d \<equiv> val_internal_set_error_detailed s VAL_ERR_PERFORMANCE d"

definition val_check_for_cancel :: "'w val_session \<Rightarrow> bool" where
  "val_check_for_cancel s \<longleftrightarrow> err_code (last_error s) = VAL_ERR_ABORTED"

text \<open>\<^verbatim>\<open>ticks_fn ? ticks_fn() : 0u\<close> and \<^verbatim>\<open>if (delay_ms) delay_ms(ms)\<close>.\<close>

definition ticks :: "'w val_session \<Rightarrow> u32 \<times> 'w val_session" where [hook_defs]:
  "ticks s = (case sys_get_ticks_ms (system (cfg s)) of
       None \<Rightarrow> (0, s)
     | Some f \<Rightarrow> (case f (world s) of (t, w) \<Rightarrow> (t, s\<lparr>world := w\<rparr>)))"

definition delay :: "u32 \<Rightarrow> 'w val_session \<Rightarrow> 'w val_session" where [hook_defs]:
  "delay ms s = (case sys_delay_ms (system (cfg s)) of
       None \<Rightarrow> s
     | Some f \<Rightarrow> s\<lparr>world := f (world s) ms\<rparr>)"

definition val_internal_transport_is_connected :: "'w val_session \<Rightarrow> bool \<times> 'w val_session" where [hook_defs]:
  "val_internal_transport_is_connected s = (case tr_is_connected (transport (cfg s)) of
       None \<Rightarrow> (True, s)
     | Some f \<Rightarrow> (case f (world s) of (r, w) \<Rightarrow> (r \<noteq> 0, s\<lparr>world := w\<rparr>)))"

definition val_internal_transport_flush :: "'w val_session \<Rightarrow> 'w val_session" where [hook_defs]:
  "val_internal_transport_flush s = (case tr_flush (transport (cfg s)) of
       None \<Rightarrow> s
     | Some f \<Rightarrow> s\<lparr>world := f (world s)\<rparr>)"

definition val_internal_crc32 :: "'w val_session \<Rightarrow> u8 list \<Rightarrow> u32" where
  "val_internal_crc32 s data = (case crc32_provider (cfg s) of
       Some f \<Rightarrow> f 0xFFFFFFFF data
     | None \<Rightarrow> val_crc32 data)"

text \<open>\<^verbatim>\<open>s->effective_packet_size ? s->effective_packet_size : s->config->buffers.packet_size\<close>.\<close>

definition mtu :: "'w val_session \<Rightarrow> size_t" where
  "mtu s = (if effective_packet_size s \<noteq> 0 then effective_packet_size s else packet_size (buffers (cfg s)))"

text \<open>The backoff helper: delay, double up to four seconds, one retry less.\<close>

definition val_internal_backoff_step ::
    "'w val_session \<Rightarrow> u32 \<Rightarrow> u8 \<Rightarrow> u32 \<times> u8 \<times> 'w val_session" where
  "val_internal_backoff_step s backoff_ms tries =
     (if tries = 0 then (backoff_ms, tries, s)
      else
        let s = (if backoff_ms \<noteq> 0 then delay backoff_ms s else s);
            nxt = (if backoff_ms = 0 then 0 else push_bit 1 backoff_ms);
            nxt = (if nxt > 4000 then 4000 else nxt)
        in (nxt, tries - 1, s))"

section \<open>Metrics and health\<close>

text \<open>All counters are no-ops in a build without metrics.\<close>

definition upd_metrics :: "(val_metrics_t \<Rightarrow> val_metrics_t) \<Rightarrow> 'w val_session \<Rightarrow> 'w val_session" where [sess_defs]:
  "upd_metrics f s = (if enable_metrics (build s) then s\<lparr>metrics := f (metrics s)\<rparr> else s)"

definition val_metrics_inc_timeout :: "'w val_session \<Rightarrow> 'w val_session" where [sess_defs]:
  "val_metrics_inc_timeout s = upd_metrics (\<lambda>m. m\<lparr>timeouts_soft := timeouts_soft m + 1\<rparr>) s"

definition val_metrics_inc_timeout_hard :: "'w val_session \<Rightarrow> 'w val_session" where [sess_defs]:
  "val_metrics_inc_timeout_hard s =
     upd_metrics (\<lambda>m. m\<lparr>timeouts_soft := timeouts_soft m + 1, timeouts_hard := timeouts_hard m + 1\<rparr>) s"

definition val_metrics_inc_retrans :: "'w val_session \<Rightarrow> 'w val_session" where [sess_defs]:
  "val_metrics_inc_retrans s = upd_metrics (\<lambda>m. m\<lparr>retransmits := retransmits m + 1\<rparr>) s"

definition val_metrics_inc_crcerr :: "'w val_session \<Rightarrow> 'w val_session" where [sess_defs]:
  "val_metrics_inc_crcerr s = upd_metrics (\<lambda>m. m\<lparr>crc_errors := crc_errors m + 1\<rparr>) s"

definition val_metrics_inc_rtt_sample :: "'w val_session \<Rightarrow> 'w val_session" where [sess_defs]:
  "val_metrics_inc_rtt_sample s = upd_metrics (\<lambda>m. m\<lparr>rtt_samples := rtt_samples m + 1\<rparr>) s"

definition val_metrics_note_handshake :: "'w val_session \<Rightarrow> 'w val_session" where [sess_defs]:
  "val_metrics_note_handshake s = upd_metrics (\<lambda>m. m\<lparr>handshakes := handshakes m + 1\<rparr>) s"

definition val_metrics_inc_files_sent :: "'w val_session \<Rightarrow> 'w val_session" where [sess_defs]:
  "val_metrics_inc_files_sent s = upd_metrics (\<lambda>m. m\<lparr>files_sent := files_sent m + 1\<rparr>) s"

definition val_metrics_inc_files_recv :: "'w val_session \<Rightarrow> 'w val_session" where [sess_defs]:
  "val_metrics_inc_files_recv s = upd_metrics (\<lambda>m. m\<lparr>files_recv := files_recv m + 1\<rparr>) s"

definition bump :: "u64 list \<Rightarrow> u8 \<Rightarrow> u64 list" where
  "bump xs t = (let i = unat (t AND 31) in xs[i := xs ! i + 1])"

definition val_metrics_add_sent :: "'w val_session \<Rightarrow> size_t \<Rightarrow> u8 \<Rightarrow> 'w val_session" where [sess_defs]:
  "val_metrics_add_sent s n t =
     upd_metrics (\<lambda>m. m\<lparr>packets_sent := packets_sent m + 1, bytes_sent := bytes_sent m + n,
                        send_by_type := bump (send_by_type m) t\<rparr>) s"

definition val_metrics_add_recv :: "'w val_session \<Rightarrow> size_t \<Rightarrow> u8 \<Rightarrow> 'w val_session" where [sess_defs]:
  "val_metrics_add_recv s n t =
     upd_metrics (\<lambda>m. m\<lparr>packets_recv := packets_recv m + 1, bytes_recv := bytes_recv m + n,
                        recv_by_type := bump (recv_by_type m) t\<rparr>) s"

definition VAL_HEALTH_RECORD_OPERATION :: "'w val_session \<Rightarrow> 'w val_session" where [sess_defs]:
  "VAL_HEALTH_RECORD_OPERATION s =
     (if build_diagnostics (build s)
      then s\<lparr>health := (health s)\<lparr>operations := operations (health s) + 1\<rparr>\<rparr> else s)"

definition VAL_HEALTH_RECORD_RETRY :: "'w val_session \<Rightarrow> 'w val_session" where [sess_defs]:
  "VAL_HEALTH_RECORD_RETRY s =
     (if build_diagnostics (build s)
      then s\<lparr>health := (health s)\<lparr>health_retries := health_retries (health s) + 1\<rparr>\<rparr> else s)"

definition val_internal_check_health :: "'w val_session \<Rightarrow> val_status_t \<times> 'w val_session" where
  "val_internal_check_health s =
     (if \<not> build_diagnostics (build s) then (VAL_OK, s)
      else
        let attempts = operations (health s) + health_retries (health s) in
        if attempts < 64 then (VAL_OK, s)
        else if health_retries (health s) \<ge> 8 \<and> health_retries (health s) * 2 > attempts
        then (VAL_ERR_PERFORMANCE, VAL_SET_PERFORMANCE_ERROR s VAL_ERROR_DETAIL_EXCESSIVE_RETRIES)
        else (VAL_OK, s))"

section \<open>Adaptive timeouts\<close>

definition val_sanitize_timeouts_pair :: "u32 \<Rightarrow> u32 \<Rightarrow> u32 \<times> u32" where
  "val_sanitize_timeouts_pair in_min in_max =
     (let min_to = (if in_min \<noteq> 0 then in_min else 200);
          max_to = (if in_max \<noteq> 0 then in_max else 8000)
      in if min_to > max_to then (max_to, min_to) else (min_to, max_to))"

definition val_sanitize_timeouts_cfg :: "'w val_config option \<Rightarrow> u32 \<times> u32" where
  "val_sanitize_timeouts_cfg c =
     (let in_min = (case c of None \<Rightarrow> 200 | Some c \<Rightarrow> to_min_timeout_ms (timeouts c));
          in_max = (case c of None \<Rightarrow> 8000 | Some c \<Rightarrow> to_max_timeout_ms (timeouts c))
      in val_sanitize_timeouts_pair in_min in_max)"

definition val_internal_init_timing :: "'w val_session \<Rightarrow> 'w val_session" where
  "val_internal_init_timing s =
     (let (min_to, max_to) = val_sanitize_timeouts_cfg (Some (cfg s)) in
      s\<lparr>timing := \<lparr>srtt_ms = max_to div 2, rttvar_ms = max_to div 4, min_timeout_ms = min_to,
                   max_timeout_ms = max_to, samples_taken = 0, in_retransmit = 0\<rparr>\<rparr>)"

definition val__clamp_u32 :: "u32 \<Rightarrow> u32 \<Rightarrow> u32 \<Rightarrow> u32" where
  "val__clamp_u32 v lo hi = (if v < lo then lo else if v > hi then hi else v)"

definition val_internal_record_rtt :: "'w val_session \<Rightarrow> u32 \<Rightarrow> 'w val_session" where
  "val_internal_record_rtt s measured_rtt_ms =
     (if in_retransmit (timing s) \<noteq> 0 then s
      else
        let rtt = (if measured_rtt_ms = 0 then 1 else measured_rtt_ms) in
        if samples_taken (timing s) = 0 then
          val_metrics_inc_rtt_sample
            (s\<lparr>timing := (timing s)\<lparr>srtt_ms := rtt, rttvar_ms := rtt div 2, samples_taken := 1\<rparr>\<rparr>)
        else
          let srtt = srtt_ms (timing s);
              rttvar = rttvar_ms (timing s);
              diff = (if srtt > rtt then srtt - rtt else rtt - srtt);
              rttvar = ucast (drop_bit 2 (3 * (ucast rttvar :: u64) + ucast diff));
              srtt = ucast (drop_bit 3 (7 * (ucast srtt :: u64) + ucast rtt));
              n = samples_taken (timing s);
              n = (if n < 0xFF then n + 1 else n)
          in val_metrics_inc_rtt_sample
               (s\<lparr>timing := (timing s)\<lparr>rttvar_ms := rttvar, srtt_ms := srtt, samples_taken := n\<rparr>\<rparr>))"

datatype val_operation_type_t =
    VAL_OP_HANDSHAKE | VAL_OP_META | VAL_OP_DATA_ACK | VAL_OP_VERIFY | VAL_OP_DONE_ACK
  | VAL_OP_EOT_ACK | VAL_OP_DATA_RECV

fun op_mul :: "val_operation_type_t \<Rightarrow> u32" where
  "op_mul VAL_OP_HANDSHAKE = 5"
| "op_mul VAL_OP_META = 4"
| "op_mul VAL_OP_DATA_ACK = 3"
| "op_mul VAL_OP_VERIFY = 3"
| "op_mul VAL_OP_DONE_ACK = 4"
| "op_mul VAL_OP_EOT_ACK = 4"
| "op_mul VAL_OP_DATA_RECV = 6"

definition val_internal_get_timeout :: "'w val_session \<Rightarrow> val_operation_type_t \<Rightarrow> u32" where
  "val_internal_get_timeout s opk =
     (let base = (ucast (srtt_ms (timing s)) :: u64) + 4 * ucast (rttvar_ms (timing s));
          rto = base * ucast (op_mul opk);
          rto = (if rto > 0xFFFFFFFF then 0xFFFFFFFF else rto);
          rto32 = ucast rto;
          (min_to, max_to) = val_sanitize_timeouts_pair (min_timeout_ms (timing s)) (max_timeout_ms (timing s))
      in val__clamp_u32 rto32 min_to max_to)"

section \<open>Congestion window\<close>

definition zero_slot :: val_inflight_packet_t where
  "zero_slot = \<lparr>sequence = 0, file_offset = 0, payload_length = 0, send_timestamp = 0,
     retransmit_count = 0, state = 0\<rparr>"

definition clear_slots :: "'w val_session \<Rightarrow> 'w val_session" where [sess_defs]:
  "clear_slots s = s\<lparr>tracking_slots := replicate (unat (max_tracking_slots s)) zero_slot\<rparr>"

definition val_internal_record_transmission_error :: "'w val_session \<Rightarrow> 'w val_session" where
  "val_internal_record_transmission_error s =
     (let s = s\<lparr>consecutive_errors := consecutive_errors s + 1\<rparr>;
          s = s\<lparr>consecutive_successes := 0\<rparr>;
          threshold = degrade_error_threshold (tx_flow (cfg s));
          threshold = (if threshold = 0 then 3 else threshold)
      in if consecutive_errors s \<ge> ucast threshold then
           let cur = (if current_window_packets s \<noteq> 0 then current_window_packets s else 1);
               new_w = cur div 2;
               new_w = (if new_w < 1 then 1 else new_w)
           in if new_w \<noteq> cur then
                clear_slots (s\<lparr>current_window_packets := new_w, consecutive_errors := 0,
                               packets_since_mode_change := 0\<rparr>)
              else s
         else s)"

definition val_internal_record_transmission_success :: "'w val_session \<Rightarrow> 'w val_session" where
  "val_internal_record_transmission_success s =
     (let s = s\<lparr>consecutive_successes := consecutive_successes s + 1\<rparr>;
          s = s\<lparr>consecutive_errors := 0\<rparr>;
          threshold = recovery_success_threshold (tx_flow (cfg s));
          threshold = (if threshold = 0 then 10 else threshold)
      in if consecutive_successes s \<ge> ucast threshold then
           let cur = (if current_window_packets s \<noteq> 0 then current_window_packets s else 1);
               cap = (if negotiated_window_packets s \<noteq> 0 then negotiated_window_packets s else cur)
           in if cur < cap then
                let new_w = cur + 1;
                    new_w = (if new_w > cap then cap else new_w)
                in if new_w \<noteq> cur then
                     clear_slots (s\<lparr>current_window_packets := new_w, consecutive_successes := 1,
                                    packets_since_mode_change := 0\<rparr>)
                   else s
              else s
         else s)"

section \<open>Session life cycle\<close>

text \<open>What session creation uses of the C library.\<close>

record 'w libc =
  libc_calloc :: "'w \<Rightarrow> size_t \<Rightarrow> bool \<times> 'w"
  libc_free :: "'w \<Rightarrow> 'w"
  sizeof_session :: size_t
  sizeof_inflight :: size_t

definition session_alloc :: "'w libc \<Rightarrow> 'w val_tx_flow_config_t \<Rightarrow> size_t \<Rightarrow> 'w \<Rightarrow> bool \<times> 'w" where
  "session_alloc lib A n w = (case (al_alloc A, al_free A) of
       (Some alloc, Some _) \<Rightarrow> alloc w n
     | _ \<Rightarrow> libc_calloc lib w n)"

definition session_free :: "'w libc \<Rightarrow> 'w val_tx_flow_config_t \<Rightarrow> 'w \<Rightarrow> 'w" where
  "session_free lib A w = (case (al_alloc A, al_free A) of
       (Some _, Some free) \<Rightarrow> free w
     | _ \<Rightarrow> libc_free lib w)"

definition val_session_destroy :: "'w libc \<Rightarrow> 'w val_session option \<Rightarrow> 'w \<Rightarrow> 'w" where
  "val_session_destroy lib session w = (case session of
       None \<Rightarrow> w
     | Some s \<Rightarrow> session_free lib (tx_flow (cfg s)) (session_free lib (tx_flow (cfg s)) (world s)))"

definition zero_metrics :: val_metrics_t where
  "zero_metrics = \<lparr>packets_sent = 0, packets_recv = 0, bytes_sent = 0, bytes_recv = 0,
     send_by_type = replicate 32 0, recv_by_type = replicate 32 0, timeouts_soft = 0, timeouts_hard = 0,
     retransmits = 0, crc_errors = 0, handshakes = 0, files_sent = 0, files_recv = 0, rtt_samples = 0\<rparr>"

text \<open>The missing-hook test and the clamping of the handshake budget.\<close>

definition config_missing :: "'w val_config \<Rightarrow> bool" where
  "config_missing c \<longleftrightarrow>
     tr_send (transport c) = None \<or> tr_recv (transport c) = None \<or>
     sys_get_ticks_ms (system c) = None \<or> sys_delay_ms (system c) = None \<or>
     send_buffer (buffers c) = None \<or> recv_buffer (buffers c) = None \<or> packet_size (buffers c) = 0"

definition clamp_budget :: "val_timeouts \<Rightarrow> val_timeouts" where
  "clamp_budget t =
     (let t = (if to_handshake_budget_ms t = 0 then t\<lparr>to_handshake_budget_ms := 7000\<rparr> else t);
          t = (if to_min_timeout_ms t \<noteq> 0 \<and> to_handshake_budget_ms t < to_min_timeout_ms t
               then t\<lparr>to_handshake_budget_ms := to_min_timeout_ms t\<rparr> else t);
          t = (if to_max_timeout_ms t \<noteq> 0 \<and> to_handshake_budget_ms t > to_max_timeout_ms t * 4
               then t\<lparr>to_handshake_budget_ms := to_max_timeout_ms t * 4\<rparr> else t)
      in t)"

text \<open>The state \<^verbatim>\<open>val_session_create\<close> sets up between its two allocations, with logging level 0.\<close>

definition session_init :: "val_build \<Rightarrow> 'w val_config \<Rightarrow> 'w \<Rightarrow> 'w val_session" where
  "session_init b c w =
     (let s = \<lparr>build = b, cfg = c, output_directory = [], seq_counter = 0, effective_packet_size = 0,
               handshake_done = False, peer_features = 0,
               timing = \<lparr>srtt_ms = 0, rttvar_ms = 0, min_timeout_ms = 0, max_timeout_ms = 0,
                         samples_taken = 0, in_retransmit = 0\<rparr>,
               last_error = \<lparr>err_code = VAL_OK, err_detail = 0, err_op = None\<rparr>,
               negotiated_window_packets = 1, current_window_packets = 1, peer_tx_window_packets = 1,
               ack_stride_packets = 0, consecutive_errors = 0, consecutive_successes = 0,
               packets_since_mode_change = 0, packets_in_flight = 0, next_seq_to_send = 0,
               oldest_unacked_seq = 0, tracking_slots = [], max_tracking_slots = 0,
               current_file_handle = None, current_file_position = 0, total_file_size = 0,
               last_keepalive_send_time = 0, last_keepalive_recv_time = 0,
               health = \<lparr>operations = 0, health_retries = 0, soft_trips = 0\<rparr>,
               metrics = zero_metrics, lock_depth = 0,
               send_buf = the (send_buffer (buffers c)), recv_buf = the (recv_buffer (buffers c)),
               world = w\<rparr>;
          s = val_internal_init_timing s;
          s = s\<lparr>effective_packet_size := packet_size (buffers (cfg s))\<rparr>;
          s = s\<lparr>cfg := (cfg s)\<lparr>timeouts := clamp_budget (timeouts (cfg s))\<rparr>\<rparr>;
          s = (if window_cap_packets (tx_flow (cfg s)) \<noteq> 0
               then s\<lparr>max_tracking_slots := ucast (window_cap_packets (tx_flow (cfg s)))\<rparr>
               else s\<lparr>max_tracking_slots := 64\<rparr>);
          s = (if max_tracking_slots s = 0 then s\<lparr>max_tracking_slots := 1\<rparr> else s)
      in s)"

text \<open>
  \<^verbatim>\<open>val_session_create\<close>; the results are the status, the session stored through \<^verbatim>\<open>out_session\<close>, the
  detail mask and the world. \<open>have_out\<close> says that \<^verbatim>\<open>out_session\<close> is not NULL.
\<close>

definition val_session_create ::
    "val_build \<Rightarrow> 'w libc \<Rightarrow> 'w val_config option \<Rightarrow> bool \<Rightarrow> 'w \<Rightarrow>
     val_status_t \<times> 'w val_session option \<times> u32 \<times> 'w" where
  "val_session_create b lib config have_out w =
     (case config of
        None \<Rightarrow> (VAL_ERR_INVALID_ARG, None, 0, w)
      | Some c \<Rightarrow>
          if \<not> have_out then (VAL_ERR_INVALID_ARG, None, 0, w)
          else if config_missing c then (VAL_ERR_INVALID_ARG, None, VAL_SET_MISSING_HOOKS, w)
          else if packet_size (buffers c) < VAL_MIN_PACKET_SIZE \<or> packet_size (buffers c) > VAL_MAX_PACKET_SIZE
          then (VAL_ERR_PACKET_SIZE_MISMATCH, None, VAL_ERROR_DETAIL_PACKET_SIZE, w)
          else
            let A = tx_flow c;
                (ok, w) = session_alloc lib A (sizeof_session lib) w
            in if \<not> ok then (VAL_ERR_NO_MEMORY, None, 0, w)
               else
                 let s = session_init b c w;
                     tsz = sizeof_inflight lib * ucast (max_tracking_slots s);
                     (ok, w) = session_alloc lib A tsz (world s)
                 in if \<not> ok then (VAL_ERR_NO_MEMORY, None, 0, session_free lib A w)
                    else
                      let s = clear_slots (s\<lparr>world := w\<rparr>)
                      in (VAL_OK, Some s, 0, w))"

section \<open>Public accessors\<close>

text \<open>A NULL session is \<open>None\<close>; \<open>have_out\<close> says that the output pointer is not NULL.\<close>

definition val_get_last_error ::
    "'w val_session option \<Rightarrow> val_status_t \<times> (val_status_t \<times> u32) option" where
  "val_get_last_error session = (case session of
       None \<Rightarrow> (VAL_ERR_INVALID_ARG, None)
     | Some s \<Rightarrow> (VAL_OK, Some (err_code (last_error s), err_detail (last_error s))))"

definition val_get_error :: "'w val_session option \<Rightarrow> bool \<Rightarrow> val_status_t \<times> val_error_t option" where
  "val_get_error session have_out = (case session of
       None \<Rightarrow> (VAL_ERR_INVALID_ARG, None)
     | Some s \<Rightarrow> if \<not> have_out then (VAL_ERR_INVALID_ARG, None) else (VAL_OK, Some (last_error s)))"

definition val_get_cwnd_packets :: "'w val_session option \<Rightarrow> bool \<Rightarrow> val_status_t \<times> u32 option" where
  "val_get_cwnd_packets session have_out = (case session of
       None \<Rightarrow> (VAL_ERR_INVALID_ARG, None)
     | Some s \<Rightarrow> if \<not> have_out then (VAL_ERR_INVALID_ARG, None)
         else (VAL_OK, Some (if current_window_packets s \<noteq> 0 then ucast (current_window_packets s) else 1)))"

definition val_get_peer_tx_cap_packets :: "'w val_session option \<Rightarrow> bool \<Rightarrow> val_status_t \<times> u32 option" where
  "val_get_peer_tx_cap_packets session have_out = (case session of
       None \<Rightarrow> (VAL_ERR_INVALID_ARG, None)
     | Some s \<Rightarrow> if \<not> have_out then (VAL_ERR_INVALID_ARG, None)
         else (VAL_OK, Some (if peer_tx_window_packets s \<noteq> 0 then ucast (peer_tx_window_packets s) else 1)))"

definition val_get_effective_packet_size :: "'w val_session option \<Rightarrow> bool \<Rightarrow> val_status_t \<times> size_t option" where
  "val_get_effective_packet_size session have_out = (case session of
       None \<Rightarrow> (VAL_ERR_INVALID_ARG, None)
     | Some s \<Rightarrow> if \<not> have_out then (VAL_ERR_INVALID_ARG, None) else (VAL_OK, Some (mtu s)))"

definition val_get_metrics :: "'w val_session option \<Rightarrow> bool \<Rightarrow> val_status_t \<times> val_metrics_t option" where
  "val_get_metrics session have_out = (case session of
       None \<Rightarrow> (VAL_ERR_INVALID_ARG, None)
     | Some s \<Rightarrow> if \<not> have_out then (VAL_ERR_INVALID_ARG, None) else (VAL_OK, Some (metrics s)))"

definition val_reset_metrics :: "'w val_session option \<Rightarrow> val_status_t \<times> 'w val_session option" where
  "val_reset_metrics session = (case session of
       None \<Rightarrow> (VAL_ERR_INVALID_ARG, None)
     | Some s \<Rightarrow> (VAL_OK, Some (s\<lparr>metrics := zero_metrics\<rparr>)))"

definition val_config_validation_disabled :: "'w val_config option \<Rightarrow> 'w val_config option" where
  "val_config_validation_disabled config = map_option (\<lambda>c. c\<lparr>validator := None\<rparr>) config"

definition val_config_set_validator ::
    "'w val_config option \<Rightarrow> 'w val_metadata_validator_t option \<Rightarrow> 'w val_config option" where
  "val_config_set_validator config v = map_option (\<lambda>c. c\<lparr>validator := v\<rparr>) config"

definition VAL_BUILTIN_FEATURES :: u32 where
  "VAL_BUILTIN_FEATURES = 0"

definition val_get_builtin_features :: u32 where
  "val_get_builtin_features = VAL_BUILTIN_FEATURES"

section \<open>A reference environment\<close>

text \<open>
  A small concrete world used to instantiate theorems at a concrete input: a clock, the bytes
  that wait to be received and the bytes that were sent. It behaves as the hook documentation
  asks: \<open>recv\<close> stores at most the requested bytes, and when there are none it lets the whole timeout
  pass.
\<close>

record bed =
  bed_clock :: u32
  bed_rx :: "u8 list"
  bed_tx :: "u8 list"

definition bed_send :: "bed \<Rightarrow> u8 list \<Rightarrow> int \<times> bed" where
  "bed_send w data = (int (length data), w\<lparr>bed_tx := bed_tx w @ data\<rparr>)"

definition bed_recv :: "bed \<Rightarrow> size_t \<Rightarrow> u32 \<Rightarrow> int \<times> u8 list \<times> bed" where
  "bed_recv w n to_ms =
     (if bed_rx w = [] then (0, [], w\<lparr>bed_clock := bed_clock w + to_ms\<rparr>)
      else (0, take (unat n) (bed_rx w), w\<lparr>bed_rx := drop (unat n) (bed_rx w)\<rparr>))"

definition bed_config :: "bed val_config" where
  "bed_config =
    \<lparr>transport = \<lparr>tr_send = Some bed_send, tr_recv = Some bed_recv, tr_is_connected = None, tr_flush = None\<rparr>,
     filesystem = \<lparr>fs_fopen = None, fs_fread = None, fs_fwrite = None, fs_fseek = None, fs_ftell = None, fs_fclose = None\<rparr>,
     crc32_provider = None,
     system = \<lparr>sys_get_ticks_ms = Some (\<lambda>w. (bed_clock w, w)),
               sys_delay_ms = Some (\<lambda>w ms. w\<lparr>bed_clock := bed_clock w + ms\<rparr>)\<rparr>,
     timeouts = \<lparr>to_min_timeout_ms = 100, to_max_timeout_ms = 2000, to_handshake_budget_ms = 0\<rparr>,
     features = \<lparr>feat_required = 0, feat_requested = 0\<rparr>,
     retries = \<lparr>meta_retries = 2, data_retries = 2, ack_retries = 2, handshake_retries = 2, backoff_ms_base = 10\<rparr>,
     buffers = \<lparr>send_buffer = Some (replicate 512 0), recv_buffer = Some (replicate 512 0), packet_size = 512\<rparr>,
     resume = \<lparr>rc_mode = VAL_RESUME_NEVER, rc_tail_cap_bytes = 0, rc_min_verify_bytes = 0, rc_mismatch_skip = False\<rparr>,
     tx_flow = \<lparr>window_cap_packets = 8, initial_cwnd_packets = 0, retransmit_cache_enabled = False,
                degrade_error_threshold = 0, recovery_success_threshold = 0, al_alloc = None, al_free = None\<rparr>,
     callbacks = \<lparr>on_file_start = None, on_file_complete = None, on_progress = None\<rparr>,
     validator = None, capture = None, debug_min_level = 0\<rparr>"

definition bed_build :: val_build where
  "bed_build = \<lparr>enable_metrics = True, build_diagnostics = False\<rparr>"

definition bed_world :: bed where
  "bed_world = \<lparr>bed_clock = 1000, bed_rx = [], bed_tx = []\<rparr>"

definition bed_libc :: "bed libc" where
  "bed_libc = \<lparr>libc_calloc = \<lambda>w n. (True, w), libc_free = \<lambda>w. w, sizeof_session = 1024, sizeof_inflight = 32\<rparr>"

definition bed_session :: "bed val_session" where
  "bed_session = clear_slots (session_init bed_build bed_config bed_world)"

lemmas bed_defs = bed_session_def bed_config_def bed_build_def bed_world_def bed_libc_def

lemma bed_session_timing:
  "timing bed_session = \<lparr>srtt_ms = 1000, rttvar_ms = 500, min_timeout_ms = 100, max_timeout_ms = 2000,
     samples_taken = 0, in_retransmit = 0\<rparr>"
  by (simp add: bed_defs session_init_def sess_defs Let_def val_internal_init_timing_def
      val_sanitize_timeouts_cfg_def val_sanitize_timeouts_pair_def clamp_budget_def)

lemma bed_session_cfg:
  "cfg bed_session = bed_config\<lparr>timeouts := clamp_budget (timeouts bed_config)\<rparr>"
  by (simp add: bed_session_def session_init_def sess_defs Let_def val_internal_init_timing_def split: prod.splits)

section \<open>Adaptive timeouts: properties\<close>

lemma sanitize_bounds:
  "val_sanitize_timeouts_pair a b = (lo, hi) \<Longrightarrow> 0 < lo \<and> lo \<le> hi"
  by (auto simp: val_sanitize_timeouts_pair_def Let_def word_neq_0_conv split: if_splits)

lemma sanitize_id: "0 < a \<Longrightarrow> a \<le> b \<Longrightarrow> val_sanitize_timeouts_pair a b = (a, b)"
  by (auto simp: val_sanitize_timeouts_pair_def)

lemma unat_ucast_64_32 [simp]: "unat (ucast (x :: u32) :: u64) = unat x"
  by (rule unat_ucast_up) simp

lemma op_mul_le: "unat (op_mul opk) \<le> 6"
  by (cases opk) simp_all

text \<open>The retransmission timeout as a number: the product never wraps in 64 bits.\<close>

lemma rto_unat:
  "unat (((ucast (a :: u32) :: u64) + 4 * ucast (b :: u32)) * ucast (op_mul opk)) =
   (unat a + 4 * unat b) * unat (op_mul opk)"
proof -
  have a: "unat a < 2 ^ 32" and b: "unat b < 2 ^ 32" using unat_less_2p32 by simp_all
  have s1: "unat (4 * (ucast b :: u64)) = 4 * unat b"
    using b by (simp add: unat_word_ariths)
  have s2: "unat ((ucast a :: u64) + 4 * ucast b) = unat a + 4 * unat b"
    using a b by (simp add: unat_word_ariths)
  have "(unat a + 4 * unat b) * unat (op_mul opk) \<le> (unat a + 4 * unat b) * 6"
    by (rule mult_le_mono2) (rule op_mul_le)
  also have "\<dots> < 2 ^ 64" using a b by simp
  finally show ?thesis by (simp only: s2 unat_ucast_64_32 unat_word_ariths(2)) simp
qed

definition clamp :: "nat \<Rightarrow> nat \<Rightarrow> nat \<Rightarrow> nat" where
  "clamp v lo hi = max lo (min hi v)"

lemma unat_clamp_u32: "lo \<le> hi \<Longrightarrow> unat (val__clamp_u32 v lo hi) = clamp (unat v) (unat lo) (unat hi)"
  by (auto simp: val__clamp_u32_def clamp_def word_less_nat_alt word_le_nat_alt)

text \<open>
  C23. The adaptive timeout of an operation is its multiple of \<open>srtt + 4 * rttvar\<close>, computed without
  overflow and clamped to the sanitized bounds of the configuration; so it is never zero and
  never outside these bounds, whatever the estimator holds.
\<close>

theorem get_timeout_spec:
  assumes "val_sanitize_timeouts_pair (min_timeout_ms (timing s)) (max_timeout_ms (timing s)) = (lo, hi)"
  shows "unat (val_internal_get_timeout s opk) =
           clamp ((unat (srtt_ms (timing s)) + 4 * unat (rttvar_ms (timing s))) * unat (op_mul opk))
                 (unat lo) (unat hi) \<and>
         0 < val_internal_get_timeout s opk \<and>
         lo \<le> val_internal_get_timeout s opk \<and> val_internal_get_timeout s opk \<le> hi"
proof -
  let ?rto = "((ucast (srtt_ms (timing s)) :: u64) + 4 * ucast (rttvar_ms (timing s))) * ucast (op_mul opk)"
  let ?r = "(if ?rto > 0xFFFFFFFF then 0xFFFFFFFF else ?rto)"
  from sanitize_bounds [OF assms] have lo: "0 < lo" "lo \<le> hi" by simp_all
  have r: "unat (ucast ?r :: u32) = min (2 ^ 32 - 1) (unat ?rto)"
    by (auto simp: unsigned_ucast_eq word_less_nat_alt take_bit_nat_eq_self min_def)
  have t: "val_internal_get_timeout s opk = val__clamp_u32 (ucast ?r) lo hi"
    unfolding val_internal_get_timeout_def Let_def assms prod.case ..
  have h: "unat hi \<le> 2 ^ 32 - 1" using unat_less_2p32 [of hi] by simp
  have "unat (val_internal_get_timeout s opk) = clamp (min (2 ^ 32 - 1) (unat ?rto)) (unat lo) (unat hi)"
    unfolding t unat_clamp_u32 [OF lo(2)] r ..
  also have "\<dots> = clamp (unat ?rto) (unat lo) (unat hi)" using h by (simp add: clamp_def)
  finally have c: "unat (val_internal_get_timeout s opk) = clamp (unat ?rto) (unat lo) (unat hi)" .
  have "lo \<le> val_internal_get_timeout s opk" "val_internal_get_timeout s opk \<le> hi"
    using lo by (simp_all add: word_le_nat_alt c clamp_def)
  then show ?thesis using c lo by (simp add: rto_unat less_le_trans)
qed

theorem get_timeout_spec_witness:
  "val_sanitize_timeouts_pair (min_timeout_ms (timing bed_session)) (max_timeout_ms (timing bed_session)) = (100, 2000) \<and>
   unat (val_internal_get_timeout bed_session VAL_OP_META) = 2000"
  using get_timeout_spec [of bed_session 100 2000 VAL_OP_META]
  by (simp add: bed_session_timing val_sanitize_timeouts_pair_def clamp_def)

text \<open>The weighted means of the estimator: no intermediate value wraps.\<close>

lemma ewma_unat:
  assumes "unat w + 1 = 2 ^ k" and "k \<le> 3"
  shows "unat (ucast (drop_bit k (w * (ucast (x :: u32) :: u64) + ucast (y :: u32))) :: u32) =
         (unat w * unat x + unat y) div 2 ^ k"
proof -
  have x: "unat x < 2 ^ 32" and y: "unat y < 2 ^ 32" using unat_less_2p32 by simp_all
  have w: "unat w * unat x + unat y < 2 ^ k * 2 ^ 32"
  proof -
    have "unat w * unat x + unat y \<le> unat w * (2 ^ 32 - 1) + (2 ^ 32 - 1)"
      using x y by (intro add_mono mult_le_mono) auto
    also have "\<dots> < (unat w + 1) * 2 ^ 32" by (simp add: algebra_simps)
    finally show ?thesis using assms by simp
  qed
  also have "\<dots> \<le> 2 ^ 3 * 2 ^ 32" using assms(2) by (intro mult_le_mono1 power_increasing) auto
  finally have lt: "unat w * unat x + unat y < 2 ^ 64" by simp
  then have "unat w * unat x < 2 ^ 64" by simp
  with lt have u: "unat (w * (ucast x :: u64) + ucast y) = unat w * unat x + unat y"
    by (simp add: unat_word_ariths)
  have "(unat w * unat x + unat y) div 2 ^ k < 2 ^ 32"
    using w by (simp add: less_mult_imp_div_less mult.commute)
  then show ?thesis
    unfolding unsigned_ucast_eq unat_drop_bit_eq u by (simp add: drop_bit_eq_div take_bit_nat_eq_self)
qed

lemma max_one_word: "max 1 (x :: 'a :: len word) = (if x = 0 then 1 else x)"
  by (auto simp: max_def word_le_nat_alt unat_gt_0 Suc_le_eq not_le)

text \<open>
  C24. A round-trip sample moves the estimator as RFC 6298 prescribes, in exact integer arithmetic, where a sample of zero milliseconds counts as
  one: the first sample initialises it, later ones take the weighted means with weights 1/8 and 1/4, the smoothed time stays between its old value and the
  sample, and after a retransmission (Karn's rule) a sample changes nothing.
\<close>

theorem record_rtt_spec:
  "let t = timing s; t' = timing (val_internal_record_rtt s measured); r = max 1 measured in
     (in_retransmit t \<noteq> 0 \<longrightarrow> val_internal_record_rtt s measured = s) \<and>
     (in_retransmit t = 0 \<and> samples_taken t = 0 \<longrightarrow>
        srtt_ms t' = r \<and> unat (rttvar_ms t') = unat r div 2 \<and> samples_taken t' = 1) \<and>
     (in_retransmit t = 0 \<and> samples_taken t \<noteq> 0 \<longrightarrow>
        unat (rttvar_ms t') =
          (3 * unat (rttvar_ms t) + (max (unat (srtt_ms t)) (unat r) - min (unat (srtt_ms t)) (unat r))) div 4 \<and>
        unat (srtt_ms t') = (7 * unat (srtt_ms t) + unat r) div 8 \<and>
        min (srtt_ms t) r \<le> srtt_ms t' \<and> srtt_ms t' \<le> max (srtt_ms t) r \<and>
        samples_taken t' \<noteq> 0)"
proof (cases "in_retransmit (timing s) \<noteq> 0 \<or> samples_taken (timing s) = 0")
  case True
  then show ?thesis
    by (auto simp: val_internal_record_rtt_def sess_defs Let_def unat_div max_one_word)
next
  case False
  define r where "r = max 1 measured"
  let ?a = "srtt_ms (timing s)" and ?v = "rttvar_ms (timing s)" and ?n = "samples_taken (timing s)"
  let ?d = "if ?a > r then ?a - r else r - ?a"
  let ?s' = "ucast (drop_bit 3 (7 * (ucast ?a :: u64) + ucast r)) :: u32"
  let ?v' = "ucast (drop_bit 2 (3 * (ucast ?v :: u64) + ucast ?d)) :: u32"
  have t': "timing (val_internal_record_rtt s measured) =
      (timing s)\<lparr>rttvar_ms := ?v', srtt_ms := ?s', samples_taken := (if ?n < 0xFF then ?n + 1 else ?n)\<rparr>"
    using False by (auto simp: val_internal_record_rtt_def sess_defs Let_def r_def max_one_word)
  have v: "unat ?v' = (3 * unat ?v + unat ?d) div 4"
    using ewma_unat [of 3 2 ?v ?d] by simp
  have a: "unat ?s' = (7 * unat ?a + unat r) div 8"
    using ewma_unat [of 7 3 ?a r] by simp
  have d: "unat ?d = max (unat ?a) (unat r) - min (unat ?a) (unat r)"
    by (auto simp: unat_sub word_less_nat_alt word_le_nat_alt)
  have n: "(if ?n < 0xFF then ?n + 1 else ?n) \<noteq> 0"
    using False by (auto simp: word_less_nat_alt unat_word_ariths dest!: arg_cong [where f = unat])
  have "min ?a r \<le> ?s' \<and> ?s' \<le> max ?a r"
    unfolding word_le_nat_alt a by (auto simp: min_def max_def word_le_nat_alt)
  then show ?thesis unfolding Let_def r_def [symmetric] using False v [unfolded d] a n by (simp add: t')
qed

text \<open>A first sample of eighty milliseconds, and one too short to measure.\<close>

theorem record_rtt_spec_witness:
  "srtt_ms (timing (val_internal_record_rtt bed_session 80)) = 80 \<and>
   unat (rttvar_ms (timing (val_internal_record_rtt bed_session 80))) = 40 \<and>
   srtt_ms (timing (val_internal_record_rtt bed_session 0)) = 1"
  using record_rtt_spec [of bed_session 80] record_rtt_spec [of bed_session 0] by (simp add: bed_session_timing Let_def)

section \<open>Congestion window: properties\<close>

definition window_ok :: "'w val_session \<Rightarrow> bool" where
  "window_ok s \<longleftrightarrow> 1 \<le> current_window_packets s \<and> current_window_packets s \<le> negotiated_window_packets s"

lemma half_u16: "unat ((w :: u16) div 2) = unat w div 2"
  by (simp add: unat_div)

text \<open>
  C22. The congestion window never leaves the range from one packet to the negotiated cap: recording
  an error or a success keeps it there. An error that reaches the threshold halves the window
  (never below one packet), a success that reaches its threshold adds one packet up to the cap,
  and no other outcome changes it.
\<close>

theorem aimd_window:
  assumes "window_ok s"
  shows "window_ok (val_internal_record_transmission_error s) \<and>
         window_ok (val_internal_record_transmission_success s) \<and>
         unat (current_window_packets (val_internal_record_transmission_error s)) =
           (let th = degrade_error_threshold (tx_flow (cfg s)); th = (if th = 0 then 3 else th) in
            if ucast th \<le> consecutive_errors s + 1
            then max 1 (unat (current_window_packets s) div 2) else unat (current_window_packets s)) \<and>
         unat (current_window_packets (val_internal_record_transmission_success s)) =
           (let th = recovery_success_threshold (tx_flow (cfg s)); th = (if th = 0 then 10 else th) in
            if ucast th \<le> consecutive_successes s + 1
            then min (unat (negotiated_window_packets s)) (unat (current_window_packets s) + 1)
            else unat (current_window_packets s))"
proof -
  let ?c = "current_window_packets s" and ?n = "negotiated_window_packets s"
  from assms have c: "1 \<le> unat ?c" "unat ?c \<le> unat ?n" "?c \<noteq> 0"
    by (auto simp: window_ok_def word_le_nat_alt)
  have n: "unat ?n < 65536" by (rule unat_less_2p16)
  have p: "unat ?c < unat ?n \<Longrightarrow> unat (?c + 1) = unat ?c + 1"
    using n by (simp add: unat_word_ariths)
  have e: "unat (current_window_packets (val_internal_record_transmission_error s)) =
      (let th = degrade_error_threshold (tx_flow (cfg s)); th = (if th = 0 then 3 else th) in
       if ucast th \<le> consecutive_errors s + 1 then max 1 (unat ?c div 2) else unat ?c)"
    using c by (auto simp: val_internal_record_transmission_error_def sess_defs Let_def half_u16
      word_less_nat_alt max_def dest!: arg_cong [where f = unat])
  have g: "unat (current_window_packets (val_internal_record_transmission_success s)) =
      (let th = recovery_success_threshold (tx_flow (cfg s)); th = (if th = 0 then 10 else th) in
       if ucast th \<le> consecutive_successes s + 1 then min (unat ?n) (unat ?c + 1) else unat ?c)"
    using c p by (auto simp: val_internal_record_transmission_success_def sess_defs Let_def
      word_less_nat_alt min_def dest!: arg_cong [where f = unat])
  have ne: "negotiated_window_packets (val_internal_record_transmission_error s) = ?n"
    "negotiated_window_packets (val_internal_record_transmission_success s) = ?n"
    by (simp_all add: val_internal_record_transmission_error_def
        val_internal_record_transmission_success_def sess_defs Let_def)
  have "window_ok (val_internal_record_transmission_error s)"
    using c by (auto simp: window_ok_def word_le_nat_alt ne e Let_def)
  moreover have "window_ok (val_internal_record_transmission_success s)"
    using c by (auto simp: window_ok_def word_le_nat_alt ne g Let_def)
  ultimately show ?thesis using e g by blast
qed

theorem aimd_window_witness:
  "window_ok (bed_session\<lparr>current_window_packets := 4, negotiated_window_packets := 8, consecutive_errors := 2\<rparr>) \<and>
   unat (current_window_packets (val_internal_record_transmission_error
     (bed_session\<lparr>current_window_packets := 4, negotiated_window_packets := 8, consecutive_errors := 2\<rparr>))) = 2"
  using aimd_window [of "bed_session\<lparr>current_window_packets := 4, negotiated_window_packets := 8, consecutive_errors := 2\<rparr>"]
  by (simp add: window_ok_def bed_session_cfg bed_config_def Let_def)

section \<open>Session creation: properties\<close>

text \<open>
  The invariant of a session: the hooks session creation insists on are there, the staging
  buffers hold at least a packet, the packet sizes are within the protocol's bounds, the timeout
  bounds are ordered and the congestion window is in range.
\<close>

definition config_ok :: "'w val_config \<Rightarrow> bool" where
  "config_ok c \<longleftrightarrow> \<not> config_missing c \<and>
     VAL_MIN_PACKET_SIZE \<le> packet_size (buffers c) \<and> packet_size (buffers c) \<le> VAL_MAX_PACKET_SIZE"

definition session_ok :: "'w val_session \<Rightarrow> bool" where
  "session_ok s \<longleftrightarrow> config_ok (cfg s) \<and>
     VAL_MIN_PACKET_SIZE \<le> effective_packet_size s \<and>
     effective_packet_size s \<le> packet_size (buffers (cfg s)) \<and>
     unat (packet_size (buffers (cfg s))) \<le> length (send_buf s) \<and>
     unat (packet_size (buffers (cfg s))) \<le> length (recv_buf s) \<and>
     0 < min_timeout_ms (timing s) \<and> min_timeout_ms (timing s) \<le> max_timeout_ms (timing s) \<and>
     window_ok s \<and> length (tracking_slots s) = unat (max_tracking_slots s) \<and> 0 < max_tracking_slots s"

definition buffers_fit :: "'w val_config \<Rightarrow> bool" where
  "buffers_fit c \<longleftrightarrow>
     unat (packet_size (buffers c)) \<le> length (the (send_buffer (buffers c))) \<and>
     unat (packet_size (buffers c)) \<le> length (the (recv_buffer (buffers c)))"

lemma session_init_ok:
  assumes "config_ok c" "buffers_fit c"
  shows "session_ok (clear_slots ((session_init b c w)\<lparr>world := w'\<rparr>))"
proof -
  obtain lo hi where p: "val_sanitize_timeouts_pair (to_min_timeout_ms (timeouts c)) (to_max_timeout_ms (timeouts c)) = (lo, hi)"
    by (cases "val_sanitize_timeouts_pair (to_min_timeout_ms (timeouts c)) (to_max_timeout_ms (timeouts c))")
  have u: "(ucast (x :: u16) :: u32) = 0 \<longleftrightarrow> x = 0" for x
    by (simp add: unat_eq_0 [symmetric])
  show ?thesis
    using assms sanitize_bounds [OF p]
    by (auto simp: session_ok_def config_ok_def config_missing_def buffers_fit_def session_init_def
        val_internal_init_timing_def val_sanitize_timeouts_cfg_def p Let_def sess_defs window_ok_def
        word_neq_0_conv [symmetric] u)
qed

text \<open>
  C25. Session creation returns a session exactly when the configuration has its essential hooks and buffers, the packet size is within bounds and both
  allocations, of the session and of its tracking slots, succeed; the session it returns then satisfies the invariant (the buffers being as long as
  the configuration says). Every other outcome returns no session: a missing hook or buffer and a packet size out of bounds are reported with
  their status and detail before anything is allocated, and the status for no memory, with detail zero, means exactly that the configuration is valid and one of
  the two allocations failed; when it was the second, the first is given back.
\<close>

theorem session_create_spec:
  assumes create: "val_session_create b lib (Some c) True w = (st, session, detail, w')"
    and alloc1: "session_alloc lib (tx_flow c) (sizeof_session lib) w = (ok1, w1)"
    and alloc2: "session_alloc lib (tx_flow c)
        (sizeof_inflight lib * (if window_cap_packets (tx_flow c) = 0 then 64 else ucast (window_cap_packets (tx_flow c)))) w1 = (ok2, w2)"
  shows "(st = VAL_OK \<longleftrightarrow> config_ok c \<and> ok1 \<and> ok2) \<and> (st = VAL_OK \<longleftrightarrow> session \<noteq> None) \<and>
         (st = VAL_OK \<longrightarrow> detail = 0 \<and> w' = w2 \<and> (buffers_fit c \<longrightarrow> session_ok (the session))) \<and>
         (config_missing c \<longrightarrow> st = VAL_ERR_INVALID_ARG \<and> detail = VAL_SET_MISSING_HOOKS \<and> w' = w) \<and>
         (\<not> config_missing c \<and> \<not> config_ok c \<longrightarrow>
            st = VAL_ERR_PACKET_SIZE_MISMATCH \<and> detail = VAL_ERROR_DETAIL_PACKET_SIZE \<and> w' = w) \<and>
         (st = VAL_ERR_NO_MEMORY \<longleftrightarrow> config_ok c \<and> \<not> (ok1 \<and> ok2)) \<and>
         (st = VAL_ERR_NO_MEMORY \<longrightarrow> detail = 0 \<and> w' = (if ok1 then session_free lib (tx_flow c) w2 else w1))"
proof (cases "config_ok c")
  case False
  then show ?thesis
    using create by (auto simp: val_session_create_def config_ok_def not_le split: if_splits)
next
  case True
  then have bounds: "\<not> config_missing c" "\<not> packet_size (buffers c) < VAL_MIN_PACKET_SIZE"
    "\<not> VAL_MAX_PACKET_SIZE < packet_size (buffers c)" by (simp_all add: config_ok_def not_less)
  have "unat (window_cap_packets (tx_flow c)) < 2 ^ 32" using unat_less_2p16 [of "window_cap_packets (tx_flow c)"] by simp
  then have cap: "(ucast (window_cap_packets (tx_flow c)) :: u32) \<noteq> 0" if "window_cap_packets (tx_flow c) \<noteq> 0"
    using that by (simp add: word_unat_eq_iff unsigned_ucast_eq take_bit_nat_eq_self)
  have up: "(ucast (ucast x :: u32) :: size_t) = ucast x" for x :: u16 by (rule bit_word_eqI) (auto simp: bit_simps dest: bit_imp_le_length)
  have slots: "ucast (max_tracking_slots (session_init b c w1)) =
      (if window_cap_packets (tx_flow c) = 0 then 64 else ucast (window_cap_packets (tx_flow c)) :: size_t)" "world (session_init b c w1) = w1"
    using cap by (simp_all add: session_init_def val_internal_init_timing_def Let_def up split: prod.splits)
  show ?thesis
    using create True bounds session_init_ok [OF True]
    by (auto simp: val_session_create_def alloc1 slots alloc2 Let_def split: prod.splits if_splits)
qed

text \<open>With memory for one allocation only there is no session, and the memory is given back.\<close>

theorem session_create_spec_witness:
  "fst (val_session_create bed_build bed_libc (Some bed_config) True bed_world) = VAL_OK \<and>
   session_ok (the (fst (snd (val_session_create bed_build bed_libc (Some bed_config) True bed_world)))) \<and>
   fst (val_session_create bed_build (bed_libc\<lparr>libc_calloc := \<lambda>w n. (1024 \<le> n, w)\<rparr>) (Some bed_config) True bed_world) = VAL_ERR_NO_MEMORY"
proof -
  let ?tight = "bed_libc\<lparr>libc_calloc := \<lambda>w n. (1024 \<le> n, w)\<rparr>"
  obtain st se d w where r: "val_session_create bed_build bed_libc (Some bed_config) True bed_world = (st, se, d, w)"
    by (cases "val_session_create bed_build bed_libc (Some bed_config) True bed_world")
  obtain st2 se2 d2 w2 where r2: "val_session_create bed_build ?tight (Some bed_config) True bed_world = (st2, se2, d2, w2)"
    by (cases "val_session_create bed_build ?tight (Some bed_config) True bed_world")
  have ok: "config_ok bed_config" "buffers_fit bed_config" by (simp_all add: config_ok_def config_missing_def buffers_fit_def bed_config_def)
  have al: "session_alloc bed_libc (tx_flow bed_config) n v = (True, v)" "session_alloc ?tight (tx_flow bed_config) n v = (1024 \<le> n, v)" for n v
    by (simp_all add: session_alloc_def bed_libc_def bed_config_def)
  have "st = VAL_OK" "session_ok (the se)" using session_create_spec [OF r al(1) al(1)] ok by simp_all
  moreover have "\<not> 1024 \<le> sizeof_inflight ?tight * (if window_cap_packets (tx_flow bed_config) = 0 then 64 else ucast (window_cap_packets (tx_flow bed_config)))"
    by (simp add: bed_libc_def bed_config_def)
  then have "st2 = VAL_ERR_NO_MEMORY" using session_create_spec [OF r2 al(2) al(2)] ok(1) by simp
  ultimately show ?thesis using r r2 by simp
qed

end
