(* ===== verification/Val_Packet.thy ===== *)
theory Val_Packet
  imports Val_Session
begin

text \<open>
  The packet layer of \<^verbatim>\<open>src/val_core.c\<close>: \<^verbatim>\<open>val__internal_send_packet_core\<close> with its two wrappers,
  \<^verbatim>\<open>val_recv_full\<close> and \<^verbatim>\<open>val_internal_recv_packet\<close>, with the staging buffers, the lock, the metrics and
  the capture hook. Sending is a total function of the session; receiving may block for ever and
  is an option. The theorems describe the bytes of a frame, that the receiving side recovers what
  the sending side put into it, that damaged frames are rejected, and when receiving returns.
\<close>

section \<open>Sending\<close>

text \<open>
  The payload argument: NULL, bytes elsewhere in memory, or the content area of the send buffer
  itself, where the sender stages file data.
\<close>

datatype payload = P_NULL | P_BYTES "u8 list" | P_IN_SEND_BUF

fun payload_read :: "u8 list \<Rightarrow> payload \<Rightarrow> nat \<Rightarrow> u8 list" where
  "payload_read buf P_NULL n = []"
| "payload_read buf (P_BYTES bs) n = take n bs"
| "payload_read buf P_IN_SEND_BUF n = mem_read buf VAL_WIRE_HEADER_SIZE n"

text \<open>
  The switch over the packet type: it fills the content area and computes the flags, the content
  length (a 16-bit value) and the type data.
\<close>

definition data_content ::
    "u8 list \<Rightarrow> payload \<Rightarrow> u32 \<Rightarrow> u64 \<Rightarrow> bool \<Rightarrow> u8 \<times> u16 \<times> u32 \<times> u8 list" where
  "data_content buf payload payload_len offset include_data_offset =
     (let n = unat payload_len; c = VAL_WIRE_HEADER_SIZE in
      if include_data_offset then
        (VAL_DATA_OFFSET_PRESENT, ucast (payload_len + 8), 0,
         if payload_len \<noteq> 0 \<and> payload \<noteq> P_NULL then
           (if payload = P_IN_SEND_BUF
            then let b = mem_write buf (c + 8) (mem_read buf c n) in mem_write b c (VAL_PUT_LE64 offset)
            else let b = mem_write buf c (VAL_PUT_LE64 offset) in mem_write b (c + 8) (payload_read b payload n))
         else mem_write buf c (VAL_PUT_LE64 offset))
      else
        (0, ucast payload_len, 0,
         if payload_len \<noteq> 0 \<and> payload \<noteq> P_NULL then mem_write buf c (payload_read buf payload n) else buf))"

definition ack_content :: "val_packet_type_t \<Rightarrow> u8 list \<Rightarrow> u64 \<Rightarrow> u8 \<times> u16 \<times> u32 \<times> u8 list" where
  "ack_content type buf offset =
     (let low = ucast (offset AND 0xFFFFFFFF);
          high = ucast (drop_bit 32 offset AND 0xFFFFFFFF);
          (content_len, buf) =
            (if high \<noteq> 0 then (4, mem_write buf VAL_WIRE_HEADER_SIZE (VAL_PUT_LE32 high)) else (0, buf));
          flags = 0;
          flags = (if type = VAL_PKT_DONE_ACK then flags OR VAL_ACK_DONE_FILE else flags);
          flags = (if type = VAL_PKT_EOT_ACK then flags OR VAL_ACK_EOT else flags)
      in (flags, content_len, low, buf))"

definition nak_content :: "u8 list \<Rightarrow> payload \<Rightarrow> u32 \<Rightarrow> u64 \<Rightarrow> u8 \<times> u16 \<times> u32 \<times> u8 list" where
  "nak_content buf payload payload_len offset =
     (let low = ucast (offset AND 0xFFFFFFFF);
          high = ucast (drop_bit 32 offset AND 0xFFFFFFFF);
          reason = (if payload \<noteq> P_NULL \<and> payload_len \<ge> 4
                    then VAL_GET_LE32 (payload_read buf payload (unat payload_len)) else 1);
          b = mem_write buf (VAL_WIRE_HEADER_SIZE + 0) (VAL_PUT_LE32 high);
          b = mem_write b (VAL_WIRE_HEADER_SIZE + 4) (VAL_PUT_LE32 reason);
          b = mem_write b (VAL_WIRE_HEADER_SIZE + 8) (VAL_PUT_LE32 0)
      in (0, 12, low, b))"

definition packet_content ::
    "val_packet_type_t \<Rightarrow> u8 list \<Rightarrow> payload \<Rightarrow> u32 \<Rightarrow> u64 \<Rightarrow> bool \<Rightarrow> u8 \<times> u16 \<times> u32 \<times> u8 list" where
  "packet_content type buf payload payload_len offset include_data_offset =
     (case type of
        VAL_PKT_DATA \<Rightarrow> data_content buf payload payload_len offset include_data_offset
      | VAL_PKT_DATA_ACK \<Rightarrow> ack_content type buf offset
      | VAL_PKT_DONE_ACK \<Rightarrow> ack_content type buf offset
      | VAL_PKT_EOT_ACK \<Rightarrow> ack_content type buf offset
      | VAL_PKT_DATA_NAK \<Rightarrow> nak_content buf payload payload_len offset
      | _ \<Rightarrow> (0, ucast payload_len, 0,
             if payload_len \<noteq> 0 \<and> payload \<noteq> P_NULL
             then mem_write buf VAL_WIRE_HEADER_SIZE (payload_read buf payload (unat payload_len)) else buf))"

text \<open>Header and trailer around the content; the result is the buffer and the length of the frame.\<close>

definition seal_frame ::
    "'w val_session \<Rightarrow> u8 \<Rightarrow> u8 \<Rightarrow> u16 \<Rightarrow> u32 \<Rightarrow> u8 list \<Rightarrow> u8 list \<times> nat" where
  "seal_frame s type flags content_len type_data buf =
     (let buf = val_serialize_frame_header type flags content_len type_data buf;
          used = VAL_WIRE_HEADER_SIZE + unat content_len;
          pkt_crc = val_internal_crc32 s (take used buf);
          buf = mem_write buf used (VAL_PUT_LE32 pkt_crc)
      in (buf, used + VAL_WIRE_TRAILER_SIZE))"

text \<open>What the capture hook is told, with the clock read for it.\<close>

definition capture_packet ::
    "val_packet_direction_t \<Rightarrow> u8 \<Rightarrow> u32 \<Rightarrow> u32 \<Rightarrow> u64 \<Rightarrow> 'w val_session \<Rightarrow> 'w val_session" where [hook_defs]:
  "capture_packet dir type wire_len payload_len offset s =
     (case capture (cfg s) of
        None \<Rightarrow> s
      | Some f \<Rightarrow>
          let (now, s) = ticks s;
              rec = \<lparr>pr_direction = dir, pr_type = type, pr_wire_len = wire_len,
                     pr_payload_len = payload_len, pr_offset = offset, pr_crc_ok = True,
                     pr_timestamp_ms = now\<rparr>
          in s\<lparr>world := f (world s) rec\<rparr>)"

definition send_bytes :: "'w val_session \<Rightarrow> u8 list \<Rightarrow> int \<times> 'w val_session" where [hook_defs]:
  "send_bytes s data = (case tr_send (transport (cfg s)) of
       None \<Rightarrow> (- 1, s)
     | Some f \<Rightarrow> (case f (world s) data of (rc, w) \<Rightarrow> (rc, s\<lparr>world := w\<rparr>)))"

definition val__internal_send_packet_core ::
    "'w val_session \<Rightarrow> val_packet_type_t \<Rightarrow> payload \<Rightarrow> u32 \<Rightarrow> u64 \<Rightarrow> bool \<Rightarrow> val_status_t \<times> 'w val_session" where
  "val__internal_send_packet_core s type payload payload_len offset include_data_offset =
     (let s = val_internal_lock s;
          (connected, s) = val_internal_transport_is_connected s
      in if \<not> connected then
           (VAL_ERR_IO, val_internal_unlock (VAL_SET_NETWORK_ERROR s VAL_ERROR_DETAIL_CONNECTION))
         else
           let P = mtu s;
               (flags, content_len, type_data, buf) =
                 packet_content type (send_buf s) payload payload_len offset include_data_offset;
               s = s\<lparr>send_buf := buf\<rparr>
           in if (ucast content_len :: size_t) > P - of_nat VAL_WIRE_HEADER_SIZE - of_nat VAL_WIRE_TRAILER_SIZE then
                (VAL_ERR_INVALID_ARG,
                 val_internal_unlock (val_internal_set_error_detailed s VAL_ERR_INVALID_ARG VAL_ERROR_DETAIL_PAYLOAD_SIZE))
              else
                let (buf, total_len) = seal_frame s (pkt_byte type) flags content_len type_data buf;
                    s = s\<lparr>send_buf := buf\<rparr>;
                    (rc, s) = send_bytes s (take total_len buf);
                    s = val_internal_unlock s
                in if rc \<noteq> int total_len then
                     (VAL_ERR_IO, VAL_SET_NETWORK_ERROR s VAL_ERROR_DETAIL_SEND_FAILED)
                   else
                     let s = val_metrics_add_sent s (of_nat total_len) (pkt_byte type);
                         s = capture_packet VAL_DIR_TX (pkt_byte type) (of_nat total_len) payload_len offset s;
                         s = (if type = VAL_PKT_DONE \<or> type = VAL_PKT_EOT \<or> type = VAL_PKT_HELLO \<or>
                                 type = VAL_PKT_ERROR \<or> type = VAL_PKT_CANCEL
                              then val_internal_transport_flush s else s)
                     in (VAL_OK, s))"

definition val_internal_send_packet ::
    "'w val_session \<Rightarrow> val_packet_type_t \<Rightarrow> payload \<Rightarrow> u32 \<Rightarrow> u64 \<Rightarrow> val_status_t \<times> 'w val_session" where
  "val_internal_send_packet s type payload payload_len offset =
     val__internal_send_packet_core s type payload payload_len offset True"

definition val_internal_send_packet_ex ::
    "'w val_session \<Rightarrow> val_packet_type_t \<Rightarrow> payload \<Rightarrow> u32 \<Rightarrow> u64 \<Rightarrow> bool \<Rightarrow> val_status_t \<times> 'w val_session" where
  "val_internal_send_packet_ex s type payload payload_len offset include_data_offset =
     val__internal_send_packet_core s type payload payload_len offset include_data_offset"

section \<open>Receiving\<close>

text \<open>
  \<^verbatim>\<open>val_recv_full\<close>: \<open>have\<close> is what was stored so far. The loop has no bound of its own: \<open>None\<close> is a run
  that never ends. The bytes are returned on every path, because they are in the destination.
\<close>

partial_function (option) val_recv_full_loop ::
    "u32 \<Rightarrow> nat \<Rightarrow> u32 \<Rightarrow> u8 list \<Rightarrow> 'w val_session \<Rightarrow> (val_status_t \<times> u8 list \<times> 'w val_session) option" where
  "val_recv_full_loop start need to_ms have s =
     (if length have \<ge> need then Some (VAL_OK, have, s)
      else
        let (now, s) = ticks s;
            elapsed = (if now \<ge> start then now - start else 0);
            remaining = (if to_ms > elapsed then to_ms - elapsed else 0);
            slice = (if remaining \<noteq> 0 then remaining else if to_ms \<noteq> 0 then 1 else 0)
        in case tr_recv (transport (cfg s)) of
             None \<Rightarrow> Some (VAL_ERR_IO, have, s)
           | Some recv_fn \<Rightarrow>
               (case recv_fn (world s) (of_nat (need - length have)) slice of
                  (r, got, w) \<Rightarrow>
                    let s = s\<lparr>world := w\<rparr> in
                    if r < 0 then Some (VAL_ERR_IO, have @ got, s)
                    else if length (have @ got) \<ge> need then Some (VAL_OK, have @ got, s)
                    else
                      let (now, s) = ticks s in
                      if now - start \<ge> to_ms then Some (VAL_ERR_TIMEOUT, have @ got, s)
                      else val_recv_full_loop start need to_ms (have @ got) s))"

definition val_recv_full ::
    "nat \<Rightarrow> u32 \<Rightarrow> 'w val_session \<Rightarrow> (val_status_t \<times> u8 list \<times> 'w val_session) option" where
  "val_recv_full need to_ms s =
     (if tr_recv (transport (cfg s)) = None then Some (VAL_ERR_IO, [], s)
      else let (start, s) = ticks s in val_recv_full_loop start need to_ms [] s)"

text \<open>The error handling after each of the three reads of a frame.\<close>

definition recv_failed :: "val_status_t \<Rightarrow> 'w val_session \<Rightarrow> val_status_t \<times> 'w val_session" where
  "recv_failed rc s =
     (if rc = VAL_ERR_IO
      then (VAL_ERR_IO, val_internal_unlock (VAL_SET_NETWORK_ERROR s VAL_ERROR_DETAIL_RECV_FAILED))
      else (VAL_ERR_TIMEOUT, val_internal_unlock (val_internal_set_last_error s VAL_ERR_TIMEOUT VAL_ERROR_DETAIL_TIMEOUT_DATA)))"

text \<open>The out parameters of \<^verbatim>\<open>val_internal_recv_packet\<close>, zero until they are set.\<close>

record rx_info =
  rx_type :: val_packet_type_t
  rx_len :: u32
  rx_off :: u64

definition rx_none :: rx_info where
  "rx_none = \<lparr>rx_type = VAL_PKT_UNKNOWN 0, rx_len = 0, rx_off = 0\<rparr>"

definition join_offset :: "u32 \<Rightarrow> u32 \<Rightarrow> u64" where
  "join_offset high low = push_bit 32 (ucast high) OR ucast low"

text \<open>The offset a frame carries, per packet type.\<close>

definition frame_offset :: "u8 \<Rightarrow> u8 \<Rightarrow> u32 \<Rightarrow> u32 \<Rightarrow> u8 list \<Rightarrow> u64" where
  "frame_offset type_byte flags payload_len type_data buf =
     (let high = (if payload_len \<ge> 4 then VAL_GET_LE32 (mem_read buf VAL_WIRE_HEADER_SIZE 4) else 0) in
      if type_byte = pkt_byte VAL_PKT_DATA then
        (if flags AND VAL_DATA_OFFSET_PRESENT \<noteq> 0
         then VAL_GET_LE64 (mem_read buf VAL_WIRE_HEADER_SIZE 8) else UINT64_MAX)
      else if type_byte = pkt_byte VAL_PKT_DATA_ACK \<or> type_byte = pkt_byte VAL_PKT_DONE_ACK \<or>
              type_byte = pkt_byte VAL_PKT_EOT_ACK
      then join_offset high type_data
      else if type_byte = pkt_byte VAL_PKT_DATA_NAK then join_offset high type_data
      else 0)"

text \<open>The offset reported to the capture hook, computed again after the payload was moved.\<close>

definition capture_offset :: "u8 \<Rightarrow> u8 \<Rightarrow> u32 \<Rightarrow> u32 \<Rightarrow> u8 list \<Rightarrow> u64" where
  "capture_offset type_byte flags payload_len type_data buf =
     (if type_byte = pkt_byte VAL_PKT_DATA \<and> flags AND VAL_DATA_OFFSET_PRESENT \<noteq> 0
      then VAL_GET_LE64 (mem_read buf VAL_WIRE_HEADER_SIZE 8)
      else if type_byte = pkt_byte VAL_PKT_DATA_ACK \<or> type_byte = pkt_byte VAL_PKT_DONE_ACK \<or>
              type_byte = pkt_byte VAL_PKT_EOT_ACK
      then join_offset (if payload_len \<ge> 4 then VAL_GET_LE32 (mem_read buf VAL_WIRE_HEADER_SIZE 4) else 0) type_data
      else 0)"

text \<open>
  Delivery of the payload to the caller's buffer, metrics and capture. \<open>dest\<close> is the capacity of the
  caller's buffer, \<open>None\<close> when it passes NULL; the only buffer the callers pass is the receive buffer
  itself.
\<close>

definition rx_wanted :: "u32 option \<Rightarrow> bool" where
  "rx_wanted dest \<longleftrightarrow> (case dest of None \<Rightarrow> False | Some cap \<Rightarrow> cap \<noteq> 0)"

definition rx_cap :: "u32 option \<Rightarrow> u32" where
  "rx_cap dest = (case dest of None \<Rightarrow> 0 | Some cap \<Rightarrow> cap)"

definition deliver_frame ::
    "u8 \<Rightarrow> u8 \<Rightarrow> u32 \<Rightarrow> u32 \<Rightarrow> u32 option \<Rightarrow> rx_info \<Rightarrow> 'w val_session \<Rightarrow> val_status_t \<times> rx_info \<times> 'w val_session" where
  "deliver_frame type_byte flags payload_len type_data dest rx s =
     (let explicit = (type_byte = pkt_byte VAL_PKT_DATA \<and> flags AND VAL_DATA_OFFSET_PRESENT \<noteq> 0);
          src = (if explicit then VAL_WIRE_HEADER_SIZE + 8 else VAL_WIRE_HEADER_SIZE);
          copy_len = (if explicit then payload_len - 8 else payload_len)
      in if rx_wanted dest \<and> explicit \<and> payload_len < 8 then (VAL_ERR_PROTOCOL, rx, val_internal_unlock s)
         else
           let rx = (if rx_wanted dest \<and> explicit then rx\<lparr>rx_len := copy_len\<rparr> else rx) in
           if rx_wanted dest \<and> copy_len > rx_cap dest then
             (VAL_ERR_INVALID_ARG, rx,
              val_internal_unlock (val_internal_set_error_detailed s VAL_ERR_INVALID_ARG VAL_ERROR_DETAIL_PAYLOAD_SIZE))
           else
             let s = (if rx_wanted dest
                      then s\<lparr>recv_buf := mem_write (recv_buf s) 0 (mem_read (recv_buf s) src (unat copy_len))\<rparr> else s);
                 s = val_internal_unlock s;
                 wire = of_nat VAL_WIRE_HEADER_SIZE + payload_len + of_nat VAL_WIRE_TRAILER_SIZE;
                 s = val_metrics_add_recv s (ucast wire) type_byte;
                 s = capture_packet VAL_DIR_RX type_byte wire payload_len
                       (capture_offset type_byte flags payload_len type_data (recv_buf s)) s
             in (VAL_OK, rx, s))"

text \<open>The CRC check, the out parameters and the reaction to CANCEL.\<close>

definition accept_frame ::
    "u8 \<Rightarrow> u8 \<Rightarrow> u32 \<Rightarrow> u32 \<Rightarrow> u32 \<Rightarrow> u32 option \<Rightarrow> 'w val_session \<Rightarrow> val_status_t \<times> rx_info \<times> 'w val_session" where
  "accept_frame type_byte flags payload_len type_data trailer_crc dest s =
     (let calc_crc = val_internal_crc32 s (take (VAL_WIRE_HEADER_SIZE + unat payload_len) (recv_buf s)) in
      if trailer_crc \<noteq> calc_crc then
        (VAL_ERR_CRC, rx_none,
         val_internal_unlock (val_metrics_inc_crcerr (VAL_SET_CRC_ERROR s VAL_ERROR_DETAIL_CRC_TRAILER)))
      else
        let rx = \<lparr>rx_type = pkt_of_byte type_byte, rx_len = payload_len,
                  rx_off = frame_offset type_byte flags payload_len type_data (recv_buf s)\<rparr>;
            s = (if type_byte = pkt_byte VAL_PKT_CANCEL then val_internal_set_last_error s VAL_ERR_ABORTED 0 else s)
        in deliver_frame type_byte flags payload_len type_data dest rx s)"

text \<open>The three reads of a frame: trailer, payload, header, each with the error exit they share.\<close>

definition rx_fail :: "val_status_t \<Rightarrow> 'w val_session \<Rightarrow> (val_status_t \<times> rx_info \<times> 'w val_session) option" where
  "rx_fail rc s = (case recv_failed rc s of (st, s) \<Rightarrow> Some (st, rx_none, s))"

definition recv_trailer ::
    "u32 option \<Rightarrow> u32 \<Rightarrow> u8 \<Rightarrow> u8 \<Rightarrow> u32 \<Rightarrow> u32 \<Rightarrow> 'w val_session \<Rightarrow> (val_status_t \<times> rx_info \<times> 'w val_session) option" where
  "recv_trailer dest timeout_ms tbyte flags payload_len type_data s =
     do {
       (rc, trailer_bytes, s) \<leftarrow> val_recv_full VAL_WIRE_TRAILER_SIZE timeout_ms s;
       if rc \<noteq> VAL_OK then rx_fail rc s
       else Some (accept_frame tbyte flags payload_len type_data (VAL_GET_LE32 trailer_bytes) dest s)
     }"

definition recv_payload ::
    "u32 option \<Rightarrow> u32 \<Rightarrow> u8 \<Rightarrow> u8 \<Rightarrow> u32 \<Rightarrow> u32 \<Rightarrow> 'w val_session \<Rightarrow> (val_status_t \<times> rx_info \<times> 'w val_session) option" where
  "recv_payload dest timeout_ms tbyte flags payload_len type_data s =
     do {
       (rc, bytes, s) \<leftarrow> (if payload_len > 0 then val_recv_full (unat payload_len) timeout_ms s
                          else Some (VAL_OK, [], s));
       let s = s\<lparr>recv_buf := mem_write (recv_buf s) VAL_WIRE_HEADER_SIZE bytes\<rparr>;
       if rc \<noteq> VAL_OK then rx_fail rc s
       else recv_trailer dest timeout_ms tbyte flags payload_len type_data s
     }"

definition val_internal_recv_packet ::
    "'w val_session \<Rightarrow> u32 option \<Rightarrow> u32 \<Rightarrow> (val_status_t \<times> rx_info \<times> 'w val_session) option" where
  "val_internal_recv_packet s dest timeout_ms =
     (let s = val_internal_lock s; P = mtu s in
      do {
        (rc, bytes, s) \<leftarrow> val_recv_full VAL_WIRE_HEADER_SIZE timeout_ms s;
        let s = s\<lparr>recv_buf := mem_write (recv_buf s) 0 bytes\<rparr>;
        if rc \<noteq> VAL_OK then rx_fail rc s
        else
          case val_deserialize_frame_header (recv_buf s) of (tbyte, flags, content_len, type_data) \<Rightarrow>
            let payload_len = (ucast content_len :: u32) in
            if payload_len > ucast (P - of_nat VAL_WIRE_HEADER_SIZE - of_nat VAL_WIRE_TRAILER_SIZE) then
              Some (VAL_ERR_PROTOCOL, rx_none, val_internal_unlock (VAL_SET_PROTOCOL_ERROR s VAL_ERROR_DETAIL_PAYLOAD_SIZE))
            else recv_payload dest timeout_ms tbyte flags payload_len type_data s
      })"

section \<open>The bytes of a frame\<close>

text \<open>
  What a frame is, independently of the buffers: the header, the content and the CRC of both. The
  content of each packet type is given by \<open>wire_content\<close>.
\<close>

definition frame_of :: "(u8 list \<Rightarrow> u32) \<Rightarrow> u8 \<Rightarrow> u8 \<Rightarrow> u32 \<Rightarrow> u8 list \<Rightarrow> u8 list" where
  "frame_of crc type flags type_data content =
     (let body = header_bytes (type, flags, of_nat (length content), type_data) @ content
      in body @ VAL_PUT_LE32 (crc body))"

definition low32 :: "u64 \<Rightarrow> u32" where "low32 x = ucast x"
definition high32 :: "u64 \<Rightarrow> u32" where "high32 x = ucast (drop_bit 32 x)"

definition wire_content ::
    "val_packet_type_t \<Rightarrow> u8 list \<Rightarrow> u64 \<Rightarrow> bool \<Rightarrow> u8 \<times> u32 \<times> u8 list" where
  "wire_content type bs offset explicit =
     (let hi = (if high32 offset \<noteq> 0 then VAL_PUT_LE32 (high32 offset) else []) in
      case type of
        VAL_PKT_DATA \<Rightarrow> if explicit then (VAL_DATA_OFFSET_PRESENT, 0, VAL_PUT_LE64 offset @ bs) else (0, 0, bs)
      | VAL_PKT_DATA_ACK \<Rightarrow> (0, low32 offset, hi)
      | VAL_PKT_DONE_ACK \<Rightarrow> (VAL_ACK_DONE_FILE, low32 offset, hi)
      | VAL_PKT_EOT_ACK \<Rightarrow> (VAL_ACK_EOT, low32 offset, hi)
      | VAL_PKT_DATA_NAK \<Rightarrow>
          (0, low32 offset, VAL_PUT_LE32 (high32 offset) @
             VAL_PUT_LE32 (if 4 \<le> length bs then VAL_GET_LE32 bs else 1) @ VAL_PUT_LE32 0)
      | _ \<Rightarrow> (0, 0, bs))"

definition frame_bytes ::
    "'w val_session \<Rightarrow> val_packet_type_t \<Rightarrow> u8 list \<Rightarrow> u64 \<Rightarrow> bool \<Rightarrow> u8 list" where
  "frame_bytes s type bs offset explicit =
     (case wire_content type bs offset explicit of (flags, type_data, content) \<Rightarrow>
        frame_of (val_internal_crc32 s) (pkt_byte type) flags type_data content)"

text \<open>The payload argument stands for the bytes \<open>bs\<close>.\<close>

definition payload_is :: "u8 list \<Rightarrow> payload \<Rightarrow> u8 list \<Rightarrow> bool" where
  "payload_is buf payload bs \<longleftrightarrow>
     payload_read buf payload (length bs) = bs \<and> (payload = P_NULL \<longrightarrow> bs = []) \<and> length bs < 2 ^ 32"

lemma and_mask32: "(x :: u64) AND 0xFFFFFFFF = take_bit 32 x"
  by (simp add: take_bit_eq_mask mask_eq_exp_minus_1)

lemma low32_and: "ucast (x AND 0xFFFFFFFF) = low32 x"
  by (rule bit_word_eqI) (simp add: low32_def and_mask32 bit_simps)

lemma low32_drop [simp]: "low32 (drop_bit 32 x) = high32 x"
  by (simp add: low32_def high32_def)

lemma mem_read_write_prefix:
  "p \<le> length buf \<Longrightarrow> mem_read (mem_write buf p bs) p (length bs + n) = bs @ mem_read buf (p + length bs) n"
  by (simp add: mem_read_def mem_write_def)

text \<open>Two adjacent writes are one.\<close>

lemma mem_write_merge:
  "q = p + length a \<Longrightarrow> q \<le> length buf \<Longrightarrow> mem_write (mem_write buf p a) q b = mem_write buf p (a @ b)"
  by (simp add: mem_write_def ac_simps)

lemma unat_of_nat_small: "n < 2 ^ LENGTH('a::len) \<Longrightarrow> unat (of_nat n :: 'a word) = n"
  by (simp add: unsigned_of_nat take_bit_nat_eq_self)

lemma ucast_of_nat_down:
  "LENGTH('b::len) \<le> LENGTH('a::len) \<Longrightarrow> ucast (of_nat n :: 'a word) = (of_nat n :: 'b word)"
  by (rule bit_word_eqI) (auto simp: bit_simps)

lemma mem_read_0 [simp]: "mem_read buf p 0 = []"
  by (simp add: mem_read_def)

definition data_area :: "u8 list \<Rightarrow> u64 \<Rightarrow> bool \<Rightarrow> u8 list" where
  "data_area bs offset explicit = (if explicit then VAL_PUT_LE64 offset @ bs else bs)"

lemma data_content_spec:
  assumes p: "payload_is buf payload bs"
    and room: "VAL_WIRE_HEADER_SIZE + length (data_area bs offset explicit) \<le> length buf"
  shows "\<exists>buf'. data_content buf payload (of_nat (length bs)) offset explicit =
     (if explicit then VAL_DATA_OFFSET_PRESENT else 0, of_nat (length (data_area bs offset explicit)), 0, buf') \<and>
     length buf' = length buf \<and>
     mem_read buf' VAL_WIRE_HEADER_SIZE (length (data_area bs offset explicit)) = data_area bs offset explicit"
proof -
  have n: "unat (of_nat (length bs) :: u32) = length bs"
    using p by (simp add: payload_is_def unat_of_nat_small)
  have z: "(of_nat (length bs) :: u32) = 0 \<longleftrightarrow> bs = []"
    using n by (metis length_0_conv unat_eq_0)
  have u: "ucast ((of_nat (length bs) :: u32) + 8) = (of_nat (8 + length bs) :: u16)"
    using ucast_of_nat_down [where ?'a = 32 and ?'b = 16, of "8 + length bs"] by (simp add: add.commute)
  have u2: "ucast (of_nat (length bs) :: u32) = (of_nat (length bs) :: u16)"
    by (rule ucast_of_nat_down) simp
  show ?thesis
  proof (cases explicit)
    case False
    then show ?thesis
      using p room n z u2 by (cases payload) (auto simp: data_content_def payload_is_def mem_simps data_area_def)
  next
    case True
    note ex = True
    show ?thesis
    proof (cases "bs = []")
      case True
      then show ?thesis using ex room z u by (simp add: data_content_def mem_simps data_area_def)
    next
      case False
      then have pl: "payload \<noteq> P_NULL" using p by (auto simp: payload_is_def)
      note f = mem_read_write_prefix [of 8 _ "VAL_PUT_LE64 offset" "length bs", simplified]
      show ?thesis
        using ex room n z u p pl False
        by (cases payload) (auto simp: data_content_def payload_is_def data_area_def Let_def
            f length_mem_write mem_read_write_same length_mem_read mem_write_merge)
    qed
  qed
qed
lemma ack_content_spec:
  assumes "VAL_WIRE_HEADER_SIZE + 4 \<le> length buf"
    and "t \<in> {VAL_PKT_DATA_ACK, VAL_PKT_DONE_ACK, VAL_PKT_EOT_ACK}"
    and "wire_content t bs offset explicit = (flags, td, content)"
  shows "\<exists>buf'. ack_content t buf offset = (flags, of_nat (length content), td, buf') \<and>
     length buf' = length buf \<and> mem_read buf' VAL_WIRE_HEADER_SIZE (length content) = content"
proof -
  let ?c = "if high32 offset \<noteq> 0 then VAL_PUT_LE32 (high32 offset) else []"
  have c: "td = low32 offset" "content = ?c"
    "flags = (if t = VAL_PKT_DONE_ACK then VAL_ACK_DONE_FILE else if t = VAL_PKT_EOT_ACK then VAL_ACK_EOT else 0)"
    using assms(2,3) by (auto simp: wire_content_def Let_def)
  show ?thesis
  proof (cases "high32 offset = 0")
    case True
    then show ?thesis using assms(2) by (auto simp: ack_content_def c low32_and low32_drop Let_def)
  next
    case False
    then show ?thesis using assms(1,2)
      by (auto simp: ack_content_def c low32_and low32_drop Let_def length_mem_write mem_read_write_same)
  qed
qed

lemma nak_content_spec:
  assumes "VAL_WIRE_HEADER_SIZE + 12 \<le> length buf" "payload_is buf payload bs"
    and "wire_content VAL_PKT_DATA_NAK bs offset explicit = (flags, td, content)"
  shows "\<exists>buf'. nak_content buf payload (of_nat (length bs)) offset = (flags, of_nat (length content), td, buf') \<and>
     length buf' = length buf \<and> mem_read buf' VAL_WIRE_HEADER_SIZE (length content) = content"
proof -
  let ?r = "if 4 \<le> length bs then VAL_GET_LE32 bs else 1"
  have n: "unat (of_nat (length bs) :: u32) = length bs"
    using assms(2) by (simp add: payload_is_def unat_of_nat_small)
  then have four: "(4 :: u32) \<le> of_nat (length bs) \<longleftrightarrow> 4 \<le> length bs" by (simp add: word_le_nat_alt)
  have r: "(if payload \<noteq> P_NULL \<and> 4 \<le> (of_nat (length bs) :: u32)
      then VAL_GET_LE32 (payload_read buf payload (unat (of_nat (length bs) :: u32))) else 1) = ?r"
    using assms(2) unfolding n four by (auto simp: payload_is_def)
  let ?c = "VAL_PUT_LE32 (high32 offset) @ VAL_PUT_LE32 ?r @ VAL_PUT_LE32 0"
  have c: "flags = 0" "td = low32 offset" "content = ?c"
    using assms(3) by (simp_all add: wire_content_def Let_def)
  have "nak_content buf payload (of_nat (length bs)) offset = (0, 12, low32 offset, mem_write buf 8 ?c)"
    unfolding nak_content_def Let_def r low32_and low32_drop
    using assms(1) by (simp add: mem_write_merge)
  then show ?thesis using assms(1) by (simp add: c length_mem_write mem_read_write_same)
qed

text \<open>Every branch of the switch leaves the content of the packet behind the header.\<close>

definition needs_room :: "val_packet_type_t \<Rightarrow> u8 list \<Rightarrow> u64 \<Rightarrow> bool \<Rightarrow> nat" where
  "needs_room t bs offset explicit = length (snd (snd (wire_content t bs offset explicit)))"

lemma packet_content_spec:
  assumes "payload_is buf payload bs" and "wire_content t bs offset explicit = (flags, td, content)"
    and "VAL_WIRE_HEADER_SIZE + length content \<le> length buf" and "24 \<le> length buf"
  shows "\<exists>buf'. packet_content t buf payload (of_nat (length bs)) offset explicit =
     (flags, of_nat (length content), td, buf') \<and>
     length buf' = length buf \<and> mem_read buf' VAL_WIRE_HEADER_SIZE (length content) = content"
proof -
  have n: "unat (of_nat (length bs) :: u32) = length bs"
    using assms(1) by (simp add: payload_is_def unat_of_nat_small)
  have z: "(of_nat (length bs) :: u32) = 0 \<longleftrightarrow> bs = []" using n by (metis length_0_conv unat_eq_0)
  have u: "ucast (of_nat (length bs) :: u32) = (of_nat (length bs) :: u16)"
    by (rule ucast_of_nat_down) simp
  let ?b = "if (of_nat (length bs) :: u32) \<noteq> 0 \<and> payload \<noteq> P_NULL
    then mem_write buf 8 (payload_read buf payload (unat (of_nat (length bs) :: u32))) else buf"
  have "length ?b = length buf \<and> mem_read ?b 8 (length bs) = bs" if "8 + length bs \<le> length buf"
    using assms(1) that unfolding n z by (auto simp: payload_is_def length_mem_write mem_read_write_same)
  then have ctrl: ?thesis
    if "packet_content t buf payload (of_nat (length bs)) offset explicit =
          (0, ucast (of_nat (length bs) :: u32), 0, ?b)" "flags = 0" "td = 0" "content = bs"
    using that assms(3) by (simp only: u) blast
  show ?thesis
  proof (cases t)
    case VAL_PKT_DATA
    then have "content = data_area bs offset explicit" "td = 0"
      "flags = (if explicit then VAL_DATA_OFFSET_PRESENT else 0)"
      using assms(2) by (auto simp: wire_content_def data_area_def Let_def split: if_splits)
    then show ?thesis
      using data_content_spec [OF assms(1), of offset explicit] assms(3) VAL_PKT_DATA
      by (simp add: packet_content_def)
  next
    case VAL_PKT_DATA_NAK
    then show ?thesis
      using nak_content_spec [OF _ assms(1)] assms(2,4) by (simp add: packet_content_def)
  next
    case VAL_PKT_DATA_ACK
    then show ?thesis
      using ack_content_spec [OF _ _ assms(2)] assms(4) by (simp add: packet_content_def)
  next
    case VAL_PKT_DONE_ACK
    then show ?thesis
      using ack_content_spec [OF _ _ assms(2)] assms(4) by (simp add: packet_content_def)
  next
    case VAL_PKT_EOT_ACK
    then show ?thesis
      using ack_content_spec [OF _ _ assms(2)] assms(4) by (simp add: packet_content_def)
  qed (rule ctrl; use assms(2) in \<open>simp add: packet_content_def wire_content_def Let_def\<close>)+
qed

text \<open>Header and trailer make a frame of it.\<close>

lemma seal_frame_spec:
  assumes "mem_read buf VAL_WIRE_HEADER_SIZE (length content) = content"
    and "VAL_WIRE_HEADER_SIZE + length content + VAL_WIRE_TRAILER_SIZE \<le> length buf" "length content < 65536"
    and "seal_frame s t flags (of_nat (length content)) td buf = (buf', tlen)"
  shows "tlen = 12 + length content \<and> length buf' = length buf \<and>
         take tlen buf' = frame_of (val_internal_crc32 s) t flags td content"
proof -
  let ?h = "header_bytes (t, flags, of_nat (length content), td)"
  have n: "unat (of_nat (length content) :: u16) = length content"
    using assms(3) by (simp add: unat_of_nat_small)
  have lh: "length ?h = 8" by (simp add: header_bytes_def)
  have e: "val_serialize_frame_header t flags (of_nat (length content)) td buf = ?h @ drop 8 buf"
    using header.enc_eq [of buf "(t, flags, of_nat (length content), td)"] assms(2) by simp
  have tk: "take (8 + length content) (?h @ drop 8 buf) = ?h @ content"
    using assms(1) lh by (simp add: mem_read_def)
  have b: "buf' = mem_write (?h @ drop 8 buf) (8 + length content) (VAL_PUT_LE32 (val_internal_crc32 s (?h @ content)))"
    and t: "tlen = 12 + length content"
    using assms(4) by (simp_all add: seal_frame_def Let_def n e lh assms(1) [unfolded mem_read_def])
  have l: "length (?h @ drop 8 buf) = length buf" using assms(2) lh by simp
  have "take tlen buf' = take (8 + length content) (?h @ drop 8 buf) @ VAL_PUT_LE32 (val_internal_crc32 s (?h @ content))"
    unfolding b t by (rule take_mem_write_end) (use assms(2) l in simp_all)
  then have "take tlen buf' = frame_of (val_internal_crc32 s) t flags td content"
    by (simp only: tk frame_of_def Let_def)
  moreover have "length buf' = length buf" unfolding b using assms(2) l by (subst length_mem_write) simp_all
  ultimately show ?thesis using t by simp
qed

section \<open>What the packet layer leaves alone\<close>

text \<open>
  The part of a session that sending and receiving packets keep: everything but the last error,
  the counters, the contents (not the length) of the staging buffers and the world.
\<close>

definition core :: "'w val_session \<Rightarrow> 'w val_session" where
  "core s = s\<lparr>last_error := \<lparr>err_code = VAL_OK, err_detail = 0, err_op = None\<rparr>,
     health := \<lparr>operations = 0, health_retries = 0, soft_trips = 0\<rparr>, metrics := zero_metrics,
     send_buf := replicate (length (send_buf s)) 0, recv_buf := replicate (length (recv_buf s)) 0,
     world := undefined\<rparr>"

definition stable :: "'w val_session \<Rightarrow> 'w val_session \<Rightarrow> bool" where
  "stable s s' \<longleftrightarrow> core s' = core s"

lemma core_upd [simp]:
  "core (s\<lparr>last_error := e\<rparr>) = core s" "core (s\<lparr>health := h\<rparr>) = core s" "core (s\<lparr>metrics := m\<rparr>) = core s"
  "core (s\<lparr>world := w\<rparr>) = core s"
  by (simp_all add: core_def)

lemma core_send_buf [simp]: "length b = length (send_buf s) \<Longrightarrow> core (s\<lparr>send_buf := b\<rparr>) = core s"
  by (simp add: core_def)

lemma core_recv_buf [simp]: "length b = length (recv_buf s) \<Longrightarrow> core (s\<lparr>recv_buf := b\<rparr>) = core s"
  by (simp add: core_def)

lemma core_fields:
  assumes "core s' = core s"
  shows "cfg s' = cfg s" "build s' = build s" "effective_packet_size s' = effective_packet_size s"
    "timing s' = timing s" "lock_depth s' = lock_depth s"
    "current_window_packets s' = current_window_packets s"
    "negotiated_window_packets s' = negotiated_window_packets s"
    "tracking_slots s' = tracking_slots s" "max_tracking_slots s' = max_tracking_slots s"
    "length (send_buf s') = length (send_buf s)" "length (recv_buf s') = length (recv_buf s)"
    "handshake_done s' = handshake_done s"
proof -
  have "f (core s') = f (core s)" for f :: "'a val_session \<Rightarrow> 'b" using assms by simp
  show "cfg s' = cfg s" "build s' = build s" "effective_packet_size s' = effective_packet_size s"
    "timing s' = timing s" "lock_depth s' = lock_depth s"
    "current_window_packets s' = current_window_packets s"
    "negotiated_window_packets s' = negotiated_window_packets s"
    "tracking_slots s' = tracking_slots s" "max_tracking_slots s' = max_tracking_slots s"
    "handshake_done s' = handshake_done s"
    using arg_cong [OF assms, of cfg] arg_cong [OF assms, of build] arg_cong [OF assms, of effective_packet_size]
      arg_cong [OF assms, of timing] arg_cong [OF assms, of lock_depth]
      arg_cong [OF assms, of current_window_packets] arg_cong [OF assms, of negotiated_window_packets]
      arg_cong [OF assms, of tracking_slots] arg_cong [OF assms, of max_tracking_slots]
      arg_cong [OF assms, of handshake_done]
    by (simp_all add: core_def)
  show "length (send_buf s') = length (send_buf s)" "length (recv_buf s') = length (recv_buf s)"
    using arg_cong [OF assms, of "\<lambda>s. length (send_buf s)"] arg_cong [OF assms, of "\<lambda>s. length (recv_buf s)"]
    by (simp_all add: core_def)
qed

lemma stable_session_ok: "stable s s' \<Longrightarrow> session_ok s' = session_ok s"
  using core_fields [of s' s] by (simp add: stable_def session_ok_def window_ok_def)

lemma core_lock [simp]:
  "core (val_internal_unlock (val_internal_lock s)) = core s"
  by (simp add: sess_defs)

lemma core_hooks [simp]:
  "core (snd (ticks s)) = core s"
  "core (delay ms s) = core s"
  "core (snd (val_internal_transport_is_connected s)) = core s"
  "core (val_internal_transport_flush s) = core s"
  "core (snd (send_bytes s data)) = core s"
  by (auto simp: hook_defs split: option.splits prod.splits)

lemma core_capture [simp]: "core (capture_packet d t wl pl off s) = core s"
proof (cases "ticks s")
  case (Pair now s')
  then have "core s' = core s" using core_hooks(1) [of s] by simp
  with Pair show ?thesis by (auto simp: capture_packet_def Let_def split: option.splits)
qed

lemma core_notes [simp]:
  "core (val_internal_set_error_detailed s c d) = core s"
  "core (val_internal_set_last_error s c d) = core s"
  "core (upd_metrics f s) = core s"
  "core (val_metrics_add_sent s n t) = core s"
  "core (val_metrics_add_recv s n t) = core s"
  "core (val_metrics_inc_crcerr s) = core s"
  "core (val_metrics_inc_retrans s) = core s"
  "core (val_metrics_inc_timeout_hard s) = core s"
  "core (VAL_HEALTH_RECORD_RETRY s) = core s"
  "core (VAL_HEALTH_RECORD_OPERATION s) = core s"
  by (simp_all add: sess_defs)

lemma core_unlock: "core s' = core (val_internal_lock s) \<Longrightarrow> core (val_internal_unlock s') = core s"
proof -
  assume a: "core s' = core (val_internal_lock s)"
  have u: "core (val_internal_unlock t) = val_internal_unlock (core t)" for t :: "'a val_session"
    by (simp add: core_def sess_defs)
  have "core (val_internal_unlock s') = core (val_internal_unlock (val_internal_lock s))"
    unfolding u a ..
  then show ?thesis by simp
qed

section \<open>Sending: properties\<close>

text \<open>The state after the frame was handed to the transport.\<close>

definition after_send ::
    "'w val_session \<Rightarrow> val_packet_type_t \<Rightarrow> nat \<Rightarrow> u64 \<Rightarrow> nat \<Rightarrow> 'w val_session" where
  "after_send s t n offset len =
     (let s = val_metrics_add_sent s (of_nat len) (pkt_byte t);
          s = capture_packet VAL_DIR_TX (pkt_byte t) (of_nat len) (of_nat n) offset s
      in if t = VAL_PKT_DONE \<or> t = VAL_PKT_EOT \<or> t = VAL_PKT_HELLO \<or> t = VAL_PKT_ERROR \<or> t = VAL_PKT_CANCEL
         then val_internal_transport_flush s else s)"

lemma core_after_send [simp]: "core (after_send s t n off l) = core s"
  by (simp add: after_send_def Let_def)

text \<open>The content that ends up in the frame: its length is a sixteen-bit field.\<close>

definition trunc16 :: "u8 list \<Rightarrow> u8 list" where
  "trunc16 c = take (length c mod 65536) c"

lemma trunc16_id [simp]: "length c < 65536 \<Longrightarrow> trunc16 c = c"
  by (simp add: trunc16_def)

lemma trunc16_len: "length (trunc16 c) = length c mod 65536"
  by (simp add: trunc16_def)

lemma of_nat_mod_u16: "(of_nat (n mod 65536) :: u16) = of_nat n"
proof -
  have "n mod 65536 = take_bit 16 n" by (simp add: take_bit_eq_mod)
  then show ?thesis by (simp only:) (rule bit_word_eqI, auto simp: bit_simps)
qed

lemma mem_read_take: "m \<le> n \<Longrightarrow> mem_read buf p m = take m (mem_read buf p n)"
  by (simp add: mem_read_def min_absorb1)

lemma send_core_cases:
  assumes ok: "session_ok s"
    and conn: "val_internal_transport_is_connected (val_internal_lock s) = (True, s1)"
    and p: "payload_is (send_buf s) payload bs"
    and wc: "wire_content t bs offset explicit = (flags, td, content)"
    and fits: "12 + length content \<le> unat (mtu s)"
  obtains buf where
    "length buf = length (send_buf s)"
    "val__internal_send_packet_core s t payload (of_nat (length bs)) offset explicit =
       (let (rc, s2) = send_bytes (s1\<lparr>send_buf := buf\<rparr>)
              (frame_of (val_internal_crc32 s) (pkt_byte t) flags td (trunc16 content));
            s2 = val_internal_unlock s2
        in if rc \<noteq> int (12 + length (trunc16 content))
           then (VAL_ERR_IO, VAL_SET_NETWORK_ERROR s2 VAL_ERROR_DETAIL_SEND_FAILED)
           else (VAL_OK, after_send s2 t (length bs) offset (12 + length (trunc16 content))))"
proof -
  let ?c = "trunc16 content"
  have sb: "send_buf s1 = send_buf s" and cf: "cfg s1 = cfg s" and ep: "effective_packet_size s1 = effective_packet_size s"
    using conn by (auto simp: hook_defs sess_defs split: option.splits prod.splits)
  have m: "mtu s1 = mtu s" using cf ep by (simp add: mtu_def)
  have ep0: "mtu s = effective_packet_size s" using ok by (auto simp: session_ok_def mtu_def)
  have L: "unat (mtu s) \<le> length (send_buf s)"
    using ok by (auto simp: session_ok_def ep0 word_le_nat_alt)
  have big: "512 \<le> unat (mtu s)" using ok by (simp add: session_ok_def ep0 word_le_nat_alt)
  have cl: "length ?c \<le> length content" "length ?c < 65536" "(of_nat (length content) :: u16) = of_nat (length ?c)"
    by (simp_all add: trunc16_len of_nat_mod_u16)
  obtain b1 where b1: "packet_content t (send_buf s1) payload (of_nat (length bs)) offset explicit =
      (flags, of_nat (length ?c), td, b1)" "length b1 = length (send_buf s)"
    "mem_read b1 8 (length content) = content"
    using packet_content_spec [OF p wc] L big fits sb unfolding cl(3) by auto
  have rd: "mem_read b1 8 (length ?c) = ?c"
    using mem_read_take [OF cl(1), of b1 8] by (simp add: b1(3) trunc16_def)
  obtain b2 l where b2: "seal_frame (s1\<lparr>send_buf := b1\<rparr>) (pkt_byte t) flags (of_nat (length ?c)) td b1 = (b2, l)"
    by (cases "seal_frame (s1\<lparr>send_buf := b1\<rparr>) (pkt_byte t) flags (of_nat (length ?c)) td b1")
  have cr: "val_internal_crc32 (s1\<lparr>send_buf := b1\<rparr>) = val_internal_crc32 s"
    using cf by (intro ext) (simp add: val_internal_crc32_def)
  have f: "l = 12 + length ?c" "length b2 = length (send_buf s)"
    "take l b2 = frame_of (val_internal_crc32 s) (pkt_byte t) flags td ?c"
    using seal_frame_spec [OF rd _ cl(2) b2] b1(2) fits L cl(1) by (auto simp: cr)
  have nl: "\<not> (ucast (of_nat (length ?c) :: u16) :: size_t) >
      mtu s1 - of_nat VAL_WIRE_HEADER_SIZE - of_nat VAL_WIRE_TRAILER_SIZE"
  proof -
    have "unat (mtu s - 8 - 4) = unat (mtu s) - 12"
      using big by (simp add: unat_sub word_le_nat_alt)
    moreover have "unat (ucast (of_nat (length ?c) :: u16) :: size_t) = length ?c"
      using cl(2) by (simp add: unat_of_nat_small)
    ultimately show ?thesis using fits cl(1) m by (simp add: word_less_nat_alt)
  qed
  show thesis
  proof (rule that [of b2, OF f(2)])
    show "val__internal_send_packet_core s t payload (of_nat (length bs)) offset explicit =
       (let (rc, s2) = send_bytes (s1\<lparr>send_buf := b2\<rparr>) (frame_of (val_internal_crc32 s) (pkt_byte t) flags td ?c);
            s2 = val_internal_unlock s2
        in if rc \<noteq> int (12 + length ?c)
           then (VAL_ERR_IO, VAL_SET_NETWORK_ERROR s2 VAL_ERROR_DETAIL_SEND_FAILED)
           else (VAL_OK, after_send s2 t (length bs) offset (12 + length ?c)))"
      unfolding val__internal_send_packet_core_def Let_def conn prod.case b1(1)
      using nl b2 f(1,3)
      by (cases "send_bytes (s1\<lparr>send_buf := b2\<rparr>) (frame_of (val_internal_crc32 s) (pkt_byte t) flags td ?c)")
        (simp add: after_send_def Let_def del: of_nat_add)
  qed
qed

text \<open>What the transport answers when it is asked whether it is connected; without a hook it counts as connected.\<close>

definition link_state :: "'w val_config \<Rightarrow> 'w \<Rightarrow> bool \<times> 'w" where
  "link_state c w = (case tr_is_connected (transport c) of None \<Rightarrow> (True, w) | Some f \<Rightarrow> (case f w of (r, w) \<Rightarrow> (r \<noteq> 0, w)))"

lemma link_state_None [simp]: "tr_is_connected (transport c) = None \<Longrightarrow> link_state c w = (True, w)"
  by (simp add: link_state_def)

lemma is_connected_link:
  assumes "link_state (cfg s) (world s) = (up, w1)"
  shows "val_internal_transport_is_connected (val_internal_lock s) = (up, (val_internal_lock s)\<lparr>world := w1\<rparr>)"
  using assms by (auto simp: link_state_def hook_defs sess_defs split: option.splits prod.splits)

lemma world_after_send:
  "world s = world s' \<Longrightarrow> cfg s = cfg s' \<Longrightarrow> world (after_send s t n off l) = world (after_send s' t n off l)"
  by (cases "capture (cfg s')"; cases "tr_flush (transport (cfg s'))"; cases "sys_get_ticks_ms (system (cfg s'))")
    (simp_all add: after_send_def hook_defs sess_defs Let_def split_beta)

lemma world_after_send_plain:
  "capture (cfg s) = None \<Longrightarrow> tr_flush (transport (cfg s)) = None \<Longrightarrow> world (after_send s t n off l) = world s"
  by (simp add: after_send_def hook_defs sess_defs Let_def)

text \<open>The result of a send, with the hooks spelled out.\<close>

lemma send_core_result:
  assumes "session_ok s" and up: "link_state (cfg s) (world s) = (True, w1)"
    and "tr_send (transport (cfg s)) = Some send_fn"
    and "payload_is (send_buf s) payload bs"
    and wc: "wire_content t bs offset explicit = (flags, td, content)"
    and fits: "12 + length content \<le> unat (mtu s)"
    and sent: "send_fn w1 (frame_of (val_internal_crc32 s) (pkt_byte t) flags td (trunc16 content)) = (rc, w')"
    and res: "val__internal_send_packet_core s t payload (of_nat (length bs)) offset explicit = (st, s')"
  shows "(st = VAL_OK \<longleftrightarrow> rc = int (12 + length (trunc16 content))) \<and>
         (st \<noteq> VAL_OK \<longrightarrow> st = VAL_ERR_IO \<and> err_code (last_error s') = VAL_ERR_IO \<and>
            err_detail (last_error s') = VAL_ERROR_DETAIL_SEND_FAILED \<and> world s' = w') \<and>
         (st = VAL_OK \<longrightarrow> world s' = world (after_send (s\<lparr>world := w'\<rparr>) t (length bs) offset (12 + length (trunc16 content)))) \<and>
         stable s s' \<and> session_ok s'"
proof -
  let ?s1 = "(val_internal_lock s)\<lparr>world := w1\<rparr>" and ?n = "12 + length (trunc16 content)"
  let ?f = "frame_of (val_internal_crc32 s) (pkt_byte t) flags td (trunc16 content)"
  note conn = is_connected_link [OF up]
  obtain buf where b: "length buf = length (send_buf s)" and
    e: "val__internal_send_packet_core s t payload (of_nat (length bs)) offset explicit =
       (let (rc, s2) = send_bytes (?s1\<lparr>send_buf := buf\<rparr>) ?f;
            s2 = val_internal_unlock s2
        in if rc \<noteq> int ?n
           then (VAL_ERR_IO, VAL_SET_NETWORK_ERROR s2 VAL_ERROR_DETAIL_SEND_FAILED)
           else (VAL_OK, after_send s2 t (length bs) offset ?n))"
    by (rule send_core_cases [OF assms(1) conn assms(4) wc fits])
  let ?s2 = "val_internal_unlock (?s1\<lparr>send_buf := buf, world := w'\<rparr>)"
  have sb: "send_bytes (?s1\<lparr>send_buf := buf\<rparr>) ?f = (rc, ?s1\<lparr>send_buf := buf, world := w'\<rparr>)"
    using assms(3) sent by (simp add: send_bytes_def sess_defs)
  have r: "(st, s') = (if rc \<noteq> int ?n
      then (VAL_ERR_IO, VAL_SET_NETWORK_ERROR ?s2 VAL_ERROR_DETAIL_SEND_FAILED)
      else (VAL_OK, after_send ?s2 t (length bs) offset ?n))"
    using e res by (simp add: sb del: of_nat_add)
  have c2: "core ?s2 = core s"
    by (rule core_unlock) (simp add: b sess_defs)
  have "core s' = core s" using r c2 by (simp split: if_splits del: of_nat_add)
  then have st: "stable s s'" by (simp add: stable_def)
  have w: "world (after_send ?s2 t (length bs) offset ?n) = world (after_send (s\<lparr>world := w'\<rparr>) t (length bs) offset ?n)"
    by (rule world_after_send) (simp_all add: sess_defs)
  show ?thesis
    using r w st assms(1) stable_session_ok [OF st]
    by (auto simp: sess_defs split: if_splits simp del: of_nat_add)
qed

text \<open>A link that is down: nothing is sent.\<close>

lemma send_core_down:
  assumes ok: "session_ok s" and down: "link_state (cfg s) (world s) = (False, w1)"
    and res: "val__internal_send_packet_core s t payload n offset explicit = (st, s')"
  shows "st = VAL_ERR_IO \<and> err_code (last_error s') = VAL_ERR_IO \<and> err_detail (last_error s') = VAL_ERROR_DETAIL_CONNECTION \<and>
    world s' = w1 \<and> stable s s' \<and> session_ok s'"
proof -
  let ?s1 = "VAL_SET_NETWORK_ERROR ((val_internal_lock s)\<lparr>world := w1\<rparr>) VAL_ERROR_DETAIL_CONNECTION"
  have r: "st = VAL_ERR_IO" "s' = val_internal_unlock ?s1"
    using res by (simp_all add: val__internal_send_packet_core_def is_connected_link [OF down])
  have "core s' = core s" unfolding r(2) by (rule core_unlock) simp
  then have st: "stable s s'" by (simp add: stable_def)
  show ?thesis using r st stable_session_ok [OF st] ok by (simp add: sess_defs)
qed

text \<open>
  C8. A packet that fits the MTU and has less than 65536 bytes of content (beyond that its length is cut), over any
  transport. If the transport has a hook that tells whether it is connected and it says no, nothing is sent: input/output
  error with the detail for a lost connection. Otherwise the packet is handed to the transport exactly once, as the frame of its type: eight bytes
  of header, the content, and the CRC of both. The result says whether the transport took all of it; then the capture hook is told and control packets are flushed.
  Apart from the last error, the counters and the buffers' contents the session is unchanged (the lock is released, no buffer is overrun), so its
  invariant holds.
\<close>

theorem send_packet_spec:
  assumes "session_ok s"
    and "link_state (cfg s) (world s) = (up, w1)"
    and "tr_send (transport (cfg s)) = Some send_fn"
    and "payload_is (send_buf s) payload bs"
    and "12 + needs_room t bs offset explicit \<le> unat (mtu s)" and "needs_room t bs offset explicit < 65536"
    and "send_fn w1 (frame_bytes s t bs offset explicit) = (rc, w2)"
    and "val__internal_send_packet_core s t payload (of_nat (length bs)) offset explicit = (st, s')"
  shows "(st = VAL_OK \<longleftrightarrow> up \<and> rc = int (length (frame_bytes s t bs offset explicit))) \<and>
         (st \<noteq> VAL_OK \<longrightarrow> st = VAL_ERR_IO \<and> err_code (last_error s') = VAL_ERR_IO \<and>
            err_detail (last_error s') = (if up then VAL_ERROR_DETAIL_SEND_FAILED else VAL_ERROR_DETAIL_CONNECTION) \<and>
            world s' = (if up then w2 else w1)) \<and>
         (st = VAL_OK \<longrightarrow>
            world s' = world (after_send (s\<lparr>world := w2\<rparr>) t (length bs) offset (length (frame_bytes s t bs offset explicit)))) \<and>
         (st = VAL_OK \<and> capture (cfg s) = None \<and> tr_flush (transport (cfg s)) = None \<longrightarrow> world s' = w2) \<and>
         stable s s' \<and> session_ok s'"
proof (cases up)
  case False
  with send_core_down [OF assms(1) _ assms(8)] assms(2) show ?thesis by simp
next
  case True
  obtain flags td content where wc: "wire_content t bs offset explicit = (flags, td, content)"
    by (cases "wire_content t bs offset explicit")
  then have n: "12 + length content \<le> unat (mtu s)" "length content < 65536"
    using assms(5,6) by (simp_all add: needs_room_def)
  then have f: "frame_bytes s t bs offset explicit = frame_of (val_internal_crc32 s) (pkt_byte t) flags td (trunc16 content)"
    by (simp add: frame_bytes_def wc)
  have "length (frame_bytes s t bs offset explicit) = 12 + length (trunc16 content)"
    by (simp add: f frame_of_def Let_def header_bytes_def)
  moreover have "link_state (cfg s) (world s) = (True, w1)" using assms(2) True by simp
  moreover have "world (after_send (s\<lparr>world := w2\<rparr>) t (length bs) offset k) = w2"
    if "capture (cfg s) = None" "tr_flush (transport (cfg s)) = None" for k
    using that world_after_send_plain [of "s\<lparr>world := w2\<rparr>"] by simp
  ultimately show ?thesis
    using send_core_result [OF assms(1) _ assms(3,4) wc n(1) _ assms(8), of w1 rc w2] assms(7) [unfolded f] True by simp
qed

lemma bed_session_ok: "session_ok bed_session"
proof -
  have "session_ok (clear_slots ((session_init bed_build bed_config bed_world)\<lparr>world := bed_world\<rparr>))"
    by (rule session_init_ok) (simp_all add: config_ok_def config_missing_def buffers_fit_def bed_config_def)
  moreover have "(session_init bed_build bed_config bed_world)\<lparr>world := bed_world\<rparr> = session_init bed_build bed_config bed_world"
    by (simp add: session_init_def val_internal_init_timing_def Let_def split: prod.splits)
  ultimately show ?thesis by (simp add: bed_session_def)
qed

lemma bed_session_simps:
  "mtu bed_session = 512" "world bed_session = bed_world" "recv_buf bed_session = replicate 512 0"
  "send_buf bed_session = replicate 512 0" "lock_depth bed_session = 0"
  by (simp_all add: mtu_def bed_session_cfg bed_session_def session_init_def sess_defs Let_def bed_config_def
      val_internal_init_timing_def split: prod.splits)

text \<open>A session whose transport can tell whether it is connected, and is if there is something to read.\<close>

definition bed_linked :: "u8 list \<Rightarrow> bed val_session" where
  "bed_linked rx = bed_session\<lparr>
     cfg := (cfg bed_session)\<lparr>transport := (transport (cfg bed_session))\<lparr>tr_is_connected := Some (\<lambda>w. (if bed_rx w = [] then 0 else 1, w))\<rparr>\<rparr>,
     world := bed_world\<lparr>bed_rx := rx\<rparr>\<rparr>"

lemma bed_linked_ok: "session_ok (bed_linked rx)"
  using bed_session_ok by (simp add: bed_linked_def session_ok_def config_ok_def config_missing_def window_ok_def)

theorem send_packet_spec_witness:
  "(\<exists>s'. val__internal_send_packet_core (bed_linked [0]) VAL_PKT_DATA (P_BYTES [1, 2, 3]) 3 4096 True = (VAL_OK, s') \<and>
        bed_tx (world s') = frame_bytes (bed_linked [0]) VAL_PKT_DATA [1, 2, 3] 4096 True \<and> session_ok s') \<and>
   (\<exists>s'. val__internal_send_packet_core (bed_linked []) VAL_PKT_DATA (P_BYTES [1, 2, 3]) 3 4096 True = (VAL_ERR_IO, s') \<and> bed_tx (world s') = [])"
proof -
  let ?f = "\<lambda>rx. frame_bytes (bed_linked rx) VAL_PKT_DATA [1, 2, 3] 4096 True"
  let ?core = "\<lambda>rx. val__internal_send_packet_core (bed_linked rx) VAL_PKT_DATA (P_BYTES [1, 2, 3]) (of_nat (length [1, 2, 3 :: u8])) 4096 True"
  have "mtu (bed_linked rx) = mtu bed_session" for rx by (simp add: mtu_def bed_linked_def)
  then have m: "mtu (bed_linked rx) = 512" for rx by (simp add: bed_session_simps)
  have cf: "tr_send (transport (cfg (bed_linked rx))) = Some bed_send" "capture (cfg (bed_linked rx)) = None"
      "tr_flush (transport (cfg (bed_linked rx))) = None" "send_buf (bed_linked rx) = replicate 512 0" for rx
    by (simp_all add: bed_linked_def bed_session_cfg bed_config_def bed_session_simps)
  have lk: "link_state (cfg (bed_linked rx)) (world (bed_linked rx)) = (rx \<noteq> [], bed_world\<lparr>bed_rx := rx\<rparr>)" for rx
    by (simp add: bed_linked_def link_state_def bed_session_cfg bed_config_def)
  have snd: "bed_send (bed_world\<lparr>bed_rx := rx\<rparr>) (?f rx) = (int (length (?f rx)), bed_world\<lparr>bed_rx := rx, bed_tx := ?f rx\<rparr>)" for rx
    by (simp add: bed_send_def bed_world_def)
  have "payload_is (send_buf (bed_linked rx)) (P_BYTES [1, 2, 3]) [1, 2, 3]" "12 + needs_room VAL_PKT_DATA [1, 2, 3] 4096 True \<le> unat (mtu (bed_linked rx))"
      "needs_room VAL_PKT_DATA [1, 2, 3] 4096 True < 65536" for rx
    by (simp_all add: m payload_is_def needs_room_def wire_content_def)
  note spec = send_packet_spec [OF bed_linked_ok lk cf(1) this snd]
  obtain st s' where r: "?core [0] = (st, s')" by (cases "?core [0]")
  have "st = VAL_OK \<and> world s' = bed_world\<lparr>bed_rx := [0], bed_tx := ?f [0]\<rparr> \<and> session_ok s'" 
    using spec [OF r] cf(2,3) by (simp add: world_after_send_plain)
  moreover obtain st2 s2 where r2: "?core [] = (st2, s2)" by (cases "?core []")
  moreover have "st2 = VAL_ERR_IO \<and> bed_tx (world s2) = []" using spec [OF r2] by (auto simp: bed_world_def)
  ultimately show ?thesis using r by simp
qed

text \<open>
  A packet whose content does not fit the MTU is refused before anything reaches the transport,
  with the status and detail for an oversized payload, as long as its length fits the header's
  sixteen-bit field.
\<close>

lemma send_packet_too_large:
  assumes "session_ok s" and "tr_is_connected (transport (cfg s)) = None"
    and "unat (mtu s) < 12 + length (data_area bs offset explicit)"
    and "length (data_area bs offset explicit) < 65536"
  shows "\<exists>s'. val__internal_send_packet_core s VAL_PKT_DATA (P_BYTES bs) (of_nat (length bs)) offset explicit =
           (VAL_ERR_INVALID_ARG, s') \<and>
         err_code (last_error s') = VAL_ERR_INVALID_ARG \<and> err_detail (last_error s') = VAL_ERROR_DETAIL_PAYLOAD_SIZE \<and>
         world s' = world s \<and> lock_depth s' = lock_depth s"
proof -
  let ?s1 = "val_internal_lock s" and ?n = "length (data_area bs offset explicit)"
  have conn: "val_internal_transport_is_connected ?s1 = (True, ?s1)"
    using assms(2) by (simp add: hook_defs sess_defs)
  have u: "ucast ((of_nat (length bs) :: u32) + 8) = (of_nat (8 + length bs) :: u16)"
    using ucast_of_nat_down [where ?'a = 32 and ?'b = 16, of "8 + length bs"] by (simp add: add.commute)
  have "\<exists>flags buf. packet_content VAL_PKT_DATA (send_buf ?s1) (P_BYTES bs) (of_nat (length bs)) offset explicit =
      (flags, of_nat ?n, 0, buf)"
    by (auto simp: packet_content_def data_content_def data_area_def Let_def u ucast_of_nat_down)
  then obtain flags buf where
    pc: "packet_content VAL_PKT_DATA (send_buf ?s1) (P_BYTES bs) (of_nat (length bs)) offset explicit = (flags, of_nat ?n, 0, buf)"
    by blast
  have n: "unat (ucast (of_nat ?n :: u16) :: size_t) = ?n"
    using assms(4) by (simp add: unat_of_nat_small)
  have m512: "512 \<le> unat (mtu s)" using assms(1) by (auto simp: session_ok_def mtu_def word_le_nat_alt)
  then have "unat (mtu s - 8 - 4) = unat (mtu s) - 12"
    by (simp add: unat_sub word_le_nat_alt)
  then have "mtu s - 8 - 4 < (ucast (of_nat ?n :: u16) :: size_t)"
    using assms(3) m512 unfolding word_less_nat_alt n by simp
  moreover have "mtu ?s1 = mtu s" by (simp add: mtu_def sess_defs)
  ultimately have "mtu ?s1 - of_nat VAL_WIRE_HEADER_SIZE - of_nat VAL_WIRE_TRAILER_SIZE < (ucast (of_nat ?n :: u16) :: size_t)"
    by simp
  then show ?thesis
    by (simp only: val__internal_send_packet_core_def conn Let_def prod.case pc if_True) (simp add: sess_defs)
qed


definition bed_big :: "bed val_session" where
  "bed_big = bed_session\<lparr>cfg := (cfg bed_session)\<lparr>buffers := \<lparr>send_buffer = Some [], recv_buffer = Some [], packet_size = 70000\<rparr>\<rparr>,
     effective_packet_size := 70000, send_buf := replicate 70000 0, recv_buf := replicate 70000 0\<rparr>"

lemma bed_big_ok: "session_ok bed_big"
  using bed_session_ok
  by (simp add: bed_big_def session_ok_def config_ok_def config_missing_def window_ok_def)


end
