(* ===== verification/Val_Frames.thy ===== *)
theory Val_Frames
  imports Val_Packet
begin

text \<open>
  The receiving half of the packet layer: what the read loop of \<^verbatim>\<open>val_recv_full\<close> does for any
  transport, when receiving returns, that a received frame is the one that was sent, and that a
  damaged frame is rejected. The documented behaviour of the transport's \<open>recv\<close> hook and of the
  clock is stated as predicates on the configuration.
\<close>

section \<open>Receiving: the read loop\<close>

text \<open>
  What the documentation of the \<open>recv\<close> hook says of the bytes: it never stores more than it was
  asked for.
\<close>

definition recv_bounded :: "'w val_config \<Rightarrow> bool" where
  "recv_bounded c \<longleftrightarrow> (\<forall>f w n t. tr_recv (transport c) = Some f \<longrightarrow> length (fst (snd (f w n t))) \<le> unat n)"

text \<open>A step that changes the world only, such as reading the clock.\<close>

definition only_world :: "'w val_session \<Rightarrow> 'w val_session \<Rightarrow> bool" where
  "only_world s s' \<longleftrightarrow> (\<exists>w. s' = s\<lparr>world := w\<rparr>)"

lemma only_world_refl [simp]: "only_world s s"
  unfolding only_world_def by (rule exI [of _ "world s"]) simp

lemma only_world_trans [trans]: "only_world s s' \<Longrightarrow> only_world s' s'' \<Longrightarrow> only_world s s''"
  by (auto simp: only_world_def)

lemma only_world_upd [simp]: "only_world s (s\<lparr>world := w\<rparr>)"
  by (auto simp: only_world_def)

lemma only_world_cfg: "only_world s s' \<Longrightarrow> cfg s' = cfg s"
  by (auto simp: only_world_def)

lemma only_world_fields:
  "only_world s s' \<Longrightarrow> recv_buf s' = recv_buf s \<and> send_buf s' = send_buf s \<and> core s' = core s \<and>
     last_error s' = last_error s \<and> build s' = build s \<and> metrics s' = metrics s \<and> lock_depth s' = lock_depth s \<and> mtu s' = mtu s"
  by (auto simp: only_world_def mtu_def)

lemma ticks_world: "ticks s = (t, s') \<Longrightarrow> only_world s s'"
  by (auto simp: ticks_def split: option.splits prod.splits)

text \<open>One round of the loop: a result, or the bytes stored so far and the session to go on with.\<close>

definition recv_round ::
    "u32 \<Rightarrow> nat \<Rightarrow> u32 \<Rightarrow> u8 list \<Rightarrow> 'w val_session \<Rightarrow>
     (val_status_t \<times> u8 list \<times> 'w val_session) + (u8 list \<times> 'w val_session)" where
  "recv_round start need to_ms have s =
     (if length have \<ge> need then Inl (VAL_OK, have, s)
      else
        let (now, s) = ticks s;
            elapsed = (if now \<ge> start then now - start else 0);
            remaining = (if to_ms > elapsed then to_ms - elapsed else 0);
            slice = (if remaining \<noteq> 0 then remaining else if to_ms \<noteq> 0 then 1 else 0)
        in case tr_recv (transport (cfg s)) of
             None \<Rightarrow> Inl (VAL_ERR_IO, have, s)
           | Some recv_fn \<Rightarrow>
               (case recv_fn (world s) (of_nat (need - length have)) slice of
                  (r, got, w) \<Rightarrow>
                    let s = s\<lparr>world := w\<rparr> in
                    if r < 0 then Inl (VAL_ERR_IO, have @ got, s)
                    else if length (have @ got) \<ge> need then Inl (VAL_OK, have @ got, s)
                    else
                      let (now, s) = ticks s in
                      if now - start \<ge> to_ms then Inl (VAL_ERR_TIMEOUT, have @ got, s)
                      else Inr (have @ got, s)))"

lemma val_recv_full_loop_round:
  "val_recv_full_loop start need to_ms have s =
     (case recv_round start need to_ms have s of
        Inl r \<Rightarrow> Some r | Inr (have', s') \<Rightarrow> val_recv_full_loop start need to_ms have' s')"
  by (subst val_recv_full_loop.simps)
    (simp add: recv_round_def Let_def split: prod.splits option.splits)

text \<open>A partial-correctness rule for the loop: an invariant of its rounds holds of its result.\<close>

lemma val_recv_full_loop_inv:
  assumes res: "val_recv_full_loop start need to_ms have s = Some r" and start: "I have s"
    and step: "\<And>h s h' s'. I h s \<Longrightarrow> recv_round start need to_ms h s = Inr (h', s') \<Longrightarrow> I h' s'"
    and fin: "\<And>h s r. I h s \<Longrightarrow> recv_round start need to_ms h s = Inl r \<Longrightarrow> Q r"
  shows "Q r"
proof -
  let ?P = "\<lambda>st nd t h s y. st = start \<and> nd = need \<and> t = to_ms \<and> I h s \<longrightarrow> Q y"
  have "?P start need to_ms have s r"
  proof (rule val_recv_full_loop.raw_induct [where P = ?P, OF _ res])
    fix loop :: "u32 \<Rightarrow> nat \<Rightarrow> u32 \<Rightarrow> u8 list \<Rightarrow> 'a val_session \<Rightarrow> _" and st nd t h s y
    assume IH: "\<And>st nd t h s y. loop st nd t h s = Some y \<Longrightarrow> ?P st nd t h s y"
      and eq: "(if nd \<le> length h then Some (VAL_OK, h, s)
         else let (now, s) = ticks s; elapsed = if st \<le> now then now - st else 0;
                  remaining = if elapsed < t then t - elapsed else 0;
                  slice = if remaining \<noteq> 0 then remaining else if t \<noteq> 0 then 1 else 0
              in case tr_recv (transport (cfg s)) of None \<Rightarrow> Some (VAL_ERR_IO, h, s)
                 | Some recv_fn \<Rightarrow>
                     (case recv_fn (world s) (of_nat (nd - length h)) slice of
                       (r, got, w) \<Rightarrow>
                         let s = s\<lparr>world := w\<rparr>
                         in if r < 0 then Some (VAL_ERR_IO, h @ got, s)
                            else if nd \<le> length (h @ got) then Some (VAL_OK, h @ got, s)
                                 else let (now, s) = ticks s
                                      in if t \<le> now - st then Some (VAL_ERR_TIMEOUT, h @ got, s)
                                         else loop st nd t (h @ got) s)) = Some y"
    have e: "(case recv_round st nd t h s of Inl r \<Rightarrow> Some r | Inr (h', s') \<Rightarrow> loop st nd t h' s') = Some y"
      unfolding eq [symmetric] by (simp add: recv_round_def Let_def split: prod.splits option.splits)
    show "?P st nd t h s y"
    proof (intro impI, elim conjE)
      assume a: "st = start" "nd = need" "t = to_ms" "I h s"
      show "Q y"
      proof (cases "recv_round st nd t h s")
        case (Inl r)
        then show ?thesis using e fin a by auto
      next
        case (Inr x)
        then show ?thesis using e step a IH by (cases x) auto
      qed
    qed
  qed
  then show ?thesis using start by simp
qed

lemma recv_round_world:
  assumes "recv_bounded (cfg s)" and "length have \<le> need" and "need < 2 ^ 64"
  shows "(case recv_round start need to_ms have s of
     Inl (st, bs, s') \<Rightarrow> only_world s s' \<and> length bs \<le> need \<and> (st = VAL_OK \<longrightarrow> length bs = need) \<and>
         st \<in> {VAL_OK, VAL_ERR_IO, VAL_ERR_TIMEOUT}
   | Inr (have', s') \<Rightarrow> only_world s s' \<and> length have' \<le> need)"
proof (cases "need \<le> length have")
  case True
  then show ?thesis using assms by (simp add: recv_round_def)
next
  case False
  obtain now s1 where t: "ticks s = (now, s1)" by (cases "ticks s")
  note w1 = ticks_world [OF t]
  note c1 = only_world_cfg [OF w1]
  show ?thesis
  proof (cases "tr_recv (transport (cfg s))")
    case None
    then show ?thesis using False t w1 c1 by (simp add: recv_round_def)
  next
    case (Some f)
    have n: "unat (of_nat (need - length have) :: size_t) = need - length have"
      using assms(3) by (simp add: unat_of_nat_small)
    let ?e = "if now \<ge> start then now - start else 0"
    let ?rm = "if to_ms > ?e then to_ms - ?e else 0"
    let ?sl = "if ?rm \<noteq> 0 then ?rm else if to_ms \<noteq> 0 then 1 else 0"
    obtain r got w where f: "f (world s1) (of_nat (need - length have)) ?sl = (r, got, w)"
      by (cases "f (world s1) (of_nat (need - length have)) ?sl")
    have g: "length got \<le> need - length have"
      using assms(1) Some f n unfolding recv_bounded_def by (metis fst_conv snd_conv)
    obtain now2 s2 where t2: "ticks (s1\<lparr>world := w\<rparr>) = (now2, s2)" by (cases "ticks (s1\<lparr>world := w\<rparr>)")
    note w2 = ticks_world [OF t2]
    have s1: "only_world s (s1\<lparr>world := w\<rparr>)" by (rule only_world_trans [OF w1]) simp
    have s2: "only_world s s2" by (rule only_world_trans [OF s1 w2])
    show ?thesis
      using False g s1 s2 unfolding recv_round_def Let_def t prod.case c1 Some option.case f t2
      by auto
  qed
qed

lemma val_recv_full_world:
  assumes "val_recv_full need to_ms s = Some (st, bs, s')" and "recv_bounded (cfg s)" and "need < 2 ^ 64"
  shows "only_world s s' \<and> length bs \<le> need \<and> (st = VAL_OK \<longrightarrow> length bs = need) \<and>
         st \<in> {VAL_OK, VAL_ERR_IO, VAL_ERR_TIMEOUT}"
proof (cases "tr_recv (transport (cfg s)) = None")
  case True
  then show ?thesis using assms by (simp add: val_recv_full_def)
next
  case False
  obtain start s1 where t: "ticks s = (start, s1)" by (cases "ticks s")
  note w1 = ticks_world [OF t]
  have r: "val_recv_full_loop start need to_ms [] s1 = Some (st, bs, s')"
    using assms(1) False t by (simp add: val_recv_full_def)
  let ?I = "\<lambda>h x. length h \<le> need \<and> only_world s x"
  have "case (st, bs, s') of (st, bs, s') \<Rightarrow> only_world s s' \<and> length bs \<le> need \<and>
      (st = VAL_OK \<longrightarrow> length bs = need) \<and> st \<in> {VAL_OK, VAL_ERR_IO, VAL_ERR_TIMEOUT}"
  proof (rule val_recv_full_loop_inv [OF r, where I = ?I])
    show "?I [] s1" using w1 by simp
  next
    fix h x h' x' assume I: "?I h x" and st: "recv_round start need to_ms h x = Inr (h', x')"
    have c: "recv_bounded (cfg x)" using I assms(2) only_world_cfg by metis
    show "?I h' x'"
      using recv_round_world [OF c _ assms(3), of h start to_ms] I st by (auto intro: only_world_trans)
  next
    fix h x y assume I: "?I h x" and st: "recv_round start need to_ms h x = Inl y"
    have c: "recv_bounded (cfg x)" using I assms(2) only_world_cfg by metis
    show "case y of (st, bs, s') \<Rightarrow> only_world s s' \<and> length bs \<le> need \<and>
      (st = VAL_OK \<longrightarrow> length bs = need) \<and> st \<in> {VAL_OK, VAL_ERR_IO, VAL_ERR_TIMEOUT}"
      using recv_round_world [OF c _ assms(3), of h start to_ms] I st
      by (auto intro: only_world_trans split: prod.splits)
  qed
  then show ?thesis by simp
qed

section \<open>Receiving: when it returns\<close>

text \<open>
  What the documentation says of time: the clock hook reads a clock, and a \<open>recv\<close> call that stores
  nothing and reports no error has let its whole timeout pass.
\<close>

definition recv_waits :: "'w val_config \<Rightarrow> ('w \<Rightarrow> u32) \<Rightarrow> bool" where
  "recv_waits c clk \<longleftrightarrow>
     sys_get_ticks_ms (system c) = Some (\<lambda>w. (clk w, w)) \<and>
     (\<forall>f w n t r w'. tr_recv (transport c) = Some f \<longrightarrow> f w n t = (r, [], w') \<longrightarrow> n \<noteq> 0 \<longrightarrow> 0 \<le> r \<longrightarrow>
        clk w' = clk w + t)"

lemma ticks_clk: "recv_waits (cfg s) clk \<Longrightarrow> ticks s = (clk (world s), s)"
  by (simp add: recv_waits_def ticks_def)

lemma slice_enough:
  fixes now start to_ms :: u32
  assumes e: "now - start \<le> to_ms" and t: "to_ms \<le> 0x7FFFFFFF"
  defines "el \<equiv> if now \<ge> start then now - start else 0"
  defines "rm \<equiv> if to_ms > el then to_ms - el else 0"
  shows "to_ms \<le> (now - start) + (if rm \<noteq> 0 then rm else if to_ms \<noteq> 0 then 1 else 0)"
proof -
  let ?d = "now - start"
  have d: "unat ?d \<le> unat to_ms" "unat to_ms \<le> 0x7FFFFFFF"
    using e t by (simp_all add: word_le_nat_alt)
  have add: "unat (?d + x) = unat ?d + unat x" if "unat x \<le> 0x7FFFFFFF" for x
    using d that by (simp add: unat_word_ariths)
  have sub: "unat (to_ms - x) = unat to_ms - unat x" if "unat x \<le> unat to_ms" for x
    using that by (simp add: unat_sub word_le_nat_alt)
  have nz: "x \<noteq> 0 \<longleftrightarrow> unat x \<noteq> 0" for x :: u32 by (simp add: unat_eq_0)
  show ?thesis
  proof (cases "now \<ge> start")
    case True
    then show ?thesis
      using d unfolding el_def rm_def
      by (auto simp: word_le_nat_alt word_less_nat_alt add sub nz)
  next
    case False
    then show ?thesis
      using d unfolding el_def rm_def
      by (auto simp: word_le_nat_alt word_less_nat_alt add nz)
  qed
qed

lemma recv_round_progress:
  assumes w: "recv_waits (cfg s) clk" and t: "to_ms \<le> 0x7FFFFFFF" and nd: "need < 2 ^ 64"
    and e: "clk (world s) - start \<le> to_ms"
    and r: "recv_round start need to_ms have s = Inr (have', s')"
  shows "length have < length have' \<and> clk (world s') - start \<le> to_ms \<and> only_world s s' \<and> length have < need"
proof -
  let ?now = "clk (world s)"
  let ?e = "if ?now \<ge> start then ?now - start else 0"
  let ?rm = "if to_ms > ?e then to_ms - ?e else 0"
  let ?sl = "if ?rm \<noteq> 0 then ?rm else if to_ms \<noteq> 0 then 1 else 0"
  have n: "length have < need" using r by (auto simp: recv_round_def split: if_splits)
  obtain f where f: "tr_recv (transport (cfg s)) = Some f"
    using r n by (cases "tr_recv (transport (cfg s))") (auto simp: recv_round_def Let_def ticks_clk [OF w])
  obtain rc got w' where fr: "f (world s) (of_nat (need - length have)) ?sl = (rc, got, w')"
    by (cases "f (world s) (of_nat (need - length have)) ?sl")
  let ?s1 = "s\<lparr>world := w'\<rparr>"
  have w1: "recv_waits (cfg ?s1) clk" using w by simp
  have res: "0 \<le> rc" "have' = have @ got" "s' = ?s1" "\<not> to_ms \<le> clk w' - start"
    using r n unfolding recv_round_def Let_def ticks_clk [OF w] prod.case f option.case fr ticks_clk [OF w1]
    by (auto split: if_splits)
  have "got \<noteq> []"
  proof
    assume "got = []"
    moreover have "(of_nat (need - length have) :: size_t) \<noteq> 0"
    proof
      assume "(of_nat (need - length have) :: size_t) = 0"
      moreover have "unat (of_nat (need - length have) :: size_t) = need - length have"
        by (rule unat_of_nat_small) (use nd in simp)
      ultimately show False using n by simp
    qed
    ultimately have k: "clk w' = ?now + ?sl" using w f fr res(1) by (auto simp: recv_waits_def)
    have "clk w' - start = (?now - start) + ?sl" by (simp add: k)
    then show False using res(4) slice_enough [OF e t] by (simp only: not_True_eq_False)
  qed
  then show ?thesis using res n by auto
qed

lemma val_recv_full_loop_returns:
  assumes "recv_waits (cfg s) clk" and "to_ms \<le> 0x7FFFFFFF" and "need < 2 ^ 64" and "clk (world s) - start \<le> to_ms"
  shows "\<exists>r. val_recv_full_loop start need to_ms hv s = Some r"
  using assms
proof (induction "need - length hv" arbitrary: hv s rule: less_induct)
  case less
  show ?case
  proof (cases "recv_round start need to_ms hv s")
    case (Inl r)
    then show ?thesis by (subst val_recv_full_loop_round) (cases r, simp)
  next
    case (Inr x)
    obtain hv' s' where x: "x = (hv', s')" by (cases x)
    note p = recv_round_progress [OF less.prems, of hv hv' s'] Inr x
    have l: "need - length hv' < need - length hv" using p by auto
    have c: "recv_waits (cfg s') clk" using p less.prems(1) only_world_cfg by metis
    have "\<exists>r. val_recv_full_loop start need to_ms hv' s' = Some r"
      by (rule less.hyps [OF l c less.prems(2,3)]) (use p in blast)
    then show ?thesis using Inr x by (subst val_recv_full_loop_round) simp
  qed
qed

lemma val_recv_full_returns:
  assumes "recv_waits (cfg s) clk" and "to_ms \<le> 0x7FFFFFFF" and "need < 2 ^ 64"
  shows "\<exists>r. val_recv_full need to_ms s = Some r"
  using val_recv_full_loop_returns [OF assms, of "clk (world s)" "[]"]
  by (simp add: val_recv_full_def ticks_clk [OF assms(1)])

section \<open>Receiving a packet\<close>

lemma core_recv_failed:
  "core s' = core (val_internal_lock s) \<Longrightarrow> core (snd (recv_failed rc s')) = core s"
  by (auto simp: recv_failed_def intro: core_unlock)

lemma set_error_bufs [simp]:
  "recv_buf (val_internal_set_last_error s c d) = recv_buf s"
  "recv_buf (val_internal_set_error_detailed s c d) = recv_buf s"
  by (simp_all add: sess_defs)

lemma core_deliver_frame:
  assumes "core s' = core (val_internal_lock s)" "unat (rx_cap dest) \<le> length (recv_buf s')"
  shows "core (snd (snd (deliver_frame tb fl pl td dest rx s'))) = core s"
proof -
  have l: "length (mem_write (recv_buf s') 0 (mem_read (recv_buf s') p n)) = length (recv_buf s')"
    if "n \<le> length (recv_buf s')" for p n
    using that by (subst length_mem_write) (simp_all add: mem_read_def)
  define ex where "ex \<longleftrightarrow> tb = pkt_byte VAL_PKT_DATA \<and> fl AND VAL_DATA_OFFSET_PRESENT \<noteq> 0"
  define src where "src = (if ex then VAL_WIRE_HEADER_SIZE + 8 else VAL_WIRE_HEADER_SIZE)"
  define cl where "cl = (if ex then pl - 8 else pl)"
  let ?t = "s'\<lparr>recv_buf := mem_write (recv_buf s') 0 (mem_read (recv_buf s') src (unat cl))\<rparr>"
  have k: "core (val_internal_unlock ?t) = core s" if "\<not> rx_cap dest < cl"
    by (rule core_unlock) (use l [of "unat cl" src] that assms in \<open>simp add: word_less_nat_alt\<close>)
  have u: "core (val_internal_unlock s') = core s"
    "core (val_internal_unlock (val_internal_set_error_detailed s' c d)) = core s" for c d
    by (rule core_unlock, simp add: assms(1))+
  show ?thesis
    unfolding deliver_frame_def Let_def ex_def [symmetric] src_def [symmetric] cl_def [symmetric]
    by (simp add: k u)
qed

lemma core_accept_frame:
  assumes "core s' = core (val_internal_lock s)" "unat (rx_cap dest) \<le> length (recv_buf s')"
  shows "core (snd (snd (accept_frame tb fl pl td tc dest s'))) = core s"
  using core_deliver_frame [of _ s dest tb fl pl td] assms
  by (simp add: accept_frame_def Let_def core_unlock [where s = s])

lemma mtu_lock [simp]: "mtu (val_internal_lock s) = mtu s"
  by (simp add: mtu_def sess_defs)

lemma core_rx_fail:
  "rx_fail rc s' = Some (st, rx, s'') \<Longrightarrow> core s' = core (val_internal_lock s) \<Longrightarrow> core s'' = core s"
  using core_recv_failed [of s' s rc] by (cases "recv_failed rc s'") (auto simp: rx_fail_def)

lemma core_recv_trailer:
  assumes "recv_trailer dest to_ms tb fl pl td s1 = Some (st, rx, s')"
    and "recv_bounded (cfg s1)" "core s1 = core (val_internal_lock s)"
    and "unat (rx_cap dest) \<le> length (recv_buf s1)"
  shows "core s' = core s"
proof -
  obtain rc bs s2 where r: "val_recv_full 4 to_ms s1 = Some (rc, bs, s2)"
    using assms(1) by (auto simp: recv_trailer_def bind_eq_Some_conv)
  have o: "only_world s1 s2" using val_recv_full_world [OF r assms(2)] by simp
  have c: "core s2 = core (val_internal_lock s)" and l: "length (recv_buf s2) = length (recv_buf s1)"
    using only_world_fields [OF o] assms(3) by simp_all
  show ?thesis
    using assms(1,4) r c l core_rx_fail core_accept_frame [of s2 s dest tb fl pl td "VAL_GET_LE32 bs"]
    by (auto simp: recv_trailer_def split: if_splits)
qed

lemma core_recv_payload:
  assumes "recv_payload dest to_ms tb fl pl td s1 = Some (st, rx, s')"
    and "recv_bounded (cfg s1)" "core s1 = core (val_internal_lock s)"
    and "unat (rx_cap dest) \<le> length (recv_buf s1)"
    and "8 + unat pl \<le> length (recv_buf s1)"
  shows "core s' = core s"
proof -
  obtain rc bs s2 where r: "(if pl > 0 then val_recv_full (unat pl) to_ms s1 else Some (VAL_OK, [], s1)) = Some (rc, bs, s2)"
    using assms(1) unfolding recv_payload_def bind_eq_Some_conv by auto
  have pl: "unat pl < 2 ^ 64" using unat_less_2p32 [of pl] by simp
  have o: "only_world s1 s2" "length bs \<le> unat pl"
    using val_recv_full_world [OF _ assms(2) pl, of to_ms rc bs s2] r by (auto split: if_splits)
  let ?s3 = "s2\<lparr>recv_buf := mem_write (recv_buf s2) 8 bs\<rparr>"
  have l: "length (recv_buf ?s3) = length (recv_buf s1)"
    using only_world_fields [OF o(1)] o(2) assms(5) by (simp add: length_mem_write)
  have c: "core ?s3 = core (val_internal_lock s)"
    using only_world_fields [OF o(1)] assms(3) l by simp
  have b: "recv_bounded (cfg ?s3)" using assms(2) only_world_cfg [OF o(1)] by simp
  have "(if rc \<noteq> VAL_OK then rx_fail rc ?s3 else recv_trailer dest to_ms tb fl pl td ?s3) = Some (st, rx, s')"
    using assms(1) unfolding recv_payload_def r bind.bind_lunit prod.case Let_def .
  then show ?thesis
    using core_rx_fail [OF _ c] core_recv_trailer [OF _ b c, of dest] assms(4) l by (simp split: if_splits)
qed

lemma val_internal_recv_packet_core:
  assumes "val_internal_recv_packet s dest to_ms = Some (st, rx, s')"
    and "recv_bounded (cfg s)" and "session_ok s"
    and "unat (rx_cap dest) \<le> length (recv_buf s)"
  shows "core s' = core s"
proof -
  let ?s0 = "val_internal_lock s"
  have b0: "recv_bounded (cfg ?s0)" using assms(2) by (simp add: sess_defs)
  have L: "unat (mtu s) \<le> length (recv_buf s)" "512 \<le> unat (mtu s)"
    using assms(3) by (auto simp: session_ok_def mtu_def word_le_nat_alt)
  obtain rc b s1 where r: "val_recv_full 8 to_ms ?s0 = Some (rc, b, s1)"
    using assms(1) unfolding val_internal_recv_packet_def Let_def bind_eq_Some_conv by auto
  have o: "only_world ?s0 s1" "length b \<le> 8" using val_recv_full_world [OF r b0] by simp_all
  let ?s2 = "s1\<lparr>recv_buf := mem_write (recv_buf s1) 0 b\<rparr>"
  have l: "length (recv_buf ?s2) = length (recv_buf s)"
    using only_world_fields [OF o(1)] o(2) L by (simp add: length_mem_write sess_defs)
  have c: "core ?s2 = core ?s0" using only_world_fields [OF o(1)] l by (simp add: sess_defs)
  have bd: "recv_bounded (cfg ?s2)" using b0 only_world_cfg [OF o(1)] by simp
  obtain tb fl cl td where h: "val_deserialize_frame_header (recv_buf ?s2) = (tb, fl, cl, td)"
    by (cases "val_deserialize_frame_header (recv_buf ?s2)")
  have e: "(if rc \<noteq> VAL_OK then rx_fail rc ?s2
     else if (ucast cl :: u32) > ucast (mtu s - of_nat 8 - of_nat 4)
     then Some (VAL_ERR_PROTOCOL, rx_none, val_internal_unlock (VAL_SET_PROTOCOL_ERROR ?s2 VAL_ERROR_DETAIL_PAYLOAD_SIZE))
     else recv_payload dest to_ms tb fl (ucast cl) td ?s2) = Some (st, rx, s')"
    using assms(1) unfolding val_internal_recv_packet_def Let_def r bind.bind_lunit prod.case h mtu_lock .
  have fits: "8 + unat (ucast cl :: u32) \<le> length (recv_buf ?s2)"
    if "\<not> (ucast cl :: u32) > ucast (mtu s - of_nat 8 - of_nat 4)"
  proof -
    have "unat (mtu s - 8 - 4) = unat (mtu s) - 12" using L(2) by (simp add: unat_sub word_le_nat_alt)
    moreover have "unat (mtu s) \<le> 2097152"
      using assms(3) by (auto simp: session_ok_def config_ok_def mtu_def word_le_nat_alt)
    ultimately have "unat (ucast (mtu s - of_nat 8 - of_nat 4) :: u32) = unat (mtu s) - 12"
      by (simp add: unsigned_ucast_eq take_bit_nat_eq_self)
    then show ?thesis using that L l by (simp add: word_less_nat_alt)
  qed
  show ?thesis
  proof (cases "rc \<noteq> VAL_OK")
    case True
    then show ?thesis using e core_rx_fail [OF _ c] by simp
  next
    case False
    show ?thesis
    proof (cases "(ucast cl :: u32) > ucast (mtu s - of_nat 8 - of_nat 4)")
      case True
      then have "s' = val_internal_unlock (VAL_SET_PROTOCOL_ERROR ?s2 VAL_ERROR_DETAIL_PAYLOAD_SIZE)"
        using e False by simp
      then show ?thesis using c by (simp add: core_unlock)
    next
      case nb: False
      then have "recv_payload dest to_ms tb fl (ucast cl) td ?s2 = Some (st, rx, s')" using e False by simp
      then show ?thesis
        by (rule core_recv_payload [OF _ bd c]) (use assms(4) l fits [OF nb] in simp_all)
    qed
  qed
qed

lemma recv_waits_only_world: "recv_waits (cfg s) clk \<Longrightarrow> only_world s s' \<Longrightarrow> recv_waits (cfg s') clk"
  using only_world_cfg by metis

lemma recv_packet_total:
  assumes "session_ok s" and "recv_waits (cfg s) clk" and "recv_bounded (cfg s)"
    and "to_ms \<le> 0x7FFFFFFF" and "unat (rx_cap dest) \<le> length (recv_buf s)"
  shows "\<exists>st rx s'. val_internal_recv_packet s dest to_ms = Some (st, rx, s') \<and> stable s s' \<and> session_ok s'"
proof -
  have ex: "\<exists>rc bs s2. val_recv_full n to_ms s1 = Some (rc, bs, s2) \<and> cfg s2 = cfg s" if c: "cfg s1 = cfg s" and n: "n < 2 ^ 64" for s1 n
  proof -
    obtain rc bs s2 where r: "val_recv_full n to_ms s1 = Some (rc, bs, s2)"
      using val_recv_full_returns [of s1 clk to_ms n] assms(2,4) c n by auto
    then show ?thesis using val_recv_full_world [OF r] assms(3) c n only_world_cfg by metis
  qed
  have tr: "recv_trailer dest to_ms tb fl pl td s1 \<noteq> None" if "cfg s1 = cfg s" for tb fl pl td s1
    using ex [OF that, of 4] by (auto simp: recv_trailer_def rx_fail_def split: prod.splits) (metis prod_cases3)
  have pl: "recv_payload dest to_ms tb fl pl td s1 \<noteq> None" if c: "cfg s1 = cfg s" for tb fl pl td s1
  proof -
    have "\<exists>rc bs s2. (if pl > 0 then val_recv_full (unat pl) to_ms s1 else Some (VAL_OK, [], s1)) = Some (rc, bs, s2) \<and> cfg s2 = cfg s"
      using ex [OF c, of "unat pl"] unat_less_2p32 [of pl] c by auto
    then obtain rc bs s2 where r: "(if pl > 0 then val_recv_full (unat pl) to_ms s1 else Some (VAL_OK, [], s1)) = Some (rc, bs, s2)"
      and c2: "cfg s2 = cfg s" by blast
    have "recv_trailer dest to_ms tb fl pl td (s2\<lparr>recv_buf := b\<rparr>) \<noteq> None" for b
      by (rule tr) (simp add: c2)
    then show ?thesis
      unfolding recv_payload_def r by (auto simp: rx_fail_def Let_def split: prod.splits)
  qed
  obtain rc bs s1 where r: "val_recv_full 8 to_ms (val_internal_lock s) = Some (rc, bs, s1)" and c1: "cfg s1 = cfg s"
    using ex [of "val_internal_lock s" 8] by (auto simp: sess_defs)
  have "recv_payload dest to_ms tb fl p td (s1\<lparr>recv_buf := b\<rparr>) \<noteq> None" for tb fl p td b
    by (rule pl) (simp add: c1)
  then have "val_internal_recv_packet s dest to_ms \<noteq> None"
    unfolding val_internal_recv_packet_def Let_def r by (auto simp: rx_fail_def split: prod.splits)
  then obtain st rx s' where y: "val_internal_recv_packet s dest to_ms = Some (st, rx, s')" by auto
  then have "stable s s'"
    using val_internal_recv_packet_core [OF y assms(3,1,5)] by (simp add: stable_def)
  then show ?thesis using y stable_session_ok assms(1) by metis
qed

text \<open>
  C10. Receiving a packet always returns when the transport and the clock behave as documented (a
  read that stores nothing lets its timeout pass, and no read stores more than asked), for
  every timeout below half the clock's period. Whatever the outcome, the lock is released, no
  buffer is overrun and the session keeps its invariant.
\<close>

theorem recv_packet_returns:
  assumes "session_ok s" and "recv_waits (cfg s) clk" and "recv_bounded (cfg s)"
    and "to_ms \<le> 0x7FFFFFFF" and "unat (rx_cap dest) \<le> length (recv_buf s)"
  shows "\<exists>st rx s'. val_internal_recv_packet s dest to_ms = Some (st, rx, s') \<and> stable s s' \<and> session_ok s'"
  by (rule recv_packet_total [OF assms])

lemma bed_recv_ok: "recv_bounded (cfg bed_session)" "recv_waits (cfg bed_session) bed_clock"
  by (auto simp: recv_bounded_def recv_waits_def bed_session_cfg bed_config_def bed_recv_def split: if_splits)
    (simp add: unat_eq_0)

theorem recv_packet_returns_witness:
  "\<exists>st rx s'. val_internal_recv_packet bed_session None 500 = Some (st, rx, s') \<and> stable bed_session s' \<and> session_ok s'"
  by (rule recv_packet_returns [OF bed_session_ok bed_recv_ok(2,1)]) (simp_all add: rx_cap_def)

section \<open>Round trip\<close>

text \<open>
  A transport that delivers what is pending: \<open>rxq w\<close> are the bytes that wait in the world \<open>w\<close>; a read
  of no more than that many bytes stores them and reports success.
\<close>

definition delivers :: "'w val_config \<Rightarrow> ('w \<Rightarrow> u8 list) \<Rightarrow> bool" where
  "delivers c rxq \<longleftrightarrow>
     (\<exists>f. tr_recv (transport c) = Some f \<and>
        (\<forall>w n t. 0 < unat n \<and> unat n \<le> length (rxq w) \<longrightarrow>
           (\<exists>w'. f w n t = (0, take (unat n) (rxq w), w') \<and> rxq w' = drop (unat n) (rxq w)))) \<and>
     (\<forall>f w. sys_get_ticks_ms (system c) = Some f \<longrightarrow> rxq (snd (f w)) = rxq w)"

lemma ticks_delivers:
  "delivers (cfg s) rxq \<Longrightarrow> ticks s = (t, s') \<Longrightarrow> rxq (world s') = rxq (world s)"
  by (auto simp: delivers_def ticks_def split: option.splits prod.splits) (metis snd_conv)

lemma val_recv_full_delivers:
  assumes d: "delivers (cfg s) rxq" and n: "need \<le> length (rxq (world s))" "need < 2 ^ 64"
  shows "\<exists>s'. val_recv_full need to_ms s = Some (VAL_OK, take need (rxq (world s)), s') \<and>
     only_world s s' \<and> rxq (world s') = drop need (rxq (world s))"
proof -
  obtain f where f: "tr_recv (transport (cfg s)) = Some f"
    and del: "\<And>w n t. 0 < unat n \<Longrightarrow> unat n \<le> length (rxq w) \<Longrightarrow>
       \<exists>w'. f w n t = (0, take (unat n) (rxq w), w') \<and> rxq w' = drop (unat n) (rxq w)"
    using d unfolding delivers_def by blast
  obtain start s1 where t: "ticks s = (start, s1)" by (cases "ticks s")
  note w1 = ticks_world [OF t] and q1 = ticks_delivers [OF d t]
  have c1: "cfg s1 = cfg s" by (rule only_world_cfg [OF w1])
  have e: "val_recv_full need to_ms s = val_recv_full_loop start need to_ms [] s1"
    by (simp add: val_recv_full_def f t)
  show ?thesis
  proof (cases "need = 0")
    case True
    then show ?thesis unfolding e using w1 q1 by (subst val_recv_full_loop.simps) simp
  next
    case False
    obtain now s2 where t2: "ticks s1 = (now, s2)" by (cases "ticks s1")
    note w2 = ticks_world [OF t2] and q2 = ticks_delivers [OF d [folded c1] t2]
    have c2: "cfg s2 = cfg s" using only_world_cfg [OF w2] c1 by simp
    have u: "unat (of_nat need :: size_t) = need" using n(2) by (simp add: unat_of_nat_small)
    let ?e = "if now \<ge> start then now - start else 0"
    let ?rm = "if to_ms > ?e then to_ms - ?e else 0"
    let ?sl = "if ?rm \<noteq> 0 then ?rm else if to_ms \<noteq> 0 then 1 else 0"
    obtain w' where w': "f (world s2) (of_nat need) ?sl = (0, take need (rxq (world s2)), w')"
      "rxq w' = drop need (rxq (world s2))"
      using del [of "of_nat need" "world s2" ?sl] False n(1) q1 q2 unfolding u by auto
    have rd: "recv_round start need to_ms [] s1 = Inl (VAL_OK, take need (rxq (world s)), s2\<lparr>world := w'\<rparr>)"
      unfolding recv_round_def Let_def t2 prod.case c2 f option.case list.size diff_zero w'(1)
      using False n(1) q1 q2 by (simp only: w'(1)) simp
    have o: "only_world s (s2\<lparr>world := w'\<rparr>)"
      by (rule only_world_trans [OF only_world_trans [OF w1 w2]]) simp
    show ?thesis
      unfolding e by (subst val_recv_full_loop_round) (use rd o w'(2) q1 q2 in simp)
  qed
qed

lemma ucast_of_nat_up: "n < 65536 \<Longrightarrow> (ucast (of_nat n :: u16) :: u32) = of_nat n"
  by (simp add: word_eq_iff_unsigned [where ?'a = nat] unat_of_nat_small)

text \<open>Reading a frame: header, content and trailer end up where \<open>accept_frame\<close> looks at them.\<close>

lemma recv_packet_frame:
  assumes ok: "session_ok s" and d: "delivers (cfg s) rxq"
    and q: "rxq (world s) = header_bytes (tb, fl, of_nat (length content), td) @ content @ tr @ rest"
    and tr: "length tr = 4" and fits: "12 + length content \<le> unat (mtu s)" and small: "length content < 65536"
  shows "\<exists>s3. val_internal_recv_packet s dest to_ms =
       Some (accept_frame tb fl (of_nat (length content)) td (VAL_GET_LE32 tr) dest s3) \<and>
     take (8 + length content) (recv_buf s3) = header_bytes (tb, fl, of_nat (length content), td) @ content \<and>
     core s3 = core (val_internal_lock s) \<and> rxq (world s3) = rest \<and> last_error s3 = last_error s"
proof -
  let ?h = "header_bytes (tb, fl, of_nat (length content), td)"
  let ?s0 = "val_internal_lock s"
  have lh: "length ?h = 8" by (simp add: header_bytes_def)
  have L: "unat (mtu s) \<le> length (recv_buf s)" "512 \<le> unat (mtu s)" "unat (mtu s) \<le> 2097152"
    using ok by (auto simp: session_ok_def config_ok_def mtu_def word_le_nat_alt)
  have d0: "delivers (cfg ?s0) rxq" and q0: "rxq (world ?s0) = ?h @ content @ tr @ rest"
    using d q by (simp_all add: sess_defs)
  obtain s1 where r1: "val_recv_full 8 to_ms ?s0 = Some (VAL_OK, ?h, s1)" "only_world ?s0 s1"
    "rxq (world s1) = content @ tr @ rest"
    using val_recv_full_delivers [OF d0, of 8 to_ms] q0 lh by auto
  let ?s2 = "s1\<lparr>recv_buf := mem_write (recv_buf s1) 0 ?h\<rparr>"
  note o1 = only_world_fields [OF r1(2)]
  have rb2: "recv_buf ?s2 = ?h @ drop 8 (recv_buf s)" using o1 lh by (simp add: mem_write_def sess_defs)
  have hdr: "val_deserialize_frame_header (recv_buf ?s2) = (tb, fl, of_nat (length content), td)"
    unfolding rb2 by (rule header.dec_bytes) simp
  have u: "unat (of_nat (length content) :: u16) = length content" using small by (simp add: unat_of_nat_small)
  have u32: "(ucast (of_nat (length content) :: u16) :: u32) = of_nat (length content)"
    and v: "unat (of_nat (length content) :: u32) = length content"
    using small by (simp_all add: ucast_of_nat_up unat_of_nat_small)
  have nb: "\<not> (ucast (of_nat (length content) :: u16) :: u32) > ucast (mtu s - of_nat 8 - of_nat 4)"
  proof -
    have "unat (mtu s - 8 - 4) = unat (mtu s) - 12" using L(2) by (simp add: unat_sub word_le_nat_alt)
    then have "unat (ucast (mtu s - of_nat 8 - of_nat 4) :: u32) = unat (mtu s) - 12"
      using L(3) by (simp add: unsigned_ucast_eq take_bit_nat_eq_self)
    then show ?thesis using fits unfolding u32 word_less_nat_alt v by simp
  qed
  have d2: "delivers (cfg ?s2) rxq" using d0 only_world_cfg [OF r1(2)] by simp
  have q2: "rxq (world ?s2) = content @ tr @ rest" using r1(3) by simp
  obtain s3 where r3: "(if (of_nat (length content) :: u32) > 0 then val_recv_full (length content) to_ms ?s2
      else Some (VAL_OK, [], ?s2)) = Some (VAL_OK, content, s3)" "only_world ?s2 s3" "rxq (world s3) = tr @ rest"
  proof (cases "length content = 0")
    case True
    then show ?thesis using q2 that [of ?s2] by simp
  next
    case False
    then have p: "(of_nat (length content) :: u32) > 0" using v by (simp add: word_less_nat_alt)
    then show ?thesis
      using val_recv_full_delivers [OF d2, of "length content" to_ms] q2 small that by auto
  qed
  note o3 = only_world_fields [OF r3(2)]
  let ?s4 = "s3\<lparr>recv_buf := mem_write (recv_buf s3) 8 content\<rparr>"
  have rb4: "recv_buf ?s4 = ?h @ content @ drop (8 + length content) (recv_buf s)"
    using o3 rb2 lh L fits by (simp add: mem_write_def add.commute)
  have d4: "delivers (cfg ?s4) rxq" using d2 only_world_cfg [OF r3(2)] by simp
  have q4: "rxq (world ?s4) = tr @ rest" using r3(3) by simp
  obtain s5 where r5: "val_recv_full 4 to_ms ?s4 = Some (VAL_OK, tr, s5)" "only_world ?s4 s5" "rxq (world s5) = rest"
    using val_recv_full_delivers [OF d4, of 4 to_ms] q4 tr by auto
  note o5 = only_world_fields [OF r5(2)]
  have l2: "length (recv_buf ?s2) = length (recv_buf s1)" "length (recv_buf ?s4) = length (recv_buf s3)"
    unfolding rb2 rb4 using o1 o3 lh L fits rb2 by (simp_all add: sess_defs)
  have c: "core s5 = core ?s0"
    using o5 o3 o1 l2 by simp
  have e: "val_internal_recv_packet s dest to_ms = recv_payload dest to_ms tb fl (of_nat (length content)) td ?s2"
    unfolding val_internal_recv_packet_def Let_def r1(1) bind.bind_lunit prod.case hdr mtu_lock
    using nb u32 by simp
  also have "\<dots> = recv_trailer dest to_ms tb fl (of_nat (length content)) td ?s4"
    unfolding recv_payload_def v r3(1) bind.bind_lunit prod.case Let_def by simp
  also have "\<dots> = Some (accept_frame tb fl (of_nat (length content)) td (VAL_GET_LE32 tr) dest s5)"
    unfolding recv_trailer_def r5(1) bind.bind_lunit prod.case by simp
  finally have res: "val_internal_recv_packet s dest to_ms =
      Some (accept_frame tb fl (of_nat (length content)) td (VAL_GET_LE32 tr) dest s5)" .
  have "take (8 + length content) (recv_buf s5) = ?h @ content"
    using o5 rb4 lh by simp
  moreover have "last_error s5 = last_error s" using o5 o3 o1 by (simp add: sess_defs)
  ultimately show ?thesis using res c r5(3) by blast
qed

lemma session_ok_mtu:
  "session_ok s \<Longrightarrow> 512 \<le> unat (mtu s) \<and> unat (mtu s) \<le> length (recv_buf s) \<and>
     unat (mtu s) \<le> length (send_buf s) \<and> unat (mtu s) \<le> 2097152"
  by (auto simp: session_ok_def config_ok_def mtu_def word_le_nat_alt)

text \<open>The offset a packet of each type carries to the peer.\<close>

definition carried_offset :: "val_packet_type_t \<Rightarrow> u64 \<Rightarrow> bool \<Rightarrow> u64" where
  "carried_offset t offset explicit =
     (case t of
        VAL_PKT_DATA \<Rightarrow> if explicit then offset else UINT64_MAX
      | VAL_PKT_DATA_ACK \<Rightarrow> offset | VAL_PKT_DONE_ACK \<Rightarrow> offset | VAL_PKT_EOT_ACK \<Rightarrow> offset
      | VAL_PKT_DATA_NAK \<Rightarrow> offset
      | _ \<Rightarrow> 0)"

lemma join_high_low [simp]: "join_offset (high32 x) (low32 x) = x"
proof (rule bit_word_eqI)
  fix n assume "n < LENGTH(64)"
  then show "bit (join_offset (high32 x) (low32 x)) n = bit x n"
    by (cases "n < 32") (auto simp: join_offset_def high32_def low32_def bit_simps)
qed

lemma mem_read_content:
  assumes "take (8 + length content) buf = h @ content" "length h = 8" "k \<le> length content"
  shows "mem_read buf 8 k = take k content"
proof -
  have "take k (drop 8 buf) = take k (drop 8 (take (8 + length content) buf))"
    using assms(3) by (simp add: drop_take min_def)
  then show ?thesis using assms by (simp add: mem_read_def)
qed

lemma mem_read_shift: "mem_read b (p + k) n = drop k (mem_read b p (k + n))"
  by (simp add: mem_read_def drop_take add.commute)

lemma frame_offset_content:
  assumes b: "take (8 + length content) buf = h @ content" "length h = 8"
    and wc: "wire_content t bs offset explicit = (flags, td, content)" and small: "length content < 65536"
    and k: "pkt_known t"
  shows "frame_offset (pkt_byte t) flags (of_nat (length content)) td buf = carried_offset t offset explicit"
proof -
  note m = mem_read_content [OF b]
  have four: "(4 :: u32) \<le> of_nat (length content) \<longleftrightarrow> 4 \<le> length content"
    using small by (simp add: word_le_nat_alt unat_of_nat_small)
  have ack: "frame_offset (pkt_byte t) flags (of_nat (length content)) td buf = offset"
    if t: "t \<in> {VAL_PKT_DATA_ACK, VAL_PKT_DONE_ACK, VAL_PKT_EOT_ACK}"
  proof -
    have c: "content = (if high32 offset \<noteq> 0 then VAL_PUT_LE32 (high32 offset) else [])" "td = low32 offset"
      using wc t by (auto simp: wire_content_def Let_def)
    have "(if 4 \<le> length content then VAL_GET_LE32 (mem_read buf 8 4) else 0) = high32 offset"
      using m [of 4] c(1) by auto
    then show ?thesis using t c(2) by (auto simp: frame_offset_def four Let_def)
  qed
  have nak: ?thesis if t: "t = VAL_PKT_DATA_NAK"
  proof -
    obtain x where c: "content = VAL_PUT_LE32 (high32 offset) @ x" "td = low32 offset" "4 \<le> length content"
      using wc t by (auto simp: wire_content_def Let_def)
    have "mem_read buf 8 4 = VAL_PUT_LE32 (high32 offset)" using m [OF c(3)] by (simp add: c(1))
    then show ?thesis
      unfolding frame_offset_def Let_def four if_P [OF c(3)] by (simp add: t c(2) carried_offset_def)
  qed
  have data: ?thesis if t: "t = VAL_PKT_DATA"
  proof (cases explicit)
    case True
    then have c: "content = VAL_PUT_LE64 offset @ bs" "flags = 1" using wc t by (auto simp: wire_content_def)
    then show ?thesis using m [of 8] t True by (simp add: frame_offset_def carried_offset_def)
  next
    case False
    then show ?thesis using wc t by (auto simp: wire_content_def frame_offset_def carried_offset_def)
  qed
  show ?thesis
  proof (cases "t \<in> {VAL_PKT_DATA_ACK, VAL_PKT_DONE_ACK, VAL_PKT_EOT_ACK, VAL_PKT_DATA_NAK, VAL_PKT_DATA}")
    case True
    then show ?thesis using ack nak data by (auto simp: carried_offset_def)
  next
    case False
    then show ?thesis using k by (cases t) (simp_all add: frame_offset_def carried_offset_def Let_def)
  qed
qed

text \<open>Packets whose payload is delivered to the receiver's caller.\<close>

definition has_payload :: "val_packet_type_t \<Rightarrow> bool" where
  "has_payload t \<longleftrightarrow> t \<notin> {VAL_PKT_DATA_ACK, VAL_PKT_DONE_ACK, VAL_PKT_EOT_ACK, VAL_PKT_DATA_NAK}"

lemma world_unlock [simp]: "world (val_internal_unlock s) = world s" "recv_buf (val_internal_unlock s) = recv_buf s"
  "cfg (val_internal_unlock s) = cfg s"
  by (simp_all add: sess_defs)

lemma world_metrics [simp]: "world (val_metrics_add_recv s n t) = world s" "recv_buf (val_metrics_add_recv s n t) = recv_buf s"
  "cfg (val_metrics_add_recv s n t) = cfg s"
  by (simp_all add: sess_defs)

lemma core_unlock_buf:
  "length b = length (recv_buf s) \<Longrightarrow> core (val_internal_unlock (s\<lparr>recv_buf := b\<rparr>)) = core (val_internal_unlock s)"
  by (simp add: core_def sess_defs)

lemma last_error_unlock:
  "last_error (val_internal_unlock s) = last_error s" "last_error (val_metrics_add_recv s n t) = last_error s"
  by (simp_all add: sess_defs)

lemma deliver_none:
  "capture (cfg s) = None \<Longrightarrow> \<exists>s'. deliver_frame tb fl pl td None rx s = (VAL_OK, rx, s') \<and> world s' = world s \<and>
     recv_buf s' = recv_buf s \<and> core s' = core (val_internal_unlock s) \<and> last_error s' = last_error s"
  by (simp add: deliver_frame_def rx_wanted_def capture_packet_def Let_def sess_defs)

lemma deliver_some:
  assumes "capture (cfg s) = None" and wc: "wire_content t bs offset explicit = (flags, td, content)"
    and b: "take (8 + length content) (recv_buf s) = h @ content" "length h = 8"
    and small: "length content < 65536" and p: "has_payload t" "pkt_known t"
    and cap: "length content \<le> unat cap" "cap \<noteq> 0" and len: "8 + length content \<le> length (recv_buf s)"
  shows "\<exists>s'. deliver_frame (pkt_byte t) flags (of_nat (length content)) td (Some cap) rx s =
      (VAL_OK, rx\<lparr>rx_len := (if t = VAL_PKT_DATA \<and> explicit then of_nat (length bs) else rx_len rx)\<rparr>, s') \<and> world s' = world s \<and>
      mem_read (recv_buf s') 0 (length bs) = bs \<and> core s' = core (val_internal_unlock s) \<and> last_error s' = last_error s"
proof -
  define ex where "ex \<longleftrightarrow> pkt_byte t = pkt_byte VAL_PKT_DATA \<and> flags AND VAL_DATA_OFFSET_PRESENT \<noteq> 0"
  have td5: "pkt_byte t = 5 \<longleftrightarrow> t = VAL_PKT_DATA" using p(2) by (cases t) simp_all
  have ex: "ex \<longleftrightarrow> t = VAL_PKT_DATA \<and> explicit"
    using wc by (auto simp: ex_def td5 wire_content_def split: if_splits)
  have c: "content = (if ex then VAL_PUT_LE64 offset @ bs else bs)"
    using wc p ex by (cases t) (auto simp: wire_content_def has_payload_def split: if_splits)
  define cl where "cl = (if ex then (of_nat (length content) :: u32) - 8 else of_nat (length content))"
  have v: "unat (of_nat (length content) :: u32) = length content" using small by (simp add: unat_of_nat_small)
  have lb: "length bs < 65536" using small c by (auto split: if_splits)
  have cl: "unat cl = length bs" "cl = of_nat (length bs)"
    using lb by (auto simp: cl_def c unat_of_nat_small)
  have g1: "\<not> (ex \<and> (of_nat (length content) :: u32) < 8)" unfolding word_less_nat_alt v by (simp add: c)
  have g2: "\<not> cl > cap" using cap(1) unfolding word_less_nat_alt cl(1) by (auto simp: c split: if_splits)
  define src where "src = (if ex then VAL_WIRE_HEADER_SIZE + 8 else VAL_WIRE_HEADER_SIZE)"
  have rd: "mem_read (recv_buf s) src (length bs) = bs"
  proof -
    have "mem_read (recv_buf s) 8 (length content) = content" using mem_read_content [OF b order_refl] by simp
    then have "ex \<Longrightarrow> mem_read (recv_buf s) (8 + 8) (length bs) = bs" "\<not> ex \<Longrightarrow> mem_read (recv_buf s) 8 (length bs) = bs"
      unfolding mem_read_shift by (simp_all add: c)
    then show ?thesis by (cases ex) (simp_all add: src_def)
  qed
  have le: "length (mem_write (recv_buf s) 0 bs) = length (recv_buf s)"
    using len c by (subst length_mem_write) (auto split: if_splits)
  show ?thesis
    unfolding deliver_frame_def Let_def ex_def [symmetric] src_def [symmetric] cl_def [symmetric]
    using g1 g2 cap(2) len assms(1)
    by (simp add: rx_wanted_def rx_cap_def capture_packet_def cl cl(1) [unfolded cl(2)] rd ex mem_read_write_same
        core_unlock_buf le last_error_unlock)
qed

text \<open>
  A frame that waits at the transport reaches \<open>deliver_frame\<close> with the fields it was built from; only a
  CANCEL changes the session on the way.
\<close>

definition after_type :: "val_packet_type_t \<Rightarrow> val_error_t \<Rightarrow> val_error_t" where
  "after_type t e = (if t = VAL_PKT_CANCEL
     then \<lparr>err_code = VAL_ERR_ABORTED, err_detail = 0, err_op = Some ''val_internal_set_last_error''\<rparr> else e)"

lemma recv_frame_deliver:
  assumes ok: "session_ok r" and d: "delivers (cfg r) rxq" and cap: "capture (cfg r) = None"
    and crc: "val_internal_crc32 r = val_internal_crc32 s" and k: "pkt_known t"
    and q: "rxq (world r) = frame_bytes s t bs offset explicit @ rest"
    and fits: "12 + needs_room t bs offset explicit \<le> unat (mtu r)" and small: "needs_room t bs offset explicit < 65536"
    and content: "wire_content t bs offset explicit = (flags, td, content)"
  shows "\<exists>s3. val_internal_recv_packet r dest to_ms =
        Some (deliver_frame (pkt_byte t) flags (of_nat (length content)) td dest
          \<lparr>rx_type = t, rx_len = of_nat (length content), rx_off = carried_offset t offset explicit\<rparr> s3) \<and>
      take (8 + length content) (recv_buf s3) = header_bytes (pkt_byte t, flags, of_nat (length content), td) @ content \<and>
      rxq (world s3) = rest \<and> capture (cfg s3) = None \<and> 8 + length content \<le> length (recv_buf s3) \<and>
      core s3 = core (val_internal_lock r) \<and> last_error s3 = after_type t (last_error r)"
proof -
  let ?h = "header_bytes (pkt_byte t, flags, of_nat (length content), td)"
  have n: "12 + length content \<le> unat (mtu r)" "length content < 65536"
    using fits small by (simp_all add: needs_room_def content)
  have lh: "length ?h = 8" by (simp add: header_bytes_def)
  have q': "rxq (world r) = ?h @ content @ VAL_PUT_LE32 (val_internal_crc32 s (?h @ content)) @ rest"
    using q by (simp add: frame_bytes_def content frame_of_def Let_def)
  have L: "8 + length content \<le> length (recv_buf r)"
    using session_ok_mtu [OF ok] n(1) by simp
  have v: "unat (of_nat (length content) :: u32) = length content" using n(2) by (simp add: unat_of_nat_small)
  let ?rx = "\<lparr>rx_type = t, rx_len = of_nat (length content), rx_off = carried_offset t offset explicit\<rparr>"
  obtain s3 where r3: "val_internal_recv_packet r dest to_ms =
       Some (accept_frame (pkt_byte t) flags (of_nat (length content)) td
         (VAL_GET_LE32 (VAL_PUT_LE32 (val_internal_crc32 s (?h @ content)))) dest s3)"
    "take (8 + length content) (recv_buf s3) = ?h @ content" "core s3 = core (val_internal_lock r)" "rxq (world s3) = rest"
    "last_error s3 = last_error r"
    using recv_packet_frame [OF ok d q' _ n] by auto
  have cf: "cfg s3 = cfg r" "length (recv_buf s3) = length (recv_buf r)"
    using core_fields(1,11) [OF r3(3)] by (simp_all add: sess_defs)
  have cr: "val_internal_crc32 s3 = val_internal_crc32 s"
    using crc cf(1) by (auto simp: fun_eq_iff val_internal_crc32_def)
  let ?s4 = "if pkt_byte t = pkt_byte VAL_PKT_CANCEL then val_internal_set_last_error s3 VAL_ERR_ABORTED 0 else s3"
  have "accept_frame (pkt_byte t) flags (of_nat (length content)) td
      (VAL_GET_LE32 (VAL_PUT_LE32 (val_internal_crc32 s (?h @ content)))) dest s3 =
      deliver_frame (pkt_byte t) flags (of_nat (length content)) td dest ?rx ?s4"
    unfolding accept_frame_def Let_def v r3(2) cr frame_offset_content [OF r3(2) lh content n(2) k]
    using k by simp
  moreover have "recv_buf ?s4 = recv_buf s3" "world ?s4 = world s3" "cfg ?s4 = cfg s3" "core ?s4 = core s3"
    by (simp_all add: sess_defs)
  moreover have "last_error ?s4 = after_type t (last_error r)"
    using k r3(5) by (cases t) (simp_all add: after_type_def sess_defs)
  ultimately show ?thesis
    using r3(1,2,3,4) cf cap L by (intro exI [of _ ?s4]) simp
qed

lemma recv_frame_none:
  assumes ok: "session_ok r" and d: "delivers (cfg r) rxq" and cap: "capture (cfg r) = None"
    and crc: "val_internal_crc32 r = val_internal_crc32 s" and k: "pkt_known t"
    and q: "rxq (world r) = frame_bytes s t bs offset explicit @ rest"
    and fits: "12 + needs_room t bs offset explicit \<le> unat (mtu r)" and small: "needs_room t bs offset explicit < 65536"
    and content: "wire_content t bs offset explicit = (flags, td, content)"
  shows "\<exists>r'. val_internal_recv_packet r None to_ms = Some (VAL_OK,
           \<lparr>rx_type = t, rx_len = of_nat (length content), rx_off = carried_offset t offset explicit\<rparr>, r') \<and>
         mem_read (recv_buf r') 8 (length content) = content \<and> rxq (world r') = rest \<and> core r' = core r \<and>
         last_error r' = after_type t (last_error r)"
proof -
  obtain s3 where s3: "val_internal_recv_packet r None to_ms =
        Some (deliver_frame (pkt_byte t) flags (of_nat (length content)) td None
          \<lparr>rx_type = t, rx_len = of_nat (length content), rx_off = carried_offset t offset explicit\<rparr> s3)"
      "take (8 + length content) (recv_buf s3) = header_bytes (pkt_byte t, flags, of_nat (length content), td) @ content"
      "rxq (world s3) = rest" "capture (cfg s3) = None" "core s3 = core (val_internal_lock r)"
      "last_error s3 = after_type t (last_error r)"
    using recv_frame_deliver [OF assms, of None to_ms] by blast
  have lh: "length (header_bytes (pkt_byte t, flags, of_nat (length content), td)) = 8" by (simp add: header_bytes_def)
  obtain r' where r': "deliver_frame (pkt_byte t) flags (of_nat (length content)) td None
      \<lparr>rx_type = t, rx_len = of_nat (length content), rx_off = carried_offset t offset explicit\<rparr> s3 =
      (VAL_OK, \<lparr>rx_type = t, rx_len = of_nat (length content), rx_off = carried_offset t offset explicit\<rparr>, r')"
    "world r' = world s3" "recv_buf r' = recv_buf s3" "core r' = core (val_internal_unlock s3)" "last_error r' = last_error s3"
    using deliver_none [OF s3(4)] by blast
  show ?thesis
    using s3 r' core_unlock [OF s3(5)] mem_read_content [OF s3(2) lh order_refl] by simp
qed

lemma recv_frame_some:
  assumes ok: "session_ok r" and d: "delivers (cfg r) rxq" and cap: "capture (cfg r) = None"
    and crc: "val_internal_crc32 r = val_internal_crc32 s" and k: "pkt_known t"
    and q: "rxq (world r) = frame_bytes s t bs offset explicit @ rest"
    and fits: "12 + needs_room t bs offset explicit \<le> unat (mtu r)" and small: "needs_room t bs offset explicit < 65536"
    and content: "wire_content t bs offset explicit = (flags, td, content)"
    and a: "has_payload t" "c \<noteq> 0" "length content \<le> unat c"
  shows "\<exists>r'. val_internal_recv_packet r (Some c) to_ms = Some (VAL_OK,
           \<lparr>rx_type = t, rx_len = of_nat (length bs), rx_off = carried_offset t offset explicit\<rparr>, r') \<and>
         length bs < 65536 \<and>
         mem_read (recv_buf r') 0 (length bs) = bs \<and> rxq (world r') = rest \<and> core r' = core r \<and>
         last_error r' = after_type t (last_error r)"
proof -
  let ?rx = "\<lparr>rx_type = t, rx_len = of_nat (length content), rx_off = carried_offset t offset explicit\<rparr>"
  obtain s3 where s3: "val_internal_recv_packet r (Some c) to_ms =
        Some (deliver_frame (pkt_byte t) flags (of_nat (length content)) td (Some c) ?rx s3)"
      "take (8 + length content) (recv_buf s3) = header_bytes (pkt_byte t, flags, of_nat (length content), td) @ content"
      "rxq (world s3) = rest" "capture (cfg s3) = None" "8 + length content \<le> length (recv_buf s3)"
      "core s3 = core (val_internal_lock r)" "last_error s3 = after_type t (last_error r)"
    using recv_frame_deliver [OF ok d cap crc k q fits small content, of "Some c" to_ms] by blast
  have n: "length content < 65536" using small by (simp add: needs_room_def content)
  have lh: "length (header_bytes (pkt_byte t, flags, of_nat (length content), td)) = 8" by (simp add: header_bytes_def)
  obtain s4 where s4: "deliver_frame (pkt_byte t) flags (of_nat (length content)) td (Some c) ?rx s3 =
      (VAL_OK, ?rx\<lparr>rx_len := (if t = VAL_PKT_DATA \<and> explicit then of_nat (length bs) else rx_len ?rx)\<rparr>, s4)"
    "world s4 = world s3" "mem_read (recv_buf s4) 0 (length bs) = bs" "core s4 = core (val_internal_unlock s3)"
    "last_error s4 = last_error s3"
    using deliver_some [OF s3(4) content s3(2) lh n a(1) k a(3,2) s3(5)] by blast
  have "(if t = VAL_PKT_DATA \<and> explicit then of_nat (length bs) else of_nat (length content) :: u32) = of_nat (length bs) \<and>
      length bs < 65536"
    using content a(1) n k by (cases t) (auto simp: wire_content_def has_payload_def split: if_splits)
  then show ?thesis using s3(1,3,7) s4 core_unlock [OF s3(6)] by (cases "t = VAL_PKT_DATA \<and> explicit") auto
qed

text \<open>
  C5. What one side sends the other side receives: a frame the sender builds for a packet is read by
  the receiver as the same packet - its type, the offset it carries (64 bits also in the split
  form of acknowledgements) and its content, byte for byte - whatever bytes follow it on the
  stream, which stay there. Delivered to a caller's buffer, the payload is the sender's payload.
\<close>

theorem packet_roundtrip:
  assumes ok: "session_ok r" and d: "delivers (cfg r) rxq" and cap: "capture (cfg r) = None"
    and crc: "val_internal_crc32 r = val_internal_crc32 s" and k: "pkt_known t"
    and q: "rxq (world r) = frame_bytes s t bs offset explicit @ rest"
    and fits: "12 + needs_room t bs offset explicit \<le> unat (mtu r)" and small: "needs_room t bs offset explicit < 65536"
    and content: "wire_content t bs offset explicit = (flags, td, content)"
  shows "(\<exists>rx r'. val_internal_recv_packet r None to_ms = Some (VAL_OK, rx, r') \<and>
           rx_type rx = t \<and> rx_off rx = carried_offset t offset explicit \<and>
           unat (rx_len rx) = length content \<and> mem_read (recv_buf r') 8 (length content) = content \<and>
           rxq (world r') = rest) \<and>
         (has_payload t \<and> c \<noteq> 0 \<and> length content \<le> unat c \<longrightarrow>
         (\<exists>rx r'. val_internal_recv_packet r (Some c) to_ms = Some (VAL_OK, rx, r') \<and>
           rx_type rx = t \<and> rx_off rx = carried_offset t offset explicit \<and>
           unat (rx_len rx) = length bs \<and> mem_read (recv_buf r') 0 (length bs) = bs \<and>
           rxq (world r') = rest))"
proof -
  have n: "length content < 65536" using small by (simp add: needs_room_def content)
  then have v: "unat (of_nat (length content) :: u32) = length content" by (simp add: unat_of_nat_small)
  have "unat (of_nat (length bs) :: u32) = length bs" if "length bs < 65536" using that by (simp add: unat_of_nat_small)
  then show ?thesis
    using recv_frame_none [OF assms, of to_ms] recv_frame_some [OF assms, of c to_ms] v by (metis rx_info.select_convs)
qed

theorem packet_roundtrip_witness:
  "\<exists>rx r'. val_internal_recv_packet
       (bed_session\<lparr>world := bed_world\<lparr>bed_rx := frame_bytes bed_session VAL_PKT_DATA [1, 2, 3] 4096 True @ [9]\<rparr>\<rparr>)
       (Some 512) 100 = Some (VAL_OK, rx, r') \<and>
     rx_type rx = VAL_PKT_DATA \<and> rx_off rx = 4096 \<and> mem_read (recv_buf r') 0 3 = [1, 2, 3] \<and> bed_rx (world r') = [9]"
proof -
  let ?w = "bed_world\<lparr>bed_rx := frame_bytes bed_session VAL_PKT_DATA [1, 2, 3] 4096 True @ [9]\<rparr>"
  let ?r = "bed_session\<lparr>world := ?w\<rparr>"
  have ok: "session_ok ?r" using bed_session_ok by (simp add: session_ok_def window_ok_def)
  have d: "delivers (cfg ?r) bed_rx"
    by (auto simp: delivers_def bed_session_cfg bed_config_def bed_recv_def)
  have wc: "wire_content VAL_PKT_DATA [1, 2, 3] 4096 True = (1, 0, VAL_PUT_LE64 4096 @ [1, 2, 3])"
    by (simp add: wire_content_def)
  have "val_internal_crc32 ?r = val_internal_crc32 bed_session" by (simp add: fun_eq_iff val_internal_crc32_def)
  moreover have "mtu ?r = mtu bed_session" by (simp add: mtu_def)
  then have "mtu ?r = 512" by (simp only: bed_session_simps)
  ultimately show ?thesis
    using packet_roundtrip [where r = ?r and s = bed_session and t = VAL_PKT_DATA and bs = "[1, 2, 3]" and rest = "[9]"
      and c = 512 and to_ms = 100 and offset = 4096 and explicit = True, OF ok d _ _ _ _ _ _ wc]
    by (auto simp: bed_session_cfg bed_config_def has_payload_def needs_room_def wc carried_offset_def
        numeral_3_eq_3 [symmetric])
qed

section \<open>Damaged frames\<close>

text \<open>
  A frame is accepted exactly when the CRC state after all its bytes, trailer included, is a fixed
  residue; so a damaged trailer and damage across the end of the content are covered by the burst
  detection of the CRC too.
\<close>

lemma crc32_residue:
  assumes "length tr = 4"
  shows "foldl crc32_spec_byte (NOT 0) (body @ tr) = crc32_bits 32 (NOT 0) \<longleftrightarrow> VAL_GET_LE32 tr = crc32_spec body"
proof -
  let ?s = "foldl crc32_spec_byte (NOT 0) body"
  have "foldl crc32_spec_byte (NOT 0) (body @ tr) = crc32_bits 32 (?s XOR VAL_GET_LE32 tr)"
    by (simp add: foldl_crc32_word [OF assms])
  also have "\<dots> = crc32_bits 32 (NOT 0) \<longleftrightarrow> ?s XOR VAL_GET_LE32 tr = NOT 0"
    using crc32_bits_inj by metis
  also have "\<dots> \<longleftrightarrow> VAL_GET_LE32 tr = NOT ?s"
  proof -
    have "NOT 0 = ?s XOR NOT ?s" by (simp add: bit_eq_iff bit_simps)
    then show ?thesis by (metis xor_left_cancel)
  qed
  finally show ?thesis by (simp add: crc32_spec_def)
qed

lemma header_bytes_surj:
  assumes "length b = 8"
  shows "\<exists>tb fl td. b = header_bytes (tb, fl, VAL_GET_LE16 (mem_read b 2 2), td)"
proof -
  have "take 4 b = take 2 b @ mem_read b 2 2" using take_add [of 2 2 b] by (simp add: mem_read_def)
  then have b: "b = take 2 b @ mem_read b 2 2 @ drop 4 b" by (metis append_take_drop_id append.assoc)
  obtain x y where x: "take 2 b = [x, y]" using assms by (cases b; cases "tl b") auto
  have "VAL_PUT_LE16 (VAL_GET_LE16 (mem_read b 2 2)) = mem_read b 2 2"
    by (rule VAL_PUT_GET_LE16) (simp add: mem_read_def assms)
  moreover have "VAL_PUT_LE32 (VAL_GET_LE32 (drop 4 b)) = drop 4 b" by (rule VAL_PUT_GET_LE32) (simp add: assms)
  ultimately have "b = header_bytes (x, y, VAL_GET_LE16 (mem_read b 2 2), VAL_GET_LE32 (drop 4 b))"
    using b x by (simp add: header_bytes_def)
  then show ?thesis by blast
qed

text \<open>
  C9. A damaged frame is never accepted: when up to four consecutive bytes of a frame are changed in
  any way, anywhere in the type, the flags, the type data, the content or the trailer (only the
  length field is left alone), the receiver reports a CRC error, records it, delivers nothing and
  leaves the stream at the next frame.
\<close>

theorem recv_rejects_damage:
  assumes ok: "session_ok r" and d: "delivers (cfg r) rxq" and crc: "crc32_provider (cfg r) = None"
    and frame: "frame_of val_crc32 tb fl td content = xs @ ys @ ws"
    and burst: "length ys = 4" "length zs = 4" "ys \<noteq> zs"
    and lenf: "mem_read (xs @ zs @ ws) 2 2 = mem_read (xs @ ys @ ws) 2 2"
    and q: "rxq (world r) = (xs @ zs @ ws) @ rest"
    and fits: "12 + length content \<le> unat (mtu r)" and small: "length content < 65536"
  shows "\<exists>r'. val_internal_recv_packet r dest to_ms = Some (VAL_ERR_CRC, rx_none, r') \<and>
         rxq (world r') = rest \<and> err_code (last_error r') = VAL_ERR_CRC \<and>
         err_detail (last_error r') = VAL_ERROR_DETAIL_CRC_TRAILER \<and> stable r r' \<and> session_ok r'"
proof -
  let ?n = "length content" and ?f = "xs @ ys @ ws" and ?g = "xs @ zs @ ws"
  let ?h = "header_bytes (tb, fl, of_nat ?n, td)"
  have lh: "length ?h = 8" by (simp add: header_bytes_def)
  have fr: "?f = (?h @ content) @ VAL_PUT_LE32 (val_crc32 (?h @ content))"
    using frame by (simp add: frame_of_def Let_def)
  have lf: "length ?f = 12 + ?n" using arg_cong [OF fr, of length] lh by simp
  then have lg: "length ?g = 12 + ?n" using burst by simp
  have split3: "\<exists>a b c. G = a @ b @ c \<and> a = take 8 G \<and> length a = 8 \<and> length b = ?n \<and> length c = 4"
    if "length G = 12 + ?n" for G :: "u8 list"
  proof (intro exI conjI)
    show "G = take 8 G @ take ?n (drop 8 G) @ drop (8 + ?n) G"
      by (metis append.assoc append_take_drop_id take_add)
  qed (use that in simp_all)
  obtain hd' ct tr where g: "?g = hd' @ ct @ tr" and hd8: "hd' = take 8 ?g"
    and l: "length hd' = 8" "length ct = ?n" "length tr = 4"
    using split3 [OF lg] by blast
  have "mem_read hd' 2 2 = mem_read ?g 2 2" unfolding hd8 mem_read_def by (simp add: drop_take del: take_append drop_append)
  also have "\<dots> = mem_read ?h 2 2" unfolding lenf fr by (simp add: mem_read_def lh)
  also have "\<dots> = VAL_PUT_LE16 (of_nat ?n)" by (simp add: mem_read_def header_bytes_def)
  finally have cl: "VAL_GET_LE16 (mem_read hd' 2 2) = of_nat ?n" by simp
  obtain tb' fl' td' where h': "hd' = header_bytes (tb', fl', of_nat (length ct), td')"
    using header_bytes_surj [OF l(1)] cl l(2) by auto
  have q': "rxq (world r) = header_bytes (tb', fl', of_nat (length ct), td') @ ct @ tr @ rest"
    using q unfolding g h' by simp
  obtain s3 where s3: "val_internal_recv_packet r dest to_ms =
       Some (accept_frame tb' fl' (of_nat (length ct)) td' (VAL_GET_LE32 tr) dest s3)"
    "take (8 + length ct) (recv_buf s3) = hd' @ ct" "core s3 = core (val_internal_lock r)" "rxq (world s3) = rest"
    using recv_packet_frame [OF ok d q' l(3)] fits small l(2) h' by auto
  have "cfg s3 = cfg r" using core_fields(1) [OF s3(3)] by (simp add: sess_defs)
  then have cr: "val_internal_crc32 s3 x = crc32_spec x" for x
    using crc by (simp add: val_internal_crc32_def val_crc32_eq_spec)
  have bad: "VAL_GET_LE32 tr \<noteq> crc32_spec (hd' @ ct)"
  proof
    assume "VAL_GET_LE32 tr = crc32_spec (hd' @ ct)"
    then have "foldl crc32_spec_byte (NOT 0) ?g = crc32_bits 32 (NOT 0)"
      using crc32_residue [OF l(3), of "hd' @ ct"] unfolding g by simp
    moreover have "foldl crc32_spec_byte (NOT 0) ?f = crc32_bits 32 (NOT 0)"
      unfolding fr using crc32_residue [of "VAL_PUT_LE32 (val_crc32 (?h @ content))" "?h @ content"]
      by (simp add: val_crc32_eq_spec)
    moreover have "foldl crc32_spec_byte (NOT 0) ?f \<noteq> foldl crc32_spec_byte (NOT 0) ?g"
      by (rule crc32.foldl_burst) (rule foldl_crc32_word_neq [OF burst])
    ultimately show False by simp
  qed
  let ?r' = "val_internal_unlock (val_metrics_inc_crcerr (VAL_SET_CRC_ERROR s3 VAL_ERROR_DETAIL_CRC_TRAILER))"
  have v: "unat (of_nat (length ct) :: u32) = length ct" using small l(2) by (simp add: unat_of_nat_small)
  have res: "val_internal_recv_packet r dest to_ms = Some (VAL_ERR_CRC, rx_none, ?r')"
    unfolding s3(1) accept_frame_def Let_def v s3(2) cr using bad by simp
  have "core ?r' = core r" by (rule core_unlock) (simp add: s3(3))
  then have st: "stable r ?r'" by (simp add: stable_def)
  show ?thesis
    using res st stable_session_ok [OF st] ok s3(4) by (auto simp: sess_defs)
qed

theorem recv_rejects_damage_witness:
  "\<exists>r'. val_internal_recv_packet
     (bed_session\<lparr>world := bed_world\<lparr>bed_rx := header_bytes (5, 0, 4, 0) @ [1, 2, 9, 4] @
        VAL_PUT_LE32 (val_crc32 (header_bytes (5, 0, 4, 0) @ [1, 2, 3, 4]))\<rparr>\<rparr>) None 100 = Some (VAL_ERR_CRC, rx_none, r')"
proof -
  let ?ws = "VAL_PUT_LE32 (val_crc32 (header_bytes (5, 0, 4, 0) @ [1, 2, 3, 4]))"
  let ?r = "bed_session\<lparr>world := bed_world\<lparr>bed_rx := header_bytes (5, 0, 4, 0) @ [1, 2, 9, 4] @ ?ws\<rparr>\<rparr>"
  have ok: "session_ok ?r" using bed_session_ok by (simp add: session_ok_def window_ok_def)
  have d: "delivers (cfg ?r) bed_rx"
    by (auto simp: delivers_def bed_session_cfg bed_config_def bed_recv_def)
  have "mtu ?r = mtu bed_session" by (simp add: mtu_def)
  then have m: "mtu ?r = 512" by (simp only: bed_session_simps)
  have f: "frame_of val_crc32 5 0 0 [1, 2, 3, 4] = header_bytes (5, 0, 4, 0) @ [1, 2, 3, 4] @ ?ws"
    by (simp add: frame_of_def)
  show ?thesis
    using recv_rejects_damage [OF ok d _ f, of "[1, 2, 9, 4]" "[]" None 100] m
    by (auto simp: bed_session_cfg bed_config_def mem_read_def header_bytes_def)
qed

end
