(* ===== verification/Val_Control.thy ===== *)
theory Val_Control
  imports Val_Frames
begin

text \<open>
  The control waits of \<^verbatim>\<open>src/val_core.c\<close>: receiving until a deadline in short slices, the generic
  wait with retries and backoff, its accept and retry callbacks, the waits built from them, and the
  emergency cancel. A callback context is an argument of the callback. The trace file
  \<^verbatim>\<open>resume_trace.log\<close> that \<^verbatim>\<open>val_internal_wait_verify_result\<close> appends to is not modelled.
  The theorems show that every wait returns, what a cancelled session does, and what the callbacks
  accept.
\<close>

section \<open>Waiting for a packet until a deadline\<close>

text \<open>
  \<^verbatim>\<open>val_internal_recv_until_deadline\<close>. \<open>payload_out\<close> is the caller's memory (\<open>None\<close> for NULL); it is
  returned because the payload of a control packet is copied into it. The loop has no bound of
  its own, so it is an option.
\<close>

definition copy_control ::
    "u8 list option \<Rightarrow> u32 \<Rightarrow> rx_info \<Rightarrow> 'w val_session \<Rightarrow> val_status_t \<times> u8 list option" where
  "copy_control payload_out payload_cap rx s =
     (case payload_out of
        None \<Rightarrow> (VAL_OK, None)
      | Some mem \<Rightarrow>
          if payload_cap \<noteq> 0 \<and> rx_len rx > 0 \<and> rx_type rx \<noteq> VAL_PKT_DATA then
            (if rx_len rx \<le> payload_cap
             then (VAL_OK, Some (mem_write mem 0 (mem_read (recv_buf s) VAL_WIRE_HEADER_SIZE (unat (rx_len rx)))))
             else (VAL_ERR_INVALID_ARG, Some mem))
          else (VAL_OK, Some mem))"

partial_function (option) val_internal_recv_until_deadline ::
    "'w val_session \<Rightarrow> u8 list option \<Rightarrow> u32 \<Rightarrow> u32 \<Rightarrow> u32 \<Rightarrow>
     (val_status_t \<times> rx_info \<times> u8 list option \<times> 'w val_session) option" where
  "val_internal_recv_until_deadline s payload_out payload_cap deadline_ms max_slice_ms =
     (if sys_get_ticks_ms (system (cfg s)) = None then Some (VAL_ERR_INVALID_ARG, rx_none, payload_out, s)
      else if val_check_for_cancel s then Some (VAL_ERR_ABORTED, rx_none, payload_out, s)
      else
        let (now, s) = ticks s;
            remaining = (if now < deadline_ms then deadline_ms - now else 0);
            slice = (if remaining > max_slice_ms then max_slice_ms else remaining);
            slice = (if slice = 0 then 1 else slice)
        in do {
          (st, rx, s) \<leftarrow> val_internal_recv_packet s None slice;
          if st = VAL_OK then
            (case copy_control payload_out payload_cap rx s of (st, mem) \<Rightarrow> Some (st, rx, mem, s))
          else if st \<noteq> VAL_ERR_TIMEOUT \<and> st \<noteq> VAL_ERR_CRC then Some (st, rx_none, payload_out, s)
          else
            let (now, s) = ticks s in
            if now \<ge> deadline_ms then Some (VAL_ERR_TIMEOUT, rx_none, payload_out, s)
            else val_internal_recv_until_deadline s payload_out payload_cap deadline_ms max_slice_ms
        })"

section \<open>Waiting for a control packet\<close>

text \<open>
  The accept callbacks return their verdict (accept \<open>> 0\<close>, ignore \<open>= 0\<close>, reject \<open>< 0\<close>) and the session,
  because some of them send packets or record errors; the timeout callbacks return a status.
\<close>

type_synonym 'w val_ctrl_accept_fn =
  "'w val_session \<Rightarrow> val_packet_type_t \<Rightarrow> u8 list \<Rightarrow> u32 \<Rightarrow> u64 \<Rightarrow> int \<times> 'w val_session"
type_synonym 'w val_ctrl_on_timeout_fn = "'w val_session \<Rightarrow> val_status_t \<times> 'w val_session"

definition set_in_retransmit :: "u8 \<Rightarrow> 'w val_session \<Rightarrow> 'w val_session" where [sess_defs]:
  "set_in_retransmit b s = s\<lparr>timing := (timing s)\<lparr>in_retransmit := b\<rparr>\<rparr>"

text \<open>The terminal path of a failed wait.\<close>

definition wait_gave_up :: "val_status_t \<Rightarrow> 'w val_session \<Rightarrow> 'w val_session" where
  "wait_gave_up st s =
     (let s = (if st = VAL_ERR_TIMEOUT then VAL_SET_TIMEOUT_ERROR s VAL_ERROR_DETAIL_TIMEOUT_ACK
               else if st = VAL_ERR_CRC then VAL_SET_CRC_ERROR s VAL_ERROR_DETAIL_PACKET_CORRUPT else s)
      in if st = VAL_ERR_TIMEOUT then val_metrics_inc_timeout_hard s else s)"

text \<open>The retry path: Karn's flag, metrics, the callback, then the backoff step.\<close>

definition wait_retry ::
    "'w val_ctrl_on_timeout_fn option \<Rightarrow> u32 \<Rightarrow> u8 \<Rightarrow> 'w val_session \<Rightarrow> val_status_t \<times> u32 \<times> u8 \<times> 'w val_session" where
  "wait_retry on_timeout backoff tries s =
     (let s = set_in_retransmit 1 s;
          s = val_metrics_inc_retrans s;
          s = VAL_HEALTH_RECORD_RETRY s;
          (rs, s) = (case on_timeout of None \<Rightarrow> (VAL_OK, s) | Some f \<Rightarrow> f s)
      in if rs \<noteq> VAL_OK then (rs, backoff, tries, s)
         else let (backoff, tries, s) = val_internal_backoff_step s backoff tries
              in (VAL_OK, backoff, tries, s))"

partial_function (option) wait_control_loop ::
    "'w val_ctrl_accept_fn \<Rightarrow> 'w val_ctrl_on_timeout_fn option \<Rightarrow> u32 \<Rightarrow> u32 \<Rightarrow>
     u8 \<Rightarrow> u32 \<Rightarrow> u8 list \<Rightarrow> 'w val_session \<Rightarrow> (val_status_t \<times> rx_info \<times> u8 list \<times> 'w val_session) option" where
  "wait_control_loop accept on_timeout timeout_ms scratch_cap tries backoff scratch s =
     (if val_check_for_cancel s then Some (VAL_ERR_ABORTED, rx_none, scratch, s)
      else if sys_get_ticks_ms (system (cfg s)) = None then Some (VAL_ERR_INVALID_ARG, rx_none, scratch, s)
      else
        let (now, s) = ticks s; deadline = now + timeout_ms in
        do {
          (st, rx, mem, s) \<leftarrow> val_internal_recv_until_deadline s (Some scratch) scratch_cap deadline 20;
          let scratch = the mem;
          if st = VAL_ERR_ABORTED then Some (VAL_ERR_ABORTED, rx_none, scratch, s)
          else if st = VAL_OK then
            (if rx_type rx = VAL_PKT_CANCEL then Some (VAL_ERR_ABORTED, rx_none, scratch, s)
             else if rx_type rx = VAL_PKT_ERROR then Some (VAL_ERR_PROTOCOL, rx_none, scratch, s)
             else
               let (ar, s) = accept s (rx_type rx) scratch (rx_len rx) (rx_off rx) in
               if ar > 0 then Some (VAL_OK, rx, scratch, s)
               else if ar < 0 then Some (VAL_ERR_PROTOCOL, rx_none, scratch, s)
               else wait_control_loop accept on_timeout timeout_ms scratch_cap tries backoff scratch s)
          else if (st \<noteq> VAL_ERR_TIMEOUT \<and> st \<noteq> VAL_ERR_CRC) \<or> tries = 0
          then Some (st, rx_none, scratch, wait_gave_up st s)
          else
            let (rs, backoff, tries, s) = wait_retry on_timeout backoff tries s in
            if rs \<noteq> VAL_OK then Some (rs, rx_none, scratch, s)
            else wait_control_loop accept on_timeout timeout_ms scratch_cap tries backoff scratch s
        })"

text \<open>
  \<open>scratch\<close> is the caller's buffer, \<open>None\<close> for NULL: then a local buffer of 32 bytes is used. Locals are
  not initialised in C; the model starts them at zero and no caller reads a byte that was not
  written first.
\<close>

definition val_internal_wait_control ::
    "'w val_session \<Rightarrow> u32 \<Rightarrow> u8 \<Rightarrow> u32 \<Rightarrow> u8 list option \<Rightarrow> u32 \<Rightarrow>
     'w val_ctrl_accept_fn \<Rightarrow> 'w val_ctrl_on_timeout_fn option \<Rightarrow>
     (val_status_t \<times> rx_info \<times> u8 list \<times> 'w val_session) option" where
  "val_internal_wait_control s timeout_ms tries backoff scratch scratch_cap accept on_timeout =
     (let (scratch, scratch_cap) = (case scratch of None \<Rightarrow> (replicate 32 0, 32) | Some m \<Rightarrow> (m, scratch_cap));
          s = set_in_retransmit 0 s
      in wait_control_loop accept on_timeout timeout_ms scratch_cap tries backoff scratch s)"

section \<open>The callbacks\<close>

definition accept_done_ack_cb :: "'w val_ctrl_accept_fn" where
  "accept_done_ack_cb s t p l o' = (if t = VAL_PKT_DONE_ACK then 1 else 0, s)"

definition retry_send_done_cb :: "u64 \<Rightarrow> 'w val_ctrl_on_timeout_fn" where
  "retry_send_done_cb file_size s =
     val_internal_send_packet (val_internal_record_transmission_error s) VAL_PKT_DONE P_NULL 0 file_size"

definition accept_eot_ack_cb :: "'w val_ctrl_accept_fn" where
  "accept_eot_ack_cb s t p l o' =
     (if t = VAL_PKT_DONE_ACK then 0 else if t = VAL_PKT_EOT_ACK then 1 else 0, s)"

definition retry_send_eot_cb :: "'w val_ctrl_on_timeout_fn" where
  "retry_send_eot_cb s = val_internal_send_packet s VAL_PKT_EOT P_NULL 0 0"

text \<open>A payload pointer of a callback context with its length; \<open>None\<close> is NULL.\<close>

definition retry_send_verify_cb :: "u8 list \<Rightarrow> 'w val_ctrl_on_timeout_fn" where
  "retry_send_verify_cb payload s =
     val_internal_send_packet s VAL_PKT_VERIFY (P_BYTES payload) (of_nat (length payload)) 0"

definition retry_send_hello_cb :: "u8 list option \<Rightarrow> 'w val_ctrl_on_timeout_fn" where
  "retry_send_hello_cb payload s = (case payload of
       None \<Rightarrow> (VAL_ERR_INVALID_ARG, s)
     | Some p \<Rightarrow> if p = [] then (VAL_ERR_INVALID_ARG, s)
         else val_internal_send_packet s VAL_PKT_HELLO (P_BYTES p) (of_nat (length p)) 0)"

text \<open>A malformed packet: the error is recorded and the callback rejects.\<close>

definition reject_malformed :: "'w val_session \<Rightarrow> int \<times> 'w val_session" where
  "reject_malformed s = (- 1, VAL_SET_PROTOCOL_ERROR s VAL_ERROR_DETAIL_MALFORMED_PKT)"

definition accept_hello_cb :: "'w val_ctrl_accept_fn" where
  "accept_hello_cb s t payload len off =
     (if t = VAL_PKT_CANCEL then (- 1, s)
      else if t \<noteq> VAL_PKT_HELLO then (0, s)
      else if len < of_nat VAL_WIRE_HANDSHAKE_SIZE then reject_malformed s
      else (1, s))"

definition accept_hello_rx_cb :: "'w val_ctrl_accept_fn" where
  "accept_hello_rx_cb s t payload len off =
     (if t = VAL_PKT_CANCEL then (- 1, s)
      else if t \<noteq> VAL_PKT_HELLO then (0, s)
      else if len < of_nat VAL_WIRE_HANDSHAKE_SIZE then reject_malformed s
      else (1, s))"

definition retry_send_verify_combined_cb :: "u8 list \<Rightarrow> 'w val_ctrl_on_timeout_fn" where
  "retry_send_verify_combined_cb payload s =
     (if payload = [] then (VAL_ERR_INVALID_ARG, s)
      else val_internal_send_packet s VAL_PKT_VERIFY (P_BYTES payload) (of_nat (length payload)) 0)"

text \<open>A stray RESUME_REQ is answered with the RESUME_RESP of the context, if there is one.\<close>

definition resend_resume_resp :: "u8 list option \<Rightarrow> 'w val_session \<Rightarrow> 'w val_session" where
  "resend_resume_resp resume_resp s = (case resume_resp of
       None \<Rightarrow> s
     | Some p \<Rightarrow> if p = [] then s
         else snd (val_internal_send_packet s VAL_PKT_RESUME_RESP (P_BYTES p) (of_nat (length p)) 0))"

definition accept_verify_with_resume_cb :: "u8 list option \<Rightarrow> 'w val_ctrl_accept_fn" where
  "accept_verify_with_resume_cb resume_resp s t payload len off =
     (if t = VAL_PKT_RESUME_REQ then (0, resend_resume_resp resume_resp s)
      else if t = VAL_PKT_CANCEL then (- 1, s)
      else if t \<noteq> VAL_PKT_VERIFY then (0, s)
      else if len < 4 then reject_malformed s
      else (1, s))"

definition accept_verify_result_cb :: "'w val_ctrl_accept_fn" where
  "accept_verify_result_cb s t payload len off =
     (if t = VAL_PKT_CANCEL then (- 1, s)
      else if t \<noteq> VAL_PKT_VERIFY then (0, s)
      else if len < 4 then reject_malformed s
      else (1, s))"

definition accept_resume_resp_cb :: "'w val_ctrl_accept_fn" where
  "accept_resume_resp_cb s t payload len off =
     (if t = VAL_PKT_CANCEL then - 1 else if t = VAL_PKT_RESUME_RESP then 1 else 0, s)"

definition retry_send_resume_req_cb :: "'w val_ctrl_on_timeout_fn" where
  "retry_send_resume_req_cb s = val_internal_send_packet s VAL_PKT_RESUME_REQ P_NULL 0 0"

definition accept_verify_rx_with_resume_cb :: "u8 list option \<Rightarrow> 'w val_ctrl_accept_fn" where
  "accept_verify_rx_with_resume_cb resume_resp s t payload len off =
     (if t = VAL_PKT_RESUME_REQ then (0, resend_resume_resp resume_resp s)
      else if t = VAL_PKT_CANCEL then (- 1, s)
      else if t = VAL_PKT_VERIFY then (1, s) else (0, s))"

section \<open>The waits of the protocol\<close>

text \<open>A round-trip sample after a wait: the two flavours of the code.\<close>

definition sample_rtt_nonzero :: "u32 \<Rightarrow> val_status_t \<Rightarrow> 'w val_session \<Rightarrow> 'w val_session" where
  "sample_rtt_nonzero t0 st s =
     (if st = VAL_OK \<and> t0 \<noteq> 0 \<and> in_retransmit (timing s) = 0 then
        let (now, s) = ticks s in if now \<noteq> 0 then val_internal_record_rtt s (now - t0) else s
      else s)"

definition sample_rtt_later :: "u32 \<Rightarrow> val_status_t \<Rightarrow> 'w val_session \<Rightarrow> 'w val_session" where
  "sample_rtt_later t0 st s =
     (if st = VAL_OK \<and> t0 \<noteq> 0 \<and> in_retransmit (timing s) = 0 \<and> sys_get_ticks_ms (system (cfg s)) \<noteq> None then
        let (now, s) = ticks s in if now > t0 then val_internal_record_rtt s (now - t0) else s
      else s)"

definition val_internal_wait_done_ack :: "'w val_session \<Rightarrow> u64 \<Rightarrow> (val_status_t \<times> 'w val_session) option" where
  "val_internal_wait_done_ack s file_size =
     (let to_ms = val_internal_get_timeout s VAL_OP_DONE_ACK;
          tries = ack_retries (retries (cfg s));
          backoff = backoff_ms_base (retries (cfg s));
          (t0, s) = ticks s
      in do {
        (st, rx, buf, s) \<leftarrow> val_internal_wait_control s to_ms tries backoff (Some (replicate 32 0)) 32
                              accept_done_ack_cb (Some (retry_send_done_cb file_size));
        Some (st, sample_rtt_nonzero t0 st s)
      })"

definition val_internal_wait_eot_ack :: "'w val_session \<Rightarrow> (val_status_t \<times> 'w val_session) option" where
  "val_internal_wait_eot_ack s =
     (let to_ms = val_internal_get_timeout s VAL_OP_EOT_ACK;
          tries = ack_retries (retries (cfg s));
          backoff = backoff_ms_base (retries (cfg s));
          (t0, s) = ticks s
      in do {
        (st, rx, buf, s) \<leftarrow> val_internal_wait_control s to_ms tries backoff (Some (replicate 32 0)) 32
                              accept_eot_ack_cb (Some retry_send_eot_cb);
        Some (st, sample_rtt_nonzero t0 st s)
      })"

definition val_internal_wait_done_ack_ex ::
    "'w val_session \<Rightarrow> u32 \<Rightarrow> u8 \<Rightarrow> u32 \<Rightarrow> u32 \<Rightarrow> (val_status_t \<times> 'w val_session) option" where
  "val_internal_wait_done_ack_ex s base_timeout_ms tries backoff rtt_start_ms =
     do {
       (st, rx, buf, s) \<leftarrow> val_internal_wait_control s base_timeout_ms tries backoff (Some (replicate 32 0)) 32
                             accept_done_ack_cb (Some (retry_send_done_cb (total_file_size s)));
       Some (st, sample_rtt_later rtt_start_ms st s)
     }"

definition val_internal_wait_eot_ack_ex ::
    "'w val_session \<Rightarrow> u32 \<Rightarrow> u8 \<Rightarrow> u32 \<Rightarrow> u32 \<Rightarrow> (val_status_t \<times> 'w val_session) option" where
  "val_internal_wait_eot_ack_ex s base_timeout_ms tries backoff rtt_start_ms =
     do {
       (st, rx, buf, s) \<leftarrow> val_internal_wait_control s base_timeout_ms tries backoff (Some (replicate 32 0)) 32
                             accept_eot_ack_cb (Some retry_send_eot_cb);
       Some (st, sample_rtt_later rtt_start_ms st s)
     }"

text \<open>
  The outcome of a VERIFY exchange: where the sender resumes. \<^verbatim>\<open>UINT64_MAX\<close> means that the file is
  skipped; a status other than the three known ones is handed to the caller.
\<close>

definition verify_outcome :: "u32 \<Rightarrow> u8 list \<Rightarrow> u64 \<Rightarrow> u64 \<Rightarrow> val_status_t \<times> u64" where
  "verify_outcome len buf end_off out =
     (if len < 4 then (VAL_ERR_PROTOCOL, out)
      else
        let status = status_of_u32 (VAL_GET_LE32 buf) in
        if status = VAL_OK then (VAL_OK, end_off)
        else if status = VAL_SKIPPED then (VAL_OK, UINT64_MAX)
        else if status = VAL_ERR_RESUME_VERIFY then (VAL_OK, 0)
        else (status, out))"

record val_verify_wait_ctx_t =
  verify_payload :: "u8 list option"
  resume_resp_payload :: "u8 list option"
  vw_end_off :: u64
  out_resume_offset :: "u64 option"

text \<open>The offset is returned beside the status; \<open>out_resume_offset\<close> holds its value before the call.\<close>

definition val_internal_wait_verify ::
    "'w val_session \<Rightarrow> u32 \<Rightarrow> u8 \<Rightarrow> u32 \<Rightarrow> val_verify_wait_ctx_t \<Rightarrow>
     (val_status_t \<times> u64 option \<times> 'w val_session) option" where
  "val_internal_wait_verify s base_timeout_ms tries backoff ctx =
     (case (verify_payload ctx, out_resume_offset ctx) of
        (Some vp, Some out) \<Rightarrow>
          if vp = [] then Some (VAL_ERR_INVALID_ARG, Some out, s)
          else do {
            (st, rx, buf, s) \<leftarrow> val_internal_wait_control s base_timeout_ms tries backoff (Some (replicate 32 0)) 32
                                  (accept_verify_with_resume_cb (resume_resp_payload ctx))
                                  (Some (retry_send_verify_combined_cb vp));
            if st \<noteq> VAL_OK then Some (st, Some out, s)
            else (case verify_outcome (rx_len rx) buf (vw_end_off ctx) out of
                    (st, out) \<Rightarrow> Some (st, Some out, s))
          }
      | _ \<Rightarrow> Some (VAL_ERR_INVALID_ARG, out_resume_offset ctx, s))"

definition val_internal_wait_verify_result ::
    "'w val_session \<Rightarrow> u8 list \<Rightarrow> u64 \<Rightarrow> u64 \<Rightarrow> (val_status_t \<times> u64 \<times> 'w val_session) option" where
  "val_internal_wait_verify_result s vp end_off out =
     (if vp = [] then Some (VAL_ERR_INVALID_ARG, out, s)
      else
        let to_ms = val_internal_get_timeout s VAL_OP_VERIFY;
            tries = ack_retries (retries (cfg s));
            backoff = backoff_ms_base (retries (cfg s))
        in do {
          (st, rx, buf, s) \<leftarrow> val_internal_wait_control s to_ms tries backoff (Some (replicate 32 0)) 32
                                accept_verify_result_cb (Some (retry_send_verify_cb vp));
          if st \<noteq> VAL_OK then Some (st, out, s)
          else (case verify_outcome (rx_len rx) buf end_off out of (st, out) \<Rightarrow> Some (st, out, s))
        })"

text \<open>The payload buffer of the caller is \<open>mem\<close>; it is returned with the packet's payload in it.\<close>

definition val_internal_wait_resume_resp ::
    "'w val_session \<Rightarrow> u32 \<Rightarrow> u8 \<Rightarrow> u32 \<Rightarrow> u8 list \<Rightarrow> u32 \<Rightarrow>
     (val_status_t \<times> rx_info \<times> u8 list \<times> 'w val_session) option" where
  "val_internal_wait_resume_resp s base_timeout_ms tries backoff mem payload_cap =
     (if payload_cap = 0 then Some (VAL_ERR_INVALID_ARG, rx_none, mem, s)
      else val_internal_wait_control s base_timeout_ms tries backoff (Some mem) payload_cap
             accept_resume_resp_cb (Some retry_send_resume_req_cb))"

definition val_internal_wait_verify_request_rx ::
    "'w val_session \<Rightarrow> u32 \<Rightarrow> u8 \<Rightarrow> u32 \<Rightarrow> u8 list option \<Rightarrow> u8 list \<Rightarrow> u32 \<Rightarrow>
     (val_status_t \<times> rx_info \<times> u8 list \<times> 'w val_session) option" where
  "val_internal_wait_verify_request_rx s base_timeout_ms tries backoff resume_resp mem payload_cap =
     (if payload_cap = 0 then Some (VAL_ERR_INVALID_ARG, rx_none, mem, s)
      else val_internal_wait_control s base_timeout_ms tries backoff (Some mem) payload_cap
             (accept_verify_rx_with_resume_cb resume_resp) None)"

section \<open>Emergency cancel\<close>

text \<open>Three attempts, with a delay that doubles while it is below fifty milliseconds.\<close>

fun cancel_attempts :: "nat \<Rightarrow> val_status_t \<Rightarrow> u32 \<Rightarrow> 'w val_session \<Rightarrow> val_status_t \<times> 'w val_session" where
  "cancel_attempts 0 last_st backoff s = (last_st, s)"
| "cancel_attempts (Suc tries) last_st backoff s =
     (let (st, s) = val_internal_send_packet s VAL_PKT_CANCEL P_NULL 0 0;
          last_st = (if st = VAL_OK then VAL_OK else last_st);
          s = delay backoff s;
          backoff = (if backoff < 50 then push_bit 1 backoff else backoff)
      in cancel_attempts tries last_st backoff s)"

definition val_emergency_cancel :: "'w val_session \<Rightarrow> val_status_t \<times> 'w val_session" where
  "val_emergency_cancel s =
     (let s = val_internal_lock s;
          backoff = (if backoff_ms_base (retries (cfg s)) \<noteq> 0 then backoff_ms_base (retries (cfg s)) else 5);
          (last_st, s) = cancel_attempts 3 VAL_ERR_IO backoff s;
          s = val_internal_transport_flush s;
          s = val_internal_set_last_error s VAL_ERR_ABORTED 0
      in (last_st, val_internal_unlock s))"

section \<open>A well-behaved environment\<close>

text \<open>
  The assumptions under which waiting ends. They are those of the packet layer (a read that stores
  nothing lets its timeout pass; no read stores more than it was asked for) and that the peer sends
  finitely many bytes: \<open>pend w\<close> bounds what is still to come in the world \<open>w\<close>, a read takes what it
  stores from it, and no other hook adds to it.
\<close>

definition quiet :: "'w val_config \<Rightarrow> ('w \<Rightarrow> u32) \<Rightarrow> ('w \<Rightarrow> nat) \<Rightarrow> bool" where
  "quiet c clk pend \<longleftrightarrow> recv_waits c clk \<and> recv_bounded c \<and>
     (\<forall>f w n t r got w'. tr_recv (transport c) = Some f \<longrightarrow> f w n t = (r, got, w') \<longrightarrow> pend w' + length got \<le> pend w) \<and>
     (\<forall>f w d. tr_send (transport c) = Some f \<longrightarrow> pend (snd (f w d)) \<le> pend w) \<and>
     (\<forall>f w. tr_is_connected (transport c) = Some f \<longrightarrow> pend (snd (f w)) \<le> pend w) \<and>
     (\<forall>f w. tr_flush (transport c) = Some f \<longrightarrow> pend (f w) \<le> pend w) \<and>
     (\<forall>f w ms. sys_delay_ms (system c) = Some f \<longrightarrow> pend (f w ms) \<le> pend w) \<and>
     (\<forall>f w r. capture c = Some f \<longrightarrow> pend (f w r) \<le> pend w)"

definition good :: "('w \<Rightarrow> u32) \<Rightarrow> ('w \<Rightarrow> nat) \<Rightarrow> 'w val_session \<Rightarrow> bool" where
  "good clk pend s \<longleftrightarrow> session_ok s \<and> quiet (cfg s) clk pend"

text \<open>What every step of a wait keeps.\<close>

definition keeps :: "('w \<Rightarrow> nat) \<Rightarrow> 'w val_session \<Rightarrow> 'w val_session \<Rightarrow> bool" where
  "keeps pend s s' \<longleftrightarrow> cfg s' = cfg s \<and> lock_depth s' = lock_depth s \<and> pend (world s') \<le> pend (world s) \<and>
     max_timeout_ms (timing s') = max_timeout_ms (timing s) \<and> effective_packet_size s' = effective_packet_size s \<and>
     (session_ok s \<longrightarrow> session_ok s')"

lemma keeps_refl [simp]: "keeps pend s s"
  by (simp add: keeps_def)

lemma keeps_trans [trans]: "keeps pend s s' \<Longrightarrow> keeps pend s' s'' \<Longrightarrow> keeps pend s s''"
  by (auto simp: keeps_def)

lemma keeps_good: "keeps pend s s' \<Longrightarrow> good clk pend s \<Longrightarrow> good clk pend s'"
  by (simp add: keeps_def good_def)

lemma keeps_core: "core s' = core s \<Longrightarrow> pend (world s') \<le> pend (world s) \<Longrightarrow> keeps pend s s'"
  using stable_session_ok [of s s'] core_fields [of s' s] by (simp add: keeps_def stable_def)

text \<open>The hooks.\<close>

lemma hook_pend:
  assumes "quiet (cfg s) clk pend"
  shows "ticks s = (clk (world s), s)"
    "pend (world (delay ms s)) \<le> pend (world s)"
    "pend (world (snd (val_internal_transport_is_connected s))) \<le> pend (world s)"
    "pend (world (val_internal_transport_flush s)) \<le> pend (world s)"
    "pend (world (snd (send_bytes s data))) \<le> pend (world s)"
    "pend (world (capture_packet d t wl pl off s)) \<le> pend (world s)"
proof -
  show t: "ticks s = (clk (world s), s)" using assms by (simp add: quiet_def ticks_clk)
  show "pend (world (capture_packet d t wl pl off s)) \<le> pend (world s)"
    using assms by (auto simp: capture_packet_def Let_def t quiet_def split: option.splits)
  show "pend (world (delay ms s)) \<le> pend (world s)"
    using assms by (simp add: delay_def quiet_def split: option.splits)
  show "pend (world (val_internal_transport_flush s)) \<le> pend (world s)"
    using assms by (simp add: val_internal_transport_flush_def quiet_def split: option.splits)
  show "pend (world (snd (val_internal_transport_is_connected s))) \<le> pend (world s)"
  proof (cases "tr_is_connected (transport (cfg s))")
    case (Some f)
    then have "pend (snd (f (world s))) \<le> pend (world s)" using assms unfolding quiet_def by blast
    with Some show ?thesis by (cases "f (world s)") (simp add: val_internal_transport_is_connected_def)
  qed (simp add: val_internal_transport_is_connected_def)
  show "pend (world (snd (send_bytes s data))) \<le> pend (world s)"
  proof (cases "tr_send (transport (cfg s))")
    case (Some f)
    then have "pend (snd (f (world s) data)) \<le> pend (world s)" using assms unfolding quiet_def by blast
    with Some show ?thesis by (cases "f (world s) data") (simp add: send_bytes_def)
  qed (simp add: send_bytes_def)
qed

lemma unlock_simps [simp]:
  "world (val_internal_lock s) = world s" "cfg (val_internal_lock s) = cfg s"
  by (simp_all add: sess_defs)

lemma note_simps [simp]:
  "world (val_internal_set_error_detailed s c d) = world s" "cfg (val_internal_set_error_detailed s c d) = cfg s"
  "world (val_internal_set_last_error s c d) = world s" "cfg (val_internal_set_last_error s c d) = cfg s"
  "world (upd_metrics f s) = world s" "cfg (upd_metrics f s) = cfg s"
  "world (VAL_HEALTH_RECORD_RETRY s) = world s" "cfg (VAL_HEALTH_RECORD_RETRY s) = cfg s"
  "world (VAL_HEALTH_RECORD_OPERATION s) = world s" "cfg (VAL_HEALTH_RECORD_OPERATION s) = cfg s"
  by (simp_all add: sess_defs)

lemma keeps_notes [simp]:
  "keeps pend s (val_internal_set_error_detailed s c d)"
  "keeps pend s (val_internal_set_last_error s c d)"
  "keeps pend s (upd_metrics f s)"
  "keeps pend s (VAL_HEALTH_RECORD_RETRY s)"
  "keeps pend s (VAL_HEALTH_RECORD_OPERATION s)"
  by (rule keeps_core; simp)+

lemma keeps_set_in_retransmit [simp]: "keeps pend s (set_in_retransmit b s)"
  by (simp add: keeps_def sess_defs session_ok_def window_ok_def)

text \<open>Sending a packet that fits.\<close>

lemma pend_after_send:
  assumes "quiet (cfg s) clk pend"
  shows "pend (world (after_send s t n off l)) \<le> pend (world s)"
proof -
  let ?a = "val_metrics_add_sent s (of_nat l) (pkt_byte t)"
  let ?b = "capture_packet VAL_DIR_TX (pkt_byte t) (of_nat l) (of_nat n) off ?a"
  have q: "quiet (cfg ?a) clk pend" using assms by (simp add: val_metrics_add_sent_def)
  have "core ?b = core s" by simp
  then have c: "cfg ?b = cfg s" by (rule core_fields)
  have b: "pend (world ?b) \<le> pend (world s)"
    using hook_pend(6) [OF q] by (simp add: val_metrics_add_sent_def)
  have "pend (world (val_internal_transport_flush ?b)) \<le> pend (world ?b)"
    using hook_pend(4) [of ?b clk pend] c assms by simp
  with b show ?thesis by (simp add: after_send_def Let_def)
qed

lemma send_packet_keeps:
  assumes g: "good clk pend s" and p: "payload_is (send_buf s) payload bs"
    and room: "12 + needs_room t bs offset explicit \<le> unat (mtu s)"
  shows "keeps pend s (snd (val__internal_send_packet_core s t payload (of_nat (length bs)) offset explicit))"
proof -
  have ok: "session_ok s" and q: "quiet (cfg s) clk pend" using g by (simp_all add: good_def)
  obtain fl td ct where wc: "wire_content t bs offset explicit = (fl, td, ct)"
    by (cases "wire_content t bs offset explicit")
  obtain b s1 where c: "val_internal_transport_is_connected (val_internal_lock s) = (b, s1)"
    by (cases "val_internal_transport_is_connected (val_internal_lock s)")
  have c1: "core s1 = core (val_internal_lock s)" using core_hooks(3) [of "val_internal_lock s"] c by simp
  have p1: "pend (world s1) \<le> pend (world s)"
    using hook_pend(3) [of "val_internal_lock s" clk pend] q c by simp
  show ?thesis
  proof (cases b)
    case False
    then have "snd (val__internal_send_packet_core s t payload (of_nat (length bs)) offset explicit) =
        val_internal_unlock (VAL_SET_NETWORK_ERROR s1 VAL_ERROR_DETAIL_CONNECTION)"
      by (simp add: val__internal_send_packet_core_def c)
    then show ?thesis
      using p1 core_unlock [where s = s, of "VAL_SET_NETWORK_ERROR s1 VAL_ERROR_DETAIL_CONNECTION"] c1
      by (simp add: keeps_core)
  next
    case True
    with c have ct: "val_internal_transport_is_connected (val_internal_lock s) = (True, s1)" by simp
    let ?f = "frame_of (val_internal_crc32 s) (pkt_byte t) fl td (trunc16 ct)"
    obtain buf where bl: "length buf = length (send_buf s)" and
      e: "val__internal_send_packet_core s t payload (of_nat (length bs)) offset explicit =
         (let (rc, s2) = send_bytes (s1\<lparr>send_buf := buf\<rparr>) ?f; s2 = val_internal_unlock s2
          in if rc \<noteq> int (12 + length (trunc16 ct))
             then (VAL_ERR_IO, VAL_SET_NETWORK_ERROR s2 VAL_ERROR_DETAIL_SEND_FAILED)
             else (VAL_OK, after_send s2 t (length bs) offset (12 + length (trunc16 ct))))"
      by (rule send_core_cases [OF ok ct p wc])
        (use room wc in \<open>simp add: needs_room_def\<close>)
    obtain rc s2 where sb: "send_bytes (s1\<lparr>send_buf := buf\<rparr>) ?f = (rc, s2)"
      by (cases "send_bytes (s1\<lparr>send_buf := buf\<rparr>) ?f")
    have bb: "length buf = length (send_buf s1)" using bl core_fields(10) [OF c1] by (simp add: sess_defs)
    have c2: "core s2 = core (val_internal_lock s)"
      using core_hooks(5) [of "s1\<lparr>send_buf := buf\<rparr>" ?f] sb c1 bb by simp
    have q1: "quiet (cfg s1) clk pend" using core_fields(1) [OF c1] q by simp
    have p2: "pend (world s2) \<le> pend (world s)"
      using hook_pend(5) [of "s1\<lparr>send_buf := buf\<rparr>" clk pend ?f] sb q1 p1 by simp
    have c3: "core (val_internal_unlock s2) = core s" by (rule core_unlock [OF c2])
    have q3: "quiet (cfg (val_internal_unlock s2)) clk pend" using core_fields(1) [OF c3] q by simp
    have "snd (val__internal_send_packet_core s t payload (of_nat (length bs)) offset explicit) \<in>
        {VAL_SET_NETWORK_ERROR (val_internal_unlock s2) VAL_ERROR_DETAIL_SEND_FAILED,
         after_send (val_internal_unlock s2) t (length bs) offset (12 + length (trunc16 ct))}"
      unfolding e by (simp add: sb Let_def del: of_nat_add)
    then show ?thesis
    proof (elim insertE emptyE)
      assume "snd (val__internal_send_packet_core s t payload (of_nat (length bs)) offset explicit) =
        VAL_SET_NETWORK_ERROR (val_internal_unlock s2) VAL_ERROR_DETAIL_SEND_FAILED"
      then show ?thesis using c3 p2 by (simp add: keeps_core)
    next
      assume "snd (val__internal_send_packet_core s t payload (of_nat (length bs)) offset explicit) =
        after_send (val_internal_unlock s2) t (length bs) offset (12 + length (trunc16 ct))"
      then show ?thesis
        using c3 p2 pend_after_send [OF q3, of t "length bs" offset "12 + length (trunc16 ct)"]
        by (simp add: keeps_core)
    qed
  qed
qed

section \<open>Receiving takes from what is pending\<close>

lemma recv_round_quiet:
  assumes q: "quiet (cfg s) clk pend" and n: "need < 2 ^ 64"
  shows "(case recv_round start need to_ms hv s of
     Inl (st, bs, s') \<Rightarrow> pend (world s') + length bs \<le> pend (world s) + length hv \<and> length hv \<le> length bs \<and>
        (st = VAL_ERR_TIMEOUT \<and> bs = [] \<and> start = clk (world s) \<and> to_ms \<noteq> 0 \<longrightarrow>
           clk (world s') = clk (world s) + to_ms)
   | Inr (hv', s') \<Rightarrow> pend (world s') + length hv' \<le> pend (world s) + length hv)"
proof (cases "need \<le> length hv")
  case True
  then show ?thesis by (simp add: recv_round_def)
next
  case False
  note tk = hook_pend(1) [OF q]
  define slice where "slice =
    (let elapsed = (if clk (world s) \<ge> start then clk (world s) - start else 0);
         remaining = (if to_ms > elapsed then to_ms - elapsed else 0)
     in if remaining \<noteq> 0 then remaining else if to_ms \<noteq> 0 then 1 else 0)"
  show ?thesis
  proof (cases "tr_recv (transport (cfg s))")
    case None
    then show ?thesis using False by (simp add: recv_round_def tk Let_def)
  next
    case (Some f)
    obtain r got w where f: "f (world s) (of_nat (need - length hv)) slice = (r, got, w)"
      by (cases "f (world s) (of_nat (need - length hv)) slice")
    have p: "pend w + length got \<le> pend (world s)"
      using q Some f unfolding quiet_def by blast
    have tw: "ticks (s\<lparr>world := w\<rparr>) = (clk w, s\<lparr>world := w\<rparr>)"
      using hook_pend(1) [of "s\<lparr>world := w\<rparr>" clk pend] q by simp
    have nz: "(of_nat (need - length hv) :: size_t) \<noteq> 0"
    proof
      assume "(of_nat (need - length hv) :: size_t) = 0"
      moreover have "unat (of_nat (need - length hv) :: size_t) = need - length hv"
        by (rule unat_of_nat_small) (use n in simp)
      ultimately show False using False by simp
    qed
    have e: "recv_round start need to_ms hv s =
       (if r < 0 then Inl (VAL_ERR_IO, hv @ got, s\<lparr>world := w\<rparr>)
        else if length (hv @ got) \<ge> need then Inl (VAL_OK, hv @ got, s\<lparr>world := w\<rparr>)
        else if clk w - start \<ge> to_ms then Inl (VAL_ERR_TIMEOUT, hv @ got, s\<lparr>world := w\<rparr>)
        else Inr (hv @ got, s\<lparr>world := w\<rparr>))"
      using False Some f by (simp add: recv_round_def tk tw Let_def slice_def)
    have sl: "start = clk (world s) \<Longrightarrow> to_ms \<noteq> 0 \<Longrightarrow> slice = to_ms"
      by (simp add: slice_def Let_def word_neq_0_conv)
    have "got = [] \<Longrightarrow> 0 \<le> r \<Longrightarrow> clk w = clk (world s) + slice"
      using q Some f nz by (auto simp: quiet_def recv_waits_def)
    then show ?thesis using p sl by (auto simp: e)
  qed
qed

lemma val_recv_full_quiet:
  assumes q: "quiet (cfg s) clk pend" and n: "need < 2 ^ 64" and t: "to_ms \<le> 0x7FFFFFFF"
    and r: "val_recv_full need to_ms s = Some (st, bs, s')"
  shows "pend (world s') + length bs \<le> pend (world s) \<and>
     (st = VAL_ERR_TIMEOUT \<and> bs = [] \<and> to_ms \<noteq> 0 \<longrightarrow> clk (world s') = clk (world s) + to_ms)"
proof (cases "tr_recv (transport (cfg s)) = None")
  case True
  with r show ?thesis by (auto simp: val_recv_full_def)
next
  case False
  let ?start = "clk (world s)"
  let ?I = "\<lambda>hv s2. only_world s s2 \<and> pend (world s2) + length hv \<le> pend (world s) \<and>
      clk (world s2) - ?start \<le> to_ms \<and> (hv = [] \<longrightarrow> s2 = s)"
  let ?Q = "\<lambda>(st, bs, s2). pend (world s2) + length bs \<le> pend (world s) \<and>
      (st = VAL_ERR_TIMEOUT \<and> bs = [] \<and> to_ms \<noteq> 0 \<longrightarrow> clk (world s2) = ?start + to_ms)"
  have qq: "quiet (cfg s2) clk pend" if "only_world s s2" for s2
    using q only_world_cfg [OF that] by simp
  have l: "val_recv_full_loop ?start need to_ms [] s = Some (st, bs, s')"
    using r False hook_pend(1) [OF q] by (simp add: val_recv_full_def)
  have "?Q (st, bs, s')"
  proof (rule val_recv_full_loop_inv [where I = ?I and Q = ?Q, OF l])
    show "?I [] s" by simp
  next
    fix h s1 h' s2
    assume I: "?I h s1" and e: "recv_round ?start need to_ms h s1 = Inr (h', s2)"
    have w: "recv_waits (cfg s1) clk" using qq [of s1] I by (simp add: quiet_def)
    show "?I h' s2"
      using recv_round_progress [OF w t n _ e] recv_round_quiet [where s = s1 and clk = clk and pend = pend and need = need and start = ?start and to_ms = to_ms and hv = h, OF qq n] I e
        only_world_trans [of s s1 s2] by auto
  next
    fix h s1 r
    assume I: "?I h s1" and e: "recv_round ?start need to_ms h s1 = Inl r"
    obtain st bs s2 where r: "r = (st, bs, s2)" by (cases r)
    show "?Q r"
      using recv_round_quiet [where s = s1 and clk = clk and pend = pend and need = need and start = ?start and to_ms = to_ms and hv = h, OF qq n] I e by (cases h) (auto simp: r)
  qed
  then show ?thesis by simp
qed

lemma pend_deliver:
  assumes "quiet (cfg s) clk pend"
  shows "pend (world (snd (snd (deliver_frame tb fl pl td dest rx s)))) \<le> pend (world s)"
proof -
  have c: "pend (world (capture_packet d t wl pl off s1)) \<le> pend (world s)"
    if "cfg s1 = cfg s" "world s1 = world s" for s1 d t wl pl off
    using hook_pend(6) [of s1 clk pend d t wl pl off] assms that by simp
  show ?thesis
    by (simp add: deliver_frame_def Let_def c)
qed

lemma pend_accept:
  "quiet (cfg s) clk pend \<Longrightarrow> pend (world (snd (snd (accept_frame tb fl pl td tc dest s)))) \<le> pend (world s)"
  by (simp add: accept_frame_def Let_def val_metrics_inc_crcerr_def order_trans [OF pend_deliver])

lemma rx_fail_eq:
  "rx_fail rc s = Some (st, rx, s') \<Longrightarrow>
     st = (if rc = VAL_ERR_IO then VAL_ERR_IO else VAL_ERR_TIMEOUT) \<and> world s' = world s"
  by (auto simp: rx_fail_def recv_failed_def split: if_splits)

lemma pend_trailer:
  assumes "quiet (cfg s) clk pend" "to_ms \<le> 0x7FFFFFFF"
    and r: "recv_trailer dest to_ms tb fl pl td s = Some (st, rx, s')"
  shows "pend (world s') \<le> pend (world s)"
proof -
  obtain rc bs s2 where v: "val_recv_full 4 to_ms s = Some (rc, bs, s2)"
    using r by (auto simp: recv_trailer_def bind_eq_Some_conv)
  have p: "pend (world s2) \<le> pend (world s)"
    using val_recv_full_quiet [OF assms(1) _ assms(2) v] by simp
  have o: "only_world s s2" using val_recv_full_world [OF v] assms(1) by (simp add: quiet_def)
  then have q2: "quiet (cfg s2) clk pend" using assms(1) only_world_cfg by metis
  show ?thesis
  proof (cases "rc = VAL_OK")
    case True
    then have "s' = snd (snd (accept_frame tb fl pl td (VAL_GET_LE32 bs) dest s2))"
      using r v by (simp add: recv_trailer_def)
    then show ?thesis using pend_accept [OF q2] p order_trans by blast
  next
    case False
    then have "rx_fail rc s2 = Some (st, rx, s')" using r v by (simp add: recv_trailer_def)
    then show ?thesis using rx_fail_eq p by metis
  qed
qed

lemma pend_payload:
  assumes "quiet (cfg s) clk pend" "to_ms \<le> 0x7FFFFFFF"
    and r: "recv_payload dest to_ms tb fl pl td s = Some (st, rx, s')"
  shows "pend (world s') \<le> pend (world s)"
proof -
  obtain rc bs s2 where v: "(if pl > 0 then val_recv_full (unat pl) to_ms s else Some (VAL_OK, [], s)) = Some (rc, bs, s2)"
    using r unfolding recv_payload_def bind_eq_Some_conv by auto
  have "unat pl < 2 ^ 64" using unat_less_2p32 [of pl] by simp
  then have p: "pend (world s2) \<le> pend (world s) \<and> only_world s s2"
    using v val_recv_full_quiet [OF assms(1) _ assms(2), of "unat pl" rc bs s2]
      val_recv_full_world [of "unat pl" to_ms s rc bs s2] assms(1)
    by (cases "pl > 0") (auto simp: quiet_def)
  let ?s3 = "s2\<lparr>recv_buf := mem_write (recv_buf s2) VAL_WIRE_HEADER_SIZE bs\<rparr>"
  have q2: "quiet (cfg ?s3) clk pend" using assms(1) only_world_cfg [of s s2] p by simp
  have e: "(if rc \<noteq> VAL_OK then rx_fail rc ?s3 else recv_trailer dest to_ms tb fl pl td ?s3) = Some (st, rx, s')"
    using r unfolding recv_payload_def v bind.bind_lunit prod.case Let_def .
  show ?thesis
    using p e rx_fail_eq [of rc ?s3 st rx s'] pend_trailer [OF q2 assms(2), of dest tb fl pl td st rx s']
    by (cases "rc = VAL_OK") auto
qed

text \<open>Receiving a packet keeps the session, and a failure to make progress is a timeout that was waited for.\<close>

lemma recv_packet_quiet:
  assumes g: "good clk pend s" and t: "to_ms \<noteq> 0" "to_ms \<le> 0x7FFFFFFF"
    and cap: "unat (rx_cap dest) \<le> length (recv_buf s)"
    and r: "val_internal_recv_packet s dest to_ms = Some (st, rx, s')"
  shows "keeps pend s s' \<and>
     (pend (world s') < pend (world s) \<or> st = VAL_ERR_TIMEOUT \<and> clk (world s') = clk (world s) + to_ms \<or> st = VAL_ERR_IO)"
proof -
  have ok: "session_ok s" and q: "quiet (cfg s) clk pend" using g by (simp_all add: good_def)
  have b: "recv_bounded (cfg s)" using q by (simp add: quiet_def)
  have co: "core s' = core s"
    by (rule val_internal_recv_packet_core [OF r b ok cap])
  let ?l = "val_internal_lock s"
  have ql: "quiet (cfg ?l) clk pend" using q by simp
  obtain rc bs s1 where v: "val_recv_full 8 to_ms ?l = Some (rc, bs, s1)"
    using r unfolding val_internal_recv_packet_def Let_def bind_eq_Some_conv by auto
  have p: "pend (world s1) + length bs \<le> pend (world s)"
    "rc = VAL_ERR_TIMEOUT \<and> bs = [] \<longrightarrow> clk (world s1) = clk (world s) + to_ms"
    using val_recv_full_quiet [OF ql _ t(2) v] t(1) by simp_all
  have w: "only_world ?l s1" "rc = VAL_OK \<longrightarrow> length bs = 8" "rc \<in> {VAL_OK, VAL_ERR_IO, VAL_ERR_TIMEOUT}"
    using val_recv_full_world [OF v] b by simp_all
  let ?s2 = "s1\<lparr>recv_buf := mem_write (recv_buf s1) 0 bs\<rparr>"
  have q2: "quiet (cfg ?s2) clk pend" using only_world_cfg [OF w(1)] q by simp
  have "pend (world s') \<le> pend (world s) \<and> (pend (world s') < pend (world s) \<or>
      st = VAL_ERR_TIMEOUT \<and> clk (world s') = clk (world s) + to_ms \<or> st = VAL_ERR_IO)"
  proof (cases "rc = VAL_OK")
    case False
    then have "rx_fail rc ?s2 = Some (st, rx, s')"
      using r unfolding val_internal_recv_packet_def Let_def v by simp
    then show ?thesis using rx_fail_eq [of rc ?s2 st rx s'] p w(3) False by (cases bs) auto
  next
    case True
    have "pend (world s') \<le> pend (world s1)"
      using r True unfolding val_internal_recv_packet_def Let_def v
      by (auto split: prod.splits if_splits dest: pend_payload [OF q2 t(2)])
    then show ?thesis using p w(2) True by simp
  qed
  then show ?thesis using keeps_core [OF co] by auto
qed

section \<open>Waiting ends\<close>

lemma slice_step:
  fixes now dl m :: u32
  assumes "m \<noteq> 0"
  defines "rem \<equiv> if now < dl then dl - now else 0"
  defines "sl \<equiv> if rem > m then m else rem"
  defines "sl' \<equiv> if sl = 0 then 1 else sl"
  assumes "\<not> dl \<le> now + sl'"
  shows "unat (dl - (now + sl')) < (if dl \<le> now then 2 ^ 32 else unat (dl - now))"
proof (cases "dl \<le> now")
  case True
  then show ?thesis using unat_less_2p32 [of "dl - (now + sl')"] by simp
next
  case False
  then have lt: "now < dl" by simp
  then have u: "unat (dl - now) = unat dl - unat now" "unat now < unat dl"
    by (simp_all add: unat_sub word_less_nat_alt word_le_nat_alt)
  have r0: "rem = dl - now" using lt by (simp add: rem_def)
  have "rem \<noteq> 0" using u r0 by (auto dest: arg_cong [where f = unat])
  then have s: "sl' \<noteq> 0" "unat sl' \<le> unat (dl - now)"
    using assms(1) r0 by (auto simp: sl'_def sl_def word_less_nat_alt)
  then have s1: "0 < unat sl'" using unat_gt_0 by blast
  have n: "unat (now + sl') = unat now + unat sl'"
    using s u unat_less_2p32 [of dl] by (simp add: unat_word_ariths)
  with assms(5) have "unat now + unat sl' < unat dl" by (simp add: word_le_nat_alt)
  then have "unat (dl - (now + sl')) = unat dl - (unat now + unat sl')"
    using n by (simp add: unat_sub word_le_nat_alt)
  then show ?thesis using u s1 False by simp
qed

lemma copy_control_mem: "copy_control (Some m) cap rx s = (st, mem) \<Longrightarrow> mem \<noteq> None \<and> (st = VAL_OK \<or> st = VAL_ERR_INVALID_ARG)"
  by (auto simp: copy_control_def split: if_splits)

lemma recv_until_deadline_returns:
  assumes "good clk pend s" and m: "m \<noteq> 0" "m \<le> 0x7FFFFFFF"
  shows "\<exists>st rx mem s'. val_internal_recv_until_deadline s (Some buf) cap dl m = Some (st, rx, mem, s') \<and>
     keeps pend s s' \<and> mem \<noteq> None \<and> (st = VAL_OK \<longrightarrow> pend (world s') < pend (world s))"
  using assms(1)
proof (induction "pend (world s) * 2 ^ 33 + (if dl \<le> clk (world s) then 2 ^ 32 else unat (dl - clk (world s)))"
    arbitrary: s rule: less_induct)
  case less
  have q: "quiet (cfg s) clk pend" and ok: "session_ok s" using less.prems by (simp_all add: good_def)
  note tk = hook_pend(1) [OF q]
  have hk: "sys_get_ticks_ms (system (cfg s)) = Some (\<lambda>w. (clk w, w))" using q by (simp add: quiet_def recv_waits_def)
  show ?case
  proof (cases "val_check_for_cancel s")
    case True
    then show ?thesis using hk by (subst val_internal_recv_until_deadline.simps) simp
  next
    case False
    define sl where "sl = (let rem = (if clk (world s) < dl then dl - clk (world s) else 0);
        sl = (if rem > m then m else rem) in if sl = 0 then 1 else sl)"
    have sl: "sl \<noteq> 0" "sl \<le> 0x7FFFFFFF"
      using m by (auto simp: sl_def Let_def intro: order_trans)
    obtain st rx s1 where r: "val_internal_recv_packet s None sl = Some (st, rx, s1)"
      using recv_packet_total [OF ok _ _ sl(2), of clk None] q by (auto simp: quiet_def rx_cap_def)
    have cap0: "unat (rx_cap None) \<le> length (recv_buf s)" by (simp add: rx_cap_def)
    note step = recv_packet_quiet [OF less.prems sl cap0 r]
    have k: "keeps pend s s1" using step by simp
    have q1: "quiet (cfg s1) clk pend" using keeps_good [OF k less.prems] by (simp add: good_def)
    note tk1 = hook_pend(1) [OF q1]
    have e: "val_internal_recv_until_deadline s (Some buf) cap dl m =
       (if st = VAL_OK then (case copy_control (Some buf) cap rx s1 of (st, mem) \<Rightarrow> Some (st, rx, mem, s1))
        else if st \<noteq> VAL_ERR_TIMEOUT \<and> st \<noteq> VAL_ERR_CRC then Some (st, rx_none, Some buf, s1)
        else if clk (world s1) \<ge> dl then Some (VAL_ERR_TIMEOUT, rx_none, Some buf, s1)
        else val_internal_recv_until_deadline s1 (Some buf) cap dl m)"
      using hk False r by (subst val_internal_recv_until_deadline.simps) (simp add: tk tk1 sl_def Let_def)
    consider "st = VAL_OK" | "st \<noteq> VAL_OK" "st \<noteq> VAL_ERR_TIMEOUT \<and> st \<noteq> VAL_ERR_CRC \<or> dl \<le> clk (world s1)"
      | "st = VAL_ERR_TIMEOUT \<or> st = VAL_ERR_CRC" "\<not> dl \<le> clk (world s1)" by blast
    then show ?thesis
    proof cases
      case 1
      then show ?thesis using step e copy_control_mem [of buf cap rx s1]
        by (cases "copy_control (Some buf) cap rx s1") auto
    next
      case 2
      then show ?thesis using k e by auto
    next
      case 3
      let ?mu = "\<lambda>s. if dl \<le> clk (world s) then 2 ^ 32 else unat (dl - clk (world s))"
      have b: "?mu s \<le> 2 ^ 32" "?mu s1 \<le> 2 ^ 32" using unat_less_2p32 by (auto simp: less_imp_le)
      have "pend (world s1) < pend (world s) \<or> pend (world s1) \<le> pend (world s) \<and> ?mu s1 < ?mu s"
      proof (cases "pend (world s1) < pend (world s)")
        case False
        then have c: "clk (world s1) = clk (world s) + sl" using step 3 by auto
        show ?thesis
          using 3 slice_step [OF m(1), of dl "clk (world s)"] k unfolding c sl_def [unfolded Let_def]
          by (simp add: keeps_def)
      qed simp
      then have "pend (world s1) * 2 ^ 33 + ?mu s1 < pend (world s) * 2 ^ 33 + ?mu s"
        using b by (auto simp: less_eq_Suc_le)
      from less.hyps [OF this keeps_good [OF k less.prems]] k
      show ?thesis using e 3 keeps_trans [OF k] by (auto simp: keeps_def)
    qed
  qed
qed

text \<open>
  The contract of a pair of callbacks: with a context \<open>ctx_ok\<close> admits, the accept callback and the
  timeout callback keep the session's invariant, its configuration and its lock, and nothing they
  do makes the peer send more. Under this contract a wait returns.
\<close>

locale control_wait =
  fixes ctx_ok :: "'c \<Rightarrow> bool"
    and accept :: "'c \<Rightarrow> 'w val_ctrl_accept_fn"
    and on_timeout :: "'c \<Rightarrow> 'w val_ctrl_on_timeout_fn option"
  assumes accept_keeps: "ctx_ok ctx \<Longrightarrow> good clk pend s \<Longrightarrow> keeps pend s (snd (accept ctx s t p l off))"
    and timeout_keeps: "ctx_ok ctx \<Longrightarrow> good clk pend s \<Longrightarrow> on_timeout ctx = Some f \<Longrightarrow> keeps pend s (snd (f s))"
begin

lemma retry_keeps:
  assumes "ctx_ok ctx" "good clk pend s" "tries \<noteq> 0" "wait_retry (on_timeout ctx) backoff tries s = (rs, backoff', tries', s')"
  shows "keeps pend s s' \<and> (rs = VAL_OK \<longrightarrow> tries' = tries - 1)"
proof -
  let ?s1 = "VAL_HEALTH_RECORD_RETRY (val_metrics_inc_retrans (set_in_retransmit 1 s))"
  have k1: "keeps pend s ?s1"
    by (rule keeps_trans [OF keeps_set_in_retransmit [where b = 1] keeps_trans [OF _ keeps_notes(4)]])
      (simp add: val_metrics_inc_retrans_def)
  obtain rc s2 where o: "(case on_timeout ctx of None \<Rightarrow> (VAL_OK, ?s1) | Some f \<Rightarrow> f ?s1) = (rc, s2)"
    by (cases "case on_timeout ctx of None \<Rightarrow> (VAL_OK, ?s1) | Some f \<Rightarrow> f ?s1")
  have g1: "good clk pend ?s1" by (rule keeps_good [OF k1 assms(2)])
  have "keeps pend ?s1 s2"
  proof (cases "on_timeout ctx")
    case (Some f)
    then show ?thesis using timeout_keeps [OF assms(1) g1 Some] o by simp
  qed (use o in simp)
  then have k2: "keeps pend s s2" by (rule keeps_trans [OF k1])
  have q2: "quiet (cfg s2) clk pend" using keeps_good [OF k2 assms(2)] by (simp add: good_def)
  have k3: "keeps pend s2 (delay b s2)" for b
    by (rule keeps_core) (simp_all add: hook_pend(2) [OF q2])
  show ?thesis
    using assms(3,4) k2 keeps_trans [OF k2 k3] unfolding wait_retry_def Let_def o
    by (auto simp: val_internal_backoff_step_def Let_def split: if_splits)
qed

lemma wait_loop_returns:
  assumes c: "ctx_ok ctx" and g: "good clk pend s"
  shows "\<exists>st rx mem s'. wait_control_loop (accept ctx) (on_timeout ctx) to_ms cap tries backoff scratch s = Some (st, rx, mem, s') \<and>
     keeps pend s s'"
  using g
proof (induction "pend (world s) * 256 + unat tries" arbitrary: s tries backoff scratch rule: less_induct)
  case less
  have q: "quiet (cfg s) clk pend" using less.prems by (simp add: good_def)
  note tk = hook_pend(1) [OF q]
  have hk: "sys_get_ticks_ms (system (cfg s)) = Some (\<lambda>w. (clk w, w))" using q by (simp add: quiet_def recv_waits_def)
  note unf = wait_control_loop.simps [of "accept ctx" "on_timeout ctx" to_ms cap tries backoff scratch s]
  show ?case
  proof (cases "val_check_for_cancel s")
    case True
    then show ?thesis unfolding unf by simp
  next
    case False
    obtain st rx mem s1 where r: "val_internal_recv_until_deadline s (Some scratch) cap (clk (world s) + to_ms) 20 = Some (st, rx, mem, s1)"
      and k: "keeps pend s s1" and dec: "st = VAL_OK \<longrightarrow> pend (world s1) < pend (world s)"
      using recv_until_deadline_returns [OF less.prems, of 20 scratch cap "clk (world s) + to_ms"] by auto
    have g1: "good clk pend s1" by (rule keeps_good [OF k less.prems])
    obtain ar s2 where a: "accept ctx s1 (rx_type rx) (the mem) (rx_len rx) (rx_off rx) = (ar, s2)"
      by (cases "accept ctx s1 (rx_type rx) (the mem) (rx_len rx) (rx_off rx)")
    obtain rs bo' tries' s3 where w: "wait_retry (on_timeout ctx) backoff tries s1 = (rs, bo', tries', s3)"
      by (cases "wait_retry (on_timeout ctx) backoff tries s1")
    have k2: "keeps pend s1 s2" using accept_keeps [OF c g1, of "rx_type rx" "the mem" "rx_len rx" "rx_off rx"] a by simp
    have kg: "keeps pend s1 (wait_gave_up st s1)"
      by (simp add: wait_gave_up_def val_metrics_inc_timeout_hard_def Let_def keeps_trans [OF keeps_notes(1) keeps_notes(3)])
    note e = unf [unfolded if_not_P [OF False] hk, simplified, unfolded tk Let_def prod.case r bind.bind_lunit a w]
    show ?thesis
    proof (cases "st = VAL_OK \<and> rx_type rx \<noteq> VAL_PKT_CANCEL \<and> rx_type rx \<noteq> VAL_PKT_ERROR \<and> ar = 0")
      case True
      have "pend (world s2) * 256 + unat tries < pend (world s) * 256 + unat tries"
        using dec True k2 by (simp add: keeps_def)
      from less.hyps [OF this keeps_good [OF k2 g1], of backoff "the mem"]
      show ?thesis using True keeps_trans [OF keeps_trans [OF k k2]] unfolding e by (auto split: if_splits)
    next
      case nb: False
      show ?thesis
      proof (cases "(st = VAL_ERR_TIMEOUT \<or> st = VAL_ERR_CRC) \<and> tries \<noteq> 0 \<and> rs = VAL_OK")
        case True
        have rk: "keeps pend s1 s3" "tries' = tries - 1" using retry_keeps [OF c g1 _ w] True by auto
        then have "unat tries' < unat tries" using True unat_minus_one [of tries] by (simp add: unat_gt_0)
        then have "pend (world s3) * 256 + unat tries' < pend (world s) * 256 + unat tries"
          using k rk by (simp add: keeps_def add_le_less_mono)
        from less.hyps [OF this keeps_good [OF rk(1) g1], of bo' "the mem"]
        show ?thesis using True keeps_trans [OF keeps_trans [OF k rk(1)]] unfolding e by (auto split: if_splits)
      next
        case False
        have rk: "tries \<noteq> 0 \<Longrightarrow> keeps pend s1 s3" using retry_keeps [OF c g1 _ w] by auto
        show ?thesis
          using nb False k keeps_trans [OF k k2] keeps_trans [OF k rk] keeps_trans [OF k kg] unfolding e by auto
      qed
    qed
  qed
qed

lemma wait_returns:
  assumes "ctx_ok ctx" and "good clk pend s"
  shows "\<exists>st rx mem s'. val_internal_wait_control s to_ms tries backoff scratch cap (accept ctx) (on_timeout ctx) = Some (st, rx, mem, s') \<and>
     keeps pend s s'"
proof -
  have k: "keeps pend s (set_in_retransmit 0 s)" by simp
  show ?thesis
    using wait_loop_returns [OF assms(1) keeps_good [OF k assms(2)]] keeps_trans [OF k]
    by (simp add: val_internal_wait_control_def split: option.splits) blast
qed

end

section \<open>The callbacks meet the contract\<close>

lemma keeps_record_error [simp]: "keeps pend s (val_internal_record_transmission_error s)"
proof -
  let ?c = "current_window_packets s" and ?e = "val_internal_record_transmission_error s"
  have c: "x \<noteq> 0 \<Longrightarrow> 1 \<le> x" for x :: u16 by (simp add: word_le_nat_alt Suc_le_eq unat_gt_0)
  have h: "?c div 2 \<le> ?c" by (simp add: word_le_nat_alt half_u16)
  have f: "cfg ?e = cfg s" "lock_depth ?e = lock_depth s" "world ?e = world s" "timing ?e = timing s"
    "effective_packet_size ?e = effective_packet_size s" "send_buf ?e = send_buf s" "recv_buf ?e = recv_buf s"
    "negotiated_window_packets ?e = negotiated_window_packets s" "max_tracking_slots ?e = max_tracking_slots s"
    "length (tracking_slots s) = unat (max_tracking_slots s) \<Longrightarrow> length (tracking_slots ?e) = unat (max_tracking_slots s)"
    by (simp_all add: val_internal_record_transmission_error_def sess_defs Let_def)
  have d: "current_window_packets ?e \<in> {?c, 1, ?c div 2} \<and> current_window_packets ?e \<noteq> 0" if "?c \<noteq> 0"
    using that by (auto simp: val_internal_record_transmission_error_def sess_defs Let_def word_less_nat_alt)
  have "window_ok ?e" if w: "window_ok s"
  proof -
    have "?c \<noteq> 0" "?c \<le> negotiated_window_packets s" "1 \<le> ?c" using w by (auto simp: window_ok_def)
    then show ?thesis using d c [of "current_window_packets ?e"] h f(8)
      by (fastforce simp: window_ok_def intro: order_trans)
  qed
  then show ?thesis using f by (simp add: keeps_def session_ok_def)
qed

lemma send_control_keeps:
  assumes "good clk pend s" and "length p \<le> 500"
    and "t \<notin> {VAL_PKT_DATA, VAL_PKT_DATA_ACK, VAL_PKT_DONE_ACK, VAL_PKT_EOT_ACK, VAL_PKT_DATA_NAK}"
  shows "keeps pend s (snd (val_internal_send_packet s t (P_BYTES p) (of_nat (length p)) off))"
    and "keeps pend s (snd (val_internal_send_packet s t P_NULL 0 off))"
proof -
  have m: "512 \<le> unat (mtu s)" using session_ok_mtu assms(1) by (auto simp: good_def)
  have r: "needs_room t bs off True = length bs" for bs
    using assms(3) by (cases t) (auto simp: needs_room_def wire_content_def)
  show "keeps pend s (snd (val_internal_send_packet s t (P_BYTES p) (of_nat (length p)) off))"
    unfolding val_internal_send_packet_def
    by (rule send_packet_keeps [OF assms(1)]) (use assms(2) m r in \<open>simp_all add: payload_is_def\<close>)
  show "keeps pend s (snd (val_internal_send_packet s t P_NULL 0 off))"
    using send_packet_keeps [OF assms(1), of P_NULL "[]" t off True] m r
    by (simp add: payload_is_def val_internal_send_packet_def)
qed

definition ctx_fits :: "u8 list option \<Rightarrow> bool" where
  "ctx_fits p \<longleftrightarrow> (case p of None \<Rightarrow> True | Some b \<Rightarrow> length b \<le> 500)"

lemma resend_resume_resp_keeps: "ctx_fits p \<Longrightarrow> good clk pend s \<Longrightarrow> keeps pend s (resend_resume_resp p s)"
  using send_control_keeps(1) [of clk pend s _ VAL_PKT_RESUME_RESP]
  by (auto simp: resend_resume_resp_def ctx_fits_def split: option.splits)

interpretation done_ack: control_wait "\<lambda>_. True" "\<lambda>_. accept_done_ack_cb" "\<lambda>n. Some (retry_send_done_cb n)"
proof
  fix clk pend n and s :: "'a val_session" and f :: "'a val_ctrl_on_timeout_fn"
  assume g: "good clk pend s" and f: "Some (retry_send_done_cb n) = Some f"
  have k: "keeps pend s (val_internal_record_transmission_error s)" by simp
  show "keeps pend s (snd (f s))"
    using keeps_trans [OF k send_control_keeps(2) [OF keeps_good [OF k g], of "[]" VAL_PKT_DONE n]] f
    by (auto simp: retry_send_done_cb_def)
qed (simp add: accept_done_ack_cb_def)

interpretation eot_ack: control_wait "\<lambda>_. True" "\<lambda>_. accept_eot_ack_cb" "\<lambda>_. Some retry_send_eot_cb"
  by unfold_locales
    (auto simp: accept_eot_ack_cb_def retry_send_eot_cb_def intro: send_control_keeps(2) [where p = "[]"])

interpretation hello_wait: control_wait ctx_fits "\<lambda>_. accept_hello_cb" "\<lambda>p. Some (retry_send_hello_cb p)"
  by unfold_locales
    (auto simp: accept_hello_cb_def reject_malformed_def retry_send_hello_cb_def ctx_fits_def
      split: option.splits intro: send_control_keeps(1))

interpretation hello_listen: control_wait "\<lambda>_. True" "\<lambda>_. accept_hello_cb" "\<lambda>_. None"
  by unfold_locales (auto simp: accept_hello_cb_def reject_malformed_def)

interpretation verify_wait: control_wait "\<lambda>c. length (fst c) \<le> 500 \<and> ctx_fits (snd c)"
    "\<lambda>c. accept_verify_with_resume_cb (snd c)" "\<lambda>c. Some (retry_send_verify_combined_cb (fst c))"
  by unfold_locales
    (auto simp: accept_verify_with_resume_cb_def reject_malformed_def retry_send_verify_combined_cb_def
      intro: send_control_keeps(1) resend_resume_resp_keeps)

interpretation verify_result: control_wait "\<lambda>p. length p \<le> 500" "\<lambda>_. accept_verify_result_cb"
    "\<lambda>p. Some (retry_send_verify_cb p)"
  by unfold_locales
    (auto simp: accept_verify_result_cb_def reject_malformed_def retry_send_verify_cb_def intro: send_control_keeps(1))

interpretation resume_resp: control_wait "\<lambda>_. True" "\<lambda>_. accept_resume_resp_cb" "\<lambda>_. Some retry_send_resume_req_cb"
  by unfold_locales
    (auto simp: accept_resume_resp_cb_def retry_send_resume_req_cb_def intro: send_control_keeps(2) [where p = "[]"])

interpretation verify_rx: control_wait ctx_fits accept_verify_rx_with_resume_cb "\<lambda>_. None"
  by unfold_locales (auto simp: accept_verify_rx_with_resume_cb_def intro: resend_resume_resp_keeps)

section \<open>Waiting: properties\<close>

lemma keeps_rtt [simp]: "keeps pend s (val_internal_record_rtt s r)"
  by (simp add: keeps_def val_internal_record_rtt_def val_metrics_inc_rtt_sample_def upd_metrics_def Let_def
      session_ok_def window_ok_def)

lemma keeps_samples:
  assumes "good clk pend s"
  shows "keeps pend s (sample_rtt_nonzero t0 st s)" "keeps pend s (sample_rtt_later t0 st s)"
  using assms hook_pend(1) [of s clk pend]
  by (simp_all add: good_def sample_rtt_nonzero_def sample_rtt_later_def)

text \<open>The waits, one by one.\<close>

lemma wait_results:
  assumes g: "good clk pend s" and p: "vp \<noteq> []" "length vp \<le> 500" and rr: "ctx_fits rr" and cap: "cap \<noteq> 0"
  shows "\<exists>st s'. val_internal_wait_done_ack s fsize = Some (st, s') \<and> keeps pend s s'"
    "\<exists>st s'. val_internal_wait_eot_ack s = Some (st, s') \<and> keeps pend s s'"
    "\<exists>st out s'. val_internal_wait_verify_result s vp e o' = Some (st, out, s') \<and> keeps pend s s'"
    "\<exists>st rx m s'. val_internal_wait_resume_resp s to_ms tries backoff mem cap = Some (st, rx, m, s') \<and> keeps pend s s'"
    "\<exists>st rx m s'. val_internal_wait_verify_request_rx s to_ms tries backoff rr mem cap = Some (st, rx, m, s') \<and> keeps pend s s'"
proof -
  have tk: "ticks s = (clk (world s), s)" using g hook_pend(1) by (auto simp: good_def)
  have sm: "keeps pend s (sample_rtt_nonzero t0 st s')" if "keeps pend s s'" for t0 st s'
    using keeps_trans [OF that keeps_samples(1) [OF keeps_good [OF that g]]] .
  show "\<exists>st s'. val_internal_wait_done_ack s fsize = Some (st, s') \<and> keeps pend s s'"
    using done_ack.wait_returns [OF _ g, of "val_internal_get_timeout s VAL_OP_DONE_ACK" "ack_retries (retries (cfg s))"
        "backoff_ms_base (retries (cfg s))" "Some (replicate 32 0)" 32 fsize] sm
    by (auto simp: val_internal_wait_done_ack_def Let_def tk)
  show "\<exists>st s'. val_internal_wait_eot_ack s = Some (st, s') \<and> keeps pend s s'"
    using eot_ack.wait_returns [OF _ g, of "val_internal_get_timeout s VAL_OP_EOT_ACK" "ack_retries (retries (cfg s))"
        "backoff_ms_base (retries (cfg s))" "Some (replicate 32 0)" 32] sm
    by (auto simp: val_internal_wait_eot_ack_def Let_def tk)
  show "\<exists>st out s'. val_internal_wait_verify_result s vp e o' = Some (st, out, s') \<and> keeps pend s s'"
    using verify_result.wait_returns [OF p(2) g, of "val_internal_get_timeout s VAL_OP_VERIFY" "ack_retries (retries (cfg s))"
        "backoff_ms_base (retries (cfg s))" "Some (replicate 32 0)" 32] p(1)
    by (auto simp: val_internal_wait_verify_result_def Let_def split: prod.splits)
  show "\<exists>st rx m s'. val_internal_wait_resume_resp s to_ms tries backoff mem cap = Some (st, rx, m, s') \<and> keeps pend s s'"
    using resume_resp.wait_returns [OF _ g, of to_ms tries backoff "Some mem" cap] cap
    by (simp add: val_internal_wait_resume_resp_def)
  show "\<exists>st rx m s'. val_internal_wait_verify_request_rx s to_ms tries backoff rr mem cap = Some (st, rx, m, s') \<and> keeps pend s s'"
    using verify_rx.wait_returns [OF rr g, of to_ms tries backoff "Some mem" cap] cap
    by (simp add: val_internal_wait_verify_request_rx_def)
qed

section \<open>Cancelling: properties\<close>

lemma set_in_retransmit_simps [simp]:
  "last_error (set_in_retransmit b s) = last_error s" "cfg (set_in_retransmit b s) = cfg s" "world (set_in_retransmit b s) = world s"
  by (simp_all add: sess_defs)

text \<open>
  What one attempt to cancel does to the outside world, and whether the transport took the frame: if the link is up, the CANCEL frame is handed to it,
  and if all of it was taken the capture hook is told and the transport flushed; then the delay passes.
\<close>

definition cancel_try :: "'w val_session \<Rightarrow> 'w \<Rightarrow> u32 \<Rightarrow> bool \<times> 'w" where
  "cancel_try s w ms =
     (case link_state (cfg s) w of (up, w1) \<Rightarrow>
        if \<not> up then (False, world (delay ms (s\<lparr>world := w1\<rparr>)))
        else
          case the (tr_send (transport (cfg s))) w1 (frame_bytes s VAL_PKT_CANCEL [] 0 True) of (rc, w2) \<Rightarrow>
            (rc = 12,
             world (delay ms (s\<lparr>world := if rc = 12 then world (after_send (s\<lparr>world := w2\<rparr>) VAL_PKT_CANCEL 0 0 12) else w2\<rparr>))))"

lemma world_delay: "cfg s = cfg s' \<Longrightarrow> world s = world s' \<Longrightarrow> world (delay ms s) = world (delay ms s')"
  by (simp add: delay_def split: option.split)

lemma frame_bytes_cfg: "cfg s' = cfg s \<Longrightarrow> frame_bytes s' = frame_bytes s"
  by (simp add: frame_bytes_def fun_eq_iff val_internal_crc32_def [abs_def])

lemma cancel_try_cfg:
  assumes "cfg s = cfg s'"
  shows "cancel_try s w ms = cancel_try s' w ms"
proof -
  have "world (delay ms (s\<lparr>world := v\<rparr>)) = world (delay ms (s'\<lparr>world := v\<rparr>))"
    "world (after_send (s\<lparr>world := v\<rparr>) VAL_PKT_CANCEL 0 0 12) = world (after_send (s'\<lparr>world := v\<rparr>) VAL_PKT_CANCEL 0 0 12)" for v
    using assms by (auto intro: world_delay world_after_send)
  then show ?thesis using assms frame_bytes_cfg [OF assms] by (simp add: cancel_try_def split_beta)
qed

lemma cancel_attempt:
  assumes ok: "session_ok s" and att: "cancel_try s (world s) b = (taken, w')"
  shows "\<exists>s'. cancel_attempts (Suc n) last_st b s =
     cancel_attempts n (if taken then VAL_OK else last_st) (if b < 50 then push_bit 1 b else b) s' \<and> world s' = w' \<and> core s' = core s"
proof -
  obtain st s1 where r: "val__internal_send_packet_core s VAL_PKT_CANCEL P_NULL (of_nat (length ([] :: u8 list))) 0 True = (st, s1)"
    by (cases "val__internal_send_packet_core s VAL_PKT_CANCEL P_NULL (of_nat (length ([] :: u8 list))) 0 True")
  obtain up w1 where lk: "link_state (cfg s) (world s) = (up, w1)" by fastforce
  obtain send_fn where sd: "tr_send (transport (cfg s)) = Some send_fn"
    using ok by (cases "tr_send (transport (cfg s))") (auto simp: session_ok_def config_ok_def config_missing_def)
  let ?f = "frame_bytes s VAL_PKT_CANCEL [] 0 True"
  have wc: "wire_content VAL_PKT_CANCEL [] 0 True = (0, 0, [])" by (simp add: wire_content_def)
  have p: "payload_is (send_buf s) P_NULL []" by (simp add: payload_is_def)
  have m: "12 + length ([] :: u8 list) \<le> unat (mtu s)" using session_ok_mtu [OF ok] by simp
  obtain rc w2 where w2: "send_fn w1 ?f = (rc, w2)" by fastforce
  have "core s1 = core s \<and> st = (if taken then VAL_OK else VAL_ERR_IO) \<and> world (delay b s1) = w'"
  proof (cases up)
    case False
    with send_core_down [OF ok _ r] lk have d: "st = VAL_ERR_IO" "world s1 = w1" "core s1 = core s" by (simp_all add: stable_def)
    then have "world (delay b s1) = world (delay b (s\<lparr>world := w1\<rparr>))" by (intro world_delay) (simp_all add: core_fields(1) [OF d(3)])
    then show ?thesis using False d att lk by (simp add: cancel_try_def)
  next
    case True
    with send_core_result [OF ok _ sd p wc m _ r, of w1 rc w2] lk w2
    have d: "st = VAL_OK \<longleftrightarrow> rc = 12" "st \<noteq> VAL_OK \<Longrightarrow> st = VAL_ERR_IO \<and> world s1 = w2"
      "st = VAL_OK \<Longrightarrow> world s1 = world (after_send (s\<lparr>world := w2\<rparr>) VAL_PKT_CANCEL 0 0 12)" "core s1 = core s"
      by (simp_all add: frame_bytes_def wc stable_def)
    have "world (delay b s1) = world (delay b (s\<lparr>world := world s1\<rparr>))" by (intro world_delay) (simp_all add: core_fields(1) [OF d(4)])
    then show ?thesis using True d att lk sd w2 by (auto simp: cancel_try_def split: if_splits)
  qed
  then show ?thesis
    using r by (intro exI [of _ "delay b s1"]) (auto simp: val_internal_send_packet_def Let_def)
qed

text \<open>
  C20. Emergency cancel, over any transport and with any hooks. It makes exactly three attempts, each followed by the backoff delay (doubled while below
  fifty milliseconds). In an attempt the CANCEL frame is handed to the transport once, unless the transport has a hook that says it is not connected:
  then nothing is sent. It succeeds when the transport took at least one frame whole and gives the input/output error otherwise; at the
  end it flushes. In any case the session is left cancelled, with nothing else of it changed: every later wait returns at once with the abort status and touches
  no hook.
\<close>

theorem emergency_cancel_spec:
  assumes ok: "session_ok s"
    and b: "b1 = (if backoff_ms_base (retries (cfg s)) = 0 then 5 else backoff_ms_base (retries (cfg s)))"
      "b2 = (if b1 < 50 then 2 * b1 else b1)" "b3 = (if b2 < 50 then 2 * b2 else b2)"
    and w1: "cancel_try s (world s) b1 = (t1, w1)" and w2: "cancel_try s w1 b2 = (t2, w2)" and w3: "cancel_try s w2 b3 = (t3, w3)"
    and res: "val_emergency_cancel s = (st, s')"
  shows "st = (if t1 \<or> t2 \<or> t3 then VAL_OK else VAL_ERR_IO) \<and> world s' = world (val_internal_transport_flush (s\<lparr>world := w3\<rparr>)) \<and>
         stable s s' \<and> session_ok s' \<and> val_check_for_cancel s' \<and>
         (\<exists>rx mem. val_internal_wait_control s' to_ms tries backoff scratch cap accept on_timeout =
            Some (VAL_ERR_ABORTED, rx, mem, set_in_retransmit 0 s'))"
proof -
  let ?l = "val_internal_lock s"
  have l: "session_ok ?l" using ok by (simp add: session_ok_def window_ok_def sess_defs)
  note c = core_fields(1)
  have sk: "session_ok s2" "cancel_try s2 w ms = cancel_try s w ms" if "core s2 = core ?l" for s2 w ms
    using stable_session_ok [of ?l s2] that l cancel_try_cfg [of s2 s] c [OF that] by (simp_all add: stable_def)
  have pb: "push_bit 1 x = 2 * x" for x :: u32 by (simp add: push_bit_eq_mult)
  have sb: "(if b1 < 50 then push_bit 1 b1 else b1) = b2" "(if b2 < 50 then push_bit 1 b2 else b2) = b3"
    by (simp_all only: pb b)
  obtain s1 where s1: "cancel_attempts 3 VAL_ERR_IO b1 ?l = cancel_attempts 2 (if t1 then VAL_OK else VAL_ERR_IO) b2 s1"
      "world s1 = w1" "core s1 = core ?l"
    using cancel_attempt [OF l, of b1 t1 w1 2 VAL_ERR_IO] w1 sk(2) [OF refl] sb(1) by (auto simp: eval_nat_numeral)
  obtain s2 where s2: "cancel_attempts 2 (if t1 then VAL_OK else VAL_ERR_IO) b2 s1 =
      cancel_attempts 1 (if t2 then VAL_OK else (if t1 then VAL_OK else VAL_ERR_IO)) b3 s2" "world s2 = w2" "core s2 = core ?l"
    using cancel_attempt [OF sk(1) [OF s1(3)], of b2 t2 w2 1] w2 sk(2) [OF s1(3)] sb(2) s1 by (auto simp: eval_nat_numeral)
  obtain s3 where s3: "cancel_attempts 1 (if t2 then VAL_OK else (if t1 then VAL_OK else VAL_ERR_IO)) b3 s2 =
      (if t3 then VAL_OK else (if t2 then VAL_OK else (if t1 then VAL_OK else VAL_ERR_IO)), s3)" "world s3 = w3" "core s3 = core ?l"
    using cancel_attempt [OF sk(1) [OF s2(3)], of b3 t3 w3 0] w3 sk(2) [OF s2(3)] s2 by auto
  have bk: "(if backoff_ms_base (retries (cfg ?l)) \<noteq> 0 then backoff_ms_base (retries (cfg ?l)) else 5) = b1"
    using b(1) by simp
  let ?s4 = "val_internal_transport_flush s3"
  have r: "st = (if t3 then VAL_OK else (if t2 then VAL_OK else (if t1 then VAL_OK else VAL_ERR_IO)))"
    "s' = val_internal_unlock (val_internal_set_last_error ?s4 VAL_ERR_ABORTED 0)"
    using res unfolding val_emergency_cancel_def Let_def bk s1(1) s2(1) s3(1) prod.case by simp_all
  have st: "stable s s'" unfolding r(2) stable_def by (rule core_unlock) (simp add: s3(3))
  have cc: "val_check_for_cancel s'" by (simp add: r(2) val_check_for_cancel_def sess_defs)
  then have "val_check_for_cancel (set_in_retransmit 0 s')" by (simp add: val_check_for_cancel_def)
  then have "\<exists>rx mem. val_internal_wait_control s' to_ms tries backoff scratch cap accept on_timeout =
      Some (VAL_ERR_ABORTED, rx, mem, set_in_retransmit 0 s')"
    by (simp add: val_internal_wait_control_def wait_control_loop.simps split: option.split prod.split)
  moreover have "world s' = world (val_internal_transport_flush (s\<lparr>world := w3\<rparr>))"
    using s3(2) c [OF s3(3)] by (simp add: r(2) val_internal_transport_flush_def split: option.split)
  moreover have "session_ok s'" using stable_session_ok [OF st] ok by simp
  ultimately show ?thesis using st cc unfolding r(1) by auto
qed

text \<open>With the link up all three frames arrive; with the link down none, and the session is cancelled all the same.\<close>

theorem emergency_cancel_spec_witness:
  "(\<exists>s'. val_emergency_cancel (bed_linked [0]) = (VAL_OK, s') \<and> val_check_for_cancel s' \<and> bed_clock (world s') = 1070 \<and>
     bed_tx (world s') = frame_bytes (bed_linked [0]) VAL_PKT_CANCEL [] 0 True @
       frame_bytes (bed_linked [0]) VAL_PKT_CANCEL [] 0 True @ frame_bytes (bed_linked [0]) VAL_PKT_CANCEL [] 0 True) \<and>
   (\<exists>s'. val_emergency_cancel (bed_linked []) = (VAL_ERR_IO, s') \<and> val_check_for_cancel s' \<and> bed_clock (world s') = 1070 \<and> bed_tx (world s') = [])"
proof -
  let ?f = "\<lambda>rx. frame_bytes (bed_linked rx) VAL_PKT_CANCEL [] 0 True"
  have n: "length (frame_bytes s VAL_PKT_CANCEL [] 0 True) = 12" for s :: "bed val_session"
    by (simp add: frame_bytes_def wire_content_def frame_of_def header_bytes_def Let_def)
  have att: "cancel_try (bed_linked rx) \<lparr>bed_clock = t, bed_rx = rx, bed_tx = tx\<rparr> ms =
      (rx \<noteq> [], \<lparr>bed_clock = t + ms, bed_rx = rx, bed_tx = tx @ (if rx = [] then [] else ?f rx)\<rparr>)" for rx t tx ms
    by (simp add: cancel_try_def link_state_def delay_def bed_linked_def [of rx] bed_session_cfg bed_config_def bed_send_def n
        after_send_def hook_defs sess_defs Let_def)
  have b: "10 = (if backoff_ms_base (retries (cfg (bed_linked rx))) = 0 then 5 else backoff_ms_base (retries (cfg (bed_linked rx))))"
    "20 = (if (10 :: u32) < 50 then 2 * 10 else (10 :: u32))" "40 = (if (20 :: u32) < 50 then 2 * 20 else (20 :: u32))" for rx
    by (simp_all add: bed_linked_def bed_session_cfg bed_config_def)
  have w: "world (bed_linked rx) = \<lparr>bed_clock = 1000, bed_rx = rx, bed_tx = []\<rparr>"
    "world (val_internal_transport_flush ((bed_linked rx)\<lparr>world := v\<rparr>)) = v" for rx v
    by (simp_all add: bed_linked_def bed_world_def hook_defs bed_session_cfg bed_config_def)
  have spec: "st = (if rx \<noteq> [] then VAL_OK else VAL_ERR_IO)" "val_check_for_cancel s'"
      "world s' = \<lparr>bed_clock = 1070, bed_rx = rx, bed_tx = (if rx = [] then [] else ?f rx @ ?f rx @ ?f rx)\<rparr>"
    if "val_emergency_cancel (bed_linked rx) = (st, s')" for rx st s'
    using emergency_cancel_spec [OF bed_linked_ok b _ _ _ that, unfolded w(1), OF att att att] w(2) by auto
  obtain st s' st2 s2 where "val_emergency_cancel (bed_linked [0]) = (st, s')" "val_emergency_cancel (bed_linked []) = (st2, s2)"
    by fastforce
  with spec(1) [OF this(1)] spec(2) [OF this(1)] spec(3) [OF this(1)] spec(1) [OF this(2)] spec(2) [OF this(2)] spec(3) [OF this(2)]
  show ?thesis by simp
qed

section \<open>What a wait returns\<close>

text \<open>A packet as the peer sends it: type, payload, offset, and whether DATA carries its offset.\<close>

type_synonym pkt = "val_packet_type_t \<times> u8 list \<times> u64 \<times> bool"

definition pkt_type :: "pkt \<Rightarrow> val_packet_type_t" where "pkt_type x = fst x"

definition pkt_frame :: "'w val_session \<Rightarrow> pkt \<Rightarrow> u8 list" where
  "pkt_frame s x = (case x of (t, bs, off, ex) \<Rightarrow> frame_bytes s t bs off ex)"

text \<open>A packet the session can take while it waits with a buffer of \<open>cap\<close> bytes.\<close>

definition pkt_fits :: "'w val_session \<Rightarrow> nat \<Rightarrow> pkt \<Rightarrow> bool" where
  "pkt_fits s cap x = (case x of (t, bs, off, ex) \<Rightarrow>
     pkt_known t \<and> 12 + needs_room t bs off ex \<le> unat (mtu s) \<and> needs_room t bs off ex < 65536 \<and>
     (t = VAL_PKT_DATA \<or> needs_room t bs off ex \<le> cap))"

text \<open>A session whose transport delivers what is pending, and that nobody cancelled.\<close>

definition fed :: "('w \<Rightarrow> u8 list) \<Rightarrow> 'w val_session \<Rightarrow> bool" where
  "fed rxq s \<longleftrightarrow> session_ok s \<and> delivers (cfg s) rxq \<and> capture (cfg s) = None \<and> \<not> val_check_for_cancel s"

lemma fed_core:
  "fed rxq s \<Longrightarrow> core s' = core s \<Longrightarrow> last_error s' = last_error s \<Longrightarrow> fed rxq s'"
  using stable_session_ok [of s s'] core_fields(1) [of s' s]
  by (simp add: fed_def stable_def val_check_for_cancel_def)

lemma fed_ticks:
  assumes "fed rxq s" and "ticks s = (now, s')"
  shows "fed rxq s'" "rxq (world s') = rxq (world s)" "core s' = core s" "last_error s' = last_error s"
    "recv_buf s' = recv_buf s"
proof -
  have o: "only_world s s'" by (rule ticks_world [OF assms(2)])
  show c: "core s' = core s" and l: "last_error s' = last_error s" and "recv_buf s' = recv_buf s"
    using only_world_fields [OF o] by simp_all
  show "fed rxq s'" by (rule fed_core [OF assms(1) c l])
  show "rxq (world s') = rxq (world s)" using assms ticks_delivers by (auto simp: fed_def)
qed

lemma session_ticks_hook: "session_ok s \<Longrightarrow> sys_get_ticks_ms (system (cfg s)) \<noteq> None"
  by (simp add: session_ok_def config_ok_def config_missing_def)

lemma crc_cfg: "cfg s' = cfg s \<Longrightarrow> val_internal_crc32 s' = val_internal_crc32 s"
  by (simp add: fun_eq_iff val_internal_crc32_def)

lemma fed_hooks: "fed rxq s \<Longrightarrow> (\<exists>f. sys_get_ticks_ms (system (cfg s)) = Some f) \<and> \<not> val_check_for_cancel s"
  using session_ticks_hook [of s] by (simp add: fed_def)

text \<open>What the buffer of the caller holds after a packet.\<close>

definition after_copy :: "u8 list \<Rightarrow> pkt \<Rightarrow> u8 list" where
  "after_copy scratch x = (case x of (t, bs, off, ex) \<Rightarrow>
     if t = VAL_PKT_DATA then scratch else mem_write scratch 0 (snd (snd (wire_content t bs off ex))))"

definition pkt_info :: "pkt \<Rightarrow> rx_info" where
  "pkt_info x = (case x of (t, bs, off, ex) \<Rightarrow>
     \<lparr>rx_type = t, rx_len = of_nat (length (snd (snd (wire_content t bs off ex)))), rx_off = carried_offset t off ex\<rparr>)"

lemma rx_type_pkt_info [simp]: "rx_type (pkt_info x) = pkt_type x"
  by (simp add: pkt_info_def pkt_type_def split: prod.splits)

lemma recv_until_deadline_fed:
  assumes f: "fed rxq s" and q: "rxq (world s) = pkt_frame p x @ rest"
    and crc: "val_internal_crc32 s = val_internal_crc32 p" and x: "pkt_fits s (unat cap) x" and cap: "cap \<noteq> 0"
  shows "\<exists>s'. val_internal_recv_until_deadline s (Some scratch) cap dl m = Some (VAL_OK, pkt_info x, Some (after_copy scratch x), s') \<and>
     rxq (world s') = rest \<and> core s' = core s \<and> last_error s' = after_type (pkt_type x) (last_error s)"
proof -
  obtain t bs off ex where xe: "x = (t, bs, off, ex)" by (cases x)
  obtain fl td ct where wc: "wire_content t bs off ex = (fl, td, ct)" by (cases "wire_content t bs off ex")
  have ft: "pkt_known t" "12 + needs_room t bs off ex \<le> unat (mtu s)" "needs_room t bs off ex < 65536"
    "t = VAL_PKT_DATA \<or> length ct \<le> unat cap"
    using x wc by (auto simp: pkt_fits_def xe needs_room_def)
  obtain now s1 where t1: "ticks s = (now, s1)" by (cases "ticks s")
  note f1 = fed_ticks [OF f t1]
  have ok1: "session_ok s1" "delivers (cfg s1) rxq" "capture (cfg s1) = None" using f1(1) by (simp_all add: fed_def)
  have c1: "cfg s1 = cfg s" "mtu s1 = mtu s"
    using core_fields(1,3) [OF f1(3)] by (simp_all add: mtu_def)
  have crc1: "val_internal_crc32 s1 = val_internal_crc32 p"
    using crc crc_cfg [OF c1(1)] by simp
  have q1: "rxq (world s1) = frame_bytes p t bs off ex @ rest" using f1(2) q by (simp add: pkt_frame_def xe)
  let ?sl = "let rem = (if now < dl then dl - now else 0); sl = (if rem > m then m else rem) in if sl = 0 then 1 else sl"
  obtain s2 where s2: "val_internal_recv_packet s1 None ?sl = Some (VAL_OK, pkt_info x, s2)"
    "mem_read (recv_buf s2) 8 (length ct) = ct" "rxq (world s2) = rest" "core s2 = core s1"
    "last_error s2 = after_type t (last_error s1)"
    using recv_frame_none [OF ok1 crc1 ft(1) q1 _ ft(3) wc, of ?sl] ft(2) c1 by (auto simp: pkt_info_def xe wc)
  have v: "unat (of_nat (length ct) :: u32) = length ct"
    using ft(3) wc by (simp add: needs_room_def unat_of_nat_small)
  have z: "(0 :: u32) < of_nat (length ct) \<longleftrightarrow> ct \<noteq> []" unfolding word_less_nat_alt v by simp
  have le: "(of_nat (length ct) :: u32) \<le> cap \<longleftrightarrow> length ct \<le> unat cap" unfolding word_le_nat_alt v ..
  have w0: "mem_write scratch 0 [] = scratch" by (simp add: mem_write_def)
  have cc: "copy_control (Some scratch) cap (pkt_info x) s2 = (VAL_OK, Some (after_copy scratch x))"
    using ft(4) cap s2(2) v z le w0
    by (auto simp: copy_control_def pkt_info_def after_copy_def xe wc)
  have nt: "\<exists>f. sys_get_ticks_ms (system (cfg s)) = Some f" "\<not> val_check_for_cancel s"
    using fed_hooks [OF f] by simp_all
  have "val_internal_recv_until_deadline s (Some scratch) cap dl m = Some (VAL_OK, pkt_info x, Some (after_copy scratch x), s2)"
    using nt s2(1) cc by (subst val_internal_recv_until_deadline.simps) (auto simp: t1 Let_def)
  then show ?thesis using s2 f1 by (auto simp: pkt_type_def xe)
qed

text \<open>Packets the accept callback ignores are consumed, and the wait goes on with its retries untouched.\<close>

lemma wait_loop_skips:
  assumes "fed rxq s" and "rxq (world s) = concat (map (pkt_frame p) strays) @ rest"
    and "val_internal_crc32 s = val_internal_crc32 p" and "cap \<noteq> 0"
    and "\<forall>x \<in> set strays. pkt_fits s (unat cap) x \<and> pkt_type x \<noteq> VAL_PKT_CANCEL \<and> pkt_type x \<noteq> VAL_PKT_ERROR \<and>
           (\<forall>s m l o'. accept s (pkt_type x) m l o' = (0, s))"
  shows "\<exists>scratch' s'. wait_control_loop accept on_timeout to_ms cap tries backoff scratch s =
      wait_control_loop accept on_timeout to_ms cap tries backoff scratch' s' \<and>
      rxq (world s') = rest \<and> core s' = core s \<and> last_error s' = last_error s"
  using assms
proof (induction strays arbitrary: s scratch)
  case Nil
  then show ?case by (intro exI [of _ scratch] exI [of _ s]) simp
next
  case (Cons x strays)
  obtain now s1 where t1: "ticks s = (now, s1)" by (cases "ticks s")
  note f1 = fed_ticks [OF Cons.prems(1) t1]
  have c1: "cfg s1 = cfg s" "mtu s1 = mtu s" using core_fields(1,3) [OF f1(3)] by (simp_all add: mtu_def)
  have crc1: "val_internal_crc32 s1 = val_internal_crc32 p"
    using Cons.prems(3) crc_cfg [OF c1(1)] by simp
  have x1: "pkt_fits s1 (unat cap) x" using Cons.prems(5) c1(2) by (simp add: pkt_fits_def split: prod.splits)
  have q1: "rxq (world s1) = pkt_frame p x @ concat (map (pkt_frame p) strays) @ rest"
    using f1(2) Cons.prems(2) by simp
  obtain s2 where s2: "val_internal_recv_until_deadline s1 (Some scratch) cap (now + to_ms) 20 =
      Some (VAL_OK, pkt_info x, Some (after_copy scratch x), s2)"
    "rxq (world s2) = concat (map (pkt_frame p) strays) @ rest" "core s2 = core s1" "last_error s2 = last_error s1"
    using recv_until_deadline_fed [OF f1(1) q1 crc1 x1 Cons.prems(4), of scratch "now + to_ms" 20] Cons.prems(5)
    by (auto simp: after_type_def)
  have nt: "\<exists>f. sys_get_ticks_ms (system (cfg s)) = Some f" "\<not> val_check_for_cancel s"
    using fed_hooks [OF Cons.prems(1)] by simp_all
  have e: "wait_control_loop accept on_timeout to_ms cap tries backoff scratch s =
      wait_control_loop accept on_timeout to_ms cap tries backoff (after_copy scratch x) s2"
    using nt Cons.prems(5) by (subst wait_control_loop.simps) (auto simp: t1 s2(1) Let_def)
  have c2: "core s2 = core s" "last_error s2 = last_error s" using s2 f1 by simp_all
  have c3: "cfg s2 = cfg s" "mtu s2 = mtu s" using core_fields(1,3) [OF c2(1)] by (simp_all add: mtu_def)
  have crc2: "val_internal_crc32 s2 = val_internal_crc32 p"
    using Cons.prems(3) crc_cfg [OF c3(1)] by simp
  have st: "\<forall>x \<in> set strays. pkt_fits s2 (unat cap) x \<and> pkt_type x \<noteq> VAL_PKT_CANCEL \<and> pkt_type x \<noteq> VAL_PKT_ERROR \<and>
           (\<forall>s m l o'. accept s (pkt_type x) m l o' = (0, s))"
    using Cons.prems(5) c3(2) by (auto simp: pkt_fits_def)
  show ?case
    using Cons.IH [OF fed_core [OF Cons.prems(1) c2] s2(2) crc2 Cons.prems(4) st, of "after_copy scratch x"] c2
    unfolding e by auto
qed

text \<open>
  The verdict of a wait on the first packet that matters: CANCEL aborts, ERROR is a protocol
  error, an accepted packet succeeds.
\<close>

definition verdict :: "val_packet_type_t \<Rightarrow> val_status_t" where
  "verdict t = (if t = VAL_PKT_CANCEL then VAL_ERR_ABORTED else if t = VAL_PKT_ERROR then VAL_ERR_PROTOCOL else VAL_OK)"

lemma wait_control_outcome:
  assumes f: "fed rxq s" and q: "rxq (world s) = concat (map (pkt_frame p) strays) @ pkt_frame p x @ rest"
    and crc: "val_internal_crc32 s = val_internal_crc32 p" and cap: "cap \<noteq> 0"
    and strays: "\<forall>x \<in> set strays. pkt_fits s (unat cap) x \<and> pkt_type x \<noteq> VAL_PKT_CANCEL \<and> pkt_type x \<noteq> VAL_PKT_ERROR \<and>
           (\<forall>s m l o'. accept s (pkt_type x) m l o' = (0, s))"
    and x: "pkt_fits s (unat cap) x"
    and acc: "pkt_type x = VAL_PKT_CANCEL \<or> pkt_type x = VAL_PKT_ERROR \<or>
        (\<forall>s m. accept s (pkt_type x) m (rx_len (pkt_info x)) (rx_off (pkt_info x)) = (1, s))"
  shows "\<exists>scratch' s'. val_internal_wait_control s to_ms tries backoff (Some scratch) cap accept on_timeout =
      Some (verdict (pkt_type x), if verdict (pkt_type x) = VAL_OK then pkt_info x else rx_none, after_copy scratch' x, s') \<and>
      rxq (world s') = rest \<and> core s' = core (set_in_retransmit 0 s) \<and>
      last_error s' = after_type (pkt_type x) (last_error s)"
proof -
  let ?s0 = "set_in_retransmit 0 s"
  have f0: "fed rxq ?s0"
    using f by (simp add: fed_def session_ok_def window_ok_def val_check_for_cancel_def sess_defs)
  have c0: "val_internal_crc32 ?s0 = val_internal_crc32 p" using crc crc_cfg [of ?s0 s] by simp
  have mt: "mtu s' = mtu s" if "core s' = core ?s0" for s'
    using core_fields(1,3) [OF that] by (simp add: mtu_def sess_defs)
  have "\<forall>x \<in> set strays. pkt_fits ?s0 (unat cap) x \<and> pkt_type x \<noteq> VAL_PKT_CANCEL \<and> pkt_type x \<noteq> VAL_PKT_ERROR \<and>
           (\<forall>s m l o'. accept s (pkt_type x) m l o' = (0, s))"
    using strays mt [OF refl] by (auto simp: pkt_fits_def)
  then obtain sc s1 where s1: "wait_control_loop accept on_timeout to_ms cap tries backoff scratch ?s0 =
      wait_control_loop accept on_timeout to_ms cap tries backoff sc s1"
    "rxq (world s1) = pkt_frame p x @ rest" "core s1 = core ?s0" "last_error s1 = last_error s"
    using wait_loop_skips [OF f0 _ c0 cap, of strays "pkt_frame p x @ rest" accept on_timeout to_ms tries backoff scratch] q
    by auto
  have f1: "fed rxq s1" using fed_core [OF f0 s1(3)] s1(4) by simp
  obtain now s2 where t2: "ticks s1 = (now, s2)" by (cases "ticks s1")
  note f2 = fed_ticks [OF f1 t2]
  have k2: "core s2 = core ?s0" using f2 s1 by simp
  have x2: "pkt_fits s2 (unat cap) x" using x mt [OF k2] by (simp add: pkt_fits_def split: prod.splits)
  have crc2: "val_internal_crc32 s2 = val_internal_crc32 p"
    using crc crc_cfg [OF core_fields(1) [OF k2]] crc_cfg [of ?s0 s] by simp
  have q2: "rxq (world s2) = pkt_frame p x @ rest" using f2(2) s1(2) by simp
  obtain s3 where s3: "val_internal_recv_until_deadline s2 (Some sc) cap (now + to_ms) 20 =
      Some (VAL_OK, pkt_info x, Some (after_copy sc x), s3)"
    "rxq (world s3) = rest" "core s3 = core s2" "last_error s3 = after_type (pkt_type x) (last_error s2)"
    using recv_until_deadline_fed [OF f2(1) q2 crc2 x2 cap] by blast
  have nt: "\<exists>f. sys_get_ticks_ms (system (cfg s1)) = Some f" "\<not> val_check_for_cancel s1"
    using fed_hooks [OF f1] by simp_all
  have "wait_control_loop accept on_timeout to_ms cap tries backoff sc s1 =
      Some (verdict (pkt_type x), if verdict (pkt_type x) = VAL_OK then pkt_info x else rx_none, after_copy sc x, s3)"
    using nt acc by (subst wait_control_loop.simps) (auto simp: t2 s3(1) Let_def verdict_def)
  then show ?thesis
    using s1(1) s3 f2 s1(3,4) by (auto simp: val_internal_wait_control_def)
qed


definition bed_with :: "u8 list \<Rightarrow> bed val_session" where
  "bed_with bytes = bed_session\<lparr>world := bed_world\<lparr>bed_rx := bytes\<rparr>\<rparr>"

lemma bed_with_simps [simp]:
  "cfg (bed_with b) = cfg bed_session" "bed_rx (world (bed_with b)) = b" "mtu (bed_with b) = 512"
  "frame_bytes (bed_with b) = frame_bytes bed_session" "val_internal_crc32 (bed_with b) = val_internal_crc32 bed_session"
proof -
  show c: "cfg (bed_with b) = cfg bed_session" and "bed_rx (world (bed_with b)) = b" by (simp_all add: bed_with_def)
  show "frame_bytes (bed_with b) = frame_bytes bed_session" by (rule frame_bytes_cfg [OF c])
  show "val_internal_crc32 (bed_with b) = val_internal_crc32 bed_session" by (rule crc_cfg [OF c])
  have "mtu (bed_with b) = mtu bed_session" by (simp add: bed_with_def mtu_def)
  then show "mtu (bed_with b) = 512" by (simp only: bed_session_simps)
qed

lemma bed_fed: "fed bed_rx (bed_with b)"
proof -
  have "session_ok (bed_with b)" using bed_session_ok by (simp add: bed_with_def session_ok_def window_ok_def)
  moreover have "delivers (cfg bed_session) bed_rx"
    by (auto simp: delivers_def bed_session_cfg bed_config_def bed_recv_def)
  moreover have "\<not> val_check_for_cancel (bed_with b)"
    by (simp add: bed_with_def val_check_for_cancel_def bed_session_def sess_defs session_init_def
        val_internal_init_timing_def Let_def split: prod.splits)
  ultimately show ?thesis by (simp add: fed_def) (simp add: bed_session_cfg bed_config_def)
qed


end
