(* ===== verification/Val_Handshake.thy ===== *)
theory Val_Handshake
  imports Val_Control
begin

text \<open>
  The session handshake of \<^verbatim>\<open>src/val_core.c\<close>: the HELLO payload, adopting the peer's HELLO (packet
  size, features, windows), the paced loop of the sender, the listening loop of the receiver and
  the ERROR packet. The theorems show what is adopted and refused, and that the two sides of a
  handshake agree.
\<close>

section \<open>The HELLO payload\<close>

definition val__negotiable_mask :: u32 where
  "val__negotiable_mask = VAL_BUILTIN_FEATURES"

definition val__fill_local_hello :: "'w val_session \<Rightarrow> size_t \<Rightarrow> val_handshake_t" where
  "val__fill_local_hello s psize =
     (let negotiable = val__negotiable_mask;
          requested_sanitized = feat_requested (features (cfg s)) AND negotiable;
          w = (if window_cap_packets (tx_flow (cfg s)) \<noteq> 0
               then (ucast (window_cap_packets (tx_flow (cfg s))) :: u32) else 1);
          w = (if w > 0xFFFF then 0xFFFF else w)
      in \<lparr>hs_magic = VAL_MAGIC, hs_version_major = VAL_VERSION_MAJOR, hs_version_minor = VAL_VERSION_MINOR,
          hs_reserved = 0, hs_packet_size = ucast psize, hs_features = negotiable,
          hs_required = feat_required (features (cfg s)) AND negotiable,
          hs_requested = requested_sanitized,
          hs_tx_max_window_packets = ucast w, hs_rx_max_window_packets = ucast w,
          hs_ack_stride_packets = 1, hs_reserved_capabilities = (0, 0, 0), hs_supported_features16 = 0,
          hs_required_features16 = 0, hs_requested_features16 = 0, hs_reserved2 = 0\<rparr>)"

definition val_internal_send_error :: "'w val_session \<Rightarrow> val_status_t \<Rightarrow> u32 \<Rightarrow> val_status_t \<times> 'w val_session" where
  "val_internal_send_error s code detail =
     (let payload = \<lparr>ep_code = status_to_u32 code, ep_detail = detail\<rparr>;
          wire = val_serialize_error_payload payload (replicate VAL_WIRE_ERROR_PAYLOAD_SIZE 0)
      in val_internal_send_packet s VAL_PKT_ERROR (P_BYTES wire) (of_nat VAL_WIRE_ERROR_PAYLOAD_SIZE) 0)"

text \<open>The reaction to a missing required feature.\<close>

definition feature_failure :: "u32 \<Rightarrow> 'w val_session \<Rightarrow> val_status_t \<times> 'w val_session" where
  "feature_failure missing s =
     (let s = VAL_SET_FEATURE_ERROR s missing;
          (_, s) = val_internal_send_error s VAL_ERR_FEATURE_NEGOTIATION (VAL_SET_MISSING_FEATURE missing)
      in (VAL_ERR_FEATURE_NEGOTIATION, s))"

section \<open>Adopting the peer's HELLO\<close>

text \<open>The window part: caps of both sides, the initial window, the acknowledgement stride.\<close>

definition adopt_window :: "val_handshake_t \<Rightarrow> 'w val_session \<Rightarrow> 'w val_session" where
  "adopt_window peer_h s =
     (let local_desired = (if window_cap_packets (tx_flow (cfg s)) \<noteq> 0 then window_cap_packets (tx_flow (cfg s)) else 4);
          peer_rx_cap = (if hs_rx_max_window_packets peer_h \<noteq> 0 then hs_rx_max_window_packets peer_h else 1);
          peer_tx_cap = (if hs_tx_max_window_packets peer_h \<noteq> 0 then hs_tx_max_window_packets peer_h else 1);
          s = s\<lparr>peer_tx_window_packets := peer_tx_cap\<rparr>;
          negotiated_window = (if local_desired < peer_rx_cap then local_desired else peer_rx_cap);
          negotiated_window = (if negotiated_window = 0 then 1 else negotiated_window);
          s = s\<lparr>negotiated_window_packets := negotiated_window\<rparr>;
          cw0 = initial_cwnd_packets (tx_flow (cfg s));
          s = (if cw0 \<noteq> 0 then
                 let cw0 = (if cw0 < 1 then 1 else cw0);
                     cw0 = (if cw0 > negotiated_window then negotiated_window else cw0)
                 in s\<lparr>current_window_packets := cw0\<rparr>
               else s\<lparr>current_window_packets := (if negotiated_window \<ge> 4 then 4 else negotiated_window)\<rparr>)
      in s\<lparr>ack_stride_packets := 1\<rparr>)"

definition val__adopt_peer_hello :: "'w val_session \<Rightarrow> val_handshake_t \<Rightarrow> val_status_t \<times> 'w val_session" where
  "val__adopt_peer_hello s peer_h =
     (if hs_magic peer_h \<noteq> VAL_MAGIC then
        (VAL_ERR_PROTOCOL, VAL_SET_PROTOCOL_ERROR s VAL_ERROR_DETAIL_MALFORMED_PKT)
      else if hs_version_major peer_h \<noteq> VAL_VERSION_MAJOR then
        (VAL_ERR_INCOMPATIBLE_VERSION, val_internal_set_error_detailed s VAL_ERR_INCOMPATIBLE_VERSION VAL_ERROR_DETAIL_VERSION)
      else
        let negotiated = (if ucast (hs_packet_size peer_h) < packet_size (buffers (cfg s))
                          then ucast (hs_packet_size peer_h) else packet_size (buffers (cfg s)))
        in if negotiated < VAL_MIN_PACKET_SIZE \<or> negotiated > VAL_MAX_PACKET_SIZE then
             (VAL_ERR_PACKET_SIZE_MISMATCH,
              val_internal_set_error_detailed s VAL_ERR_PACKET_SIZE_MISMATCH VAL_ERROR_DETAIL_PACKET_SIZE)
           else
             let s = s\<lparr>effective_packet_size := negotiated\<rparr>;
                 s = s\<lparr>peer_features := hs_features peer_h\<rparr>;
                 local_required = feat_required (features (cfg s)) AND val__negotiable_mask;
                 missing_on_peer = local_required AND NOT (hs_features peer_h)
             in if missing_on_peer \<noteq> 0 then feature_failure missing_on_peer s
                else (VAL_OK, adopt_window peer_h s))"

text \<open>\<^verbatim>\<open>val_internal_validate_local_features\<close>: the status and the sanitized request mask.\<close>

definition val_internal_validate_local_features :: "'w val_config \<Rightarrow> val_status_t \<times> u32 option" where
  "val_internal_validate_local_features c =
     (let negotiable = val__negotiable_mask;
          required_sanitized = feat_required (features c) AND negotiable;
          missing_required = required_sanitized AND NOT negotiable
      in if missing_required \<noteq> 0 then (VAL_ERR_FEATURE_NEGOTIATION, None)
         else (VAL_OK, Some (feat_requested (features c) AND negotiable)))"

definition note_handshake :: "'w val_session \<Rightarrow> 'w val_session" where
  "note_handshake s = val_metrics_note_handshake (s\<lparr>handshake_done := True\<rparr>)"

section \<open>The handshake loops\<close>

definition hs_global_deadline :: "u32 \<Rightarrow> u32 \<Rightarrow> u32" where
  "hs_global_deadline now0 budget = (if now0 \<noteq> 0 then now0 + budget else 0)"

definition hs_budget :: "'w val_session \<Rightarrow> u32" where
  "hs_budget s = (if to_handshake_budget_ms (timeouts (cfg s)) \<noteq> 0 then to_handshake_budget_ms (timeouts (cfg s)) else 7000)"

text \<open>The deadline of one listening round, saturated instead of wrapped.\<close>

definition hs_deadline :: "u32 \<Rightarrow> u32 \<Rightarrow> u32" where
  "hs_deadline now base_to =
     (if now \<noteq> 0 \<and> base_to \<noteq> 0 then
        let deadline = now + base_to in if deadline < now then 0xFFFFFFFF else deadline
      else base_to)"

definition hs_expired :: "'w val_session \<Rightarrow> val_status_t \<times> 'w val_session" where
  "hs_expired s = (VAL_ERR_TIMEOUT, val_metrics_inc_timeout_hard (VAL_SET_TIMEOUT_ERROR s VAL_ERROR_DETAIL_TIMEOUT_HELLO))"

text \<open>The sender's pacing step after a round without HELLO: status, last send time, backoff, retries.\<close>

definition hs_pace ::
    "u32 \<Rightarrow> u32 \<Rightarrow> u8 list \<Rightarrow> u32 \<Rightarrow> u32 \<Rightarrow> u8 \<Rightarrow> 'w val_session \<Rightarrow>
     val_status_t \<times> u32 \<times> u32 \<times> u8 \<times> 'w val_session" where
  "hs_pace now min_resend_ms hello_wire last_send backoff tries s =
     (if tries > 0 then
        (if now = 0 \<or> now - last_send \<ge> min_resend_ms then
           let s = set_in_retransmit 1 s;
               s = val_metrics_inc_retrans s;
               s = VAL_HEALTH_RECORD_RETRY s;
               (rs, s) = val_internal_send_packet s VAL_PKT_HELLO (P_BYTES hello_wire) (of_nat VAL_WIRE_HANDSHAKE_SIZE) 0
           in if rs \<noteq> VAL_OK then (rs, last_send, backoff, tries, s)
              else let (backoff, tries, s) = val_internal_backoff_step s backoff tries
                   in (VAL_OK, now, backoff, tries, s)
         else (VAL_OK, last_send, backoff, tries, delay (min_resend_ms - (now - last_send)) s))
      else (VAL_OK, last_send, backoff, tries, delay 10 s))"

text \<open>The peer's HELLO has arrived at the sender.\<close>

definition hs_sender_adopt :: "u8 list \<Rightarrow> 'w val_session \<Rightarrow> val_status_t \<times> 'w val_session" where
  "hs_sender_adopt peer_wire s =
     (let peer_h = val_deserialize_handshake peer_wire;
          (adopt, s) = val__adopt_peer_hello s peer_h
      in if adopt \<noteq> VAL_OK then (adopt, s) else (VAL_OK, note_handshake s))"

partial_function (option) hs_sender_loop ::
    "u32 \<Rightarrow> u32 \<Rightarrow> u32 \<Rightarrow> u8 list \<Rightarrow> u32 \<Rightarrow> u32 \<Rightarrow> u8 \<Rightarrow> 'w val_session \<Rightarrow> (val_status_t \<times> 'w val_session) option" where
  "hs_sender_loop base_to global_deadline min_resend_ms hello_wire last_send backoff tries s =
     (if val_check_for_cancel s then Some (VAL_ERR_ABORTED, s)
      else
        let (now, s) = ticks s; deadline = hs_deadline now base_to in
        do {
          (wr, rx, mem, s) \<leftarrow> val_internal_recv_until_deadline s (Some (replicate VAL_WIRE_HANDSHAKE_SIZE 0))
                               (of_nat VAL_WIRE_HANDSHAKE_SIZE) deadline 20;
          let buf = the mem;
          if wr = VAL_OK then
            (if rx_type rx = VAL_PKT_CANCEL then Some (VAL_ERR_ABORTED, s)
             else if rx_type rx = VAL_PKT_ERROR then Some (VAL_ERR_PROTOCOL, s)
             else
               let (ar, s) = accept_hello_cb s (rx_type rx) buf (rx_len rx) (rx_off rx) in
               if ar > 0 then Some (hs_sender_adopt buf s)
               else hs_sender_loop base_to global_deadline min_resend_ms hello_wire last_send backoff tries s)
          else if wr \<noteq> VAL_ERR_TIMEOUT \<and> wr \<noteq> VAL_ERR_CRC then Some (wr, s)
          else if global_deadline \<noteq> 0 \<and> now \<ge> global_deadline then Some (hs_expired s)
          else
            let (rs, last_send, backoff, tries, s) = hs_pace now min_resend_ms hello_wire last_send backoff tries s in
            if rs \<noteq> VAL_OK then Some (rs, s)
            else hs_sender_loop base_to global_deadline min_resend_ms hello_wire last_send backoff tries s
        })"

definition hs_min_resend :: "'w val_session \<Rightarrow> u32" where
  "hs_min_resend s =
     (let min_to = (if to_min_timeout_ms (timeouts (cfg s)) \<noteq> 0 then to_min_timeout_ms (timeouts (cfg s)) else 200);
          r = min_to div 2;
          r = (if r < 200 then 200 else r)
      in if r > 500 then 500 else r)"

definition local_hello_wire :: "'w val_session \<Rightarrow> size_t \<Rightarrow> u8 list" where
  "local_hello_wire s psize = val_serialize_handshake (val__fill_local_hello s psize) (replicate VAL_WIRE_HANDSHAKE_SIZE 0)"

definition val_internal_do_handshake_sender :: "'w val_session \<Rightarrow> (val_status_t \<times> 'w val_session) option" where
  "val_internal_do_handshake_sender s =
     (if handshake_done s then Some (VAL_OK, s)
      else
        case val_internal_validate_local_features (cfg s) of (vr, _) \<Rightarrow>
        if vr \<noteq> VAL_OK then
          let missing_required = feat_required (features (cfg s)) AND NOT VAL_BUILTIN_FEATURES
          in Some (vr, if missing_required \<noteq> 0 then VAL_SET_FEATURE_ERROR s missing_required else s)
        else
          let hello_wire = local_hello_wire s (packet_size (buffers (cfg s)));
              (now0, s) = ticks s;
              global_deadline = hs_global_deadline now0 (hs_budget s);
              base_to = val_internal_get_timeout s VAL_OP_HANDSHAKE;
              backoff = backoff_ms_base (retries (cfg s));
              tries = handshake_retries (retries (cfg s));
              min_resend_ms = hs_min_resend s;
              (st, s) = val_internal_send_packet s VAL_PKT_HELLO (P_BYTES hello_wire) (of_nat VAL_WIRE_HANDSHAKE_SIZE) 0
          in if st \<noteq> VAL_OK then Some (st, s)
             else
               let (last_send, s) = ticks s
               in hs_sender_loop base_to global_deadline min_resend_ms hello_wire last_send backoff tries s)"

text \<open>The receiver listens; on success the result carries the peer's HELLO.\<close>

partial_function (option) hs_receiver_loop ::
    "u32 \<Rightarrow> u32 \<Rightarrow> u8 list \<Rightarrow> 'w val_session \<Rightarrow> (val_status_t \<times> u8 list \<times> 'w val_session) option" where
  "hs_receiver_loop base_to global_deadline peer_wire s =
     (if val_check_for_cancel s then Some (VAL_ERR_ABORTED, peer_wire, s)
      else
        let (now, s) = ticks s; deadline = hs_deadline now base_to in
        do {
          (wr, rx, mem, s) \<leftarrow> val_internal_recv_until_deadline s (Some peer_wire) (of_nat VAL_WIRE_HANDSHAKE_SIZE) deadline 20;
          let peer_wire = the mem;
          if wr = VAL_OK then
            (if rx_type rx = VAL_PKT_CANCEL then Some (VAL_ERR_ABORTED, peer_wire, s)
             else if rx_type rx = VAL_PKT_ERROR then Some (VAL_ERR_PROTOCOL, peer_wire, s)
             else
               let (ar, s) = accept_hello_rx_cb s (rx_type rx) peer_wire (rx_len rx) (rx_off rx) in
               if ar > 0 then Some (VAL_OK, peer_wire, s)
               else hs_receiver_loop base_to global_deadline peer_wire s)
          else if wr \<noteq> VAL_ERR_TIMEOUT \<and> wr \<noteq> VAL_ERR_CRC then Some (wr, peer_wire, s)
          else if global_deadline \<noteq> 0 \<and> now \<ge> global_deadline
          then (case hs_expired s of (st, s) \<Rightarrow> Some (st, peer_wire, s))
          else hs_receiver_loop base_to global_deadline peer_wire (delay 10 s)
        })"

text \<open>The receiver's answer to a HELLO.\<close>

definition hs_receiver_answer :: "u8 list \<Rightarrow> 'w val_session \<Rightarrow> val_status_t \<times> 'w val_session" where
  "hs_receiver_answer peer_wire s =
     (let peer_h = val_deserialize_handshake peer_wire in
      if hs_magic peer_h \<noteq> VAL_MAGIC then
        (VAL_ERR_PROTOCOL, VAL_SET_PROTOCOL_ERROR s VAL_ERROR_DETAIL_MALFORMED_PKT)
      else if hs_version_major peer_h \<noteq> VAL_VERSION_MAJOR then
        (VAL_ERR_INCOMPATIBLE_VERSION, val_internal_set_error_detailed s VAL_ERR_INCOMPATIBLE_VERSION VAL_ERROR_DETAIL_VERSION)
      else
        let (adopt, s) = val__adopt_peer_hello s peer_h in
        if adopt \<noteq> VAL_OK then (adopt, s)
        else
          let hello = val__fill_local_hello s (effective_packet_size s);
              s = s\<lparr>peer_features := hs_features peer_h\<rparr>;
              missing_local = (hs_required peer_h AND val__negotiable_mask) AND NOT (hs_features hello)
          in if missing_local \<noteq> 0 then feature_failure missing_local s
             else
               let hello_wire = val_serialize_handshake hello (replicate VAL_WIRE_HANDSHAKE_SIZE 0);
                   (st, s) = val_internal_send_packet s VAL_PKT_HELLO (P_BYTES hello_wire) (of_nat VAL_WIRE_HANDSHAKE_SIZE) 0
               in if st = VAL_OK then (st, note_handshake s) else (st, s))"

definition val_internal_do_handshake_receiver :: "'w val_session \<Rightarrow> (val_status_t \<times> 'w val_session) option" where
  "val_internal_do_handshake_receiver s =
     (if handshake_done s then Some (VAL_OK, s)
      else
        let (now0, s) = ticks s;
            global_deadline = hs_global_deadline now0 (hs_budget s);
            base_to = val_internal_get_timeout s VAL_OP_HANDSHAKE
        in do {
          (st, peer_wire, s) \<leftarrow> hs_receiver_loop base_to global_deadline (replicate VAL_WIRE_HANDSHAKE_SIZE 0) s;
          if st \<noteq> VAL_OK then Some (st, s) else Some (hs_receiver_answer peer_wire s)
        })"

text \<open>
  \<^verbatim>\<open>val_internal_wait_hello\<close>, which no caller uses any more. The retry context of the sender points
  to a local of an inner block; the model reads the bytes that were there.
\<close>

definition val_internal_wait_hello ::
    "'w val_session \<Rightarrow> u32 \<Rightarrow> u8 \<Rightarrow> u32 \<Rightarrow> bool \<Rightarrow> (val_status_t \<times> 'w val_session) option" where
  "val_internal_wait_hello s base_timeout_ms tries backoff sender =
     (let on_timeout =
            (if sender then Some (retry_send_hello_cb (Some (local_hello_wire s (packet_size (buffers (cfg s)))))) else None)
      in do {
        (st, rx, mem, s) \<leftarrow> val_internal_wait_control s base_timeout_ms tries backoff
                             (Some (replicate VAL_WIRE_HANDSHAKE_SIZE 0)) (of_nat VAL_WIRE_HANDSHAKE_SIZE)
                             accept_hello_cb on_timeout;
        Some (st, s)
      })"

section \<open>Adopting a HELLO: properties\<close>

lemma u16_nonzero: "x \<noteq> 0 \<longleftrightarrow> 1 \<le> (x :: u16)"
  by (simp add: word_le_nat_alt Suc_le_eq unat_gt_0)

definition own_window :: "'w val_session \<Rightarrow> u16" where
  "own_window s = (if window_cap_packets (tx_flow (cfg s)) \<noteq> 0 then window_cap_packets (tx_flow (cfg s)) else 4)"

lemma adopt_window_fields:
  "cfg (adopt_window h s) = cfg s" "effective_packet_size (adopt_window h s) = effective_packet_size s"
  "timing (adopt_window h s) = timing s" "send_buf (adopt_window h s) = send_buf s" "recv_buf (adopt_window h s) = recv_buf s"
  "tracking_slots (adopt_window h s) = tracking_slots s" "max_tracking_slots (adopt_window h s) = max_tracking_slots s"
  "world (adopt_window h s) = world s" "lock_depth (adopt_window h s) = lock_depth s" "last_error (adopt_window h s) = last_error s"
  "peer_features (adopt_window h s) = peer_features s" "build (adopt_window h s) = build s"
  "handshake_done (adopt_window h s) = handshake_done s" "metrics (adopt_window h s) = metrics s"
  by (simp_all add: adopt_window_def Let_def)

lemma adopt_window_range:
  "window_ok (adopt_window h s) \<and>
   negotiated_window_packets (adopt_window h s) = min (own_window s) (max 1 (hs_rx_max_window_packets h)) \<and>
   peer_tx_window_packets (adopt_window h s) = max 1 (hs_tx_max_window_packets h)"
proof -
  let ?n = "min (own_window s) (max 1 (hs_rx_max_window_packets h))"
  have m: "(if x \<noteq> 0 then x else 1) = max 1 x" for x :: u16 by (auto simp: u16_nonzero max_def)
  have o: "own_window s \<noteq> 0" by (simp add: own_window_def)
  have mx: "max 1 x \<noteq> 0" for x :: u16 using u16_nonzero [of "max 1 x"] by simp
  have n0: "?n \<noteq> 0" using o mx [of "hs_rx_max_window_packets h"] by (auto simp: min_def)
  have mn: "(if a < b then a else b) = min a b" for a b :: u16 by (auto simp: min_def)
  have nl: "(if x \<noteq> 0 then P (if x < 1 then 1 else x) else Q) = (if x \<noteq> 0 then P x else Q)" for x :: u16 and P :: "u16 \<Rightarrow> 'b" and Q
    using u16_nonzero [of x] by auto
  have n: "negotiated_window_packets (adopt_window h s) = ?n"
    using n0 unfolding adopt_window_def Let_def own_window_def [symmetric] m mn by simp
  have p: "peer_tx_window_packets (adopt_window h s) = max 1 (hs_tx_max_window_packets h)"
    unfolding adopt_window_def Let_def m by simp
  have "current_window_packets (adopt_window h s) =
      (let cw = initial_cwnd_packets (tx_flow (cfg s)) in
       if cw \<noteq> 0 then min cw ?n else if 4 \<le> ?n then 4 else ?n)"
    using n0 unfolding adopt_window_def Let_def own_window_def [symmetric] m mn nl by (simp add: min.commute)
  moreover have "1 \<le> ?n" using n0 u16_nonzero by blast
  moreover have "c \<noteq> 0 \<Longrightarrow> 1 \<le> min c ?n" for c using \<open>1 \<le> ?n\<close> u16_nonzero [of c] by simp
  ultimately have "window_ok (adopt_window h s)"
    unfolding window_ok_def n by (auto simp: Let_def simp del: min.bounded_iff)
  with n p show ?thesis by blast
qed

text \<open>The packet size both sides would agree on.\<close>

definition agreed_size :: "'w val_session \<Rightarrow> val_handshake_t \<Rightarrow> size_t" where
  "agreed_size s h = min (ucast (hs_packet_size h)) (packet_size (buffers (cfg s)))"

definition hello_refusal :: "'w val_session \<Rightarrow> val_handshake_t \<Rightarrow> val_status_t" where
  "hello_refusal s h =
     (if hs_magic h \<noteq> VAL_MAGIC then VAL_ERR_PROTOCOL
      else if hs_version_major h \<noteq> VAL_VERSION_MAJOR then VAL_ERR_INCOMPATIBLE_VERSION
      else if agreed_size s h < VAL_MIN_PACKET_SIZE then VAL_ERR_PACKET_SIZE_MISMATCH
      else VAL_OK)"

lemma builtin_none [simp]: "val__negotiable_mask = 0"
  by (simp add: val__negotiable_mask_def VAL_BUILTIN_FEATURES_def)

lemma adopt_cases:
  assumes "session_ok s"
  shows "val__adopt_peer_hello s h =
     (if hello_refusal s h = VAL_OK
      then (VAL_OK, adopt_window h (s\<lparr>effective_packet_size := agreed_size s h, peer_features := hs_features h\<rparr>))
      else (hello_refusal s h,
            val_internal_set_error_detailed s (hello_refusal s h)
              (if hello_refusal s h = VAL_ERR_PROTOCOL then VAL_ERROR_DETAIL_MALFORMED_PKT
               else if hello_refusal s h = VAL_ERR_INCOMPATIBLE_VERSION then VAL_ERROR_DETAIL_VERSION
               else VAL_ERROR_DETAIL_PACKET_SIZE)))"
proof -
  have m: "(if a < b then a else b) = min a b" for a b :: size_t by (auto simp: min_def)
  have "\<not> VAL_MAX_PACKET_SIZE < agreed_size s h"
    using assms by (auto simp: session_ok_def config_ok_def agreed_size_def not_less min_le_iff_disj)
  then show ?thesis
    unfolding val__adopt_peer_hello_def Let_def m agreed_size_def [symmetric] by (simp add: hello_refusal_def)
qed

text \<open>
  C19. Adopting a peer's HELLO succeeds exactly when the magic and the major version match and the
  smaller of the two packet sizes is at least the protocol minimum; every refusal has the status
  and the detail of its cause and changes nothing else. After success the session has the smaller
  packet size, a window cap of at least one packet that exceeds neither its own cap nor what the
  peer can receive, a congestion window within the cap, and its invariant.
\<close>

theorem adopt_peer_hello_spec:
  assumes "session_ok s" and "val__adopt_peer_hello s h = (st, s')"
  shows "st = hello_refusal s h \<and>
    (st = VAL_OK \<longrightarrow> session_ok s' \<and> effective_packet_size s' = min (ucast (hs_packet_size h)) (packet_size (buffers (cfg s))) \<and>
       window_ok s' \<and> negotiated_window_packets s' \<le> own_window s \<and>
       negotiated_window_packets s' \<le> max 1 (hs_rx_max_window_packets h) \<and> cfg s' = cfg s \<and> world s' = world s) \<and>
    (st \<noteq> VAL_OK \<longrightarrow> stable s s' \<and> world s' = world s \<and> err_code (last_error s') = st)"
proof (cases "hello_refusal s h = VAL_OK")
  case True
  let ?s1 = "s\<lparr>effective_packet_size := agreed_size s h, peer_features := hs_features h\<rparr>"
  have r: "st = VAL_OK" "s' = adopt_window h ?s1" using assms True by (simp_all add: adopt_cases)
  have "VAL_MIN_PACKET_SIZE \<le> agreed_size s h" "agreed_size s h \<le> packet_size (buffers (cfg s))"
    using True by (simp_all add: hello_refusal_def not_less split: if_splits) (simp add: agreed_size_def)
  moreover note w = adopt_window_range [of h ?s1]
  ultimately have "session_ok s'"
    using assms(1) unfolding session_ok_def by (simp add: r adopt_window_fields)
  then show ?thesis using w True by (simp add: r adopt_window_fields agreed_size_def own_window_def)
next
  case False
  then show ?thesis using assms by (auto simp: adopt_cases stable_def sess_defs)
qed

theorem adopt_peer_hello_spec_witness:
  "\<exists>s'. val__adopt_peer_hello bed_session ((val__fill_local_hello bed_session 512)\<lparr>hs_packet_size := 4096, hs_rx_max_window_packets := 3\<rparr>)
      = (VAL_OK, s') \<and> effective_packet_size s' = 512 \<and> negotiated_window_packets s' \<le> 3 \<and> session_ok s'"
proof -
  let ?h = "(val__fill_local_hello bed_session 512)\<lparr>hs_packet_size := 4096, hs_rx_max_window_packets := 3\<rparr>"
  obtain st s' where r: "val__adopt_peer_hello bed_session ?h = (st, s')" by (cases "val__adopt_peer_hello bed_session ?h")
  have "hello_refusal bed_session ?h = VAL_OK"
    by (simp add: hello_refusal_def agreed_size_def val__fill_local_hello_def Let_def bed_session_cfg bed_config_def)
  then show ?thesis using adopt_peer_hello_spec [OF bed_session_ok r] r
    by (simp add: bed_session_cfg bed_config_def)
qed

section \<open>A whole handshake\<close>

text \<open>A plain transport: no connection test, no flush, no capture, and it takes every frame whole.\<close>

definition plain :: "'w val_config \<Rightarrow> bool" where
  "plain c \<longleftrightarrow> tr_is_connected (transport c) = None \<and> tr_flush (transport c) = None \<and> capture c = None \<and>
     (\<forall>f w d. tr_send (transport c) = Some f \<longrightarrow> fst (f w d) = int (length d))"

definition hello_pkt :: "'w val_session \<Rightarrow> size_t \<Rightarrow> pkt" where
  "hello_pkt s n = (VAL_PKT_HELLO, handshake_bytes (val__fill_local_hello s n), 0, True)"

lemma local_hello_wire_eq: "local_hello_wire s n = handshake_bytes (val__fill_local_hello s n)"
  unfolding local_hello_wire_def by (rule handshake.enc_exact) simp_all

lemma length_handshake_bytes [simp]: "length (handshake_bytes h) = 44"
  by (rule handshake.bytes_length) simp

lemma hello_wire_content: "wire_content VAL_PKT_HELLO bs off ex = (0, 0, bs)"
  by (simp add: wire_content_def)

lemma pkt_fits_hello: "session_ok s \<Longrightarrow> pkt_fits s 44 (hello_pkt s' n)"
  using session_ok_mtu [of s] by (simp add: pkt_fits_def hello_pkt_def needs_room_def hello_wire_content)

lemma after_copy_hello: "length m = 44 \<Longrightarrow> after_copy m (hello_pkt s n) = handshake_bytes (val__fill_local_hello s n)"
  by (simp add: after_copy_def hello_pkt_def hello_wire_content mem_write_def)

lemma dec_handshake [simp]: "val_deserialize_handshake (handshake_bytes h) = h"
  using handshake.dec_bytes [of h "[]"] by simp

lemma accept_hello_pkt:
  "accept_hello_cb s VAL_PKT_HELLO m (rx_len (pkt_info (hello_pkt s' n))) (rx_off (pkt_info (hello_pkt s' n))) = (1, s)"
  "accept_hello_rx_cb s VAL_PKT_HELLO m (rx_len (pkt_info (hello_pkt s' n))) (rx_off (pkt_info (hello_pkt s' n))) = (1, s)"
  by (simp_all add: accept_hello_cb_def accept_hello_rx_cb_def pkt_info_def hello_pkt_def hello_wire_content)

text \<open>Sending a small control packet over a plain transport.\<close>

lemma send_plain:
  assumes ok: "session_ok s" and pl: "plain (cfg s)" and f: "tr_send (transport (cfg s)) = Some send_fn"
    and p: "payload_is (send_buf s) payload bs" and room: "12 + needs_room t bs off ex \<le> unat (mtu s)"
    and small: "needs_room t bs off ex < 65536"
  shows "\<exists>s'. val__internal_send_packet_core s t payload (of_nat (length bs)) off ex = (VAL_OK, s') \<and>
     world s' = snd (send_fn (world s) (frame_bytes s t bs off ex)) \<and> core s' = core s \<and> last_error s' = last_error s"
proof -
  obtain fl td ct where wc: "wire_content t bs off ex = (fl, td, ct)" by (cases "wire_content t bs off ex")
  let ?f = "frame_of (val_internal_crc32 s) (pkt_byte t) fl td ct" and ?l = "val_internal_lock s"
  have l: "12 + length ct \<le> unat (mtu s)" "length ct < 65536" using room small wc by (simp_all add: needs_room_def)
  have fb: "frame_bytes s t bs off ex = ?f" "length ?f = 12 + length ct"
    by (simp_all add: frame_bytes_def wc frame_of_def Let_def header_bytes_def)
  obtain w' where sf: "send_fn (world s) ?f = (int (12 + length ct), w')"
    using pl f fb(2) unfolding plain_def by (metis prod.collapse)
  have conn: "val_internal_transport_is_connected ?l = (True, ?l)" using pl by (simp add: plain_def hook_defs)
  obtain buf where b: "length buf = length (send_buf s)" and
    e: "val__internal_send_packet_core s t payload (of_nat (length bs)) off ex =
       (let (rc, s2) = send_bytes (?l\<lparr>send_buf := buf\<rparr>) ?f; s2 = val_internal_unlock s2
        in if rc \<noteq> int (12 + length ct) then (VAL_ERR_IO, VAL_SET_NETWORK_ERROR s2 VAL_ERROR_DETAIL_SEND_FAILED)
           else (VAL_OK, after_send s2 t (length bs) off (12 + length ct)))"
    by (rule send_core_cases [OF ok conn p wc l(1), unfolded trunc16_id [OF l(2)]])
  let ?s2 = "val_internal_unlock (?l\<lparr>send_buf := buf, world := w'\<rparr>)"
  have "send_bytes (?l\<lparr>send_buf := buf\<rparr>) ?f = (int (12 + length ct), ?l\<lparr>send_buf := buf, world := w'\<rparr>)"
    using f sf by (simp add: send_bytes_def)
  then have r: "val__internal_send_packet_core s t payload (of_nat (length bs)) off ex =
      (VAL_OK, after_send ?s2 t (length bs) off (12 + length ct))"
    unfolding e by (simp add: Let_def del: of_nat_add)
  have c: "core ?s2 = core s" by (rule core_unlock) (simp add: b sess_defs)
  have "world (after_send ?s2 t (length bs) off (12 + length ct)) = w'"
    "last_error (after_send ?s2 t (length bs) off (12 + length ct)) = last_error s"
    using pl by (simp_all add: after_send_def hook_defs sess_defs plain_def Let_def)
  with r c sf show ?thesis by (simp add: fb)
qed

text \<open>The receiving side, given the HELLO of the peer.\<close>

lemma feature_masks: "hs_required h AND val__negotiable_mask AND NOT x = 0" "hs_features (val__fill_local_hello s n) = 0"
  by (simp_all add: val__fill_local_hello_def Let_def)

lemma fill_local_hello_cfg: "cfg s' = cfg s \<Longrightarrow> val__fill_local_hello s' n = val__fill_local_hello s n"
  by (simp add: val__fill_local_hello_def Let_def)

definition both_size :: "'v val_session \<Rightarrow> 'w val_session \<Rightarrow> size_t" where
  "both_size a b = min (packet_size (buffers (cfg a))) (packet_size (buffers (cfg b)))"

lemma session_ok_psize: "session_ok s \<Longrightarrow> 512 \<le> packet_size (buffers (cfg s)) \<and> packet_size (buffers (cfg s)) \<le> 2097152"
  by (simp add: session_ok_def config_ok_def)

lemma ucast_psize: "n \<le> 2097152 \<Longrightarrow> ucast (ucast (n :: size_t) :: u32) = n"
  by (simp add: word_eq_iff_unsigned [where ?'a = nat] word_le_nat_alt)
    (simp add: unsigned_ucast_eq take_bit_nat_eq_self)

lemma hello_agrees:
  assumes "session_ok a" "session_ok b" "n \<le> packet_size (buffers (cfg a))"
  shows "agreed_size b (val__fill_local_hello a n) = min n (packet_size (buffers (cfg b)))"
    "512 \<le> n \<Longrightarrow> hello_refusal b (val__fill_local_hello a n) = VAL_OK"
proof -
  have "n \<le> 2097152" using session_ok_psize [OF assms(1)] assms(3) by (blast intro: order_trans)
  then have "ucast (hs_packet_size (val__fill_local_hello a n)) = n"
    using ucast_psize by (simp add: val__fill_local_hello_def Let_def)
  then show e: "agreed_size b (val__fill_local_hello a n) = min n (packet_size (buffers (cfg b)))"
    by (simp add: agreed_size_def)
  show "hello_refusal b (val__fill_local_hello a n) = VAL_OK" if "512 \<le> n"
    using that session_ok_psize [OF assms(2)] unfolding hello_refusal_def e
    by (simp add: val__fill_local_hello_def Let_def not_less)
qed

lemma receiver_loop_hello:
  assumes f: "fed rxq s" and q: "rxq (world s) = pkt_frame p (hello_pkt p n) @ rest"
    and crc: "val_internal_crc32 s = val_internal_crc32 p"
  shows "\<exists>s'. hs_receiver_loop base_to gd (replicate VAL_WIRE_HANDSHAKE_SIZE 0) s =
      Some (VAL_OK, handshake_bytes (val__fill_local_hello p n), s') \<and> core s' = core s \<and> rxq (world s') = rest"
proof -
  obtain now s1 where t: "ticks s = (now, s1)" by (cases "ticks s")
  note f1 = fed_ticks [OF f t]
  have ok1: "session_ok s1" using f1(1) by (simp add: fed_def)
  have crc1: "val_internal_crc32 s1 = val_internal_crc32 p" using crc crc_cfg [OF core_fields(1) [OF f1(3)]] by simp
  have q1: "rxq (world s1) = pkt_frame p (hello_pkt p n) @ rest" using f1(2) q by simp
  have x: "pkt_fits s1 (unat (44 :: u32)) (hello_pkt p n)" using pkt_fits_hello [OF ok1] by simp
  obtain s2 where s2: "val_internal_recv_until_deadline s1 (Some (replicate 44 0)) 44 (hs_deadline now base_to) 20 =
      Some (VAL_OK, pkt_info (hello_pkt p n), Some (after_copy (replicate 44 0) (hello_pkt p n)), s2)"
    "rxq (world s2) = rest" "core s2 = core s1"
    using recv_until_deadline_fed [OF f1(1) q1 crc1 x, of "replicate 44 0" "hs_deadline now base_to" 20] by auto
  have ty: "pkt_type (hello_pkt p n) = VAL_PKT_HELLO" by (simp add: hello_pkt_def pkt_type_def)
  show ?thesis
    using fed_hooks [OF f] s2 f1(3)
    by (subst hs_receiver_loop.simps) (simp add: t Let_def after_copy_hello ty accept_hello_pkt)
qed

lemma handshake_receiver_hello:
  assumes f: "fed rxq b" and nd: "\<not> handshake_done b" and pl: "plain (cfg b)"
    and sd: "tr_send (transport (cfg b)) = Some send_b"
    and a: "session_ok a" and crc: "val_internal_crc32 b = val_internal_crc32 a"
    and q: "rxq (world b) = pkt_frame a (hello_pkt a (packet_size (buffers (cfg a)))) @ rest"
  shows "\<exists>b' w. val_internal_do_handshake_receiver b = Some (VAL_OK, b') \<and> handshake_done b' \<and> session_ok b' \<and>
      effective_packet_size b' = both_size a b \<and>
      negotiated_window_packets b' \<le> max 1 (hs_rx_max_window_packets (val__fill_local_hello a 0)) \<and>
      world b' = snd (send_b w (pkt_frame b (hello_pkt b (both_size a b)))) \<and> rxq w = rest"
proof -
  let ?n = "packet_size (buffers (cfg a))" and ?h = "val__fill_local_hello a (packet_size (buffers (cfg a)))"
  obtain now s0 where t: "ticks b = (now, s0)" by (cases "ticks b")
  note f0 = fed_ticks [OF f t]
  have q0: "rxq (world s0) = pkt_frame a (hello_pkt a ?n) @ rest" using f0(2) q by simp
  have crc0: "val_internal_crc32 s0 = val_internal_crc32 a" using crc crc_cfg [OF core_fields(1) [OF f0(3)]] by simp
  obtain s1 where s1: "hs_receiver_loop (val_internal_get_timeout s0 VAL_OP_HANDSHAKE) (hs_global_deadline now (hs_budget s0))
        (replicate 44 0) s0 = Some (VAL_OK, handshake_bytes ?h, s1)" "core s1 = core s0" "rxq (world s1) = rest"
    using receiver_loop_hello [OF f0(1) q0 crc0] by blast
  have cf: "core s1 = core b" using s1(2) f0(3) by simp
  have ok1: "session_ok s1" using stable_session_ok [of b s1] cf f by (simp add: stable_def fed_def)
  have c1: "cfg s1 = cfg b" by (rule core_fields [OF cf])
  note ag = hello_agrees [OF a ok1 order_refl]
  have ref: "hello_refusal s1 ?h = VAL_OK" using ag(2) session_ok_psize [OF a] by simp
  have sz: "agreed_size s1 ?h = both_size a b" using ag(1) c1 by (simp add: both_size_def)
  let ?s2 = "adopt_window ?h (s1\<lparr>effective_packet_size := both_size a b, peer_features := hs_features ?h\<rparr>)"
  have ad: "val__adopt_peer_hello s1 ?h = (VAL_OK, ?s2)" using adopt_cases [OF ok1] ref sz by simp
  have ok2: "session_ok ?s2"
    using ok1 adopt_window_range [of ?h "s1\<lparr>effective_packet_size := both_size a b, peer_features := hs_features ?h\<rparr>"]
      session_ok_psize [OF a] session_ok_psize [OF ok1] c1
    unfolding session_ok_def by (simp add: adopt_window_fields both_size_def)
  let ?s3 = "?s2\<lparr>peer_features := hs_features ?h\<rparr>"
  have ok3: "session_ok ?s3" using ok2 by (simp add: session_ok_def window_ok_def)
  have c3: "cfg ?s3 = cfg b" using c1 by (simp add: adopt_window_fields)
  have eff: "effective_packet_size ?s2 = both_size a b" by (simp add: adopt_window_fields)
  let ?w = "handshake_bytes (val__fill_local_hello b (both_size a b))"
  have hw: "val__fill_local_hello ?s2 (effective_packet_size ?s2) = val__fill_local_hello b (both_size a b)"
    unfolding eff by (rule fill_local_hello_cfg) (simp add: c1 adopt_window_fields)
  have pl3: "plain (cfg ?s3)" "tr_send (transport (cfg ?s3)) = Some send_b" using pl sd c3 by simp_all
  have pp: "payload_is (send_buf ?s3) (P_BYTES ?w) ?w" by (simp add: payload_is_def)
  have rm: "12 + needs_room VAL_PKT_HELLO ?w 0 True \<le> unat (mtu ?s3)" "needs_room VAL_PKT_HELLO ?w 0 True < 65536"
    using session_ok_mtu [OF ok3] by (simp_all add: needs_room_def hello_wire_content)
  obtain s4 where s4: "val_internal_send_packet ?s3 VAL_PKT_HELLO (P_BYTES ?w) 44 0 = (VAL_OK, s4)"
    "world s4 = snd (send_b (world ?s3) (frame_bytes ?s3 VAL_PKT_HELLO ?w 0 True))" "core s4 = core ?s3"
    using send_plain [OF ok3 pl3 pp rm] by (auto simp: val_internal_send_packet_def)
  have ans: "hs_receiver_answer (handshake_bytes ?h) s1 = (VAL_OK, note_handshake s4)"
    using ref s4(1) unfolding hs_receiver_answer_def Let_def dec_handshake ad prod.case hw
    by (simp add: feature_masks handshake.enc_exact hello_refusal_def split: if_splits)
  have res: "val_internal_do_handshake_receiver b = Some (VAL_OK, note_handshake s4)"
    using nd s1(1) ans by (simp add: val_internal_do_handshake_receiver_def t Let_def)
  have ok4: "session_ok s4" using stable_session_ok [of ?s3 s4] s4(3) ok3 by (simp add: stable_def)
  have "frame_bytes ?s3 = frame_bytes b" by (rule frame_bytes_cfg [OF c3])
  moreover have "world ?s3 = world s1" by (simp add: adopt_window_fields)
  moreover have "hs_rx_max_window_packets ?h = hs_rx_max_window_packets (val__fill_local_hello a 0)"
    by (simp add: val__fill_local_hello_def Let_def)
  moreover have "session_ok (note_handshake s4)"
    using ok4 by (simp add: note_handshake_def session_ok_def window_ok_def sess_defs)
  moreover have "negotiated_window_packets s4 = negotiated_window_packets ?s2" "effective_packet_size s4 = both_size a b"
    using core_fields(7,3) [OF s4(3)] by (simp_all add: adopt_window_fields)
  ultimately show ?thesis
    using res s4(2) s1(3) adopt_window_range [of ?h "s1\<lparr>effective_packet_size := both_size a b, peer_features := hs_features ?h\<rparr>"]
    by (intro exI [of _ "note_handshake s4"] exI [of _ "world s1"])
      (simp add: note_handshake_def sess_defs pkt_frame_def hello_pkt_def)
qed

text \<open>The initiating side: the answer of the peer is pending once the HELLO is out.\<close>

lemma sender_loop_hello:
  assumes f: "fed rxq s" and q: "rxq (world s) = pkt_frame p (hello_pkt p n) @ rest"
    and crc: "val_internal_crc32 s = val_internal_crc32 p"
  shows "\<exists>s'. hs_sender_loop base_to gd mr hw ls bo tries s = Some (hs_sender_adopt (handshake_bytes (val__fill_local_hello p n)) s') \<and>
      core s' = core s \<and> rxq (world s') = rest"
proof -
  obtain now s1 where t: "ticks s = (now, s1)" by (cases "ticks s")
  note f1 = fed_ticks [OF f t]
  have ok1: "session_ok s1" using f1(1) by (simp add: fed_def)
  have crc1: "val_internal_crc32 s1 = val_internal_crc32 p" using crc crc_cfg [OF core_fields(1) [OF f1(3)]] by simp
  have q1: "rxq (world s1) = pkt_frame p (hello_pkt p n) @ rest" using f1(2) q by simp
  have x: "pkt_fits s1 (unat (44 :: u32)) (hello_pkt p n)" using pkt_fits_hello [OF ok1] by simp
  obtain s2 where s2: "val_internal_recv_until_deadline s1 (Some (replicate 44 0)) 44 (hs_deadline now base_to) 20 =
      Some (VAL_OK, pkt_info (hello_pkt p n), Some (after_copy (replicate 44 0) (hello_pkt p n)), s2)"
    "rxq (world s2) = rest" "core s2 = core s1"
    using recv_until_deadline_fed [OF f1(1) q1 crc1 x, of "replicate 44 0" "hs_deadline now base_to" 20] by auto
  have ty: "pkt_type (hello_pkt p n) = VAL_PKT_HELLO" by (simp add: hello_pkt_def pkt_type_def)
  show ?thesis
    using fed_hooks [OF f] s2 f1(3)
    by (subst hs_sender_loop.simps) (auto simp: t Let_def after_copy_hello ty accept_hello_pkt)
qed

lemma handshake_sender_hello:
  assumes f: "fed rxq a" and nd: "\<not> handshake_done a" and pl: "plain (cfg a)"
    and sd: "tr_send (transport (cfg a)) = Some send_a"
    and b: "session_ok b" and crc: "val_internal_crc32 a = val_internal_crc32 b"
    and q: "\<And>w. rxq (snd (send_a w (pkt_frame a (hello_pkt a (packet_size (buffers (cfg a))))))) =
           pkt_frame b (hello_pkt b (both_size a b)) @ rest"
  shows "\<exists>a'. val_internal_do_handshake_sender a = Some (VAL_OK, a') \<and> handshake_done a' \<and> session_ok a' \<and>
      effective_packet_size a' = both_size a b \<and>
      negotiated_window_packets a' \<le> max 1 (hs_rx_max_window_packets (val__fill_local_hello b 0)) \<and>
      rxq (world a') = rest"
proof -
  let ?n = "packet_size (buffers (cfg a))" and ?h = "val__fill_local_hello b (both_size a b)"
  let ?w = "handshake_bytes (val__fill_local_hello a ?n)"
  have oka: "session_ok a" using f by (simp add: fed_def)
  obtain now s0 where t: "ticks a = (now, s0)" by (cases "ticks a")
  note f0 = fed_ticks [OF f t]
  have c0: "cfg s0 = cfg a" by (rule core_fields [OF f0(3)])
  have ok0: "session_ok s0" using f0(1) by (simp add: fed_def)
  have pl0: "plain (cfg s0)" "tr_send (transport (cfg s0)) = Some send_a" using pl sd c0 by simp_all
  have pp: "payload_is (send_buf s0) (P_BYTES ?w) ?w" by (simp add: payload_is_def)
  have rm: "12 + needs_room VAL_PKT_HELLO ?w 0 True \<le> unat (mtu s0)" "needs_room VAL_PKT_HELLO ?w 0 True < 65536"
    using session_ok_mtu [OF ok0] by (simp_all add: needs_room_def hello_wire_content)
  obtain s1 where s1: "val_internal_send_packet s0 VAL_PKT_HELLO (P_BYTES ?w) 44 0 = (VAL_OK, s1)"
    "world s1 = snd (send_a (world s0) (frame_bytes s0 VAL_PKT_HELLO ?w 0 True))" "core s1 = core s0" "last_error s1 = last_error s0"
    using send_plain [OF ok0 pl0 pp rm] by (auto simp: val_internal_send_packet_def)
  have q1: "rxq (world s1) = pkt_frame b (hello_pkt b (both_size a b)) @ rest"
    using q [of "world s0"] s1(2) frame_bytes_cfg [OF c0] by (simp add: pkt_frame_def hello_pkt_def)
  have c1: "core s1 = core a" using s1(3) f0(3) by simp
  have f1: "fed rxq s1" by (rule fed_core [OF f0(1) s1(3,4)])
  obtain ls s2 where t2: "ticks s1 = (ls, s2)" by (cases "ticks s1")
  note f2 = fed_ticks [OF f1 t2]
  have q2: "rxq (world s2) = pkt_frame b (hello_pkt b (both_size a b)) @ rest" using q1 f2(2) by simp
  have c2: "core s2 = core a" using c1 f2(3) by simp
  have crc2: "val_internal_crc32 s2 = val_internal_crc32 b" using crc crc_cfg [OF core_fields(1) [OF c2]] by simp
  let ?to = "val_internal_get_timeout s0 VAL_OP_HANDSHAKE" and ?gd = "hs_global_deadline now (hs_budget s0)"
  obtain s3 where s3: "hs_sender_loop ?to ?gd (hs_min_resend s0) ?w ls (backoff_ms_base (retries (cfg s0)))
      (handshake_retries (retries (cfg s0))) s2 = Some (hs_sender_adopt (handshake_bytes ?h) s3)"
    "core s3 = core s2" "rxq (world s3) = rest"
    using sender_loop_hello [OF f2(1) q2 crc2] by blast
  have c3: "core s3 = core a" using s3(2) c2 by simp
  have cf3: "cfg s3 = cfg a" by (rule core_fields [OF c3])
  have ok3: "session_ok s3" using stable_session_ok [of a s3] c3 oka by (simp add: stable_def)
  have bs: "both_size a b \<le> packet_size (buffers (cfg b))" "512 \<le> both_size a b" "both_size a b \<le> packet_size (buffers (cfg a))"
    using session_ok_psize [OF oka] session_ok_psize [OF b] by (simp_all add: both_size_def)
  note ag = hello_agrees [OF b ok3 bs(1)]
  have sz: "agreed_size s3 ?h = both_size a b" using ag(1) bs(3) cf3 by (simp add: min_absorb1)
  let ?s3 = "s3\<lparr>effective_packet_size := both_size a b, peer_features := hs_features ?h\<rparr>"
  let ?s4 = "adopt_window ?h ?s3"
  have ad: "val__adopt_peer_hello s3 ?h = (VAL_OK, ?s4)" using adopt_cases [OF ok3] ag(2) [OF bs(2)] sz by simp
  have ok4: "session_ok ?s4"
    using ok3 adopt_window_range [of ?h ?s3] bs cf3 unfolding session_ok_def by (simp add: adopt_window_fields)
  have "hs_sender_adopt (handshake_bytes ?h) s3 = (VAL_OK, note_handshake ?s4)"
    by (simp add: hs_sender_adopt_def ad)
  moreover have "val_internal_validate_local_features (cfg a) = (VAL_OK, Some 0)"
    by (simp add: val_internal_validate_local_features_def Let_def)
  ultimately have "val_internal_do_handshake_sender a = Some (VAL_OK, note_handshake ?s4)"
    using nd s1(1) s3(1)
    by (simp add: val_internal_do_handshake_sender_def Let_def t t2 local_hello_wire_eq)
  moreover have "session_ok (note_handshake ?s4)"
    using ok4 by (simp add: note_handshake_def session_ok_def window_ok_def sess_defs)
  moreover have "hs_rx_max_window_packets ?h = hs_rx_max_window_packets (val__fill_local_hello b 0)"
    by (simp add: val__fill_local_hello_def Let_def)
  ultimately show ?thesis
    using s3(3) adopt_window_range [of ?h ?s3]
    by (intro exI [of _ "note_handshake ?s4"]) (simp add: note_handshake_def sess_defs adopt_window_fields)
qed

text \<open>
  C11. A handshake ends in agreement. When the receiver gets the sender's HELLO and the sender then
  gets the receiver's answer, both sides report success and use the same packet size, the smaller
  one of their configurations; each side's window cap is within what the other side announced it
  can receive; both keep their invariant, and neither reads beyond the HELLO. The two sides may run
  in different worlds.
\<close>

theorem handshake_agreement:
  assumes a: "fed rxq_a a" "\<not> handshake_done a" "plain (cfg a)" "tr_send (transport (cfg a)) = Some send_a"
    and b: "fed rxq_b b" "\<not> handshake_done b" "plain (cfg b)" "tr_send (transport (cfg b)) = Some send_b"
    and crc: "val_internal_crc32 a = val_internal_crc32 b"
    and to_b: "rxq_b (world b) = pkt_frame a (hello_pkt a (packet_size (buffers (cfg a)))) @ rest_b"
    and to_a: "\<And>w. rxq_a (snd (send_a w (pkt_frame a (hello_pkt a (packet_size (buffers (cfg a))))))) =
                 pkt_frame b (hello_pkt b (both_size a b)) @ rest_a"
  shows "\<exists>a' b' w. val_internal_do_handshake_sender a = Some (VAL_OK, a') \<and>
      val_internal_do_handshake_receiver b = Some (VAL_OK, b') \<and>
      world b' = snd (send_b w (pkt_frame b (hello_pkt b (both_size a b)))) \<and> rxq_b w = rest_b \<and> rxq_a (world a') = rest_a \<and>
      effective_packet_size a' = min (packet_size (buffers (cfg a))) (packet_size (buffers (cfg b))) \<and>
      effective_packet_size b' = effective_packet_size a' \<and>
      negotiated_window_packets a' \<le> max 1 (hs_rx_max_window_packets (val__fill_local_hello b 0)) \<and>
      negotiated_window_packets b' \<le> max 1 (hs_rx_max_window_packets (val__fill_local_hello a 0)) \<and>
      handshake_done a' \<and> handshake_done b' \<and> session_ok a' \<and> session_ok b'"
proof -
  have ok: "session_ok a" "session_ok b" using a(1) b(1) by (simp_all add: fed_def)
  obtain b' w where "val_internal_do_handshake_receiver b = Some (VAL_OK, b')" "handshake_done b'" "session_ok b'"
    "effective_packet_size b' = both_size a b"
    "negotiated_window_packets b' \<le> max 1 (hs_rx_max_window_packets (val__fill_local_hello a 0))"
    "world b' = snd (send_b w (pkt_frame b (hello_pkt b (both_size a b))))" "rxq_b w = rest_b"
    using handshake_receiver_hello [OF b ok(1) crc [symmetric] to_b] by blast
  moreover obtain a' where "val_internal_do_handshake_sender a = Some (VAL_OK, a')" "handshake_done a'" "session_ok a'"
    "effective_packet_size a' = both_size a b"
    "negotiated_window_packets a' \<le> max 1 (hs_rx_max_window_packets (val__fill_local_hello b 0))" "rxq_a (world a') = rest_a"
    using handshake_sender_hello [OF a ok(2) crc to_a] by blast
  ultimately show ?thesis unfolding both_size_def [symmetric] by metis
qed

text \<open>A session whose peer answers every frame with a HELLO.\<close>

definition bed_answer :: "bed \<Rightarrow> u8 list \<Rightarrow> int \<times> bed" where
  "bed_answer w d = (int (length d), w\<lparr>bed_rx := pkt_frame bed_session (hello_pkt bed_session 512)\<rparr>)"

definition bed_caller :: "bed val_session" where
  "bed_caller = bed_session\<lparr>cfg := (cfg bed_session)\<lparr>transport := (transport (cfg bed_session))\<lparr>tr_send := Some bed_answer\<rparr>\<rparr>\<rparr>"

lemma bed_caller_fed: "fed bed_rx bed_caller"
proof -
  have "session_ok bed_caller"
    using bed_session_ok by (simp add: bed_caller_def session_ok_def window_ok_def config_ok_def config_missing_def)
  moreover have "delivers (cfg bed_caller) bed_rx"
    by (auto simp: bed_caller_def delivers_def bed_session_cfg bed_config_def bed_recv_def)
  moreover have "\<not> val_check_for_cancel bed_caller"
    using bed_fed [of "[]"] by (simp add: fed_def bed_caller_def bed_with_def val_check_for_cancel_def)
  ultimately show ?thesis by (simp add: fed_def) (simp add: bed_caller_def bed_session_cfg bed_config_def)
qed

theorem handshake_agreement_witness:
  "\<exists>a' b'. val_internal_do_handshake_sender bed_caller = Some (VAL_OK, a') \<and>
     val_internal_do_handshake_receiver (bed_with (pkt_frame bed_caller (hello_pkt bed_caller 512))) = Some (VAL_OK, b') \<and>
     effective_packet_size a' = 512 \<and> effective_packet_size b' = 512"
proof -
  let ?b = "bed_with (pkt_frame bed_caller (hello_pkt bed_caller 512))"
  have cb: "cfg ?b = cfg bed_session" by simp
  have ps: "packet_size (buffers (cfg bed_caller)) = 512" "packet_size (buffers (cfg ?b)) = 512"
    by (simp_all add: bed_caller_def bed_session_cfg bed_config_def)
  have hd: "\<not> handshake_done bed_session"
    by (simp add: bed_session_def session_init_def val_internal_init_timing_def sess_defs Let_def split: prod.splits)
  have a: "\<not> handshake_done bed_caller" "plain (cfg bed_caller)" "tr_send (transport (cfg bed_caller)) = Some bed_answer"
    using hd by (simp_all add: bed_caller_def plain_def bed_session_cfg bed_config_def bed_answer_def)
  have b: "\<not> handshake_done ?b" "plain (cfg ?b)" "tr_send (transport (cfg ?b)) = Some bed_send"
    using hd by (simp_all add: bed_with_def plain_def bed_session_cfg bed_config_def bed_send_def)
  have crc: "val_internal_crc32 bed_caller = val_internal_crc32 ?b"
    by (simp add: fun_eq_iff val_internal_crc32_def bed_caller_def)
  have bz: "both_size bed_caller ?b = 512" using ps by (simp add: both_size_def)
  have e: "pkt_frame ?b (hello_pkt ?b 512) = pkt_frame bed_session (hello_pkt bed_session 512)"
    using fill_local_hello_cfg [OF cb] by (simp add: pkt_frame_def hello_pkt_def)
  have "\<exists>a' b' w. val_internal_do_handshake_sender bed_caller = Some (VAL_OK, a') \<and>
      val_internal_do_handshake_receiver ?b = Some (VAL_OK, b') \<and> effective_packet_size a' = min 512 512 \<and>
      effective_packet_size b' = effective_packet_size a'"
    using handshake_agreement [OF bed_caller_fed a bed_fed b crc, of "[]" "[]", unfolded ps bz e]
    by (simp add: bed_answer_def) blast
  then show ?thesis by auto
qed

end
