(* ===== verification/Val_File.thy ===== *)
theory Val_File
  imports Val_Handshake
begin

text \<open>
  The file hooks and notification callbacks as the sender and the receiver call them, the shape of
  their long functions (parts that may return early), and \<^verbatim>\<open>val_internal_crc32_region\<close> of
  \<^verbatim>\<open>src/val_core.c\<close>, with the theorem that it computes the CRC of the bytes of the region.
\<close>

section \<open>File hooks\<close>

text \<open>
  The calls of the file hooks. The code calls them without a NULL test (only \<^verbatim>\<open>val_internal_crc32_region\<close>
  has one), so a configuration for file transfer must provide them; the wrappers fail when a hook is
  missing.
\<close>

definition fs_open :: "cstr \<Rightarrow> string \<Rightarrow> 'w val_session \<Rightarrow> nat option \<times> 'w val_session" where [hook_defs]:
  "fs_open path mode s = (case fs_fopen (filesystem (cfg s)) of
       None \<Rightarrow> (None, s)
     | Some f \<Rightarrow> (case f (world s) path mode of (h, w) \<Rightarrow> (h, s\<lparr>world := w\<rparr>)))"

definition fs_close :: "nat \<Rightarrow> 'w val_session \<Rightarrow> 'w val_session" where [hook_defs]:
  "fs_close h s = (case fs_fclose (filesystem (cfg s)) of
       None \<Rightarrow> s
     | Some f \<Rightarrow> s\<lparr>world := snd (f (world s) h)\<rparr>)"

definition fs_seek :: "nat \<Rightarrow> int \<Rightarrow> whence \<Rightarrow> 'w val_session \<Rightarrow> int \<times> 'w val_session" where [hook_defs]:
  "fs_seek h off wh s = (case fs_fseek (filesystem (cfg s)) of
       None \<Rightarrow> (- 1, s)
     | Some f \<Rightarrow> (case f (world s) h off wh of (r, w) \<Rightarrow> (r, s\<lparr>world := w\<rparr>)))"

definition fs_tell :: "nat \<Rightarrow> 'w val_session \<Rightarrow> int \<times> 'w val_session" where [hook_defs]:
  "fs_tell h s = (case fs_ftell (filesystem (cfg s)) of
       None \<Rightarrow> (- 1, s)
     | Some f \<Rightarrow> (case f (world s) h of (r, w) \<Rightarrow> (r, s\<lparr>world := w\<rparr>)))"

definition fs_read :: "size_t \<Rightarrow> nat \<Rightarrow> 'w val_session \<Rightarrow> u8 list \<times> 'w val_session" where [hook_defs]:
  "fs_read n h s = (case fs_fread (filesystem (cfg s)) of
       None \<Rightarrow> ([], s)
     | Some f \<Rightarrow> (case f (world s) n h of (bs, w) \<Rightarrow> (bs, s\<lparr>world := w\<rparr>)))"

definition fs_write :: "u8 list \<Rightarrow> nat \<Rightarrow> 'w val_session \<Rightarrow> size_t \<times> 'w val_session" where [hook_defs]:
  "fs_write bs h s = (case fs_fwrite (filesystem (cfg s)) of
       None \<Rightarrow> (0, s)
     | Some f \<Rightarrow> (case f (world s) bs h of (n, w) \<Rightarrow> (n, s\<lparr>world := w\<rparr>)))"

text \<open>The notification callbacks.\<close>

definition call_file_start :: "cstr \<Rightarrow> cstr \<Rightarrow> u64 \<Rightarrow> u64 \<Rightarrow> 'w val_session \<Rightarrow> 'w val_session" where [hook_defs]:
  "call_file_start name path fsize off s = (case on_file_start (callbacks (cfg s)) of
       None \<Rightarrow> s | Some f \<Rightarrow> s\<lparr>world := f (world s) name path fsize off\<rparr>)"

definition call_file_complete :: "cstr \<Rightarrow> cstr \<Rightarrow> val_status_t \<Rightarrow> 'w val_session \<Rightarrow> 'w val_session" where [hook_defs]:
  "call_file_complete name path st s = (case on_file_complete (callbacks (cfg s)) of
       None \<Rightarrow> s | Some f \<Rightarrow> s\<lparr>world := f (world s) name path st\<rparr>)"

text \<open>A progress callback that asks for cancellation calls \<^verbatim>\<open>val_emergency_cancel\<close> on the session.\<close>

definition call_progress :: "val_progress_info_t \<Rightarrow> 'w val_session \<Rightarrow> 'w val_session" where
  "call_progress info s = (case on_progress (callbacks (cfg s)) of
       None \<Rightarrow> s
     | Some f \<Rightarrow> (case f (world s) info of (cancel, w) \<Rightarrow>
         let s = s\<lparr>world := w\<rparr> in if cancel then snd (val_emergency_cancel s) else s))"

text \<open>A character array as a C string. The array of the peer's metadata need not end in a NUL; the string then ends with the array.\<close>

definition c_string :: "u8 list \<Rightarrow> cstr" where
  "c_string arr = takeWhile (\<lambda>b. b \<noteq> 0) arr"

section \<open>Early returns\<close>

text \<open>
  The long functions of the sender and the receiver are split at their loops. A part either returns
  a status from the whole function or hands a value to the next part.
\<close>

datatype 'a flow = Return val_status_t | Next 'a

type_synonym ('a, 'w) part = "('a flow \<times> 'w val_session) option"

definition bind_flow :: "('a, 'w) part \<Rightarrow> ('a \<Rightarrow> 'w val_session \<Rightarrow> ('b, 'w) part) \<Rightarrow> ('b, 'w) part" where
  "bind_flow m f = (case m of
       None \<Rightarrow> None
     | Some (Return st, s) \<Rightarrow> Some (Return st, s)
     | Some (Next x, s) \<Rightarrow> f x s)"

lemma bind_flow_simps [simp]:
  "bind_flow None f = None"
  "bind_flow (Some (Return st, s)) f = Some (Return st, s)"
  "bind_flow (Some (Next x, s)) f = f x s"
  by (simp_all add: bind_flow_def)

section \<open>CRC of a file region\<close>

text \<open>The chunk loop: each chunk is read into the receive buffer.\<close>

partial_function (option) crc_region_loop ::
    "nat \<Rightarrow> size_t \<Rightarrow> u64 \<Rightarrow> u32 \<Rightarrow> 'w val_session \<Rightarrow> (val_status_t \<times> u32 \<times> 'w val_session) option" where
  "crc_region_loop h step left crc s =
     (if left > 0 then
        let tk = (if left < step then left else step);
            (bs, s) = fs_read tk h s;
            s = s\<lparr>recv_buf := mem_write (recv_buf s) 0 bs\<rparr>
        in if length bs \<noteq> unat tk then Some (VAL_ERR_IO, crc, s)
           else crc_region_loop h step (left - tk)
                  (val_crc32_update_state crc (mem_read (recv_buf s) 0 (unat tk))) s
      else Some (VAL_OK, crc, s))"

text \<open>\<^verbatim>\<open>(long)start_offset\<close> is the signed reading of the offset (\<^verbatim>\<open>long\<close> has 64 bits).\<close>

definition val_internal_crc32_region ::
    "'w val_session \<Rightarrow> nat \<Rightarrow> u64 \<Rightarrow> u64 \<Rightarrow> (val_status_t \<times> u32 \<times> 'w val_session) option" where
  "val_internal_crc32_region s h start_offset len =
     (if fs_fseek (filesystem (cfg s)) = None \<or> fs_fread (filesystem (cfg s)) = None then Some (VAL_ERR_INVALID_ARG, 0, s)
      else
        let step = mtu s in
        if step = 0 then Some (VAL_ERR_INVALID_ARG, 0, s)
        else
          let step = (if step > packet_size (buffers (cfg s)) then packet_size (buffers (cfg s)) else step);
              (r, s) = fs_seek h (sint start_offset) SEEK_SET s
          in if r \<noteq> 0 then Some (VAL_ERR_IO, 0, s)
             else
               case crc32_provider (cfg s) of
                 Some prov \<Rightarrow>
                   if len \<le> step then
                     let (bs, s) = fs_read len h s;
                         s = s\<lparr>recv_buf := mem_write (recv_buf s) 0 bs\<rparr>
                     in if length bs \<noteq> unat len then Some (VAL_ERR_IO, 0, s)
                        else Some (VAL_OK, prov 0xFFFFFFFF (mem_read (recv_buf s) 0 (unat len)), s)
                   else do {
                     (st, crc, s) \<leftarrow> crc_region_loop h step len val_crc32_init_state s;
                     Some (st, if st = VAL_OK then val_crc32_finalize_state crc else 0, s)
                   }
               | None \<Rightarrow> do {
                   (st, crc, s) \<leftarrow> crc_region_loop h step len val_crc32_init_state s;
                   Some (st, if st = VAL_OK then val_crc32_finalize_state crc else 0, s)
                 })"

section \<open>Files as the hooks present them\<close>

text \<open>
  What the code relies on of a file open for reading, as the documentation of the hooks says: in a
  world \<open>w\<close> the file has the bytes \<open>content w\<close> and the handle \<open>h\<close> the position \<open>pos w\<close>; seeking from the
  start moves the position, reading stores the bytes from there, as many as there are, and moves it
  behind them; neither changes the bytes.
\<close>

definition reads_file :: "'w val_config \<Rightarrow> nat \<Rightarrow> ('w \<Rightarrow> u8 list) \<Rightarrow> ('w \<Rightarrow> nat) \<Rightarrow> bool" where
  "reads_file c h content pos \<longleftrightarrow>
     (\<exists>sk rd. fs_fseek (filesystem c) = Some sk \<and> fs_fread (filesystem c) = Some rd \<and>
        (\<forall>w n. n \<le> length (content w) \<longrightarrow>
           (\<exists>w'. sk w h (int n) SEEK_SET = (0, w') \<and> pos w' = n \<and> content w' = content w)) \<and>
        (\<forall>w n. \<exists>w'. rd w n h = (take (unat n) (drop (pos w) (content w)), w') \<and>
           pos w' = pos w + length (take (unat n) (drop (pos w) (content w))) \<and> content w' = content w))"

lemma fs_read_file:
  assumes "reads_file (cfg s) h content pos" and "content (world s) = file" and "pos (world s) + unat n \<le> length file"
  shows "\<exists>w'. fs_read n h s = (take (unat n) (drop (pos (world s)) file), s\<lparr>world := w'\<rparr>) \<and>
     pos w' = pos (world s) + unat n \<and> content w' = file"
proof -
  obtain rd where rd: "fs_fread (filesystem (cfg s)) = Some rd"
    and "\<exists>w'. rd (world s) n h = (take (unat n) (drop (pos (world s)) file), w') \<and>
      pos w' = pos (world s) + length (take (unat n) (drop (pos (world s)) file)) \<and> content w' = file"
    using assms(1,2) unfolding reads_file_def by blast
  then show ?thesis using assms(3) by (auto simp: fs_read_def rd)
qed

lemma unat_min_take: "unat (if left < step then left else step) = min (unat left) (unat (step :: u64))"
  by (auto simp: word_less_nat_alt)

lemma crc_region_loop_file:
  assumes "reads_file (cfg s) h content pos" and "content (world s) = file" and "pos (world s) + unat left \<le> length file"
    and "step \<noteq> 0" and "unat step \<le> length (recv_buf s)"
  shows "\<exists>s'. crc_region_loop h step left crc s =
      Some (VAL_OK, val_crc32_update_state crc (take (unat left) (drop (pos (world s)) file)), s') \<and> core s' = core s \<and>
      last_error s' = last_error s \<and> content (world s') = file"
  using assms
proof (induction "unat left" arbitrary: left crc s rule: less_induct)
  case less
  show ?case
  proof (cases "left = 0")
    case True
    then show ?thesis using less.prems(2) by (subst crc_region_loop.simps) (simp add: val_crc32_update_state_def)
  next
    case False
    define tk where "tk = (if left < step then left else step)"
    have u: "unat tk = min (unat left) (unat step)" unfolding tk_def by (rule unat_min_take)
    have pos: "0 < unat tk" using False less.prems(4) by (simp add: u unat_gt_0)
    let ?p = "pos (world s)"
    let ?b = "take (unat tk) (drop ?p file)"
    have fit: "?p + unat tk \<le> length file" using less.prems(3) u by simp
    obtain w' where r: "fs_read tk h s = (?b, s\<lparr>world := w'\<rparr>)" "pos w' = ?p + unat tk" "content w' = file"
      using fs_read_file [OF less.prems(1,2) fit] by blast
    let ?s1 = "s\<lparr>world := w', recv_buf := mem_write (recv_buf s) 0 ?b\<rparr>"
    have lb: "length ?b = unat tk" using fit by simp
    have lw: "length (mem_write (recv_buf s) 0 ?b) = length (recv_buf s)"
      using lb less.prems(5) u by (subst length_mem_write) simp_all
    have rd: "mem_read (recv_buf ?s1) 0 (unat tk) = ?b" using lb by (simp add: mem_read_write_same)
    have lf: "unat (left - tk) = unat left - unat tk" using u by (simp add: unat_sub word_le_nat_alt)
    have e: "crc_region_loop h step left crc s = crc_region_loop h step (left - tk) (val_crc32_update_state crc ?b) ?s1"
      using False lb rd by (subst crc_region_loop.simps) (simp add: tk_def [symmetric] r word_neq_0_conv Let_def)
    have "\<exists>s'. crc_region_loop h step (left - tk) (val_crc32_update_state crc ?b) ?s1 =
      Some (VAL_OK, val_crc32_update_state (val_crc32_update_state crc ?b)
        (take (unat (left - tk)) (drop (pos (world ?s1)) file)), s') \<and> core s' = core ?s1 \<and> last_error s' = last_error ?s1 \<and> content (world s') = file"
      by (rule less.hyps) (use less.prems lf pos u r(2,3) lw in auto)
    moreover have "val_crc32_update_state (val_crc32_update_state crc ?b) (take (unat left - unat tk) (drop (?p + unat tk) file)) =
        val_crc32_update_state crc (take (unat left) (drop ?p file))"
    proof -
      have "take (unat left) (drop ?p file) = ?b @ take (unat left - unat tk) (drop (unat tk) (drop ?p file))"
        using u by (metis min.cobounded1 le_add_diff_inverse take_add)
      then show ?thesis by (simp add: val_crc32_update_state_def add.commute)
    qed
    moreover have "core ?s1 = core s" using lw by simp
    ultimately show ?thesis unfolding e by (simp add: lf r(2)) 
  qed
qed

lemma fs_seek_file:
  assumes "reads_file (cfg s) h content pos" and "content (world s) = file" and "n \<le> length file"
  shows "\<exists>w'. fs_seek h (int n) SEEK_SET s = (0, s\<lparr>world := w'\<rparr>) \<and> pos w' = n \<and> content w' = file"
proof -
  obtain sk where sk: "fs_fseek (filesystem (cfg s)) = Some sk"
    and "\<exists>w'. sk (world s) h (int n) SEEK_SET = (0, w') \<and> pos w' = n \<and> content w' = file"
    using assms unfolding reads_file_def by blast
  then show ?thesis by (auto simp: fs_seek_def sk)
qed

text \<open>The offset of a file position fits a \<^verbatim>\<open>long\<close>.\<close>

lemma sint_offset: "unat (x :: u64) < 2 ^ 63 \<Longrightarrow> sint x = int (unat x)"
proof -
  assume a: "unat x < 2 ^ 63"
  have u: "uint x = int (unat x)" by simp
  have "sint x = signed_take_bit 63 (uint x)" by (simp add: sint_uint)
  also have "\<dots> = uint x"
  proof (rule signed_take_bit_int_eq_self)
    have "(0 :: int) \<le> uint x" by simp
    moreover have "- (2 ^ 63) \<le> (0 :: int)" by simp
    ultimately show "- (2 ^ 63) \<le> uint x" by (rule order_trans [rotated])
    have "int (unat x) < int (2 ^ 63)" using a by (simp only: of_nat_less_iff)
    then show "uint x < 2 ^ 63" by (simp only: u of_nat_power of_nat_numeral)
  qed
  finally show ?thesis by (simp only: u)
qed

definition region :: "u8 list \<Rightarrow> u64 \<Rightarrow> u64 \<Rightarrow> u8 list" where
  "region file start len = take (unat len) (drop (unat start) file)"

lemma length_region: "unat start + unat len \<le> length file \<Longrightarrow> length (region file start len) = unat len"
  by (simp add: region_def)

definition region_crc :: "'w val_session \<Rightarrow> u64 \<Rightarrow> u8 list \<Rightarrow> u32" where
  "region_crc s len bs = (if len \<le> mtu s then val_internal_crc32 s bs else val_crc32 bs)"

lemma crc_loop_val: "val_crc32_finalize_state (val_crc32_update_state val_crc32_init_state bs) = val_crc32 bs"
  by (simp add: val_crc32_finalize_state_def val_crc32_update_state_def val_crc32_init_state_def val_crc32_def)

lemma crc32_region_file:
  assumes ok: "session_ok s" and rf: "reads_file (cfg s) h content pos" and ct: "content (world s) = file"
    and fit: "unat start + unat len \<le> length file" and small: "length file < 2 ^ 63"
  shows "\<exists>s'. val_internal_crc32_region s h start len = Some (VAL_OK, region_crc s len (region file start len), s') \<and>
     core s' = core s \<and> last_error s' = last_error s \<and> content (world s') = file"
proof -
  have m: "512 \<le> unat (mtu s)" "unat (mtu s) \<le> length (recv_buf s)" using session_ok_mtu [OF ok] by simp_all
  have m0: "mtu s \<noteq> 0" using m(1) by auto
  have mp: "(if mtu s > packet_size (buffers (cfg s)) then packet_size (buffers (cfg s)) else mtu s) = mtu s"
    using ok by (auto simp: mtu_def session_ok_def word_le_nat_alt word_less_nat_alt)
  have hooks: "fs_fseek (filesystem (cfg s)) \<noteq> None" "fs_fread (filesystem (cfg s)) \<noteq> None"
    using rf by (auto simp: reads_file_def)
  have st: "sint start = int (unat start)" using fit small by (intro sint_offset) simp
  obtain w1 where s1: "fs_seek h (sint start) SEEK_SET s = (0, s\<lparr>world := w1\<rparr>)" "pos w1 = unat start" "content w1 = file"
    using fs_seek_file [OF rf ct, of "unat start"] fit unfolding st by auto
  let ?s = "s\<lparr>world := w1\<rparr>"
  have rf1: "reads_file (cfg ?s) h content pos" and ct1: "content (world ?s) = file" using rf s1(3) by simp_all
  have f1: "pos (world ?s) + unat len \<le> length file" using s1(2) fit by simp
  obtain s2 where l: "crc_region_loop h (mtu s) len val_crc32_init_state ?s =
      Some (VAL_OK, val_crc32_update_state val_crc32_init_state (region file start len), s2)"
    "core s2 = core s" "last_error s2 = last_error s" "content (world s2) = file"
    using crc_region_loop_file [OF rf1 ct1 f1 m0, of val_crc32_init_state] m(2) s1(2) by (auto simp: region_def)
  obtain w3 where r: "fs_read len h ?s = (region file start len, ?s\<lparr>world := w3\<rparr>)" "content w3 = file"
    using fs_read_file [OF rf1 ct1 f1] s1(2) by (auto simp: region_def)
  let ?s3 = "?s\<lparr>world := w3, recv_buf := mem_write (recv_buf s) 0 (region file start len)\<rparr>"
  have lr: "length (region file start len) = unat len" by (rule length_region [OF fit])
  have rd: "mem_read (mem_write (recv_buf s) 0 (region file start len)) 0 (unat len) = region file start len"
    using lr by (simp add: mem_read_write_same)
  have c3: "core ?s3 = core s" if "len \<le> mtu s"
  proof -
    have "length (mem_write (recv_buf s) 0 (region file start len)) = length (recv_buf s)"
      using that m(2) lr by (subst length_mem_write) (simp_all add: word_le_nat_alt)
    then show ?thesis by simp
  qed
  show ?thesis
  proof (cases "crc32_provider (cfg s)")
    case None
    then have "region_crc s len (region file start len) = val_crc32 (region file start len)"
      by (simp add: region_crc_def val_internal_crc32_def)
    then show ?thesis
      using hooks m0 s1(1) l None
      by (simp add: val_internal_crc32_region_def Let_def mp crc_loop_val del: not_None_eq)
  next
    case (Some prov)
    show ?thesis
    proof (cases "len \<le> mtu s")
      case True
      have "val_internal_crc32_region s h start len =
          Some (VAL_OK, region_crc s len (region file start len), ?s3)"
        using hooks m0 s1(1) Some True r(1) rd lr
        by (simp add: val_internal_crc32_region_def Let_def mp region_crc_def val_internal_crc32_def del: not_None_eq)
      then show ?thesis using c3 [OF True] r(2) by simp
    next
      case False
      then show ?thesis using hooks m0 s1(1) l Some
        by (simp add: val_internal_crc32_region_def Let_def mp crc_loop_val region_crc_def del: not_None_eq)
    qed
  qed
qed

text \<open>
  C17. The CRC of a file region is the CRC of exactly the bytes of that region, whatever the region's
  length and the size of the chunks it is read in: on a file whose hooks behave as documented the
  call succeeds, and it changes nothing of the session but the scratch contents of the receive
  buffer. A configured CRC provider is used for regions of one packet at most, the built-in CRC for
  longer ones.
\<close>

theorem crc32_region_spec:
  assumes "session_ok s" and "reads_file (cfg s) h content pos" and "content (world s) = file"
    and "unat start + unat len \<le> length file" and "length file < 2 ^ 63"
  shows "\<exists>s'. val_internal_crc32_region s h start len = Some (VAL_OK,
       if len \<le> mtu s then val_internal_crc32 s (take (unat len) (drop (unat start) file))
       else val_crc32 (take (unat len) (drop (unat start) file)), s') \<and>
     session_ok s' \<and> lock_depth s' = lock_depth s \<and> last_error s' = last_error s \<and> content (world s') = file"
proof -
  obtain s' where "val_internal_crc32_region s h start len = Some (VAL_OK, region_crc s len (region file start len), s')"
    "core s' = core s" "last_error s' = last_error s" "content (world s') = file"
    using crc32_region_file [OF assms] by blast
  moreover have "session_ok s'" "lock_depth s' = lock_depth s"
    using assms(1) stable_session_ok [of s s'] core_fields [OF calculation(2)] calculation(2) by (simp_all add: stable_def)
  ultimately show ?thesis by (simp add: region_crc_def region_def)
qed

section \<open>A world with a file to read and a file to write\<close>

text \<open>
  The concrete world of the witnesses, with file hooks: handle 1 reads the source file, handle 2
  appends to the output file; the transport and the clock are those of \<open>bed\<close>.
\<close>

record desk =
  dk_clock :: u32
  dk_rx :: "u8 list"
  dk_tx :: "u8 list"
  dk_src :: "u8 list"
  dk_pos :: nat
  dk_out :: "u8 list"

definition desk_send :: "desk \<Rightarrow> u8 list \<Rightarrow> int \<times> desk" where
  "desk_send w data = (int (length data), w\<lparr>dk_tx := dk_tx w @ data\<rparr>)"

definition desk_recv :: "desk \<Rightarrow> size_t \<Rightarrow> u32 \<Rightarrow> int \<times> u8 list \<times> desk" where
  "desk_recv w n to_ms =
     (if dk_rx w = [] then (0, [], w\<lparr>dk_clock := dk_clock w + to_ms\<rparr>)
      else (0, take (unat n) (dk_rx w), w\<lparr>dk_rx := drop (unat n) (dk_rx w)\<rparr>))"

definition desk_files :: "desk val_filesystem" where
  "desk_files =
    \<lparr>fs_fopen = Some (\<lambda>w path mode. if mode = ''rb'' then (Some 1, w\<lparr>dk_pos := 0\<rparr>)
       else if mode = ''wb'' then (Some 2, w\<lparr>dk_out := []\<rparr>) else (Some 2, w)),
     fs_fread = Some (\<lambda>w n h. let bs = take (unat n) (drop (dk_pos w) (dk_src w)) in (bs, w\<lparr>dk_pos := dk_pos w + length bs\<rparr>)),
     fs_fwrite = Some (\<lambda>w bs h. (of_nat (length bs), w\<lparr>dk_out := dk_out w @ bs\<rparr>)),
     fs_fseek = Some (\<lambda>w h off wh. (0, w\<lparr>dk_pos := (case wh of SEEK_SET \<Rightarrow> nat off | SEEK_END \<Rightarrow> length (dk_src w))\<rparr>)),
     fs_ftell = Some (\<lambda>w h. (int (dk_pos w), w)),
     fs_fclose = Some (\<lambda>w h. (0, w))\<rparr>"

definition desk_config :: "val_resume_mode_t \<Rightarrow> desk val_config" where
  "desk_config mode =
    \<lparr>transport = \<lparr>tr_send = Some desk_send, tr_recv = Some desk_recv, tr_is_connected = None, tr_flush = None\<rparr>,
     filesystem = desk_files, crc32_provider = None,
     system = \<lparr>sys_get_ticks_ms = Some (\<lambda>w. (dk_clock w, w)),
               sys_delay_ms = Some (\<lambda>w ms. w\<lparr>dk_clock := dk_clock w + ms\<rparr>)\<rparr>,
     timeouts = clamp_budget (timeouts bed_config), features = features bed_config, retries = retries bed_config,
     buffers = buffers bed_config,
     resume = \<lparr>rc_mode = mode, rc_tail_cap_bytes = 0, rc_min_verify_bytes = 0, rc_mismatch_skip = False\<rparr>,
     tx_flow = \<lparr>window_cap_packets = 8, initial_cwnd_packets = 0, retransmit_cache_enabled = False,
                degrade_error_threshold = 0, recovery_success_threshold = 0, al_alloc = None, al_free = None\<rparr>,
     callbacks = \<lparr>on_file_start = None, on_file_complete = None, on_progress = None\<rparr>,
     validator = None, capture = None, debug_min_level = 0\<rparr>"

definition desk_session :: "val_resume_mode_t \<Rightarrow> desk \<Rightarrow> desk val_session" where
  "desk_session mode w =
    \<lparr>build = bed_build, cfg = desk_config mode, output_directory = [], seq_counter = 0, effective_packet_size = 512,
     handshake_done = True, peer_features = 0, timing = timing bed_session,
     last_error = \<lparr>err_code = VAL_OK, err_detail = 0, err_op = None\<rparr>,
     negotiated_window_packets = 8, current_window_packets = 4, peer_tx_window_packets = 8,
     ack_stride_packets = 1, consecutive_errors = 0, consecutive_successes = 0, packets_since_mode_change = 0,
     packets_in_flight = 0, next_seq_to_send = 0, oldest_unacked_seq = 0, tracking_slots = tracking_slots bed_session,
     max_tracking_slots = max_tracking_slots bed_session, current_file_handle = None, current_file_position = 0,
     total_file_size = 0, last_keepalive_send_time = 0, last_keepalive_recv_time = 0, health = health bed_session,
     metrics = metrics bed_session, lock_depth = 0, send_buf = replicate 512 0, recv_buf = replicate 512 0, world = w\<rparr>"

lemma desk_simps [simp]:
  "cfg (desk_session mode w) = desk_config mode" "world (desk_session mode w) = w" "mtu (desk_session mode w) = 512"
  "lock_depth (desk_session mode w) = 0" "last_error (desk_session mode w) = \<lparr>err_code = VAL_OK, err_detail = 0, err_op = None\<rparr>"
  "current_window_packets (desk_session mode w) = 4" "output_directory (desk_session mode w) = []"
  by (simp_all add: desk_session_def mtu_def)

lemma desk_session_ok [simp]: "session_ok (desk_session mode w)"
  using bed_session_ok
  by (simp add: session_ok_def window_ok_def config_ok_def config_missing_def desk_session_def desk_config_def bed_session_cfg bed_config_def)

lemma desk_fed: "fed dk_rx (desk_session mode w)"
  by (auto simp: fed_def delivers_def val_check_for_cancel_def desk_config_def desk_recv_def)

lemma desk_plain: "plain (desk_config mode)"
  by (auto simp: plain_def desk_config_def desk_send_def)

text \<open>The worlds the witnesses start in.\<close>

definition desk_world :: "u8 list \<Rightarrow> u8 list \<Rightarrow> u8 list \<Rightarrow> desk" where
  "desk_world rx src out = \<lparr>dk_clock = 1000, dk_rx = rx, dk_tx = [], dk_src = src, dk_pos = 0, dk_out = out\<rparr>"

lemma desk_reads: "reads_file (desk_config mode) 1 dk_src dk_pos"
  by (auto simp: reads_file_def desk_config_def desk_files_def Let_def)

theorem crc32_region_spec_witness:
  "\<exists>s'. val_internal_crc32_region (desk_session VAL_RESUME_TAIL (desk_world [] [10, 20, 30, 40, 50] [])) 1 1 3 =
      Some (VAL_OK, val_crc32 [20, 30, 40], s')"
  using crc32_region_spec [OF desk_session_ok, of VAL_RESUME_TAIL "desk_world [] [10, 20, 30, 40, 50] []" 1 dk_src dk_pos "[10, 20, 30, 40, 50]" 1 3]
    desk_reads [of VAL_RESUME_TAIL]
  by (auto simp: desk_world_def val_internal_crc32_def desk_config_def)

section \<open>What receiving leaves alone\<close>

text \<open>
  An observation \<open>ob\<close> of the world, such as the contents of a file, that neither the \<open>recv\<close> hook nor
  the clock changes; there is no capture hook.
\<close>

definition rx_keeps :: "'w val_config \<Rightarrow> ('w \<Rightarrow> 'o) \<Rightarrow> bool" where
  "rx_keeps c ob \<longleftrightarrow> capture c = None \<and>
     (\<forall>f w n t. tr_recv (transport c) = Some f \<longrightarrow> ob (snd (snd (f w n t))) = ob w) \<and>
     (\<forall>f w. sys_get_ticks_ms (system c) = Some f \<longrightarrow> ob (snd (f w)) = ob w)"

lemma ticks_ob:
  assumes "rx_keeps (cfg s) ob" and "ticks s = (t, s')"
  shows "ob (world s') = ob (world s)" "cfg s' = cfg s"
  using assms by (auto simp: rx_keeps_def ticks_def split: option.splits prod.splits) (metis snd_conv)

lemma recv_round_ob:
  assumes "rx_keeps (cfg s) ob"
  shows "case recv_round start need to_ms got s of
     Inl (st, bs, s') \<Rightarrow> cfg s' = cfg s \<and> ob (world s') = ob (world s)
   | Inr (got', s') \<Rightarrow> cfg s' = cfg s \<and> ob (world s') = ob (world s)"
proof (cases "need \<le> length got")
  case True
  then show ?thesis by (simp add: recv_round_def)
next
  case False
  obtain now s1 where t: "ticks s = (now, s1)" by (cases "ticks s")
  note o1 = ticks_ob [OF assms t]
  show ?thesis
  proof (cases "tr_recv (transport (cfg s))")
    case None
    then show ?thesis using False t o1 by (simp add: recv_round_def)
  next
    case (Some f)
    let ?e = "if now \<ge> start then now - start else 0"
    let ?rm = "if to_ms > ?e then to_ms - ?e else 0"
    let ?sl = "if ?rm \<noteq> 0 then ?rm else if to_ms \<noteq> 0 then 1 else 0"
    obtain r bs w where f: "f (world s1) (of_nat (need - length got)) ?sl = (r, bs, w)"
      by (cases "f (world s1) (of_nat (need - length got)) ?sl")
    have w: "ob w = ob (world s1)" using assms Some f unfolding rx_keeps_def by (metis snd_conv)
    have k: "rx_keeps (cfg (s1\<lparr>world := w\<rparr>)) ob" using assms o1(2) by simp
    obtain now2 s2 where t2: "ticks (s1\<lparr>world := w\<rparr>) = (now2, s2)" by (cases "ticks (s1\<lparr>world := w\<rparr>)")
    note o2 = ticks_ob [OF k t2]
    show ?thesis
      using False o1 o2 w unfolding recv_round_def Let_def t prod.case o1(2) Some option.case f t2 by (auto simp: o1(2))
  qed
qed

lemma val_recv_full_ob:
  assumes "val_recv_full need to_ms s = Some (st, bs, s')" and "rx_keeps (cfg s) ob"
  shows "cfg s' = cfg s \<and> ob (world s') = ob (world s)"
proof (cases "tr_recv (transport (cfg s)) = None")
  case True
  then show ?thesis using assms by (simp add: val_recv_full_def)
next
  case False
  obtain start s1 where t: "ticks s = (start, s1)" by (cases "ticks s")
  note o1 = ticks_ob [OF assms(2) t]
  have r: "val_recv_full_loop start need to_ms [] s1 = Some (st, bs, s')"
    using assms(1) False t by (simp add: val_recv_full_def)
  let ?I = "\<lambda>(h :: u8 list) x. cfg x = cfg s \<and> ob (world x) = ob (world s)"
  have "case (st, bs, s') of (st, bs, s') \<Rightarrow> cfg s' = cfg s \<and> ob (world s') = ob (world s)"
  proof (rule val_recv_full_loop_inv [OF r, where I = ?I])
    show "?I [] s1" using o1 by simp
  next
    fix h x h' x' assume I: "?I h x" and st: "recv_round start need to_ms h x = Inr (h', x')"
    then show "?I h' x'" using recv_round_ob [of x ob start need to_ms h] assms(2) by simp
  next
    fix h x y assume I: "?I h x" and st: "recv_round start need to_ms h x = Inl y"
    then show "case y of (st, bs, s') \<Rightarrow> cfg s' = cfg s \<and> ob (world s') = ob (world s)"
      using recv_round_ob [of x ob start need to_ms h] assms(2) by (simp split: prod.splits)
  qed
  then show ?thesis by simp
qed

lemma world_rx_fail: "rx_fail rc s = Some (st, rx, s') \<Longrightarrow> world s' = world s \<and> cfg s' = cfg s"
  by (auto simp: rx_fail_def recv_failed_def sess_defs split: if_splits)

lemma world_deliver_frame:
  assumes "capture (cfg s) = None"
  shows "world (snd (snd (deliver_frame tb fl pl td dest rx s))) = world s"
    "cfg (snd (snd (deliver_frame tb fl pl td dest rx s))) = cfg s"
proof -
  have c: "capture_packet d t wl n off s1 = s1" if "cfg s1 = cfg s" for s1 d t wl n off
    using assms that by (simp add: capture_packet_def)
  show "world (snd (snd (deliver_frame tb fl pl td dest rx s))) = world s"
    "cfg (snd (snd (deliver_frame tb fl pl td dest rx s))) = cfg s"
    by (simp_all add: deliver_frame_def Let_def c)
qed

lemma world_accept_frame:
  assumes "capture (cfg s) = None"
  shows "world (snd (snd (accept_frame tb fl pl td tc dest s))) = world s"
    "cfg (snd (snd (accept_frame tb fl pl td tc dest s))) = cfg s"
  using assms by (simp_all add: accept_frame_def Let_def val_metrics_inc_crcerr_def world_deliver_frame)

lemma recv_packet_ob:
  assumes "val_internal_recv_packet s dest to_ms = Some (st, rx, s')" and k: "rx_keeps (cfg s) ob"
  shows "ob (world s') = ob (world s) \<and> cfg s' = cfg s"
proof -
  let ?s0 = "val_internal_lock s"
  obtain rc b s1 where r: "val_recv_full 8 to_ms ?s0 = Some (rc, b, s1)"
    using assms(1) unfolding val_internal_recv_packet_def Let_def bind_eq_Some_conv by auto
  have o1: "cfg s1 = cfg s" "ob (world s1) = ob (world s)" using val_recv_full_ob [OF r, of ob] k by simp_all
  let ?s2 = "s1\<lparr>recv_buf := mem_write (recv_buf s1) 0 b\<rparr>"
  obtain tb fl cl td where h: "val_deserialize_frame_header (recv_buf ?s2) = (tb, fl, cl, td)"
    by (cases "val_deserialize_frame_header (recv_buf ?s2)")
  have e: "(if rc \<noteq> VAL_OK then rx_fail rc ?s2
     else if (ucast cl :: u32) > ucast (mtu s - of_nat 8 - of_nat 4)
     then Some (VAL_ERR_PROTOCOL, rx_none, val_internal_unlock (VAL_SET_PROTOCOL_ERROR ?s2 VAL_ERROR_DETAIL_PAYLOAD_SIZE))
     else recv_payload dest to_ms tb fl (ucast cl) td ?s2) = Some (st, rx, s')"
    using assms(1) unfolding val_internal_recv_packet_def Let_def r bind.bind_lunit prod.case h mtu_lock .
  show ?thesis
  proof (cases "rc \<noteq> VAL_OK \<or> (ucast cl :: u32) > ucast (mtu s - of_nat 8 - of_nat 4)")
    case True
    then show ?thesis using e o1 world_rx_fail [of rc ?s2 st rx s'] by (auto simp: sess_defs split: if_splits)
  next
    case False
    then have p: "recv_payload dest to_ms tb fl (ucast cl) td ?s2 = Some (st, rx, s')" using e by simp
    let ?pl = "ucast cl :: u32"
    obtain rc2 bs s3 where r3: "(if ?pl > 0 then val_recv_full (unat ?pl) to_ms ?s2 else Some (VAL_OK, [], ?s2)) = Some (rc2, bs, s3)"
      using p unfolding recv_payload_def bind_eq_Some_conv by auto
    have k2: "rx_keeps (cfg ?s2) ob" using k o1 by simp
    have o3: "cfg s3 = cfg s" "ob (world s3) = ob (world s)"
      using r3 val_recv_full_ob [of "unat ?pl" to_ms ?s2 rc2 bs s3 ob] k2 o1 by (auto split: if_splits)
    let ?s4 = "s3\<lparr>recv_buf := mem_write (recv_buf s3) 8 bs\<rparr>"
    have e2: "(if rc2 \<noteq> VAL_OK then rx_fail rc2 ?s4 else recv_trailer dest to_ms tb fl ?pl td ?s4) = Some (st, rx, s')"
      using p unfolding recv_payload_def r3 bind.bind_lunit prod.case Let_def .
    show ?thesis
    proof (cases "rc2 = VAL_OK")
      case False
      then show ?thesis using e2 o3 world_rx_fail [of rc2 ?s4 st rx s'] by simp
    next
      case True
      then have t: "recv_trailer dest to_ms tb fl ?pl td ?s4 = Some (st, rx, s')" using e2 by simp
      obtain rc3 tb3 s5 where r5: "val_recv_full 4 to_ms ?s4 = Some (rc3, tb3, s5)"
        using t by (auto simp: recv_trailer_def bind_eq_Some_conv)
      have o5: "cfg s5 = cfg s" "ob (world s5) = ob (world s)"
        using val_recv_full_ob [OF r5, of ob] k o3 by simp_all
      have cp: "capture (cfg s5) = None" using k o5(1) by (simp add: rx_keeps_def)
      show ?thesis
        using t r5 o5 world_rx_fail [of rc3 s5 st rx s'] world_accept_frame [OF cp, of tb fl ?pl td "VAL_GET_LE32 tb3" dest]
        by (auto simp: recv_trailer_def split: if_splits)
    qed
  qed
qed

lemma recv_until_deadline_ob:
  assumes "val_internal_recv_until_deadline s out_mem cap dl m = Some r" and "rx_keeps (cfg s) ob"
  shows "ob (world (snd (snd (snd r)))) = ob (world s)"
proof -
  let ?P = "\<lambda>s out_mem cap dl m (r :: val_status_t \<times> rx_info \<times> u8 list option \<times> 'a val_session).
      rx_keeps (cfg s) ob \<longrightarrow> ob (world (snd (snd (snd r)))) = ob (world s)"
  have "?P s out_mem cap dl m r"
  proof (rule val_internal_recv_until_deadline.raw_induct [where P = ?P, OF _ assms(1)], intro impI)
    fix loop :: "'a val_session \<Rightarrow> u8 list option \<Rightarrow> u32 \<Rightarrow> u32 \<Rightarrow> u32 \<Rightarrow>
        (val_status_t \<times> rx_info \<times> u8 list option \<times> 'a val_session) option"
      and s out_mem cap dl m r
    assume IH: "\<And>s out_mem cap dl m r. loop s out_mem cap dl m = Some r \<Longrightarrow> ?P s out_mem cap dl m r"
      and k: "rx_keeps (cfg s) ob"
      and eq: "(if sys_get_ticks_ms (system (cfg s)) = None then Some (VAL_ERR_INVALID_ARG, rx_none, out_mem, s)
        else if val_check_for_cancel s then Some (VAL_ERR_ABORTED, rx_none, out_mem, s)
        else
          let (now, s) = ticks s;
              remaining = (if now < dl then dl - now else 0);
              slice = (if remaining > m then m else remaining);
              slice = (if slice = 0 then 1 else slice)
          in do {
            (st, rx, s) \<leftarrow> val_internal_recv_packet s None slice;
            if st = VAL_OK then
              (case copy_control out_mem cap rx s of (st, mem) \<Rightarrow> Some (st, rx, mem, s))
            else if st \<noteq> VAL_ERR_TIMEOUT \<and> st \<noteq> VAL_ERR_CRC then Some (st, rx_none, out_mem, s)
            else
              let (now, s) = ticks s in
              if now \<ge> dl then Some (VAL_ERR_TIMEOUT, rx_none, out_mem, s)
              else loop s out_mem cap dl m
          }) = Some r"
    obtain now s1 where t1: "ticks s = (now, s1)" by (cases "ticks s")
    note o1 = ticks_ob [OF k t1]
    show "ob (world (snd (snd (snd r)))) = ob (world s)"
    proof (cases "sys_get_ticks_ms (system (cfg s)) = None \<or> val_check_for_cancel s")
      case True
      then show ?thesis using eq by (auto split: if_splits)
    next
      case False
      have nf: "\<not> sys_get_ticks_ms (system (cfg s)) = None" "\<not> val_check_for_cancel s" using False by simp_all
      define sl where "sl = (let rem = (if now < dl then dl - now else 0); sl = (if rem > m then m else rem) in if sl = 0 then 1 else sl)"
      obtain st rx s2 where p: "val_internal_recv_packet s1 None sl = Some (st, rx, s2)"
        using eq False by (auto simp: t1 sl_def Let_def bind_eq_Some_conv)
      have k1: "rx_keeps (cfg s1) ob" using k o1 by simp
      have o2: "ob (world s2) = ob (world s)" "cfg s2 = cfg s" using recv_packet_ob [OF p k1] o1 by simp_all
      obtain now' s3 where t3: "ticks s2 = (now', s3)" by (cases "ticks s2")
      have k2: "rx_keeps (cfg s2) ob" using k o2 by simp
      note o3 = ticks_ob [OF k2 t3]
      have e: "(if st = VAL_OK then (case copy_control out_mem cap rx s2 of (st, mem) \<Rightarrow> Some (st, rx, mem, s2))
            else if st \<noteq> VAL_ERR_TIMEOUT \<and> st \<noteq> VAL_ERR_CRC then Some (st, rx_none, out_mem, s2)
            else if now' \<ge> dl then Some (VAL_ERR_TIMEOUT, rx_none, out_mem, s3)
              else loop s3 out_mem cap dl m) = Some r"
        using eq unfolding if_not_P [OF nf(1)] if_not_P [OF nf(2)] Let_def t1 prod.case sl_def [unfolded Let_def, symmetric] p
          bind.bind_lunit t3 .
      have k3: "rx_keeps (cfg s3) ob" using k2 o3 by simp
      show ?thesis using e IH [of s3 out_mem cap dl m r] k3 o2 o3 by (auto split: if_splits prod.splits)
    qed
  qed
  then show ?thesis using assms(2) by simp
qed

section \<open>Steps that leave the session as good as it was\<close>

text \<open>
  Bookkeeping: counters, timing and the congestion window may change; the configuration, the error and
  what \<open>ob\<close> observes of the world do not, and the session's invariant is kept.
\<close>

definition mild :: "('w \<Rightarrow> 'o) \<Rightarrow> 'w val_session \<Rightarrow> 'w val_session \<Rightarrow> bool" where
  "mild ob s s' \<longleftrightarrow> cfg s' = cfg s \<and> build s' = build s \<and> effective_packet_size s' = effective_packet_size s \<and>
     last_error s' = last_error s \<and> lock_depth s' = lock_depth s \<and> ob (world s') = ob (world s) \<and>
     (session_ok s \<longrightarrow> session_ok s')"

lemma mild_refl [simp]: "mild ob s s"
  by (simp add: mild_def)

lemma mild_trans [trans]: "mild ob s s' \<Longrightarrow> mild ob s' s'' \<Longrightarrow> mild ob s s''"
  by (simp add: mild_def)

lemma mild_core: "core s' = core s \<Longrightarrow> last_error s' = last_error s \<Longrightarrow> ob (world s') = ob (world s) \<Longrightarrow> mild ob s s'"
  using core_fields [of s' s] stable_session_ok [of s s'] by (simp add: mild_def stable_def)

lemma mild_notes [simp]:
  "mild ob s (set_in_retransmit b s)" "mild ob s (s\<lparr>last_keepalive_recv_time := t\<rparr>)" "mild ob s (s\<lparr>health := h\<rparr>)"
  "mild ob s (upd_metrics g s)" "mild ob s (VAL_HEALTH_RECORD_RETRY s)" "mild ob s (VAL_HEALTH_RECORD_OPERATION s)"
  by (simp_all add: mild_def sess_defs session_ok_def window_ok_def)

lemma mild_rtt [simp]: "mild ob s (val_internal_record_rtt s r)"
  by (simp add: mild_def val_internal_record_rtt_def val_metrics_inc_rtt_sample_def upd_metrics_def Let_def
      session_ok_def window_ok_def)

lemma record_success_fields:
  "cfg (val_internal_record_transmission_success s) = cfg s" "build (val_internal_record_transmission_success s) = build s"
  "effective_packet_size (val_internal_record_transmission_success s) = effective_packet_size s"
  "last_error (val_internal_record_transmission_success s) = last_error s"
  "lock_depth (val_internal_record_transmission_success s) = lock_depth s"
  "world (val_internal_record_transmission_success s) = world s"
  "session_ok s \<Longrightarrow> session_ok (val_internal_record_transmission_success s)"
proof -
  let ?e = "val_internal_record_transmission_success s"
  show f: "cfg ?e = cfg s" "build ?e = build s" "effective_packet_size ?e = effective_packet_size s"
    "last_error ?e = last_error s" "lock_depth ?e = lock_depth s" "world ?e = world s"
    by (simp_all add: val_internal_record_transmission_success_def sess_defs Let_def)
  have g: "send_buf ?e = send_buf s" "recv_buf ?e = recv_buf s" "timing ?e = timing s"
    "negotiated_window_packets ?e = negotiated_window_packets s" "max_tracking_slots ?e = max_tracking_slots s"
    "length (tracking_slots s) = unat (max_tracking_slots s) \<Longrightarrow> length (tracking_slots ?e) = unat (max_tracking_slots s)"
    by (simp_all add: val_internal_record_transmission_success_def sess_defs Let_def)
  have w: "current_window_packets ?e = current_window_packets s \<or>
      current_window_packets s < negotiated_window_packets s \<and>
        (current_window_packets ?e = negotiated_window_packets s \<or>
         current_window_packets ?e = current_window_packets s + 1 \<and> current_window_packets s + 1 \<le> negotiated_window_packets s)"
    if "window_ok s"
    using that by (auto simp: val_internal_record_transmission_success_def sess_defs Let_def window_ok_def)
  have "window_ok ?e" if k: "window_ok s"
  proof -
    have "unat (current_window_packets s + 1) = unat (current_window_packets s) + 1"
      if "current_window_packets s < negotiated_window_packets s"
      using that unat_less_2p16 [of "negotiated_window_packets s"] by (simp add: word_less_nat_alt unat_word_ariths)
    then show ?thesis using w [OF k] k by (auto simp: window_ok_def g(4) word_le_nat_alt word_less_nat_alt)
  qed
  then show "session_ok s \<Longrightarrow> session_ok ?e" by (simp add: session_ok_def f g)
qed

lemma mild_success [simp]: "mild ob s (val_internal_record_transmission_success s)"
  using record_success_fields [of s] by (simp add: mild_def)

lemma keeps_success [simp]: "keeps pend s (val_internal_record_transmission_success s)"
  using record_success_fields [of s]
  by (simp add: keeps_def) (simp add: val_internal_record_transmission_success_def sess_defs Let_def)

lemma mild_ticks: "rx_keeps (cfg s) ob \<Longrightarrow> ticks s = (t, s') \<Longrightarrow> mild ob s s'"
  using ticks_world [of s t s'] only_world_fields [of s s'] ticks_ob [of s ob t s'] by (intro mild_core) auto

section \<open>The packets of a transfer\<close>

definition ack_pkt :: "nat \<Rightarrow> pkt" where "ack_pkt n = (VAL_PKT_DATA_ACK, [], of_nat n, True)"
definition nak_pkt :: "nat \<Rightarrow> pkt" where "nak_pkt n = (VAL_PKT_DATA_NAK, VAL_PUT_LE32 1, of_nat n, False)"
definition done_ack_pkt :: "nat \<Rightarrow> pkt" where "done_ack_pkt n = (VAL_PKT_DONE_ACK, [], of_nat n, True)"
definition done_pkt :: "u64 \<Rightarrow> pkt" where "done_pkt n = (VAL_PKT_DONE, [], n, True)"

definition pkt_bytes :: "pkt \<Rightarrow> u8 list" where "pkt_bytes x = fst (snd x)"

lemma pkt_frame_cfg: "cfg s = cfg p \<Longrightarrow> pkt_frame s = pkt_frame p"
  using frame_bytes_cfg [of s p] by (simp add: pkt_frame_def fun_eq_iff)

lemma ack_room:
  "needs_room VAL_PKT_DATA_ACK [] off True \<le> 4" "needs_room VAL_PKT_DONE_ACK [] off True \<le> 4"
  "needs_room VAL_PKT_DATA_NAK bs off False = 12"
  by (simp_all add: needs_room_def wire_content_def)

lemma payload_null [simp]: "payload_is buf P_NULL []"
  by (simp add: payload_is_def)

lemma ack_pkt_fits: "session_ok s \<Longrightarrow> pkt_fits s 32 (ack_pkt n)"
  using session_ok_mtu [of s] ack_room(1) [of "of_nat n"] by (simp add: pkt_fits_def ack_pkt_def)

lemma ack_pkt_info [simp]: "rx_type (pkt_info (ack_pkt n)) = VAL_PKT_DATA_ACK" "rx_off (pkt_info (ack_pkt n)) = of_nat n"
    "pkt_type (ack_pkt n) = VAL_PKT_DATA_ACK"
  by (simp_all add: pkt_info_def ack_pkt_def carried_offset_def pkt_type_def)

end
