(* ===== verification/Val_Sender.thy ===== *)
theory Val_Sender
  imports Val_File
begin

text \<open>
  The sending side, \<^verbatim>\<open>src/val_sender.c\<close>: size and name of a file, metadata, resume negotiation, the
  go-back-N window with cumulative acknowledgements, progress, and \<^verbatim>\<open>val_send_files\<close>. The function
  \<^verbatim>\<open>send_file_data_adaptive\<close> is split at its loops. The trace file \<^verbatim>\<open>resume_trace.log\<close> is not modelled.
\<close>

section \<open>Size, name and metadata of a file\<close>

text \<open>The text after the last separator.\<close>

fun basename_loop :: "cstr \<Rightarrow> cstr \<Rightarrow> cstr" where
  "basename_loop base [] = base"
| "basename_loop base (c # p) = basename_loop (if is_sep c then p else base) p"

text \<open>
  The size and the name are out parameters; they are zero and empty when the call fails. The file is
  opened and closed on every path behind the first.
\<close>

definition get_file_size_and_name ::
    "'w val_session \<Rightarrow> cstr \<Rightarrow> val_status_t \<times> u64 \<times> cstr \<times> 'w val_session" where
  "get_file_size_and_name s filepath =
     (let (f, s) = fs_open filepath ''rb'' s in
      case f of
        None \<Rightarrow> (VAL_ERR_IO, 0, [], val_internal_set_error_detailed s VAL_ERR_IO VAL_ERROR_DETAIL_FILE_NOT_FOUND)
      | Some f \<Rightarrow>
          let failed = (\<lambda>s. (VAL_ERR_IO, 0, [],
                val_internal_set_error_detailed (fs_close f s) VAL_ERR_IO VAL_ERROR_DETAIL_PERMISSION));
              (r, s) = fs_seek f 0 SEEK_END s
          in if r \<noteq> 0 then failed s
             else
               let (sz, s) = fs_tell f s in
               if sz < 0 then failed s
               else
                 let (r, s) = fs_seek f 0 SEEK_SET s in
                 if r \<noteq> 0 then failed s
                 else
                   let s = fs_close f s;
                       cleaned = the (val_clean_filename (Some (basename_loop filepath filepath)) (VAL_MAX_FILENAME + 1))
                   in (VAL_OK, word_of_int sz, snd (snprintf (VAL_MAX_FILENAME + 1) cleaned), s))"

text \<open>A string in a character array: the text, a NUL, and the zeros of \<^verbatim>\<open>memset\<close>.\<close>

definition char_array :: "nat \<Rightarrow> cstr \<Rightarrow> u8 list" where
  "char_array n txt = mem_write (replicate n 0) 0 (txt @ [0])"

definition send_metadata ::
    "'w val_session \<Rightarrow> cstr option \<Rightarrow> u64 \<Rightarrow> cstr option \<Rightarrow> val_status_t \<times> 'w val_session" where
  "send_metadata s sender_path file_size filename =
     (let name = (case filename of
            Some n \<Rightarrow> char_array (VAL_MAX_FILENAME + 1) (snd (snprintf (VAL_MAX_FILENAME + 1) n))
          | None \<Rightarrow> replicate (VAL_MAX_FILENAME + 1) 0);
          path = (case sender_path of
            Some p \<Rightarrow>
              let cleaned = the (val_clean_path (Some p) (VAL_MAX_PATH + 1))
              in char_array (VAL_MAX_PATH + 1) (snd (snprintf (VAL_MAX_PATH + 1) cleaned))
          | None \<Rightarrow> replicate (VAL_MAX_PATH + 1) 0);
          meta = \<lparr>meta_filename = name, meta_sender_path = path, meta_file_size = file_size\<rparr>;
          meta_wire = val_serialize_meta meta (replicate VAL_WIRE_META_SIZE 0)
      in val_internal_send_packet s VAL_PKT_SEND_META (P_BYTES meta_wire) (of_nat VAL_WIRE_META_SIZE) 0)"

definition compute_crc_region ::
    "'w val_session \<Rightarrow> cstr \<Rightarrow> u64 \<Rightarrow> u64 \<Rightarrow> (val_status_t \<times> u32 option \<times> 'w val_session) option" where
  "compute_crc_region s filepath end_offset len =
     (if len = 0 \<or> end_offset < len then Some (VAL_ERR_INVALID_ARG, None, s)
      else
        let (f, s) = fs_open filepath ''rb'' s in
        case f of
          None \<Rightarrow> Some (VAL_ERR_IO, None, val_internal_set_error_detailed s VAL_ERR_IO VAL_ERROR_DETAIL_PERMISSION)
        | Some f \<Rightarrow> do {
            (rst, crc_tmp, s) \<leftarrow> val_internal_crc32_region s f (end_offset - len) len;
            let s = fs_close f s;
            Some (if rst \<noteq> VAL_OK then (rst, None, s) else (VAL_OK, Some crc_tmp, s))
          })"

section \<open>Contexts\<close>

record val_send_progress_ctx_t =
  pg_total_files :: u32
  pg_files_sent :: u32
  pg_batch_total_bytes :: u64
  pg_batch_sent_bytes :: u64
  pg_current_file_bytes :: u64
  pg_current_file_sent :: u64
  pg_start_ms :: u32
  pg_last_emit_tick :: u32

text \<open>The payload area of the I/O context is always the content area of the send buffer.\<close>

record val_sender_io_ctx_t =
  io_file_handle :: nat
  io_max_payload :: u32
  io_file_size :: u64
  io_file_cursor :: u64

text \<open>
  The locals of \<^verbatim>\<open>send_file_data_adaptive\<close> that the functions it calls update through pointers, and
  the progress context of the caller.
\<close>

record sender_vars =
  sv_io :: val_sender_io_ctx_t
  sv_last_acked :: u64
  sv_next_to_send :: u64
  sv_inflight :: u32
  sv_win :: u32
  sv_first_ack_grace :: bool
  sv_progress :: "val_send_progress_ctx_t option"

text \<open>The acknowledgement context without the pointers to these variables.\<close>

record val_sender_ack_ctx_t =
  ac_filename :: cstr
  ac_max_payload :: u64
  ac_target_ack :: u64
  ac_to_ack :: u32
  ac_to_ack_base :: u32
  ac_tries :: u8
  ac_tries_initial :: u8
  ac_backoff :: u32
  ac_backoff_initial :: u32
  ac_wait_deadline :: u32
  ac_t0 :: u32

section \<open>Resume negotiation\<close>

text \<open>The VERIFY exchange: the CRC of the tail that ends at the resume offset, and the peer's verdict.\<close>

definition sender_verify ::
    "cstr \<Rightarrow> u64 \<Rightarrow> u32 \<Rightarrow> 'w val_session \<Rightarrow> (val_status_t \<times> u64 \<times> 'w val_session) option" where
  "sender_verify filepath resume_off vlen32 s =
     (let start = resume_off - ucast vlen32;
          (f, s) = fs_open filepath ''rb'' s
      in case f of
           None \<Rightarrow> Some (VAL_ERR_IO, 0, s)
         | Some f \<Rightarrow>
             let s = (if start > 0 then snd (fs_seek f (sint start) SEEK_SET s) else s) in do {
               (crcs, crc, s) \<leftarrow> val_internal_crc32_region s f start (ucast vlen32);
               let s = fs_close f s;
               if crcs \<noteq> VAL_OK then Some (crcs, 0, s)
               else
                 let verify_payload = val_serialize_verify_request start crc vlen32 (replicate VAL_WIRE_VERIFY_REQ_SIZE 0);
                     (st, s) = val_internal_send_packet s VAL_PKT_VERIFY (P_BYTES verify_payload) (of_nat VAL_WIRE_VERIFY_REQ_SIZE) 0
                 in if st \<noteq> VAL_OK then Some (st, 0, s)
                    else val_internal_wait_verify_result s verify_payload resume_off 0
             })"

definition handle_resume_negotiation ::
    "'w val_session \<Rightarrow> u64 \<Rightarrow> cstr \<Rightarrow> (val_status_t \<times> u64 \<times> 'w val_session) option" where
  "handle_resume_negotiation s file_size filepath =
     (let (st, s) = val_internal_send_packet s VAL_PKT_RESUME_REQ P_NULL 0 0 in
      if st \<noteq> VAL_OK then Some (st, 0, s)
      else
        let to_ms = val_internal_get_timeout s VAL_OP_META;
            tries = ack_retries (retries (cfg s));
            backoff = backoff_ms_base (retries (cfg s))
        in do {
          (st, rx, resp_buf, s) \<leftarrow> val_internal_wait_resume_resp s to_ms tries backoff
                                     (replicate VAL_WIRE_RESUME_RESP_SIZE 0) (of_nat VAL_WIRE_RESUME_RESP_SIZE);
          if st \<noteq> VAL_OK then Some (st, 0, s)
          else if rx_len rx < of_nat VAL_WIRE_RESUME_RESP_SIZE then Some (VAL_ERR_PROTOCOL, 0, s)
          else
            let rr = val_deserialize_resume_resp resp_buf;
                resume_off = (if rr_resume_offset rr > file_size then 0 else rr_resume_offset rr)
            in case rr_action rr of
                 VAL_RESUME_START_ZERO \<Rightarrow> Some (VAL_OK, 0, s)
               | VAL_RESUME_START_OFFSET \<Rightarrow> Some (VAL_OK, resume_off, s)
               | VAL_RESUME_SKIP_FILE \<Rightarrow> Some (VAL_OK, UINT64_MAX, s)
               | VAL_RESUME_ABORT_FILE \<Rightarrow> Some (VAL_ERR_ABORTED, 0, s)
               | VAL_RESUME_VERIFY_FIRST \<Rightarrow>
                   let vlen32 = (ucast (if rr_verify_length rr > resume_off then resume_off else rr_verify_length rr) :: u32)
                   in if vlen32 = 0 then Some (VAL_OK, resume_off, s)
                      else sender_verify filepath resume_off vlen32 s
               | VAL_RESUME_ACTION_OTHER _ \<Rightarrow> Some (VAL_ERR_PROTOCOL, 0, s)
        })"

section \<open>Sending data\<close>

text \<open>The read loop fills the content area of the send buffer until enough bytes are there or a read gives none.\<close>

function read_data_loop :: "nat \<Rightarrow> nat \<Rightarrow> nat \<Rightarrow> 'w val_session \<Rightarrow> nat \<times> 'w val_session" where
  "read_data_loop h to_read got s =
     (if got < to_read then
        let (bs, s) = fs_read (of_nat (to_read - got)) h s;
            s = s\<lparr>send_buf := mem_write (send_buf s) (VAL_WIRE_HEADER_SIZE + got) bs\<rparr>
        in if bs = [] then (got, s) else read_data_loop h to_read (got + length bs) s
      else (got, s))"
  by pat_completeness auto
termination
proof (relation "measure (\<lambda>(h, to_read, got, s). to_read - got)", goal_cases)
  case (2 h to_read got s x bs s1 s2)
  have "0 < length bs" using 2(5) by (cases bs) simp_all
  then have "to_read - (got + length bs) < to_read - got" using 2(1) by linarith
  then show ?case by simp
qed simp

declare read_data_loop.simps [simp del]

definition send_data_packet ::
    "sender_vars \<Rightarrow> bool \<Rightarrow> 'w val_session \<Rightarrow> val_status_t \<times> sender_vars \<times> 'w val_session" where
  "send_data_packet v include_offset s =
     (let io = sv_io v; next_to_send = sv_next_to_send v in
      if fs_fread (filesystem (cfg s)) = None then (VAL_ERR_INVALID_ARG, v, s)
      else if io_max_payload io = 0 then (VAL_ERR_INVALID_ARG, v, s)
      else if next_to_send \<ge> io_file_size io then (VAL_OK, v, s)
      else
        let remaining = io_file_size io - next_to_send;
            max_payload_this_pkt = (ucast (io_max_payload io) :: size_t)
        in if include_offset \<and> max_payload_this_pkt \<le> 8 then (VAL_ERR_INVALID_ARG, v, s)
           else
             let max_payload_this_pkt = (if include_offset then max_payload_this_pkt - 8 else max_payload_this_pkt);
                 to_read = (if remaining < max_payload_this_pkt then remaining else max_payload_this_pkt)
             in if to_read = 0 then (VAL_OK, v, s)
                else
                  let (io, s) = (if io_file_cursor io \<noteq> next_to_send
                                 then (io\<lparr>io_file_cursor := next_to_send\<rparr>,
                                       snd (fs_seek (io_file_handle io) (sint next_to_send) SEEK_SET s))
                                 else (io, s));
                      v = v\<lparr>sv_io := io\<rparr>;
                      (got, s) = read_data_loop (io_file_handle io) (unat to_read) 0 s
                  in if got \<noteq> unat to_read then (VAL_ERR_IO, v, s)
                     else
                       let (st, s) = val_internal_send_packet_ex s VAL_PKT_DATA P_IN_SEND_BUF (ucast to_read)
                                       next_to_send include_offset
                       in if st \<noteq> VAL_OK then (st, v, s)
                          else (VAL_OK,
                                v\<lparr>sv_next_to_send := next_to_send + to_read,
                                  sv_io := io\<lparr>io_file_cursor := io_file_cursor io + to_read\<rparr>,
                                  sv_inflight := sv_inflight v + 1\<rparr>, s))"

text \<open>The file position is moved to the last acknowledged byte unless it is there.\<close>

definition rewind_file :: "sender_vars \<Rightarrow> 'w val_session \<Rightarrow> 'w val_session" where
  "rewind_file v s =
     (let h = io_file_handle (sv_io v);
          (pos, s) = fs_tell h s
      in if pos < 0 \<or> word_of_int pos \<noteq> sv_last_acked v
         then snd (fs_seek h (sint (sv_last_acked v)) SEEK_SET s) else s)"

definition handle_nak_retransmit :: "sender_vars \<Rightarrow> 'w val_session \<Rightarrow> sender_vars \<times> 'w val_session" where
  "handle_nak_retransmit v s =
     (let s = val_internal_record_transmission_error s;
          s = val_metrics_inc_retrans s;
          s = val_metrics_inc_timeout s;
          s = set_in_retransmit 1 s;
          s = rewind_file v s
      in (v\<lparr>sv_inflight := 0, sv_next_to_send := sv_last_acked v\<rparr>, s))"

section \<open>Progress\<close>

text \<open>The rate in bytes per second and the estimated time, for a batch.\<close>

definition progress_rate :: "u64 \<Rightarrow> u64 \<Rightarrow> u32 \<Rightarrow> u32 \<times> u32" where
  "progress_rate transferred total_bytes elapsed_ms =
     (if elapsed_ms > 0 then
        let bps = (transferred * 1000) div ucast elapsed_ms;
            bps = (if bps > 0xFFFFFFFF then 0xFFFFFFFF else bps);
            rate = (ucast bps :: u32)
        in (rate, if total_bytes > transferred \<and> rate > 0 then ucast ((total_bytes - transferred) div ucast rate) else 0)
      else (0, 0))"

definition val_emit_progress_sender ::
    "'w val_session \<Rightarrow> val_send_progress_ctx_t option \<Rightarrow> cstr \<Rightarrow> u64 \<Rightarrow> bool \<Rightarrow>
     val_send_progress_ctx_t option \<times> 'w val_session" where
  "val_emit_progress_sender s ctx filename sent force_emit =
     (if on_progress (callbacks (cfg s)) = None then (ctx, s)
      else
        let (now, s) = ticks s in
        case ctx of
          None \<Rightarrow>
            (None, call_progress \<lparr>pi_bytes_transferred = sent, pi_total_bytes = 0, pi_current_file_bytes = sent,
               pi_files_completed = 0, pi_total_files = 0, pi_transfer_rate_bps = 0, pi_eta_seconds = 0,
               pi_current_filename = filename\<rparr> s)
        | Some c \<Rightarrow>
            let c = (if pg_start_ms c = 0 \<and> now \<noteq> 0 then c\<lparr>pg_start_ms := now\<rparr> else c);
                c = c\<lparr>pg_current_file_sent := sent\<rparr>;
                transferred = pg_batch_sent_bytes c + pg_current_file_sent c;
                elapsed_ms = (if pg_start_ms c \<noteq> 0 \<and> now \<ge> pg_start_ms c then now - pg_start_ms c else 0);
                (rate, eta) = progress_rate transferred (pg_batch_total_bytes c) elapsed_ms
            in if \<not> force_emit \<and> pg_last_emit_tick c \<noteq> 0 \<and> now \<noteq> 0 \<and> now - pg_last_emit_tick c < 50
               then (Some c, s)
               else
                 (Some (c\<lparr>pg_last_emit_tick := now\<rparr>),
                  call_progress \<lparr>pi_bytes_transferred = transferred, pi_total_bytes = pg_batch_total_bytes c,
                    pi_current_file_bytes = pg_current_file_sent c, pi_files_completed = pg_files_sent c,
                    pi_total_files = pg_total_files c, pi_transfer_rate_bps = rate, pi_eta_seconds = eta,
                    pi_current_filename = filename\<rparr> s))"

section \<open>Waiting for acknowledgements\<close>

definition window_of :: "'w val_session \<Rightarrow> u32" where
  "window_of s = (if current_window_packets s \<noteq> 0 then ucast (current_window_packets s) else 1)"

text \<open>A NAK: adopt its offset when it advances, then go back.\<close>

definition on_data_nak :: "u64 \<Rightarrow> sender_vars \<Rightarrow> 'w val_session \<Rightarrow> sender_vars \<times> 'w val_session" where
  "on_data_nak off v s =
     (let v = (if off > sv_last_acked v \<and> off \<le> io_file_size (sv_io v) then v\<lparr>sv_last_acked := off\<rparr> else v);
          (v, s) = handle_nak_retransmit v s
      in (v\<lparr>sv_io := (sv_io v)\<lparr>io_file_cursor := sv_last_acked v\<rparr>, sv_win := window_of s\<rparr>, s))"

text \<open>An acknowledgement: the result is a status when the wait is over, \<open>None\<close> when it goes on.\<close>

definition on_data_ack ::
    "u64 \<Rightarrow> val_sender_ack_ctx_t \<Rightarrow> sender_vars \<Rightarrow> 'w val_session \<Rightarrow>
     val_status_t option \<times> val_sender_ack_ctx_t \<times> sender_vars \<times> 'w val_session" where
  "on_data_ack off ctx v s =
     (let s = (if sys_get_ticks_ms (system (cfg s)) \<noteq> None
               then let (now, s) = ticks s in s\<lparr>last_keepalive_recv_time := now\<rparr> else s);
          s = (if ac_t0 ctx \<noteq> 0 \<and> in_retransmit (timing s) = 0
               then let (now, s) = ticks s in val_internal_record_rtt s (now - ac_t0 ctx) else s);
          v = v\<lparr>sv_first_ack_grace := False\<rparr>
      in if off \<le> sv_last_acked v then (None, ctx, v, s)
         else
           let s = (if in_retransmit (timing s) = 0 then val_internal_record_transmission_success s else s);
               v = v\<lparr>sv_last_acked := off\<rparr>;
               s = s\<lparr>health := (health s)\<lparr>soft_trips := 0\<rparr>\<rparr>;
               (prog, s) = val_emit_progress_sender s (sv_progress v) (ac_filename ctx) off True;
               v = v\<lparr>sv_progress := prog\<rparr>
           in if val_check_for_cancel s then (Some VAL_ERR_ABORTED, ctx, v, s)
              else
                let outstanding = (if sv_next_to_send v > sv_last_acked v then sv_next_to_send v - sv_last_acked v else 0);
                    v = v\<lparr>sv_inflight := ucast ((outstanding + ac_max_payload ctx - 1) div ac_max_payload ctx)\<rparr>;
                    (now, s) = ticks s;
                    ctx = ctx\<lparr>ac_wait_deadline := now + ac_to_ack_base ctx, ac_tries := ac_tries_initial ctx,
                              ac_backoff := ac_backoff_initial ctx\<rparr>;
                    s = set_in_retransmit 0 s
                in (if sv_last_acked v < ac_target_ack ctx then None else Some VAL_OK, ctx, v, s))"

text \<open>No acknowledgement in time with retries left: go back to the last acknowledged byte.\<close>

definition on_ack_timeout ::
    "val_status_t \<Rightarrow> val_sender_ack_ctx_t \<Rightarrow> sender_vars \<Rightarrow> 'w val_session \<Rightarrow>
     val_sender_ack_ctx_t \<times> sender_vars \<times> 'w val_session" where
  "on_ack_timeout st ctx v s =
     (let s = VAL_HEALTH_RECORD_RETRY s;
          s = (if st = VAL_ERR_CRC then val_metrics_inc_crcerr s else s);
          s = (if st = VAL_ERR_TIMEOUT then val_metrics_inc_timeout s else s);
          s = val_internal_record_transmission_error s;
          s = val_metrics_inc_retrans s;
          s = set_in_retransmit 1 s;
          s = rewind_file v s;
          v = v\<lparr>sv_io := (sv_io v)\<lparr>io_file_cursor := sv_last_acked v\<rparr>, sv_inflight := 0,
                sv_next_to_send := sv_last_acked v, sv_win := window_of s\<rparr>;
          ctx = ctx\<lparr>ac_tries := ac_tries ctx - 1, ac_backoff := 0\<rparr>
      in (ctx, v, s))"

definition ack_gave_up :: "val_status_t \<Rightarrow> 'w val_session \<Rightarrow> 'w val_session" where
  "ack_gave_up st s =
     (if st = VAL_ERR_TIMEOUT
      then val_metrics_inc_timeout (VAL_SET_TIMEOUT_ERROR s VAL_ERROR_DETAIL_TIMEOUT_ACK)
      else if st = VAL_ERR_CRC then VAL_SET_CRC_ERROR s VAL_ERROR_DETAIL_PACKET_CORRUPT else s)"

text \<open>The flag of the result is \<^verbatim>\<open>*restart_window\<close>.\<close>

partial_function (option) window_ack_loop ::
    "val_sender_ack_ctx_t \<Rightarrow> sender_vars \<Rightarrow> u8 list \<Rightarrow> 'w val_session \<Rightarrow>
     (val_status_t \<times> bool \<times> val_sender_ack_ctx_t \<times> sender_vars \<times> 'w val_session) option" where
  "window_ack_loop ctx v ctrl_buf s =
     (if val_check_for_cancel s then Some (VAL_ERR_ABORTED, False, ctx, v, s)
      else
        let (now_wait, s) = ticks s;
            deadline = now_wait + (if ac_to_ack ctx \<noteq> 0 then ac_to_ack ctx else 1)
        in do {
          (st, rx, mem, s) \<leftarrow> val_internal_recv_until_deadline s (Some ctrl_buf) 32 deadline 5;
          let ctrl_buf = the mem;
          if st = VAL_OK then
            (if rx_type rx = VAL_PKT_CANCEL then Some (VAL_ERR_ABORTED, False, ctx, v, s)
             else if rx_type rx = VAL_PKT_DATA_NAK then
               (case on_data_nak (rx_off rx) v s of (v, s) \<Rightarrow> Some (VAL_OK, True, ctx, v, s))
             else if rx_type rx = VAL_PKT_DATA_ACK then
               (case on_data_ack (rx_off rx) ctx v s of
                  (Some st, ctx, v, s) \<Rightarrow> Some (st, False, ctx, v, s)
                | (None, ctx, v, s) \<Rightarrow> window_ack_loop ctx v ctrl_buf s)
             else if rx_type rx = VAL_PKT_ERROR then Some (VAL_ERR_PROTOCOL, False, ctx, v, s)
             else window_ack_loop ctx v ctrl_buf s)
          else if st \<noteq> VAL_ERR_TIMEOUT \<and> st \<noteq> VAL_ERR_CRC then Some (st, False, ctx, v, s)
          else if ac_tries ctx = 0 then Some (st, False, ctx, v, ack_gave_up st s)
          else (case on_ack_timeout st ctx v s of (ctx, v, s) \<Rightarrow> Some (VAL_OK, True, ctx, v, s))
        })"

definition wait_for_window_ack ::
    "val_sender_ack_ctx_t \<Rightarrow> sender_vars \<Rightarrow> 'w val_session \<Rightarrow>
     (val_status_t \<times> bool \<times> val_sender_ack_ctx_t \<times> sender_vars \<times> 'w val_session) option" where
  "wait_for_window_ack ctx v s = window_ack_loop ctx v (replicate 32 0) s"

text \<open>The wait for a resume acknowledgement; no function of the sender calls it.\<close>

partial_function (option) await_resume_ack_loop ::
    "u64 \<Rightarrow> u32 \<Rightarrow> u8 \<Rightarrow> u32 \<Rightarrow> 'w val_session \<Rightarrow> (val_status_t \<times> u64 \<times> 'w val_session) option" where
  "await_resume_ack_loop file_size to_ms tries backoff s =
     (let s = VAL_HEALTH_RECORD_OPERATION s;
          (hst, s) = val_internal_check_health s
      in if hst \<noteq> VAL_OK then Some (hst, 0, s)
         else
           let (now, s) = ticks s;
               deadline = now + (if to_ms \<noteq> 0 then to_ms else 1)
           in do {
             (st, rx, mem, s) \<leftarrow> val_internal_recv_until_deadline s (Some (replicate 32 0)) 32 deadline 5;
             if st = VAL_OK then
               (if rx_type rx = VAL_PKT_CANCEL then Some (VAL_ERR_ABORTED, 0, s)
                else if rx_type rx = VAL_PKT_ERROR then Some (VAL_ERR_PROTOCOL, 0, s)
                else if rx_type rx = VAL_PKT_DATA_ACK
                then Some (VAL_OK, if rx_off rx \<ge> file_size then UINT64_MAX else rx_off rx, s)
                else await_resume_ack_loop file_size to_ms tries backoff s)
             else if st = VAL_ERR_TIMEOUT \<or> st = VAL_ERR_CRC then
               (if tries = 0 then
                  Some (st, 0, if st = VAL_ERR_TIMEOUT then VAL_SET_TIMEOUT_ERROR s VAL_ERROR_DETAIL_TIMEOUT_ACK
                               else VAL_SET_CRC_ERROR s VAL_ERROR_DETAIL_PACKET_CORRUPT)
                else
                  let s = VAL_HEALTH_RECORD_RETRY s;
                      s = (if backoff \<noteq> 0 then delay backoff s else s)
                  in await_resume_ack_loop file_size to_ms (tries - 1) (push_bit 1 backoff) s)
             else Some (st, 0, s)
           })"

definition await_resume_ack :: "'w val_session \<Rightarrow> u64 \<Rightarrow> (val_status_t \<times> u64 \<times> 'w val_session) option" where
  "await_resume_ack s file_size =
     await_resume_ack_loop file_size (val_internal_get_timeout s VAL_OP_META) (ack_retries (retries (cfg s)))
       (backoff_ms_base (retries (cfg s))) s"

section \<open>Sending a file\<close>

text \<open>\<^verbatim>\<open>reported_path\<close>: the path the application gave, or else the path of the file.\<close>

definition reported_path :: "cstr option \<Rightarrow> cstr \<Rightarrow> cstr" where
  "reported_path sender_path filepath = (case sender_path of Some p \<Rightarrow> if p \<noteq> [] then p else filepath | None \<Rightarrow> filepath)"

text \<open>The file the receiver asked to skip: DONE without data.\<close>

definition send_skipped ::
    "cstr \<Rightarrow> cstr \<Rightarrow> u64 \<Rightarrow> 'w val_session \<Rightarrow> (val_status_t \<times> 'w val_session) option" where
  "send_skipped filename path fsize s =
     (let s = call_file_start filename path fsize fsize s;
          (st, s) = val_internal_send_packet s VAL_PKT_DONE P_NULL 0 fsize
      in if st \<noteq> VAL_OK then Some (st, s)
         else do {
           (st, s) \<leftarrow> val_internal_wait_done_ack s fsize;
           if st \<noteq> VAL_OK then Some (st, call_file_complete filename path st s)
           else Some (VAL_OK, val_metrics_inc_files_sent (call_file_complete filename path VAL_SKIPPED s))
         })"

text \<open>Close the file, report, and leave with a status.\<close>

definition close_and_report :: "nat \<Rightarrow> cstr \<Rightarrow> cstr \<Rightarrow> val_status_t \<Rightarrow> 'w val_session \<Rightarrow> 'w val_session" where
  "close_and_report f filename path st s = call_file_complete filename path st (fs_close f s)"

text \<open>Filling the window; a cancelled session or a failed send leaves the function.\<close>

partial_function (option) fill_window ::
    "cstr \<Rightarrow> cstr \<Rightarrow> sender_vars \<Rightarrow> 'w val_session \<Rightarrow> (sender_vars, 'w) part" where
  "fill_window filename path v s =
     (if sv_inflight v < sv_win v \<and> sv_next_to_send v < io_file_size (sv_io v) then
        if val_check_for_cancel s
        then Some (Return VAL_ERR_ABORTED, close_and_report (io_file_handle (sv_io v)) filename path VAL_ERR_ABORTED s)
        else
          let include_offset = (sv_next_to_send v = sv_last_acked v);
              (send_status, v, s) = send_data_packet v include_offset s
          in if send_status \<noteq> VAL_OK then Some (Return send_status, fs_close (io_file_handle (sv_io v)) s)
             else fill_window filename path v s
      else Some (Next v, s))"

text \<open>The loop of one window: fill, wait, and again after a restart.\<close>

definition window_ack_ctx ::
    "cstr \<Rightarrow> u64 \<Rightarrow> u32 \<Rightarrow> u32 \<Rightarrow> u8 \<Rightarrow> u32 \<Rightarrow> sender_vars \<Rightarrow> u32 \<Rightarrow> u32 \<Rightarrow> 'w val_session \<Rightarrow> val_sender_ack_ctx_t" where
  "window_ack_ctx filename max_payload ack_timeout_ms to_ack_base tries_rem backoff v t0 wait_deadline s =
     \<lparr>ac_filename = filename, ac_max_payload = max_payload, ac_target_ack = sv_next_to_send v,
      ac_to_ack = ack_timeout_ms, ac_to_ack_base = to_ack_base, ac_tries = tries_rem,
      ac_tries_initial = ack_retries (retries (cfg s)), ac_backoff = backoff,
      ac_backoff_initial = backoff_ms_base (retries (cfg s)), ac_wait_deadline = wait_deadline, ac_t0 = t0\<rparr>"

partial_function (option) send_window_loop ::
    "cstr \<Rightarrow> cstr \<Rightarrow> u64 \<Rightarrow> u32 \<Rightarrow> u32 \<Rightarrow> u8 \<Rightarrow> u32 \<Rightarrow> sender_vars \<Rightarrow> 'w val_session \<Rightarrow> (sender_vars, 'w) part" where
  "send_window_loop filename path max_payload ack_timeout_ms to_ack_base tries_rem backoff v s =
     do {
       (fl, s) \<leftarrow> fill_window filename path v s;
       case fl of
         Return st \<Rightarrow> Some (Return st, s)
       | Next v \<Rightarrow>
           let (t0, s) = ticks s;
               (now, s) = ticks s;
               s = set_in_retransmit 0 s;
               ctx = window_ack_ctx filename max_payload ack_timeout_ms to_ack_base tries_rem backoff v t0 (now + ack_timeout_ms) s
           in do {
             (ack_status, restart_window, ctx, v, s) \<leftarrow> wait_for_window_ack ctx v s;
             if ack_status \<noteq> VAL_OK
             then Some (Return ack_status, close_and_report (io_file_handle (sv_io v)) filename path ack_status s)
             else if restart_window then
               send_window_loop filename path max_payload ack_timeout_ms to_ack_base (ac_tries ctx) (ac_backoff ctx)
                 (v\<lparr>sv_win := window_of s\<rparr>) s
             else Some (Next v, s)
           }
     }"

text \<open>The health check of each round: a performance trip is forgiven once, until there is progress.\<close>

definition send_health :: "nat \<Rightarrow> cstr \<Rightarrow> cstr \<Rightarrow> 'w val_session \<Rightarrow> (unit flow) \<times> 'w val_session" where
  "send_health f filename path s =
     (let s = VAL_HEALTH_RECORD_OPERATION s;
          (hst, s) = val_internal_check_health s
      in if hst = VAL_OK then (Next (), s)
         else if hst = VAL_ERR_PERFORMANCE then
           let s = val_internal_record_transmission_error s;
               s = s\<lparr>health := (health s)\<lparr>soft_trips := soft_trips (health s) + 1\<rparr>\<rparr>
           in if soft_trips (health s) \<ge> 2
              then (Return VAL_ERR_PERFORMANCE,
                    VAL_SET_PERFORMANCE_ERROR (close_and_report f filename path VAL_ERR_PERFORMANCE s) VAL_ERROR_DETAIL_EXCESSIVE_RETRIES)
              else (Next (), s)
         else (Return hst, close_and_report f filename path hst s))"

text \<open>The loop over the file. The first acknowledgement after a resume gets more time and more tries.\<close>

partial_function (option) send_data_loop ::
    "cstr \<Rightarrow> cstr \<Rightarrow> u64 \<Rightarrow> u64 \<Rightarrow> u8 \<Rightarrow> sender_vars \<Rightarrow> 'w val_session \<Rightarrow> (sender_vars, 'w) part" where
  "send_data_loop filename path max_payload resume_off first_ack_extra_tries v s =
     (if sv_last_acked v < io_file_size (sv_io v) then
        if val_check_for_cancel s
        then Some (Return VAL_ERR_ABORTED, close_and_report (io_file_handle (sv_io v)) filename path VAL_ERR_ABORTED s)
        else
          case send_health (io_file_handle (sv_io v)) filename path s of
            (Return st, s) \<Rightarrow> Some (Return st, s)
          | (Next _, s) \<Rightarrow>
              let to_ack_base = val_internal_get_timeout s VAL_OP_DATA_ACK;
                  graced = (sv_first_ack_grace v \<and> sv_last_acked v = resume_off);
                  ext = (if to_max_timeout_ms (timeouts (cfg s)) \<noteq> 0 then to_max_timeout_ms (timeouts (cfg s)) else to_ack_base);
                  ack_timeout_ms = (if graced \<and> ext > to_ack_base then ext else to_ack_base);
                  tries_rem = (if ack_retries (retries (cfg s)) \<noteq> 0 then ack_retries (retries (cfg s)) else 1);
                  tries_rem = (if graced then tries_rem + first_ack_extra_tries else tries_rem)
              in do {
                (fl, s) \<leftarrow> send_window_loop filename path max_payload ack_timeout_ms to_ack_base tries_rem
                             (backoff_ms_base (retries (cfg s))) v s;
                case fl of
                  Return st \<Rightarrow> Some (Return st, s)
                | Next v \<Rightarrow> send_data_loop filename path max_payload resume_off first_ack_extra_tries v s
              }
      else Some (Next v, s))"

text \<open>DONE, its acknowledgement, and the end of the file.\<close>

definition send_done ::
    "nat \<Rightarrow> cstr \<Rightarrow> cstr \<Rightarrow> u64 \<Rightarrow> 'w val_session \<Rightarrow> (val_status_t \<times> 'w val_session) option" where
  "send_done f filename path fsize s =
     (let (st, s) = val_internal_send_packet s VAL_PKT_DONE P_NULL 0 fsize in
      if st \<noteq> VAL_OK then Some (st, close_and_report f filename path st s)
      else do {
        (st, s) \<leftarrow> val_internal_wait_done_ack s fsize;
        if st \<noteq> VAL_OK then Some (st, close_and_report f filename path st s)
        else
          let s = close_and_report f filename path VAL_OK s;
              s = val_metrics_inc_files_sent s
          in Some (VAL_OK, val_internal_record_transmission_success s)
      })"

text \<open>Opening the file at the resume offset and the notifications before the first packet.\<close>

definition open_for_send ::
    "cstr \<Rightarrow> cstr \<Rightarrow> cstr \<Rightarrow> u64 \<Rightarrow> u64 \<Rightarrow> val_send_progress_ctx_t option \<Rightarrow> 'w val_session \<Rightarrow>
     (nat \<times> val_send_progress_ctx_t option) flow \<times> 'w val_session" where
  "open_for_send filepath filename path fsize resume_off progress_ctx s =
     (let (f, s) = fs_open filepath ''rb'' s in
      case f of
        None \<Rightarrow> (Return VAL_ERR_IO, s)
      | Some f \<Rightarrow>
          let (r, s) = (if resume_off \<noteq> 0 then fs_seek f (sint resume_off) SEEK_SET s else (0, s)) in
          if r \<noteq> 0 then (Return VAL_ERR_IO, fs_close f s)
          else
            let s = call_file_start filename path fsize resume_off s;
                (prog, s) = val_emit_progress_sender s progress_ctx filename resume_off True
            in if val_check_for_cancel s
               then (Return VAL_ERR_ABORTED, close_and_report f filename path VAL_ERR_ABORTED s)
               else (Next (f, prog), s))"

text \<open>
  The variables the data loop starts with. The packet size is checked first, as in the code; the
  send buffer of a session is never NULL. \<^verbatim>\<open>max_payload\<close> is a \<^verbatim>\<open>size_t\<close> that the I/O context keeps in 32 bits.
\<close>

definition send_vars_init ::
    "nat \<Rightarrow> u64 \<Rightarrow> u64 \<Rightarrow> size_t \<Rightarrow> val_send_progress_ctx_t option \<Rightarrow> 'w val_session \<Rightarrow> sender_vars" where
  "send_vars_init f fsize resume_off max_payload prog s =
     \<lparr>sv_io = \<lparr>io_file_handle = f, io_max_payload = ucast max_payload, io_file_size = fsize, io_file_cursor = resume_off\<rparr>,
      sv_last_acked = resume_off, sv_next_to_send = resume_off, sv_inflight = 0,
      sv_win = (if current_window_packets s \<noteq> 0 then ucast (current_window_packets s)
                else if negotiated_window_packets s \<noteq> 0 then ucast (negotiated_window_packets s) else 1),
      sv_first_ack_grace = (resume_off > 0), sv_progress = prog\<rparr>"

definition extra_tries :: "u64 \<Rightarrow> u8" where
  "extra_tries resume_off =
     (if resume_off > 0 then let blocks = resume_off div (256 * 1024 * 1024) in ucast (if blocks > 6 then 6 else blocks) else 0)"

text \<open>
  The window is read at the start of the function, before the metadata is sent: \<open>s0\<close>. The progress context
  is returned with the status; after a failure nobody reads it.
\<close>

definition send_file_body ::
    "'w val_session \<Rightarrow> nat \<Rightarrow> cstr \<Rightarrow> cstr \<Rightarrow> u64 \<Rightarrow> u64 \<Rightarrow> val_send_progress_ctx_t option \<Rightarrow> 'w val_session \<Rightarrow>
     (val_status_t \<times> val_send_progress_ctx_t option \<times> 'w val_session) option" where
  "send_file_body s0 f filename path fsize resume_off prog s =
     (let mtu_bytes = mtu s in
      if mtu_bytes \<le> of_nat (VAL_WIRE_HEADER_SIZE + VAL_WIRE_TRAILER_SIZE) then Some (VAL_ERR_INVALID_ARG, prog, fs_close f s)
      else
        let max_payload = mtu_bytes - of_nat VAL_WIRE_HEADER_SIZE - of_nat VAL_WIRE_TRAILER_SIZE in
        if max_payload = 0 then Some (VAL_ERR_INVALID_ARG, prog, fs_close f s)
        else do {
          (fl, s) \<leftarrow> send_data_loop filename path max_payload resume_off (extra_tries resume_off)
                       (send_vars_init f fsize resume_off max_payload prog s0) s;
          case fl of
            Return st \<Rightarrow> Some (st, prog, s)
          | Next v \<Rightarrow> do {
              (st, s) \<leftarrow> send_done f filename path fsize s;
              Some (st, sv_progress v, s)
            }
        })"

definition send_file_data_adaptive ::
    "'w val_session \<Rightarrow> cstr \<Rightarrow> cstr option \<Rightarrow> val_send_progress_ctx_t option \<Rightarrow>
     (val_status_t \<times> val_send_progress_ctx_t option \<times> 'w val_session) option" where
  "send_file_data_adaptive s filepath sender_path progress_ctx =
     (let s0 = s; (st, fsize, filename, s) = get_file_size_and_name s filepath in
      if st \<noteq> VAL_OK then Some (st, progress_ctx, s)
      else
        let path = reported_path sender_path filepath;
            (st, s) = send_metadata s (Some path) fsize (Some filename)
        in if st \<noteq> VAL_OK then Some (st, progress_ctx, s)
           else do {
             (rs, resume_off, s) \<leftarrow> handle_resume_negotiation s fsize filepath;
             if rs \<noteq> VAL_OK then Some (rs, progress_ctx, s)
             else if resume_off = UINT64_MAX then do {
               (st, s) \<leftarrow> send_skipped filename path fsize s;
               Some (st, progress_ctx, s)
             }
             else case open_for_send filepath filename path fsize resume_off progress_ctx s of
                    (Return st, s) \<Rightarrow> Some (st, progress_ctx, s)
                  | (Next (f, prog), s) \<Rightarrow> send_file_body s0 f filename path fsize resume_off prog s
           })"

definition val_internal_send_file ::
    "'w val_session \<Rightarrow> cstr \<Rightarrow> cstr option \<Rightarrow> val_send_progress_ctx_t option \<Rightarrow>
     (val_status_t \<times> val_send_progress_ctx_t option \<times> 'w val_session) option" where
  "val_internal_send_file s filepath sender_path progress_ctx = send_file_data_adaptive s filepath sender_path progress_ctx"

section \<open>Sending a batch\<close>

text \<open>The scan of the sizes and the loop over the files.\<close>

fun scan_sizes :: "cstr list \<Rightarrow> u64 \<Rightarrow> 'w val_session \<Rightarrow> u64 \<times> 'w val_session" where
  "scan_sizes [] acc s = (acc, s)"
| "scan_sizes (p # ps) acc s =
     (case get_file_size_and_name s p of (st, sz, _, s) \<Rightarrow> scan_sizes ps (if st = VAL_OK then acc + sz else acc) s)"

fun send_files_loop ::
    "cstr list \<Rightarrow> cstr option \<Rightarrow> val_send_progress_ctx_t \<Rightarrow> 'w val_session \<Rightarrow> (val_status_t \<times> 'w val_session) option" where
  "send_files_loop [] sender_path prog s = Some (VAL_OK, s)"
| "send_files_loop (p # ps) sender_path prog s =
     do {
       (st, prog', s) \<leftarrow> val_internal_send_file s p sender_path (Some prog);
       if st \<noteq> VAL_OK then Some (st, s) else send_files_loop ps sender_path (the prog') s
     }"

text \<open>The list of paths is NULL (\<open>None\<close>) or has \<^verbatim>\<open>file_count\<close> entries.\<close>

definition val_send_files ::
    "'w val_session \<Rightarrow> cstr list option \<Rightarrow> cstr option \<Rightarrow> (val_status_t \<times> 'w val_session) option" where
  "val_send_files s filepaths sender_path =
     (case filepaths of
        None \<Rightarrow> Some (VAL_ERR_INVALID_ARG, s)
      | Some ps \<Rightarrow>
          if ps = [] then Some (VAL_ERR_INVALID_ARG, s)
          else do {
            (hs, s) \<leftarrow> val_internal_do_handshake_sender (val_internal_lock s);
            if hs \<noteq> VAL_OK then Some (hs, val_internal_unlock s)
            else
              let (batch_total, s) = scan_sizes ps 0 s;
                  (start, s) = ticks s;
                  prog = \<lparr>pg_total_files = of_nat (length ps), pg_files_sent = 0, pg_batch_total_bytes = batch_total,
                          pg_batch_sent_bytes = 0, pg_current_file_bytes = 0, pg_current_file_sent = 0,
                          pg_start_ms = start, pg_last_emit_tick = 0\<rparr>
              in do {
                (st, s) \<leftarrow> send_files_loop ps sender_path prog s;
                if st \<noteq> VAL_OK then Some (st, val_internal_unlock s)
                else
                  let (st, s) = val_internal_send_packet s VAL_PKT_EOT P_NULL 0 0 in
                  if st \<noteq> VAL_OK then Some (st, val_internal_unlock s)
                  else do {
                    (st, s) \<leftarrow> val_internal_wait_eot_ack s;
                    Some (st, val_internal_unlock s)
                  }
              }
          })"

end
