(* ===== verification/Val_Window.thy ===== *)
theory Val_Window
  imports Val_Sender
begin

text \<open>
  The sender's window of \<^verbatim>\<open>src/val_sender.c\<close>: which packets a window and a file consist of, that
  \<^verbatim>\<open>send_data_packet\<close> and the fill loop send exactly these, and that the waits of the data loop take
  acknowledgements in order. The environment is given by observations of the world: the file that is read and the position in it,
  the bytes that were sent, and the bytes that wait.
\<close>

section \<open>The packets of a window\<close>

text \<open>
  What the sender is to send of a file: consecutive slices from \<open>n\<close> on, at most \<open>k\<close> of them and at most
  \<open>m\<close> bytes of content each; the packet at the last acknowledged byte carries its offset, in the first
  eight bytes of its content.
\<close>

definition chunk :: "u8 list \<Rightarrow> nat \<Rightarrow> nat \<Rightarrow> nat \<Rightarrow> nat" where
  "chunk F m acked n = min (length F - n) (if n = acked then m - 8 else m)"

definition data_pkt :: "u8 list \<Rightarrow> nat \<Rightarrow> nat \<Rightarrow> nat \<Rightarrow> pkt" where
  "data_pkt F m acked n = (VAL_PKT_DATA, take (chunk F m acked n) (drop n F), of_nat n, n = acked)"

fun window_pkts :: "u8 list \<Rightarrow> nat \<Rightarrow> nat \<Rightarrow> nat \<Rightarrow> nat \<Rightarrow> pkt list" where
  "window_pkts F m acked 0 n = []"
| "window_pkts F m acked (Suc k) n =
     (if n < length F then data_pkt F m acked n # window_pkts F m acked k (n + chunk F m acked n) else [])"

fun window_end :: "u8 list \<Rightarrow> nat \<Rightarrow> nat \<Rightarrow> nat \<Rightarrow> nat \<Rightarrow> nat" where
  "window_end F m acked 0 n = n"
| "window_end F m acked (Suc k) n =
     (if n < length F then window_end F m acked k (n + chunk F m acked n) else n)"

lemma chunk_bounds: "n < length F \<Longrightarrow> 8 < m \<Longrightarrow> 0 < chunk F m acked n \<and> n + chunk F m acked n \<le> length F \<and> chunk F m acked n \<le> m"
  by (auto simp: chunk_def)

lemma window_end_le: "n \<le> length F \<Longrightarrow> n \<le> window_end F m acked k n \<and> window_end F m acked k n \<le> length F"
proof (induction k arbitrary: n)
  case (Suc k)
  show ?case
  proof (cases "n < length F")
    case True
    have "n + chunk F m acked n \<le> window_end F m acked k (n + chunk F m acked n) \<and>
        window_end F m acked k (n + chunk F m acked n) \<le> length F"
      by (rule Suc.IH) (use True in \<open>simp add: chunk_def\<close>)
    then show ?thesis using True by simp
  qed (use Suc.prems in simp)
qed simp

text \<open>The positions the receiver acknowledges, one for each packet.\<close>

fun window_acks :: "u8 list \<Rightarrow> nat \<Rightarrow> nat \<Rightarrow> nat \<Rightarrow> nat \<Rightarrow> nat list" where
  "window_acks F m acked 0 n = []"
| "window_acks F m acked (Suc k) n =
     (if n < length F then (n + chunk F m acked n) # window_acks F m acked k (n + chunk F m acked n) else [])"

lemma window_acks_facts:
  assumes "8 < m"
  shows "\<forall>a \<in> set (window_acks F m acked k n). n < a \<and> a \<le> length F" "sorted_wrt (<) (window_acks F m acked k n)"
    "window_acks F m acked k n \<noteq> [] \<Longrightarrow> last (window_acks F m acked k n) = window_end F m acked k n"
proof (induction k arbitrary: n)
  case (Suc k)
  { case (1 n)
    show ?case
    proof (cases "n < length F")
      case True
      then show ?thesis using Suc.IH(1) [of "n + chunk F m acked n"] chunk_bounds [OF True assms, of acked] by auto
    qed simp
  next
    case (2 n)
    show ?case using Suc.IH(1,2) [of "n + chunk F m acked n"] by simp
  next
    case (3 n)
    show ?case
    proof (cases "window_acks F m acked k (n + chunk F m acked n) = []")
      case True
      then have "window_end F m acked k (n + chunk F m acked n) = n + chunk F m acked n" by (cases k) (auto split: if_splits)
      then show ?thesis using 3 True by (auto split: if_splits)
    next
      case False
      then show ?thesis using 3 Suc.IH(3) [of "n + chunk F m acked n"] by (auto split: if_splits)
    qed }
qed simp_all

text \<open>The windows of a file, from \<open>n\<close> on, and their acknowledgements.\<close>

function file_pkts :: "u8 list \<Rightarrow> nat \<Rightarrow> nat \<Rightarrow> nat \<Rightarrow> pkt list" where
  "file_pkts F m k n =
     (if n < window_end F m n k n then window_pkts F m n k n @ file_pkts F m k (window_end F m n k n) else [])"
  by pat_completeness auto
termination
proof (relation "measure (\<lambda>(F, m, k, n). length F - n)", goal_cases)
  case (2 F m k n)
  have "n < length F" using 2 by (cases k) (auto split: if_splits)
  then show ?case using 2 window_end_le [of n F m n k] by simp
qed simp

function file_acks :: "u8 list \<Rightarrow> nat \<Rightarrow> nat \<Rightarrow> nat \<Rightarrow> nat list" where
  "file_acks F m k n =
     (if n < window_end F m n k n then window_acks F m n k n @ file_acks F m k (window_end F m n k n) else [])"
  by pat_completeness auto
termination
proof (relation "measure (\<lambda>(F, m, k, n). length F - n)", goal_cases)
  case (2 F m k n)
  have "n < length F" using 2 by (cases k) (auto split: if_splits)
  then show ?case using 2 window_end_le [of n F m n k] by simp
qed simp

declare file_pkts.simps [simp del] file_acks.simps [simp del]

lemma window_moves:
  assumes "n < length F" and "8 < m" and "0 < k"
  shows "n < window_end F m n k n"
proof (cases k)
  case (Suc j)
  have "n + chunk F m n n \<le> window_end F m n j (n + chunk F m n n)"
    using window_end_le [of "n + chunk F m n n" F m n j] chunk_bounds [OF assms(1,2), of n] by simp
  then show ?thesis using Suc assms(1) chunk_bounds [OF assms(1,2), of n] by simp
qed (use assms in simp)

text \<open>
  The environment: the handle \<open>h\<close> reads the file \<open>content\<close>, the transport logs what is sent in \<open>tx\<close> and
  delivers \<open>rxq\<close>; the hooks do not disturb each other.
\<close>

definition source ::
    "'w val_config \<Rightarrow> nat \<Rightarrow> ('w \<Rightarrow> u8 list) \<Rightarrow> ('w \<Rightarrow> nat) \<Rightarrow> ('w \<Rightarrow> u8 list) \<Rightarrow> ('w \<Rightarrow> u8 list) \<Rightarrow> bool" where
  "source c h content pos tx rxq \<longleftrightarrow> plain c \<and> delivers c rxq \<and> reads_file c h content pos \<and>
     rx_keeps c (\<lambda>w. (content w, pos w, tx w)) \<and>
     (\<forall>sk w off wh. fs_fseek (filesystem c) = Some sk \<longrightarrow>
        tx (snd (sk w h off wh)) = tx w \<and> rxq (snd (sk w h off wh)) = rxq w) \<and>
     (\<forall>rd w n. fs_fread (filesystem c) = Some rd \<longrightarrow> tx (snd (rd w n h)) = tx w \<and> rxq (snd (rd w n h)) = rxq w) \<and>
     (\<exists>fn. tr_send (transport c) = Some fn \<and>
        (\<forall>w d. content (snd (fn w d)) = content w \<and> pos (snd (fn w d)) = pos w \<and>
           tx (snd (fn w d)) = tx w @ d \<and> rxq (snd (fn w d)) = rxq w)) \<and>
     (\<forall>fn w i. on_progress (callbacks c) = Some fn \<longrightarrow>
        (\<exists>w'. fn w i = (False, w') \<and> content w' = content w \<and> pos w' = pos w \<and> tx w' = tx w \<and> rxq w' = rxq w))"

text \<open>What sending leaves as it was.\<close>

definition calm :: "'w val_session \<Rightarrow> 'w val_session \<Rightarrow> bool" where
  "calm s s' \<longleftrightarrow> core s' = core s \<and> last_error s' = last_error s"

lemma calm_trans: "calm s s' \<Longrightarrow> calm s' s'' \<Longrightarrow> calm s s''"
  by (simp add: calm_def)

lemma calm_refl [simp]: "calm s s"
  by (simp add: calm_def)

lemma calm_facts:
  assumes "calm s s'"
  shows "cfg s' = cfg s" "mtu s' = mtu s" "session_ok s \<Longrightarrow> session_ok s'" "pkt_frame s' = pkt_frame s"
    "length (send_buf s') = length (send_buf s)" "val_check_for_cancel s' = val_check_for_cancel s"
    "build s' = build s" "fed rxq s \<Longrightarrow> fed rxq s'" "current_window_packets s' = current_window_packets s"
    "timing s' = timing s"
  using assms core_fields [of s' s] stable_session_ok [of s s'] frame_bytes_cfg [of s' s] fed_core [of rxq s s']
  by (simp_all add: calm_def mtu_def stable_def pkt_frame_def fun_eq_iff val_check_for_cancel_def)

text \<open>Reading the bytes of a packet into the send buffer.\<close>

lemma read_data_source:
  assumes src: "source (cfg s) h content pos tx rxq" and F: "content (world s) = F"
    and n: "0 < n" "pos (world s) + n \<le> length F" "n < 2 ^ 64" "8 + n \<le> length (send_buf s)"
  shows "\<exists>s'. read_data_loop h n 0 s = (n, s') \<and> calm s s' \<and> content (world s') = F \<and> pos (world s') = pos (world s) + n \<and>
     tx (world s') = tx (world s) \<and> rxq (world s') = rxq (world s) \<and>
     mem_read (send_buf s') 8 n = take n (drop (pos (world s)) F)"
proof -
  let ?b = "take n (drop (pos (world s)) F)"
  have rf: "reads_file (cfg s) h content pos" using src by (simp add: source_def)
  have u: "unat (of_nat n :: size_t) = n" using n(3) by (simp add: unat_of_nat_small)
  obtain w' where r: "fs_read (of_nat n) h s = (?b, s\<lparr>world := w'\<rparr>)" "pos w' = pos (world s) + n" "content w' = F"
    using fs_read_file [OF rf F, of "of_nat n"] n(2) unfolding u by blast
  have k: "tx w' = tx (world s)" "rxq w' = rxq (world s)"
  proof -
    obtain rd where rd: "fs_fread (filesystem (cfg s)) = Some rd" using rf by (auto simp: reads_file_def)
    have "snd (rd (world s) (of_nat n) h) = w'"
      using r(1) rd by (cases "rd (world s) (of_nat n) h") (auto simp: fs_read_def dest: arg_cong [where f = world])
    then show "tx w' = tx (world s)" "rxq w' = rxq (world s)" using src rd unfolding source_def by metis+
  qed
  let ?s = "s\<lparr>world := w', send_buf := mem_write (send_buf s) 8 ?b\<rparr>"
  have lb: "length ?b = n" "?b \<noteq> []" using n(1,2) by auto
  have l: "length (send_buf ?s) = length (send_buf s)" using lb n(4) by (simp add: length_mem_write)
  have e: "read_data_loop h n 0 s = read_data_loop h n (length ?b) ?s"
    using n(1) r(1) lb(2) by (subst read_data_loop.simps) (simp add: Let_def)
  have "read_data_loop h n (length ?b) ?s = (n, ?s)"
    unfolding lb(1) by (subst read_data_loop.simps) simp
  moreover have "calm s ?s" using l by (simp add: calm_def)
  moreover have "mem_read (send_buf ?s) 8 n = ?b" using lb n(4) by (simp add: mem_read_write_same)
  ultimately show ?thesis using e r(2,3) k by auto
qed

text \<open>The sender's variables are about the file \<open>F\<close>, its handle \<open>h\<close> and \<open>m\<close> bytes of content per packet.\<close>

definition sending :: "nat \<Rightarrow> u8 list \<Rightarrow> nat \<Rightarrow> sender_vars \<Rightarrow> bool" where
  "sending h F m v \<longleftrightarrow> io_file_handle (sv_io v) = h \<and> io_max_payload (sv_io v) = of_nat m \<and>
     io_file_size (sv_io v) = of_nat (length F)"

text \<open>Sizes within the packet format: a content length fits sixteen bits, a file offset sixty-three.\<close>

definition sizes_ok :: "'w val_session \<Rightarrow> u8 list \<Rightarrow> nat \<Rightarrow> bool" where
  "sizes_ok s F m \<longleftrightarrow> session_ok s \<and> m + 12 = unat (mtu s) \<and> m < 65536 \<and> length F < 2 ^ 63"

lemma sizes_ok_calm: "sizes_ok s F m \<Longrightarrow> calm s s' \<Longrightarrow> sizes_ok s' F m"
  using calm_facts [of s s'] by (simp add: sizes_ok_def)

lemma sizes_ok_m: "sizes_ok s F m \<Longrightarrow> 8 < m"
  using session_ok_mtu [of s] by (auto simp: sizes_ok_def)

text \<open>The words of the code are these numbers.\<close>

lemma to_read_words:
  assumes "n < length F" and "length F < 2 ^ 63" and "8 < m" and "m < 65536"
  shows "\<not> (ucast (of_nat m :: u32) :: size_t) \<le> 8"
    "(let mx = (ucast (of_nat m :: u32) :: size_t); mx = (if n = acked then mx - 8 else mx);
          rem = of_nat (length F) - of_nat n
      in if rem < mx then rem else mx) = of_nat (chunk F m acked n)"
proof -
  have um: "unat (ucast (of_nat m :: u32) :: size_t) = m" using assms(4) by (simp add: unat_of_nat_small)
  then show n8: "\<not> (ucast (of_nat m :: u32) :: size_t) \<le> 8" using assms(3) by (simp add: word_le_nat_alt)
  let ?mx = "if n = acked then (ucast (of_nat m :: u32) :: size_t) - 8 else ucast (of_nat m :: u32)"
  have ux: "unat ?mx = (if n = acked then m - 8 else m)"
    using um n8 by (simp add: unat_sub)
  have rem: "(of_nat (length F) - of_nat n :: u64) = of_nat (length F - n)" using assms(1) by (simp add: of_nat_diff)
  have ur: "unat (of_nat (length F - n) :: u64) = length F - n" using assms(2) by (simp add: unat_of_nat_small)
  have uc: "unat (of_nat (chunk F m acked n) :: u64) = chunk F m acked n"
    using assms(4) by (simp add: chunk_def unat_of_nat_small)
  have "unat (if (of_nat (length F - n) :: u64) < ?mx then of_nat (length F - n) else ?mx) = chunk F m acked n"
    unfolding unat_min_take ux ur chunk_def ..
  then show "(let mx = (ucast (of_nat m :: u32) :: size_t); mx = (if n = acked then mx - 8 else mx);
          rem = of_nat (length F) - of_nat n
      in if rem < mx then rem else mx) = of_nat (chunk F m acked n)"
    unfolding Let_def rem by (simp only: word_eq_iff_unsigned [where ?'a = nat] uc)
qed

lemma seek_source:
  assumes src: "source (cfg s) h content pos tx rxq" and F: "content (world s) = F" and n: "n \<le> length F" "length F < 2 ^ 63"
  shows "\<exists>s'. snd (fs_seek h (sint (of_nat n :: u64)) SEEK_SET s) = s' \<and> calm s s' \<and> content (world s') = F \<and> pos (world s') = n \<and>
     tx (world s') = tx (world s) \<and> rxq (world s') = rxq (world s) \<and> send_buf s' = send_buf s"
proof -
  have rf: "reads_file (cfg s) h content pos" using src by (simp add: source_def)
  have u: "unat (of_nat n :: u64) = n" using n by (simp add: unat_of_nat_small)
  have si: "sint (of_nat n :: u64) = int n" using sint_offset [of "of_nat n"] n unfolding u by simp
  obtain w' where r: "fs_seek h (int n) SEEK_SET s = (0, s\<lparr>world := w'\<rparr>)" "pos w' = n" "content w' = F"
    using fs_seek_file [OF rf F n(1)] by blast
  obtain sk where sk: "fs_fseek (filesystem (cfg s)) = Some sk" using rf by (auto simp: reads_file_def)
  have "snd (sk (world s) h (int n) SEEK_SET) = w'"
    using r(1) sk by (cases "sk (world s) h (int n) SEEK_SET") (auto simp: fs_seek_def dest: arg_cong [where f = world])
  then have "tx w' = tx (world s)" "rxq w' = rxq (world s)" using src sk unfolding source_def by metis+
  then show ?thesis using r unfolding si by (simp add: calm_def)
qed

lemma send_source:
  assumes src: "source (cfg s) h content pos tx rxq" and ok: "session_ok s" and p: "payload_is (send_buf s) payload bs"
    and room: "12 + needs_room t bs off ex \<le> unat (mtu s)" and small: "needs_room t bs off ex < 65536"
  shows "\<exists>s'. val__internal_send_packet_core s t payload (of_nat (length bs)) off ex = (VAL_OK, s') \<and> calm s s' \<and>
     content (world s') = content (world s) \<and> pos (world s') = pos (world s) \<and>
     tx (world s') = tx (world s) @ frame_bytes s t bs off ex \<and> rxq (world s') = rxq (world s)"
proof -
  obtain fn where fn: "tr_send (transport (cfg s)) = Some fn"
    "\<forall>w d. content (snd (fn w d)) = content w \<and> pos (snd (fn w d)) = pos w \<and> tx (snd (fn w d)) = tx w @ d \<and> rxq (snd (fn w d)) = rxq w"
    using src unfolding source_def by blast
  have "plain (cfg s)" using src by (simp add: source_def)
  from send_plain [OF ok this fn(1) p room small] show ?thesis using fn(2) by (auto simp: calm_def)
qed

lemma send_data_packet_source:
  assumes src: "source (cfg s) h content pos tx rxq" and F: "content (world s) = F" and sz: "sizes_ok s F m"
    and v: "sending h F m v" "sv_next_to_send v = of_nat n" "io_file_cursor (sv_io v) = of_nat (pos (world s))"
    and n: "n < length F" "pos (world s) \<le> length F"
  shows "\<exists>s'. send_data_packet v (n = acked) s = (VAL_OK,
       v\<lparr>sv_next_to_send := of_nat (n + chunk F m acked n),
         sv_io := (sv_io v)\<lparr>io_file_cursor := of_nat (n + chunk F m acked n)\<rparr>, sv_inflight := sv_inflight v + 1\<rparr>, s') \<and>
     calm s s' \<and> content (world s') = F \<and> pos (world s') = n + chunk F m acked n \<and>
     tx (world s') = tx (world s) @ pkt_frame s (data_pkt F m acked n) \<and> rxq (world s') = rxq (world s)"
proof -
  let ?c = "chunk F m acked n"
  have m: "8 < m" by (rule sizes_ok_m [OF sz])
  have lF: "length F < 2 ^ 63" and ok: "session_ok s" and mm: "m + 12 = unat (mtu s)" "m < 65536" using sz by (simp_all add: sizes_ok_def)
  note cb = chunk_bounds [OF n(1) m, of acked]
  note tw = to_read_words(1) [OF n(1) lF m mm(2)] to_read_words(2) [OF n(1) lF m mm(2), of acked, unfolded Let_def]
  have un: "unat (of_nat n :: u64) = n" "unat (of_nat (pos (world s)) :: u64) = pos (world s)"
    "unat (of_nat (length F) :: u64) = length F" using n lF by (simp_all add: unat_of_nat_small)
  have uc: "unat (of_nat ?c :: u64) = ?c" using cb mm(2) by (simp add: unat_of_nat_small)
  have rd: "fs_fread (filesystem (cfg s)) \<noteq> None" using src by (auto simp: source_def reads_file_def)
  have mp: "io_max_payload (sv_io v) \<noteq> 0" "io_max_payload (sv_io v) = of_nat m" "io_file_handle (sv_io v) = h"
    "io_file_size (sv_io v) = of_nat (length F)"
    using v(1) m mm(2) by (auto simp: sending_def word_eq_iff_unsigned [where ?'a = nat] unat_of_nat_small)
  have ge: "\<not> sv_next_to_send v \<ge> io_file_size (sv_io v)" using n(1) un by (simp add: v(2) mp(4) word_le_nat_alt)
  define io1 where "io1 = (if io_file_cursor (sv_io v) \<noteq> sv_next_to_send v then (sv_io v)\<lparr>io_file_cursor := sv_next_to_send v\<rparr> else sv_io v)"
  define s1 where "s1 = (if io_file_cursor (sv_io v) \<noteq> sv_next_to_send v then snd (fs_seek h (sint (sv_next_to_send v)) SEEK_SET s) else s)"
  have s1: "calm s s1" "content (world s1) = F" "pos (world s1) = n" "tx (world s1) = tx (world s)" "rxq (world s1) = rxq (world s)"
    using seek_source [OF src F less_imp_le [OF n(1)] lF] F un
    by (auto simp: s1_def v(2,3) word_eq_iff_unsigned [where ?'a = nat])
  have io1: "io1 = (sv_io v)\<lparr>io_file_cursor := of_nat n\<rparr>" "io_file_handle io1 = h" using v(2) mp(3) by (auto simp: io1_def)
  have src1: "source (cfg s1) h content pos tx rxq" using src calm_facts(1) [OF s1(1)] by simp
  have lb: "8 + ?c \<le> length (send_buf s1)"
    using cb mm session_ok_mtu [OF ok] calm_facts(5) [OF s1(1)] by simp
  obtain s2 where s2: "read_data_loop h ?c 0 s1 = (?c, s2)" "calm s1 s2" "content (world s2) = F" "pos (world s2) = n + ?c"
    "tx (world s2) = tx (world s1)" "rxq (world s2) = rxq (world s1)" "mem_read (send_buf s2) 8 ?c = take ?c (drop n F)"
    using read_data_source [OF src1 s1(2) _ _ _ lb] cb s1(3) mm(2) by auto
  note c2 = calm_trans [OF s1(1) s2(2)]
  have src2: "source (cfg s2) h content pos tx rxq" using src calm_facts(1) [OF c2] by simp
  let ?b = "take ?c (drop n F)"
  have len: "length ?b = ?c" using cb by auto
  have pay: "payload_is (send_buf s2) P_IN_SEND_BUF ?b"
    using s2(7) len cb mm(2) by (simp add: payload_is_def)
  have room: "12 + needs_room VAL_PKT_DATA ?b (of_nat n) (n = acked) \<le> unat (mtu s2)" "needs_room VAL_PKT_DATA ?b (of_nat n) (n = acked) < 65536"
    using len mm cb m calm_facts(2) [OF c2] by (auto simp: needs_room_def wire_content_def chunk_def)
  obtain s3 where s3: "val__internal_send_packet_core s2 VAL_PKT_DATA P_IN_SEND_BUF (of_nat ?c) (of_nat n) (n = acked) = (VAL_OK, s3)"
    "calm s2 s3" "content (world s3) = F" "pos (world s3) = n + ?c"
    "tx (world s3) = tx (world s2) @ frame_bytes s2 VAL_PKT_DATA ?b (of_nat n) (n = acked)" "rxq (world s3) = rxq (world s2)"
    using send_source [OF src2 calm_facts(3) [OF c2 ok] pay room] s2(3,4) unfolding len by auto
  have u32: "(ucast (of_nat ?c :: u64) :: u32) = of_nat ?c"
    using cb mm(2) by (simp add: word_eq_iff_unsigned [where ?'a = nat] unsigned_ucast_eq uc unat_of_nat_small take_bit_nat_eq_self)
  have nz: "(of_nat ?c :: u64) \<noteq> 0" using uc cb by (metis less_not_refl unat_0)
  have fb: "pkt_frame s2 = pkt_frame s" using calm_facts(4) [OF c2] by simp
  have e: "(if io_file_cursor (sv_io v) \<noteq> of_nat n
      then ((sv_io v)\<lparr>io_file_cursor := of_nat n\<rparr>, snd (fs_seek (io_file_handle (sv_io v)) (sint (of_nat n :: u64)) SEEK_SET s))
      else (sv_io v, s)) = (io1, s1)" using mp(3) by (simp add: io1_def s1_def v(2))
  have ge': "\<not> (of_nat (length F) :: u64) \<le> of_nat n" using ge by (simp add: v(2) mp(4))
  have r: "send_data_packet v (n = acked) s = (VAL_OK,
       v\<lparr>sv_io := io1, sv_next_to_send := of_nat n + of_nat ?c, sv_io := io1\<lparr>io_file_cursor := io_file_cursor io1 + of_nat ?c\<rparr>,
         sv_inflight := sv_inflight (v\<lparr>sv_io := io1\<rparr>) + 1\<rparr>, s3)"
    unfolding send_data_packet_def Let_def v(2) mp(2,4) if_not_P [OF ge'] e prod.case tw(2) uc io1(2) s2(1)
      val_internal_send_packet_ex_def u32 s3(1)
    using rd mp(1) tw(1) nz unfolding mp(2) by simp
  have "send_data_packet v (n = acked) s = (VAL_OK,
       v\<lparr>sv_next_to_send := of_nat (n + ?c), sv_io := (sv_io v)\<lparr>io_file_cursor := of_nat (n + ?c)\<rparr>, sv_inflight := sv_inflight v + 1\<rparr>, s3)"
    unfolding r by (simp add: v(2) io1(1))
  then show ?thesis
    using calm_trans [OF c2 s3(2)] s3 s2 s1 fb by (simp add: data_pkt_def pkt_frame_def fun_eq_iff)
qed

text \<open>The variables after a filled window.\<close>

definition filled :: "u8 list \<Rightarrow> nat \<Rightarrow> nat \<Rightarrow> nat \<Rightarrow> nat \<Rightarrow> sender_vars \<Rightarrow> sender_vars" where
  "filled F m acked k n v =
     (if window_pkts F m acked k n = [] then v
      else v\<lparr>sv_next_to_send := of_nat (window_end F m acked k n),
             sv_io := (sv_io v)\<lparr>io_file_cursor := of_nat (window_end F m acked k n)\<rparr>,
             sv_inflight := sv_inflight v + of_nat (length (window_pkts F m acked k n))\<rparr>)"

lemma window_pkts_length: "length (window_pkts F m acked k n) \<le> k"
  by (induction k arbitrary: n) auto

lemma window_pkts_Nil: "window_pkts F m acked k n = [] \<Longrightarrow> window_end F m acked k n = n"
  by (cases k) (auto split: if_splits)

lemma fill_window_source:
  assumes "source (cfg s) h content pos tx rxq" and "content (world s) = F" and "sizes_ok s F m"
    and "sending h F m v" "sv_next_to_send v = of_nat n" "io_file_cursor (sv_io v) = of_nat (pos (world s))"
    and "sv_last_acked v = of_nat acked" "acked \<le> length F" "n \<le> length F" "pos (world s) \<le> length F"
    and "\<not> val_check_for_cancel s" and "unat (sv_inflight v) + k = unat (sv_win v)"
  shows "\<exists>s'. fill_window filename path v s = Some (Next (filled F m acked k n v), s') \<and> calm s s' \<and> content (world s') = F \<and>
     (pos (world s') = (if window_pkts F m acked k n = [] then pos (world s) else window_end F m acked k n)) \<and>
     tx (world s') = tx (world s) @ concat (map (pkt_frame s) (window_pkts F m acked k n)) \<and> rxq (world s') = rxq (world s)"
  using assms
proof (induction k arbitrary: s v n)
  case 0
  have "\<not> sv_inflight v < sv_win v" using 0(12) by (simp add: word_less_nat_alt)
  then have "fill_window filename path v s = Some (Next v, s)" by (subst fill_window.simps) simp
  then show ?case using 0(2) by (simp add: filled_def)
next
  case (Suc k)
  have lt: "sv_inflight v < sv_win v" using Suc.prems(12) by (simp add: word_less_nat_alt)
  have lF: "length F < 2 ^ 63" using Suc.prems(3) by (simp add: sizes_ok_def)
  have un: "unat (of_nat n :: u64) = n" "unat (of_nat acked :: u64) = acked" "unat (of_nat (length F) :: u64) = length F"
    using Suc.prems(8,9) lF by (simp_all add: unat_of_nat_small)
  have fs: "io_file_size (sv_io v) = of_nat (length F)" using Suc.prems(4) by (simp add: sending_def)
  have more: "sv_next_to_send v < io_file_size (sv_io v) \<longleftrightarrow> n < length F" using un by (simp add: Suc.prems(5) fs word_less_nat_alt)
  show ?case
  proof (cases "n < length F")
    case False
    then have "fill_window filename path v s = Some (Next v, s)" using more by (subst fill_window.simps) simp
    then show ?thesis using False Suc.prems(2) by (simp add: filled_def)
  next
    case True
    let ?c = "chunk F m acked n" and ?n = "n + chunk F m acked n"
    note cb = chunk_bounds [OF True sizes_ok_m [OF Suc.prems(3)], of acked]
    have inc: "(sv_next_to_send v = sv_last_acked v) = (n = acked)"
      using un by (auto simp: Suc.prems(5,7) word_eq_iff_unsigned [where ?'a = nat])
    let ?v = "v\<lparr>sv_next_to_send := of_nat ?n, sv_io := (sv_io v)\<lparr>io_file_cursor := of_nat ?n\<rparr>, sv_inflight := sv_inflight v + 1\<rparr>"
    obtain s1 where s1: "send_data_packet v (n = acked) s = (VAL_OK, ?v, s1)" "calm s s1" "content (world s1) = F" "pos (world s1) = ?n"
      "tx (world s1) = tx (world s) @ pkt_frame s (data_pkt F m acked n)" "rxq (world s1) = rxq (world s)"
      using send_data_packet_source [OF Suc.prems(1-6) True Suc.prems(10), of acked] by blast
    note cf = calm_facts [OF s1(2)]
    have e: "fill_window filename path v s = fill_window filename path ?v s1"
      using lt more True Suc.prems(11) s1(1) by (subst fill_window.simps) (simp add: inc)
    have uw: "unat (sv_win v) < 4294967296" by (rule unat_less_2p32)
    have ui: "unat (sv_inflight v + 1) = unat (sv_inflight v) + 1"
      using Suc.prems(12) uw by (simp add: unat_word_ariths)
    have IH: "\<exists>s'. fill_window filename path ?v s1 = Some (Next (filled F m acked k ?n ?v), s') \<and> calm s1 s' \<and> content (world s') = F \<and>
        (pos (world s') = (if window_pkts F m acked k ?n = [] then pos (world s1) else window_end F m acked k ?n)) \<and>
        tx (world s') = tx (world s1) @ concat (map (pkt_frame s1) (window_pkts F m acked k ?n)) \<and> rxq (world s') = rxq (world s1)"
    proof (rule Suc.IH)
      show "source (cfg s1) h content pos tx rxq" using Suc.prems(1) cf(1) by simp
      show "content (world s1) = F" by (rule s1(3))
      show "sizes_ok s1 F m" by (rule sizes_ok_calm [OF Suc.prems(3) s1(2)])
      show "sending h F m ?v" using Suc.prems(4) by (simp add: sending_def)
      show "acked \<le> length F" by (rule Suc.prems(8))
      show "\<not> val_check_for_cancel s1" using Suc.prems(11) cf(6) by simp
      show "unat (sv_inflight ?v) + k = unat (sv_win ?v)" using Suc.prems(12) ui by simp
    qed (use Suc.prems(7) s1(4) cb in simp_all)
    then obtain s2 where s2: "fill_window filename path ?v s1 = Some (Next (filled F m acked k ?n ?v), s2)" "calm s1 s2" "content (world s2) = F"
      "pos (world s2) = (if window_pkts F m acked k ?n = [] then pos (world s1) else window_end F m acked k ?n)"
      "tx (world s2) = tx (world s1) @ concat (map (pkt_frame s1) (window_pkts F m acked k ?n))" "rxq (world s2) = rxq (world s1)"
      by blast
    have fe: "filled F m acked k ?n ?v = filled F m acked (Suc k) n v"
      using True by (simp add: filled_def window_pkts_Nil add.assoc)
    have pe: "pos (world s2) = window_end F m acked (Suc k) n"
      using s2(4) s1(4) True by (simp add: window_pkts_Nil)
    show ?thesis
      unfolding e s2(1) fe using True calm_trans [OF s1(2) s2(2)] s2(3,5,6) s1(5,6) cf(4) pe by simp
  qed
qed

section \<open>Waiting for acknowledgements: the peer acknowledges\<close>

abbreviation (input) watched where "watched content pos tx \<equiv> \<lambda>w. (content w, pos w, tx w)"

text \<open>A sender's session in its environment, with the file \<open>F\<close>.\<close>

definition sender_ready ::
    "nat \<Rightarrow> u8 list \<Rightarrow> nat \<Rightarrow> ('w \<Rightarrow> u8 list) \<Rightarrow> ('w \<Rightarrow> nat) \<Rightarrow> ('w \<Rightarrow> u8 list) \<Rightarrow> ('w \<Rightarrow> u8 list) \<Rightarrow> 'w val_session \<Rightarrow> bool" where
  "sender_ready h F m content pos tx rxq s \<longleftrightarrow> source (cfg s) h content pos tx rxq \<and> content (world s) = F \<and>
     sizes_ok s F m \<and> \<not> val_check_for_cancel s \<and> \<not> build_diagnostics (build s)"

lemma sender_ready_mild:
  assumes "sender_ready h F m content pos tx rxq s" and "mild (watched content pos tx) s s'"
  shows "sender_ready h F m content pos tx rxq s'"
  using assms by (simp add: sender_ready_def mild_def sizes_ok_def mtu_def val_check_for_cancel_def)

lemma sender_ready_calm:
  assumes "sender_ready h F m content pos tx rxq s" and "calm s s'" and "content (world s') = F"
  shows "sender_ready h F m content pos tx rxq s'"
  using assms sizes_ok_calm [of s F m s'] calm_facts [of s s'] by (simp add: sender_ready_def)

lemma sender_ready_fed: "sender_ready h F m content pos tx rxq s \<Longrightarrow> fed rxq s"
  by (simp add: sender_ready_def source_def fed_def sizes_ok_def plain_def)

lemma sender_ready_keeps:
  "sender_ready h F m content pos tx rxq s \<Longrightarrow> rx_keeps (cfg s) (watched content pos tx)"
  by (simp add: sender_ready_def source_def)

text \<open>Bookkeeping that also leaves the pending bytes alone.\<close>

definition still where "still content pos tx rxq s s' \<longleftrightarrow> mild (watched content pos tx) s s' \<and> rxq (world s') = rxq (world s)"

lemma still_refl [simp]: "still content pos tx rxq s s"
  by (simp add: still_def)

lemma still_trans: "still content pos tx rxq s s' \<Longrightarrow> still content pos tx rxq s' s'' \<Longrightarrow> still content pos tx rxq s s''"
  by (auto simp: still_def intro: mild_trans)

lemma still_notes [simp]:
  "still content pos tx rxq s (set_in_retransmit b s)" "still content pos tx rxq s (s\<lparr>last_keepalive_recv_time := t\<rparr>)"
  "still content pos tx rxq s (s\<lparr>health := hh\<rparr>)" "still content pos tx rxq s (val_internal_record_rtt s r)"
  "still content pos tx rxq s (val_internal_record_transmission_success s)"
  by (simp_all add: still_def record_success_fields) (simp_all add: set_in_retransmit_def val_internal_record_rtt_def
      val_metrics_inc_rtt_sample_def upd_metrics_def Let_def)

lemma still_ticks:
  assumes "sender_ready h F m content pos tx rxq s" and "ticks s = (t, s')"
  shows "still content pos tx rxq s s'"
  using mild_ticks [OF sender_ready_keeps [OF assms(1)] assms(2)] fed_ticks(2) [OF sender_ready_fed [OF assms(1)] assms(2)]
  by (simp add: still_def)

lemma still_ready:
  "still content pos tx rxq s s' \<Longrightarrow> sender_ready h F m content pos tx rxq s \<Longrightarrow> sender_ready h F m content pos tx rxq s'"
  by (auto simp: still_def intro: sender_ready_mild)

lemma progress_still:
  assumes r: "sender_ready h F m content pos tx rxq s"
  shows "\<exists>prog' s'. val_emit_progress_sender s prog filename n b = (prog', s') \<and> still content pos tx rxq s s'"
proof (cases "on_progress (callbacks (cfg s))")
  case None
  then show ?thesis by (simp add: val_emit_progress_sender_def)
next
  case (Some fn)
  obtain now s1 where t: "ticks s = (now, s1)" by (cases "ticks s")
  note l1 = still_ticks [OF r t]
  have c1: "on_progress (callbacks (cfg s1)) = Some fn" using l1 Some by (simp add: still_def mild_def)
  have cp: "still content pos tx rxq s (call_progress i s1)" for i
  proof -
    obtain w' where "fn (world s1) i = (False, w')" "content w' = content (world s1)" "pos w' = pos (world s1)"
      "tx w' = tx (world s1)" "rxq w' = rxq (world s1)"
      using r Some unfolding sender_ready_def source_def by blast
    then have "still content pos tx rxq s1 (call_progress i s1)"
      by (simp add: call_progress_def c1 Let_def still_def mild_def session_ok_def window_ok_def)
    then show ?thesis by (rule still_trans [OF l1])
  qed
  show ?thesis
  proof (cases prog)
    case None
    then show ?thesis using Some cp by (simp add: val_emit_progress_sender_def t)
  next
    case (Some c)
    then show ?thesis using \<open>on_progress (callbacks (cfg s)) = Some fn\<close> cp l1
      by (simp add: val_emit_progress_sender_def t Let_def split: prod.splits)
  qed
qed

lemma on_data_ack_advances:
  assumes r: "sender_ready h F m content pos tx rxq s" and adv: "sv_last_acked v < off"
  shows "\<exists>ctx' v' s'. on_data_ack off ctx v s = (if off < ac_target_ack ctx then None else Some VAL_OK, ctx', v', s') \<and>
     still content pos tx rxq s s' \<and> sv_last_acked v' = off \<and> sv_next_to_send v' = sv_next_to_send v \<and> sv_io v' = sv_io v \<and>
     sv_win v' = sv_win v \<and> ac_target_ack ctx' = ac_target_ack ctx \<and> ac_max_payload ctx' = ac_max_payload ctx \<and>
     (sv_next_to_send v \<le> off \<and> ac_max_payload ctx \<noteq> 0 \<longrightarrow> sv_inflight v' = 0)"
proof -
  define s1 where "s1 = (if sys_get_ticks_ms (system (cfg s)) \<noteq> None
               then let (now, s) = ticks s in s\<lparr>last_keepalive_recv_time := now\<rparr> else s)"
  obtain now0 s0 where t0: "ticks s = (now0, s0)" by (cases "ticks s")
  have l1: "still content pos tx rxq s s1"
    using still_ticks [OF r t0] still_trans [of content pos tx rxq s s0 s1] still_notes(2) [of content pos tx rxq s0 now0]
    by (auto simp: s1_def t0)
  note r1 = still_ready [OF l1 r]
  define s2 where "s2 = (if ac_t0 ctx \<noteq> 0 \<and> in_retransmit (timing s1) = 0
               then let (now, s) = ticks s1 in val_internal_record_rtt s (now - ac_t0 ctx) else s1)"
  obtain now1 s1' where t1: "ticks s1 = (now1, s1')" by (cases "ticks s1")
  have l2: "still content pos tx rxq s1 s2"
    using still_ticks [OF r1 t1] still_trans [of content pos tx rxq s1 s1' s2] still_notes(4) [of content pos tx rxq s1' "now1 - ac_t0 ctx"]
    by (auto simp: s2_def t1)
  define s3 where "s3 = (if in_retransmit (timing s2) = 0 then val_internal_record_transmission_success s2 else s2)"
  define s4 where "s4 = s3\<lparr>health := (health s3)\<lparr>soft_trips := 0\<rparr>\<rparr>"
  have l3: "still content pos tx rxq s2 s3" by (simp add: s3_def)
  have l4: "still content pos tx rxq s s4"
    using still_trans [OF still_trans [OF still_trans [OF l1 l2] l3] still_notes(3)] by (simp add: s4_def)
  note r4 = still_ready [OF l4 r]
  obtain prog' s5 where p: "val_emit_progress_sender s4 (sv_progress v) (ac_filename ctx) off True = (prog', s5)"
    and l5: "still content pos tx rxq s4 s5" using progress_still [OF r4] by blast
  note l5' = still_trans [OF l4 l5]
  note r5 = still_ready [OF l5' r]
  have nc: "\<not> val_check_for_cancel s5" using r5 by (simp add: sender_ready_def)
  obtain now2 s6 where t5: "ticks s5 = (now2, s6)" by (cases "ticks s5")
  have l6: "still content pos tx rxq s (set_in_retransmit 0 s6)"
    by (rule still_trans [OF still_trans [OF l5' still_ticks [OF r5 t5]]]) simp
  let ?out = "if sv_next_to_send v > off then sv_next_to_send v - off else 0"
  let ?inf = "ucast ((?out + ac_max_payload ctx - 1) div ac_max_payload ctx) :: u32"
  have z: "sv_next_to_send v \<le> off \<and> ac_max_payload ctx \<noteq> 0 \<Longrightarrow> ?inf = 0"
  proof -
    assume a: "sv_next_to_send v \<le> off \<and> ac_max_payload ctx \<noteq> 0"
    have "unat (ac_max_payload ctx - 1) < unat (ac_max_payload ctx)"
      using a by (simp add: unat_minus_one unat_gt_0)
    then have "unat ((ac_max_payload ctx - 1) div ac_max_payload ctx) = 0" by (simp add: unat_div)
    then have "(ac_max_payload ctx - 1) div ac_max_payload ctx = 0" by (simp only: unat_eq_zero)
    moreover have "?out = 0" using a by auto
    ultimately show ?thesis by simp
  qed
  have e: "on_data_ack off ctx v s = (if off < ac_target_ack ctx then None else Some VAL_OK,
      ctx\<lparr>ac_wait_deadline := now2 + ac_to_ack_base ctx, ac_tries := ac_tries_initial ctx, ac_backoff := ac_backoff_initial ctx\<rparr>,
      v\<lparr>sv_first_ack_grace := False, sv_last_acked := off, sv_progress := prog', sv_inflight := ?inf\<rparr>, set_in_retransmit 0 s6)"
  proof -
    have b: "\<not> off \<le> sv_last_acked v" using adv by simp
    show ?thesis
      unfolding on_data_ack_def Let_def
      unfolding s1_def [unfolded Let_def, symmetric]
      unfolding s2_def [unfolded Let_def, symmetric]
      unfolding s3_def [symmetric] sender_vars.simps if_not_P [OF b]
      unfolding s4_def [symmetric]
      using p nc t5 adv by (simp add: b)
  qed
  show ?thesis unfolding e using l6 z by auto
qed

lemma window_ack_loop_acks:
  assumes "sender_ready h F m content pos tx rxq s" and "rxq (world s) = concat (map (\<lambda>a. pkt_frame p (ack_pkt a)) ns) @ rest"
    and "val_internal_crc32 s = val_internal_crc32 p" and "ns \<noteq> []" and "sorted_wrt (<) ns" and "\<forall>a \<in> set ns. a < 2 ^ 64"
    and "unat (sv_last_acked v) < hd ns" and "ac_target_ack ctx = of_nat (last ns)" and "sv_next_to_send v = of_nat (last ns)"
    and "ac_max_payload ctx \<noteq> 0"
  shows "\<exists>ctx' v' s'. window_ack_loop ctx v buf s = Some (VAL_OK, False, ctx', v', s') \<and> mild (watched content pos tx) s s' \<and>
     rxq (world s') = rest \<and> sv_last_acked v' = of_nat (last ns) \<and> sv_next_to_send v' = sv_next_to_send v \<and>
     sv_io v' = sv_io v \<and> sv_win v' = sv_win v \<and> sv_inflight v' = 0"
  using assms
proof (induction ns arbitrary: s ctx v buf)
  case (Cons a ns)
  note r = Cons.prems(1)
  have nc: "\<not> val_check_for_cancel s" using r by (simp add: sender_ready_def)
  obtain now s1 where t1: "ticks s = (now, s1)" by (cases "ticks s")
  note l1 = still_ticks [OF r t1]
  note r1 = still_ready [OF l1 r]
  have ok1: "session_ok s1" using r1 by (simp add: sender_ready_def sizes_ok_def)
  have c1: "cfg s1 = cfg s" using l1 by (simp add: still_def mild_def)
  have q1: "rxq (world s1) = pkt_frame p (ack_pkt a) @ concat (map (\<lambda>a. pkt_frame p (ack_pkt a)) ns) @ rest"
    using l1 Cons.prems(2) by (simp add: still_def)
  have crc1: "val_internal_crc32 s1 = val_internal_crc32 p" using Cons.prems(3) crc_cfg [OF c1] by simp
  let ?dl = "now + (if ac_to_ack ctx \<noteq> 0 then ac_to_ack ctx else 1)"
  have f1: "pkt_fits s1 (unat (32 :: u32)) (ack_pkt a)" using ack_pkt_fits [OF ok1] by simp
  obtain s2 where s2: "val_internal_recv_until_deadline s1 (Some buf) 32 ?dl 5 =
      Some (VAL_OK, pkt_info (ack_pkt a), Some (after_copy buf (ack_pkt a)), s2)"
    "rxq (world s2) = concat (map (\<lambda>a. pkt_frame p (ack_pkt a)) ns) @ rest" "core s2 = core s1" "last_error s2 = last_error s1"
    using recv_until_deadline_fed [OF sender_ready_fed [OF r1] q1 crc1 f1, of buf ?dl 5] by (auto simp: after_type_def)
  have o2: "watched content pos tx (world s2) = watched content pos tx (world s1)"
    using recv_until_deadline_ob [OF s2(1) sender_ready_keeps [OF r1]] by simp
  have m2: "mild (watched content pos tx) s s2"
    by (rule mild_trans [OF _ mild_core [OF s2(3,4) o2]]) (use l1 in \<open>simp add: still_def\<close>)
  note r2 = sender_ready_mild [OF r m2]
  have ua: "unat (of_nat a :: u64) = a" using Cons.prems(6) by (simp add: unat_of_nat_small)
  have adv: "sv_last_acked v < of_nat a" using Cons.prems(7) ua by (simp add: word_less_nat_alt)
  obtain ctx3 v3 s3 where a3: "on_data_ack (of_nat a) ctx v s2 = (if of_nat a < ac_target_ack ctx then None else Some VAL_OK, ctx3, v3, s3)"
    "still content pos tx rxq s2 s3" "sv_last_acked v3 = of_nat a" "sv_next_to_send v3 = sv_next_to_send v" "sv_io v3 = sv_io v"
    "sv_win v3 = sv_win v" "ac_target_ack ctx3 = ac_target_ack ctx" "ac_max_payload ctx3 = ac_max_payload ctx"
    "sv_next_to_send v \<le> of_nat a \<and> ac_max_payload ctx \<noteq> 0 \<longrightarrow> sv_inflight v3 = 0"
    using on_data_ack_advances [OF r2 adv, of ctx] by blast
  have m3: "mild (watched content pos tx) s s3" "rxq (world s3) = concat (map (\<lambda>a. pkt_frame p (ack_pkt a)) ns) @ rest"
    using mild_trans [OF m2] a3(2) s2(2) by (auto simp: still_def)
  have step: "window_ack_loop ctx v buf s =
      (if of_nat a < ac_target_ack ctx then window_ack_loop ctx3 v3 (after_copy buf (ack_pkt a)) s3 else Some (VAL_OK, False, ctx3, v3, s3))"
    using nc s2(1) a3(1) by (subst window_ack_loop.simps) (simp add: t1 Let_def)
  show ?case
  proof (cases "ns = []")
    case True
    then have "\<not> of_nat a < ac_target_ack ctx" "sv_next_to_send v \<le> of_nat a" using Cons.prems(8,9) by simp_all
    then show ?thesis using step a3 m3 True Cons.prems(9,10) by auto
  next
    case False
    have lst: "last ns \<in> set ns" using False by simp
    have "a < last ns" "last ns < 2 ^ 64" using Cons.prems(5,6) lst by auto
    then have lt: "(of_nat a :: u64) < of_nat (last ns)" using ua by (simp add: word_less_nat_alt unat_of_nat_small)
    have hd: "a < hd ns" using Cons.prems(5) False by (cases ns) auto
    have c3: "cfg s3 = cfg s" using m3(1) by (simp add: mild_def)
    have "\<exists>ctx' v' s'. window_ack_loop ctx3 v3 (after_copy buf (ack_pkt a)) s3 = Some (VAL_OK, False, ctx', v', s') \<and>
       mild (watched content pos tx) s3 s' \<and> rxq (world s') = rest \<and> sv_last_acked v' = of_nat (last ns) \<and>
       sv_next_to_send v' = sv_next_to_send v3 \<and> sv_io v' = sv_io v3 \<and> sv_win v' = sv_win v3 \<and> sv_inflight v' = 0"
    proof (rule Cons.IH [OF sender_ready_mild [OF r m3(1)] m3(2) _ False])
      show "val_internal_crc32 s3 = val_internal_crc32 p" using Cons.prems(3) crc_cfg [OF c3] by simp
      show "unat (sv_last_acked v3) < hd ns" using a3(3) ua hd by simp
    qed (use Cons.prems False a3 in simp_all)
    then show ?thesis using step lt mild_trans [OF m3(1)] a3 False Cons.prems(8) by auto
  qed
qed simp

text \<open>One window, filled and acknowledged.\<close>

lemma send_window_acked:
  assumes r: "sender_ready h F m content pos tx rxq s" and v: "sending h F m v" "sv_last_acked v = of_nat n" "sv_next_to_send v = of_nat n"
    "sv_inflight v = 0" "io_file_cursor (sv_io v) = of_nat (pos (world s))"
    and n: "n < length F" "pos (world s) \<le> length F" and k: "k = unat (sv_win v)" "0 < k"
    and q: "rxq (world s) = concat (map (\<lambda>a. pkt_frame p (ack_pkt a)) (window_acks F m n k n)) @ rest"
    and crc: "val_internal_crc32 s = val_internal_crc32 p" and mp: "mp \<noteq> 0"
  shows "\<exists>v' s'. send_window_loop filename path mp to_ms base tries backoff v s = Some (Next v', s') \<and>
     sender_ready h F m content pos tx rxq s' \<and> cfg s' = cfg s \<and> sending h F m v' \<and> sv_win v' = sv_win v \<and>
     sv_last_acked v' = of_nat (window_end F m n k n) \<and> sv_next_to_send v' = of_nat (window_end F m n k n) \<and> sv_inflight v' = 0 \<and>
     io_file_cursor (sv_io v') = of_nat (pos (world s')) \<and> pos (world s') = window_end F m n k n \<and> rxq (world s') = rest \<and>
     tx (world s') = tx (world s) @ concat (map (pkt_frame s) (window_pkts F m n k n))"
proof -
  let ?e = "window_end F m n k n"
  have src: "source (cfg s) h content pos tx rxq" and F: "content (world s) = F" and sz: "sizes_ok s F m"
    and nc: "\<not> val_check_for_cancel s" using r by (simp_all add: sender_ready_def)
  have m: "8 < m" by (rule sizes_ok_m [OF sz])
  have lF: "length F < 2 ^ 63" using sz by (simp add: sizes_ok_def)
  have e: "n < ?e" "?e \<le> length F" using window_moves [OF n(1) m k(2)] window_end_le [of n F m n k] n(1) by simp_all
  have ne: "window_pkts F m n k n \<noteq> []" "window_acks F m n k n \<noteq> []" using k(2) n(1) by (cases k; simp)+
  obtain s1 where s1: "fill_window filename path v s = Some (Next (filled F m n k n v), s1)" "calm s s1" "content (world s1) = F"
    "pos (world s1) = ?e" "tx (world s1) = tx (world s) @ concat (map (pkt_frame s) (window_pkts F m n k n))" "rxq (world s1) = rxq (world s)"
    using fill_window_source [OF src F sz v(1,3,5,2) _ _ n(2) nc, of k filename path] n(1) v(4) k(1) ne(1) by auto
  let ?v = "filled F m n k n v"
  have vf: "sv_next_to_send ?v = of_nat ?e" "sv_last_acked ?v = of_nat n" "sv_win ?v = sv_win v" "io_file_cursor (sv_io ?v) = of_nat ?e"
    "sending h F m ?v" using ne(1) v(1,2) by (simp_all add: filled_def sending_def)
  note r1 = sender_ready_calm [OF r s1(2,3)]
  obtain t0 s2 where t2: "ticks s1 = (t0, s2)" by (cases "ticks s1")
  note l2 = still_ticks [OF r1 t2] note r2 = still_ready [OF l2 r1]
  obtain now s3 where t3: "ticks s2 = (now, s3)" by (cases "ticks s2")
  note l3 = still_ticks [OF r2 t3]
  define s4 where "s4 = set_in_retransmit 0 s3"
  have l4: "still content pos tx rxq s1 s4" unfolding s4_def by (rule still_trans [OF still_trans [OF l2 l3]]) simp
  note r4 = still_ready [OF l4 r1]
  define ctx where "ctx = window_ack_ctx filename mp to_ms base tries backoff ?v t0 (now + to_ms) s4"
  have c4: "cfg s4 = cfg s" using l4 calm_facts(1) [OF s1(2)] by (simp add: still_def mild_def)
  note wf = window_acks_facts [OF m]
  have un: "unat (of_nat n :: u64) = n" using n(1) lF by (simp add: unat_of_nat_small)
  obtain ctx' v' s5 where s5: "window_ack_loop ctx ?v (replicate 32 0) s4 = Some (VAL_OK, False, ctx', v', s5)"
    "mild (watched content pos tx) s4 s5" "rxq (world s5) = rest" "sv_last_acked v' = of_nat (last (window_acks F m n k n))"
    "sv_next_to_send v' = sv_next_to_send ?v" "sv_io v' = sv_io ?v" "sv_win v' = sv_win ?v" "sv_inflight v' = 0"
  proof -
    have "\<exists>ctx' v' s5. window_ack_loop ctx ?v (replicate 32 0) s4 = Some (VAL_OK, False, ctx', v', s5) \<and>
      mild (watched content pos tx) s4 s5 \<and> rxq (world s5) = rest \<and> sv_last_acked v' = of_nat (last (window_acks F m n k n)) \<and>
      sv_next_to_send v' = sv_next_to_send ?v \<and> sv_io v' = sv_io ?v \<and> sv_win v' = sv_win ?v \<and> sv_inflight v' = 0"
    proof (rule window_ack_loop_acks [OF r4 _ _ ne(2) wf(2)])
      show "rxq (world s4) = concat (map (\<lambda>a. pkt_frame p (ack_pkt a)) (window_acks F m n k n)) @ rest"
        using l4 s1(6) q by (simp add: still_def)
      show "val_internal_crc32 s4 = val_internal_crc32 p" using crc crc_cfg [OF c4] by simp
      show "\<forall>a \<in> set (window_acks F m n k n). a < 2 ^ 64" using wf(1) [of F n k n] lF by fastforce
      show "unat (sv_last_acked ?v) < hd (window_acks F m n k n)" using wf(1) [of F n k n] ne(2) vf(2) un by auto
      show "ac_target_ack ctx = of_nat (last (window_acks F m n k n))" "sv_next_to_send ?v = of_nat (last (window_acks F m n k n))"
        using wf(3) [OF ne(2)] vf(1) by (simp_all add: ctx_def window_ack_ctx_def)
      show "ac_max_payload ctx \<noteq> 0" using mp by (simp add: ctx_def window_ack_ctx_def)
    qed
    then show ?thesis using that by blast
  qed
  have res: "send_window_loop filename path mp to_ms base tries backoff v s = Some (Next v', s5)"
    using s5(1) by (subst send_window_loop.simps)
      (simp add: s1(1) t2 t3 Let_def wait_for_window_ack_def s4_def [symmetric] ctx_def [symmetric])
  have o5: "pos (world s5) = ?e" "tx (world s5) = tx (world s1)" "cfg s5 = cfg s"
    using s5(2) l4 s1(4) c4 by (simp_all add: still_def mild_def)
  show ?thesis
    using res sender_ready_mild [OF r4 s5(2)] s5(3-8) o5 vf s1(5) wf(3) [OF ne(2)] by (auto simp: sending_def)
qed

text \<open>The whole file, when every window is acknowledged.\<close>

lemma send_data_acked:
  assumes "sender_ready h F m content pos tx rxq s" and "sending h F m v" "sv_last_acked v = of_nat n" "sv_next_to_send v = of_nat n"
    "sv_inflight v = 0" "io_file_cursor (sv_io v) = of_nat (pos (world s))"
    and "n \<le> length F" "pos (world s) \<le> length F" and "k = unat (sv_win v)" "0 < k"
    and "rxq (world s) = concat (map (\<lambda>a. pkt_frame p (ack_pkt a)) (file_acks F m k n)) @ rest"
    and "val_internal_crc32 s = val_internal_crc32 p" and "mp \<noteq> 0"
  shows "\<exists>v' s'. send_data_loop filename path mp ro et v s = Some (Next v', s') \<and>
     sender_ready h F m content pos tx rxq s' \<and> cfg s' = cfg s \<and> sv_last_acked v' = of_nat (length F) \<and> rxq (world s') = rest \<and>
     tx (world s') = tx (world s) @ concat (map (pkt_frame s) (file_pkts F m k n))"
  using assms
proof (induction "length F - n" arbitrary: n s v rule: less_induct)
  case less
  note r = less.prems(1)
  have nc: "\<not> val_check_for_cancel s" and nd: "\<not> build_diagnostics (build s)" and sz: "sizes_ok s F m"
    using r by (simp_all add: sender_ready_def)
  have m: "8 < m" by (rule sizes_ok_m [OF sz])
  have lF: "length F < 2 ^ 63" using sz by (simp add: sizes_ok_def)
  have un: "unat (of_nat n :: u64) = n" "unat (of_nat (length F) :: u64) = length F"
    using less.prems(7) lF by (simp_all add: unat_of_nat_small)
  have fs: "io_file_size (sv_io v) = of_nat (length F)" "io_file_handle (sv_io v) = h" using less.prems(2) by (simp_all add: sending_def)
  have more: "sv_last_acked v < io_file_size (sv_io v) \<longleftrightarrow> n < length F"
    using un by (simp add: less.prems(3) fs word_less_nat_alt)
  show ?case
  proof (cases "n < length F")
    case False
    then have n: "n = length F" using less.prems(7) by simp
    have "\<not> n < window_end F m n k n" using window_end_le [of n F m n k] n by simp
    then have nil: "file_pkts F m k n = []" "file_acks F m k n = []" by (simp_all add: file_pkts.simps file_acks.simps)
    have "send_data_loop filename path mp ro et v s = Some (Next v, s)"
      using False more by (subst send_data_loop.simps) simp
    then show ?thesis using r n less.prems(3,11) nil by auto
  next
    case True
    let ?e = "window_end F m n k n"
    have e: "n < ?e" "?e \<le> length F" using window_moves [OF True m less.prems(10)] window_end_le [of n F m n k] True by simp_all
    have sp: "file_pkts F m k n = window_pkts F m n k n @ file_pkts F m k ?e"
      "file_acks F m k n = window_acks F m n k n @ file_acks F m k ?e"
      using e by (simp_all add: file_pkts.simps [of F m k n] file_acks.simps [of F m k n])
    have q: "rxq (world s) = concat (map (\<lambda>a. pkt_frame p (ack_pkt a)) (window_acks F m n k n)) @
        concat (map (\<lambda>a. pkt_frame p (ack_pkt a)) (file_acks F m k ?e)) @ rest" using less.prems(11) sp(2) by simp
    have h: "send_health (io_file_handle (sv_io v)) filename path s = (Next (), s)"
      using nd by (simp add: send_health_def VAL_HEALTH_RECORD_OPERATION_def val_internal_check_health_def)
    note w = send_window_acked [OF r less.prems(2-6) True less.prems(8-10) q less.prems(12,13)]
    define base to_ms tries where "base = val_internal_get_timeout s VAL_OP_DATA_ACK"
      and "to_ms = (let graced = (sv_first_ack_grace v \<and> sv_last_acked v = ro);
          ext = (if to_max_timeout_ms (timeouts (cfg s)) \<noteq> 0 then to_max_timeout_ms (timeouts (cfg s)) else base)
          in if graced \<and> ext > base then ext else base)"
      and "tries = (let graced = (sv_first_ack_grace v \<and> sv_last_acked v = ro);
          tr = (if ack_retries (retries (cfg s)) \<noteq> 0 then ack_retries (retries (cfg s)) else 1)
          in if graced then tr + et else tr)"
    obtain v1 s1 where s1: "send_window_loop filename path mp to_ms base tries (backoff_ms_base (retries (cfg s))) v s = Some (Next v1, s1)"
      "sender_ready h F m content pos tx rxq s1" "cfg s1 = cfg s" "sending h F m v1" "sv_win v1 = sv_win v" "sv_last_acked v1 = of_nat ?e"
      "sv_next_to_send v1 = of_nat ?e" "sv_inflight v1 = 0" "io_file_cursor (sv_io v1) = of_nat (pos (world s1))" "pos (world s1) = ?e"
      "rxq (world s1) = concat (map (\<lambda>a. pkt_frame p (ack_pkt a)) (file_acks F m k ?e)) @ rest"
      "tx (world s1) = tx (world s) @ concat (map (pkt_frame s) (window_pkts F m n k n))"
      using w [of filename path to_ms base tries "backoff_ms_base (retries (cfg s))"] by blast
    have step: "send_data_loop filename path mp ro et v s = send_data_loop filename path mp ro et v1 s1"
      using True more nc s1(1) unfolding to_ms_def tries_def base_def Let_def
      by (subst send_data_loop.simps) (simp add: h Let_def)
    have crc1: "val_internal_crc32 s1 = val_internal_crc32 p" using less.prems(12) crc_cfg [OF s1(3)] by simp
    have fr: "pkt_frame s1 = pkt_frame s" by (rule pkt_frame_cfg [OF s1(3)])
    have "\<exists>v' s'. send_data_loop filename path mp ro et v1 s1 = Some (Next v', s') \<and>
     sender_ready h F m content pos tx rxq s' \<and> cfg s' = cfg s1 \<and> sv_last_acked v' = of_nat (length F) \<and> rxq (world s') = rest \<and>
     tx (world s') = tx (world s1) @ concat (map (pkt_frame s1) (file_pkts F m k ?e))"
      by (rule less.hyps [OF _ s1(2,4,6,7,8,9) e(2) _ _ less.prems(10) s1(11) crc1 less.prems(13)])
        (use e True s1(5,10) less.prems(9) in simp_all)
    then show ?thesis unfolding step using s1(3,12) sp(1) fr by auto
  qed
qed

text \<open>The end of the file: DONE and its acknowledgement.\<close>

lemma send_ready:
  assumes r: "sender_ready h F m content pos tx rxq s" and p: "payload_is (send_buf s) payload bs"
    and room: "12 + needs_room t bs off ex \<le> unat (mtu s)" and small: "needs_room t bs off ex < 65536"
  shows "\<exists>s'. val__internal_send_packet_core s t payload (of_nat (length bs)) off ex = (VAL_OK, s') \<and>
     sender_ready h F m content pos tx rxq s' \<and> cfg s' = cfg s \<and> last_error s' = last_error s \<and>
     tx (world s') = tx (world s) @ frame_bytes s t bs off ex \<and> rxq (world s') = rxq (world s)"
proof -
  have src: "source (cfg s) h content pos tx rxq" and ok: "session_ok s" and F: "content (world s) = F"
    using r by (simp_all add: sender_ready_def sizes_ok_def)
  obtain s' where s': "val__internal_send_packet_core s t payload (of_nat (length bs)) off ex = (VAL_OK, s')" "calm s s'"
     "content (world s') = content (world s)" "tx (world s') = tx (world s) @ frame_bytes s t bs off ex" "rxq (world s') = rxq (world s)"
    using send_source [OF src ok p room small] by blast
  show ?thesis using s' sender_ready_calm [OF r s'(2)] F calm_facts(1) [OF s'(2)] by (simp add: calm_def)
qed

lemma wait_control_ready:
  assumes r: "sender_ready h F m content pos tx rxq s" and q: "rxq (world s) = pkt_frame p x @ rest"
    and crc: "val_internal_crc32 s = val_internal_crc32 p" and fits: "pkt_fits s (unat cap) x" "cap \<noteq> 0"
    and x: "pkt_type x \<noteq> VAL_PKT_CANCEL" "pkt_type x \<noteq> VAL_PKT_ERROR"
    and acc: "\<And>s mem. accept s (pkt_type x) mem (rx_len (pkt_info x)) (rx_off (pkt_info x)) = (1, s)"
  shows "\<exists>s'. val_internal_wait_control s to_ms tries backoff (Some mem) cap accept on_timeout =
       Some (VAL_OK, pkt_info x, after_copy mem x, s') \<and> mild (watched content pos tx) s s' \<and> rxq (world s') = rest"
proof -
  define s2 where "s2 = set_in_retransmit 0 s"
  have l2: "still content pos tx rxq s s2" by (simp add: s2_def)
  note r2 = still_ready [OF l2 r]
  obtain now s3 where t3: "ticks s2 = (now, s3)" by (cases "ticks s2")
  have l3: "still content pos tx rxq s s3" by (rule still_trans [OF l2 still_ticks [OF r2 t3]])
  note r3 = still_ready [OF l3 r]
  have q3: "rxq (world s3) = pkt_frame p x @ rest" and c3: "cfg s3 = cfg s" "mtu s3 = mtu s"
    using l3 q by (simp_all add: still_def mild_def mtu_def)
  have fits3: "pkt_fits s3 (unat cap) x" using fits(1) c3(2) by (simp add: pkt_fits_def split: prod.splits)
  have crc3: "val_internal_crc32 s3 = val_internal_crc32 p" using crc crc_cfg [OF c3(1)] by simp
  obtain s4 where s4: "val_internal_recv_until_deadline s3 (Some mem) cap (now + to_ms) 20 =
      Some (VAL_OK, pkt_info x, Some (after_copy mem x), s4)"
    "rxq (world s4) = rest" "core s4 = core s3" "last_error s4 = last_error s3"
    using recv_until_deadline_fed [OF sender_ready_fed [OF r3] q3 crc3 fits3 fits(2), of mem "now + to_ms" 20] x(1)
    by (auto simp: after_type_def)
  have o4: "watched content pos tx (world s4) = watched content pos tx (world s3)"
    using recv_until_deadline_ob [OF s4(1) sender_ready_keeps [OF r3]] by simp
  have m4: "mild (watched content pos tx) s s4"
    by (rule mild_trans [OF _ mild_core [OF s4(3,4) o4]]) (use l3 in \<open>simp add: still_def\<close>)
  have nc: "\<not> val_check_for_cancel s2" and tk: "\<exists>f. sys_get_ticks_ms (system (cfg s2)) = Some f"
    using r2 fed_hooks [OF sender_ready_fed [OF r2]] by (simp_all add: sender_ready_def)
  have "val_internal_wait_control s to_ms tries backoff (Some mem) cap accept on_timeout = Some (VAL_OK, pkt_info x, after_copy mem x, s4)"
    unfolding val_internal_wait_control_def s2_def [symmetric] option.case Let_def prod.case
    using nc tk x acc by (subst wait_control_loop.simps) (auto simp: t3 s4(1) Let_def)
  then show ?thesis using m4 s4(2) by blast
qed

lemma wait_done_ack_ready:
  assumes r: "sender_ready h F m content pos tx rxq s" and q: "rxq (world s) = pkt_frame p (done_ack_pkt n) @ rest"
    and crc: "val_internal_crc32 s = val_internal_crc32 p"
  shows "\<exists>s'. val_internal_wait_done_ack s fsize = Some (VAL_OK, s') \<and> mild (watched content pos tx) s s' \<and> rxq (world s') = rest"
proof -
  obtain t0 s1 where t1: "ticks s = (t0, s1)" by (cases "ticks s")
  note l1 = still_ticks [OF r t1]
  note r1 = still_ready [OF l1 r]
  have ok1: "session_ok s1" using r1 by (simp add: sender_ready_def sizes_ok_def)
  have fits: "pkt_fits s1 (unat (32 :: u32)) (done_ack_pkt n)"
    using session_ok_mtu [OF ok1] ack_room(2) [of "of_nat n"] by (simp add: pkt_fits_def done_ack_pkt_def)
  have q1: "rxq (world s1) = pkt_frame p (done_ack_pkt n) @ rest" and c1: "cfg s1 = cfg s" using l1 q by (simp_all add: still_def mild_def)
  have crc1: "val_internal_crc32 s1 = val_internal_crc32 p" using crc crc_cfg [OF c1] by simp
  have t: "pkt_type (done_ack_pkt n) = VAL_PKT_DONE_ACK" by (simp add: done_ack_pkt_def pkt_type_def)
  obtain s4 where w: "val_internal_wait_control s1 (val_internal_get_timeout s VAL_OP_DONE_ACK) (ack_retries (retries (cfg s)))
      (backoff_ms_base (retries (cfg s))) (Some (replicate 32 0)) 32 accept_done_ack_cb (Some (retry_send_done_cb fsize)) =
      Some (VAL_OK, pkt_info (done_ack_pkt n), after_copy (replicate 32 0) (done_ack_pkt n), s4)"
    "mild (watched content pos tx) s1 s4" "rxq (world s4) = rest"
    using wait_control_ready [OF r1 q1 crc1 fits, where accept = accept_done_ack_cb and to_ms = "val_internal_get_timeout s VAL_OP_DONE_ACK"
        and tries = "ack_retries (retries (cfg s))" and backoff = "backoff_ms_base (retries (cfg s))" and mem = "replicate 32 0"
        and on_timeout = "Some (retry_send_done_cb fsize)"] t
    by (auto simp: accept_done_ack_cb_def)
  have m4: "mild (watched content pos tx) s s4" using mild_trans [OF _ w(2)] l1 by (simp add: still_def)
  note r4 = sender_ready_mild [OF r m4]
  obtain now5 s5 where t5: "ticks s4 = (now5, s5)" by (cases "ticks s4")
  have "still content pos tx rxq s4 (sample_rtt_nonzero t0 VAL_OK s4)"
    using still_ticks [OF r4 t5] still_trans [of content pos tx rxq s4 s5] by (simp add: sample_rtt_nonzero_def t5)
  then show ?thesis
    using w(1,3) mild_trans [OF m4] by (simp add: val_internal_wait_done_ack_def t1 Let_def still_def)
qed

text \<open>Closing the file and reporting it do not touch the transport.\<close>

definition quiet_close :: "'w val_config \<Rightarrow> ('w \<Rightarrow> u8 list) \<Rightarrow> ('w \<Rightarrow> u8 list) \<Rightarrow> bool" where
  "quiet_close c tx rxq \<longleftrightarrow>
     (\<forall>fn w h. fs_fclose (filesystem c) = Some fn \<longrightarrow> tx (snd (fn w h)) = tx w \<and> rxq (snd (fn w h)) = rxq w) \<and>
     (\<forall>fn w name path st. on_file_complete (callbacks c) = Some fn \<longrightarrow>
        tx (fn w name path st) = tx w \<and> rxq (fn w name path st) = rxq w)"

lemma close_and_report_quiet:
  assumes "quiet_close (cfg s) tx rxq"
  shows "tx (world (close_and_report f name path st s)) = tx (world s)" "rxq (world (close_and_report f name path st s)) = rxq (world s)"
    "cfg (close_and_report f name path st s) = cfg s" "last_error (close_and_report f name path st s) = last_error s"
  using assms by (auto simp: quiet_close_def close_and_report_def call_file_complete_def fs_close_def split: option.splits)

lemma send_done_acked:
  assumes r: "sender_ready h F m content pos tx rxq s" and qc: "quiet_close (cfg s) tx rxq"
    and q: "rxq (world s) = pkt_frame p (done_ack_pkt n) @ rest" and crc: "val_internal_crc32 s = val_internal_crc32 p"
  shows "\<exists>s'. send_done f filename path fsize s = Some (VAL_OK, s') \<and> last_error s' = last_error s \<and> rxq (world s') = rest \<and>
     tx (world s') = tx (world s) @ pkt_frame s (done_pkt fsize)"
proof -
  have ok: "session_ok s" using r by (simp add: sender_ready_def sizes_ok_def)
  have room: "12 + needs_room VAL_PKT_DONE [] fsize True \<le> unat (mtu s)" "needs_room VAL_PKT_DONE [] fsize True < 65536"
    using session_ok_mtu [OF ok] by (simp_all add: needs_room_def wire_content_def)
  obtain s1 where s1: "val_internal_send_packet s VAL_PKT_DONE P_NULL 0 fsize = (VAL_OK, s1)" "sender_ready h F m content pos tx rxq s1"
    "cfg s1 = cfg s" "tx (world s1) = tx (world s) @ pkt_frame s (done_pkt fsize)" "rxq (world s1) = rxq (world s)" "last_error s1 = last_error s"
    using send_ready [OF r payload_null room] by (auto simp: val_internal_send_packet_def pkt_frame_def done_pkt_def)
  have q1: "rxq (world s1) = pkt_frame p (done_ack_pkt n) @ rest" and crc1: "val_internal_crc32 s1 = val_internal_crc32 p"
    using s1(5) q crc crc_cfg [OF s1(3)] by simp_all
  obtain s2 where s2: "val_internal_wait_done_ack s1 fsize = Some (VAL_OK, s2)" "mild (watched content pos tx) s1 s2" "rxq (world s2) = rest"
    using wait_done_ack_ready [OF s1(2) q1 crc1] by blast
  have c2: "cfg s2 = cfg s" "tx (world s2) = tx (world s1)" "last_error s2 = last_error s1" using s2(2) s1(3) by (simp_all add: mild_def)
  note cq = close_and_report_quiet [of s2 tx rxq f filename path VAL_OK, unfolded c2(1), OF qc]
  show ?thesis
    using s1(1) s2 cq c2 s1(4,6) by (simp add: send_done_def Let_def record_success_fields val_metrics_inc_files_sent_def upd_metrics_def)
qed

lemma send_file_body_acked:
  assumes r: "sender_ready h F m content pos tx rxq s" and qc: "quiet_close (cfg s) tx rxq"
    and n: "n \<le> length F" "pos (world s) = n" and k: "k = unat (sv_win (send_vars_init h (of_nat (length F)) (of_nat n) mp prog s0))" "0 < k"
    and q: "rxq (world s) = concat (map (\<lambda>a. pkt_frame p (ack_pkt a)) (file_acks F m k n)) @ pkt_frame p (done_ack_pkt l) @ rest"
    and crc: "val_internal_crc32 s = val_internal_crc32 p"
  shows "\<exists>prog' s'. send_file_body s0 h filename path (of_nat (length F)) (of_nat n) prog s = Some (VAL_OK, prog', s') \<and>
     rxq (world s') = rest \<and> tx (world s') = tx (world s) @ concat (map (pkt_frame s) (file_pkts F m k n @ [done_pkt (of_nat (length F))]))"
proof -
  have sz: "m + 12 = unat (mtu s)" "m < 65536" "session_ok s" using r by (simp_all add: sender_ready_def sizes_ok_def)
  have mp: "mtu s - 8 - 4 = of_nat m" "\<not> mtu s \<le> 12" "(of_nat m :: u64) \<noteq> 0"
  proof -
    have "mtu s = of_nat (m + 12)" unfolding sz(1) by simp
    then show "mtu s - 8 - 4 = of_nat m" by simp
    show "\<not> mtu s \<le> 12" using session_ok_mtu [OF sz(3)] by (simp add: word_le_nat_alt)
    show "(of_nat m :: u64) \<noteq> 0" using sz session_ok_mtu [OF sz(3)] by (auto simp: word_eq_iff_unsigned [where ?'a = nat] unat_of_nat_small)
  qed
  let ?v = "send_vars_init h (of_nat (length F)) (of_nat n) (of_nat m) prog s0"
  have win: "sv_win ?v = sv_win (send_vars_init h (of_nat (length F)) (of_nat n) mp prog s0)" by (simp add: send_vars_init_def)
  have v: "sending h F m ?v" "sv_last_acked ?v = of_nat n" "sv_next_to_send ?v = of_nat n" "sv_inflight ?v = 0"
    "io_file_cursor (sv_io ?v) = of_nat (pos (world s))"
    using sz(2) n(2) by (simp_all add: send_vars_init_def sending_def word_eq_iff_unsigned [where ?'a = nat] unsigned_ucast_eq
        unat_of_nat_small take_bit_nat_eq_self)
  have p: "pos (world s) \<le> length F" and kk: "k = unat (sv_win ?v)" using n k(1) win by simp_all
  obtain v1 s1 where s1: "send_data_loop filename path (of_nat m) (of_nat n) (extra_tries (of_nat n)) ?v s = Some (Next v1, s1)"
    "sender_ready h F m content pos tx rxq s1" "cfg s1 = cfg s" "rxq (world s1) = pkt_frame p (done_ack_pkt l) @ rest"
    "tx (world s1) = tx (world s) @ concat (map (pkt_frame s) (file_pkts F m k n))"
    using send_data_acked [OF r v n(1) p kk k(2) q crc mp(3), of filename path "of_nat n" "extra_tries (of_nat n)"] by blast
  have qc1: "quiet_close (cfg s1) tx rxq" and crc1: "val_internal_crc32 s1 = val_internal_crc32 p"
    using qc crc s1(3) crc_cfg [OF s1(3)] by simp_all
  have fr: "pkt_frame s1 = pkt_frame s" by (rule pkt_frame_cfg [OF s1(3)])
  obtain s2 where s2: "send_done h filename path (of_nat (length F)) s1 = Some (VAL_OK, s2)" "rxq (world s2) = rest"
    "tx (world s2) = tx (world s1) @ pkt_frame s1 (done_pkt (of_nat (length F)))"
    using send_done_acked [OF s1(2) qc1 s1(4) crc1] by blast
  show ?thesis
    using s1(1,5) s2 mp fr by (simp add: send_file_body_def Let_def)
qed

lemma window_pkts_bytes:
  "n \<le> length F \<Longrightarrow> concat (map pkt_bytes (window_pkts F m acked k n)) = take (window_end F m acked k n - n) (drop n F)"
proof (induction k arbitrary: n)
  case (Suc k)
  show ?case
  proof (cases "n < length F")
    case True
    let ?c = "chunk F m acked n"
    have c: "n + ?c \<le> length F" using True by (simp add: chunk_def)
    let ?e = "window_end F m acked k (n + ?c)"
    have "n + ?c \<le> ?e" using window_end_le [OF c, of m acked k] by simp
    then have "take ?c (drop n F) @ take (?e - (n + ?c)) (drop (n + ?c) F) = take (?e - n) (drop n F)"
      using take_add [of ?c "?e - (n + ?c)" "drop n F"] by (simp add: add.commute)
    then show ?thesis using Suc.IH [OF c] True by (simp add: data_pkt_def pkt_bytes_def)
  qed simp
qed simp

text \<open>
  C14. Filling the window: as long as nobody cancelled the session and the file can be read, the sender sends the
  next bytes of the file, in order and without a gap, until the window is full or the file ends. Each packet holds as
  much as the packet size allows, a packet at the last acknowledged byte also carries its offset. There are
  never more packets in flight than the window has room for, and the send position is the end of what was sent.
\<close>

theorem fill_window_spec:
  assumes "source (cfg s) h content pos tx rxq" and "content (world s) = F" and "sizes_ok s F m"
    and "sending h F m v" "sv_next_to_send v = of_nat n" "io_file_cursor (sv_io v) = of_nat (pos (world s))"
    and "sv_last_acked v = of_nat acked" "acked \<le> length F" "n \<le> length F" "pos (world s) \<le> length F"
    and "\<not> val_check_for_cancel s" and "unat (sv_inflight v) + k = unat (sv_win v)"
  shows "\<exists>v' s' e. fill_window filename path v s = Some (Next v', s') \<and> n \<le> e \<and> e \<le> length F \<and>
     sv_next_to_send v' = of_nat e \<and> sv_last_acked v' = of_nat acked \<and> sv_inflight v' \<le> sv_win v' \<and>
     tx (world s') = tx (world s) @ concat (map (pkt_frame s) (window_pkts F m acked k n)) \<and>
     concat (map pkt_bytes (window_pkts F m acked k n)) = take (e - n) (drop n F) \<and>
     unat (sv_inflight v') = unat (sv_inflight v) + length (window_pkts F m acked k n) \<and>
     (e < length F \<longrightarrow> sv_inflight v' = sv_win v')"
proof -
  let ?e = "window_end F m acked k n" and ?p = "window_pkts F m acked k n"
  obtain s' where s': "fill_window filename path v s = Some (Next (filled F m acked k n v), s')"
     "tx (world s') = tx (world s) @ concat (map (pkt_frame s) ?p)"
    using fill_window_source [OF assms, of filename path] by blast
  have full: "?e < length F \<Longrightarrow> length (window_pkts F m acked k n) = k"
  proof (induction k arbitrary: n)
    case (Suc k)
    have "n < length F" using Suc.prems by (auto split: if_splits)
    then show ?case using Suc by simp
  qed simp
  have uw: "unat (sv_win v) < 4294967296" by (rule unat_less_2p32)
  have lp: "length ?p \<le> k" by (rule window_pkts_length)
  have inf: "unat (sv_inflight v + of_nat (length ?p)) = unat (sv_inflight v) + length ?p"
    using assms(12) uw lp by (simp add: unat_word_ariths unat_of_nat_small)
  have i: "unat (sv_inflight (filled F m acked k n v)) = unat (sv_inflight v) + length ?p" "sv_win (filled F m acked k n v) = sv_win v"
    using inf by (auto simp: filled_def)
  have n: "sv_next_to_send (filled F m acked k n v) = of_nat ?e" "sv_last_acked (filled F m acked k n v) = of_nat acked"
    using assms(5,7) window_pkts_Nil [of F m acked k n] by (auto simp: filled_def)
  show ?thesis
    using s' i n window_end_le [OF assms(9), of m acked k] window_pkts_bytes [OF assms(9), of m acked k] lp full assms(12)
    by (intro exI [of _ "filled F m acked k n v"] exI [of _ s'] exI [of _ ?e])
      (simp add: word_le_nat_alt word_eq_iff_unsigned [where ?'a = nat])
qed

lemma desk_source: "source (desk_config mode) 1 dk_src dk_pos dk_tx dk_rx"
  using desk_plain [of mode] desk_fed [of mode undefined] desk_reads [of mode]
  by (simp add: source_def fed_def rx_keeps_def) (auto simp: desk_config_def desk_files_def desk_send_def desk_recv_def Let_def)

theorem fill_window_spec_witness:
  "\<exists>v' s'. fill_window [65] [66] (send_vars_init 1 1200 0 500 None (desk_session VAL_RESUME_NEVER (desk_world [] (replicate 1200 7) [])))
       (desk_session VAL_RESUME_NEVER (desk_world [] (replicate 1200 7) [])) = Some (Next v', s') \<and>
     sv_next_to_send v' = 1200 \<and> sv_inflight v' = 3"
proof -
  let ?F = "replicate 1200 7 :: u8 list"
  let ?s = "desk_session VAL_RESUME_NEVER (desk_world [] ?F [])" and ?v = "send_vars_init 1 1200 0 500 None (desk_session VAL_RESUME_NEVER (desk_world [] (replicate 1200 7) []))"
  have a: "sizes_ok ?s ?F 500" "sending 1 ?F 500 ?v" "sv_next_to_send ?v = of_nat 0" "io_file_cursor (sv_io ?v) = of_nat (dk_pos (world ?s))"
    "sv_last_acked ?v = of_nat 0" "\<not> val_check_for_cancel ?s" "unat (sv_inflight ?v) + 4 = unat (sv_win ?v)" "dk_src (world ?s) = ?F"
    "dk_pos (world ?s) \<le> length ?F" "source (cfg ?s) 1 dk_src dk_pos dk_tx dk_rx"
    using desk_source [of VAL_RESUME_NEVER]
    by (simp_all add: sizes_ok_def sending_def send_vars_init_def desk_world_def val_check_for_cancel_def)
  have k: "(4 :: nat) = Suc (Suc (Suc (Suc 0)))" by simp
  have w: "length (window_pkts ?F 500 0 4 0) = 3" unfolding k by (simp add: chunk_def)
  from fill_window_spec [OF a(10,8,1-5) _ _ a(9,6,7), of "[65]" "[66]"]
  obtain v' s' e where r: "fill_window [65] [66] ?v ?s = Some (Next v', s')" "sv_next_to_send v' = of_nat e" "e \<le> 1200"
    "unat (sv_inflight v') = 3" "e < 1200 \<longrightarrow> sv_inflight v' = sv_win v'"
    "concat (map pkt_bytes (window_pkts ?F 500 0 4 0)) = take (e - 0) (drop 0 ?F)"
    using w by (auto simp: send_vars_init_def)
  have "length (concat (map pkt_bytes (window_pkts ?F 500 0 4 0))) = 1200" unfolding k by (simp add: chunk_def data_pkt_def pkt_bytes_def)
  then have "e = 1200" unfolding r(6) using r(3) by simp
  moreover have "sv_inflight v' = 3" using r(4) by (simp add: word_eq_iff_unsigned [where ?'a = nat])
  ultimately show ?thesis using r(1,2) by auto
qed

end
