(* ===== verification/Val_Receiver.thy ===== *)
theory Val_Receiver
  imports Val_File
begin

text \<open>
  The receiving side, \<^verbatim>\<open>src/val_receiver.c\<close>, and \<^verbatim>\<open>val_receive_files\<close> of \<^verbatim>\<open>src/val_core.c\<close>: metadata
  validation, the resume decision and its negotiation, the data loop with its ordering decision,
  and the loop over the files. \<^verbatim>\<open>val_internal_receive_files\<close> is split at its loops. The trace file
  \<^verbatim>\<open>resume_trace.log\<close> is not modelled.
\<close>

section \<open>Metadata validation\<close>

text \<open>A cumulative acknowledgement that carries the receiver's position.\<close>

definition send_resume_ack :: "'w val_session \<Rightarrow> u64 \<Rightarrow> val_status_t \<times> 'w val_session" where
  "send_resume_ack s resume_offset = val_internal_send_packet s VAL_PKT_DATA_ACK P_NULL 0 resume_offset"

text \<open>The path is returned with the status; it is the content of the caller's array.\<close>

definition val_construct_target_path :: "'w val_session \<Rightarrow> cstr \<Rightarrow> nat \<Rightarrow> val_status_t \<times> cstr" where
  "val_construct_target_path s filename target_path_size =
     (if target_path_size = 0 then (VAL_ERR_INVALID_ARG, [])
      else
        let sanitized = val_clean_filename (Some filename) (VAL_MAX_FILENAME + 1);
            (n, target_path) = val_internal_join_path target_path_size (Some (output_directory s)) sanitized
        in if n < 0 \<or> n \<ge> int target_path_size then (VAL_ERR_INVALID_ARG, target_path) else (VAL_OK, target_path))"

definition val_validate_metadata ::
    "'w val_session \<Rightarrow> val_meta_payload_t \<Rightarrow> cstr \<Rightarrow> val_validation_action_t \<times> 'w val_session" where
  "val_validate_metadata s meta target_path = (case validator (cfg s) of
       None \<Rightarrow> (VAL_VALIDATION_ACCEPT, s)
     | Some f \<Rightarrow> (case f (world s) meta target_path of (act, w) \<Rightarrow> (act, s\<lparr>world := w\<rparr>)))"

definition val_handle_validation_action ::
    "'w val_session \<Rightarrow> val_validation_action_t \<Rightarrow> val_status_t \<times> 'w val_session" where
  "val_handle_validation_action s action = (case action of
       VAL_VALIDATION_ACCEPT \<Rightarrow> (VAL_OK, s)
     | VAL_VALIDATION_SKIP \<Rightarrow> (VAL_OK, s)
     | VAL_VALIDATION_ABORT \<Rightarrow> (VAL_ERR_ABORTED, s)
     | VAL_VALIDATION_OTHER \<Rightarrow> (VAL_ERR_PROTOCOL, VAL_SET_PROTOCOL_ERROR s VAL_ERROR_DETAIL_INVALID_STATE))"

section \<open>The resume decision\<close>

definition clamp_u64 :: "u64 \<Rightarrow> u64 \<Rightarrow> u64 \<Rightarrow> u64" where
  "clamp_u64 v lo hi = (if v < lo then lo else if v > hi then hi else v)"

text \<open>The output path of a file, in an array of 512 characters.\<close>

definition full_output_path :: "'w val_session \<Rightarrow> cstr \<Rightarrow> cstr" where
  "full_output_path s filename =
     (if output_directory s \<noteq> [] then snd (val_internal_join_path 512 (Some (output_directory s)) (Some filename))
      else snd (snprintf 512 filename))"

text \<open>The length of the tail that is verified.\<close>

definition verify_window :: "val_resume_config_t \<Rightarrow> u64 \<Rightarrow> u64" where
  "verify_window rc existing_size =
     (let req_cap = (if rc_tail_cap_bytes rc \<noteq> 0 then ucast (rc_tail_cap_bytes rc) else 8 * 1024 * 1024);
          cap = clamp_u64 req_cap 1 (256 * 1024 * 1024);
          min_verify = (ucast (rc_min_verify_bytes rc) :: u64);
          verify_len = (if existing_size < cap then existing_size else cap)
      in if min_verify > 0 \<and> verify_len < min_verify
         then (if existing_size < min_verify then existing_size else min_verify) else verify_len)"

text \<open>
  The results: the action, the resume offset, the CRC and the length of the tail (zero unless they are
  set). The receive buffer of a session is never NULL, so the test for it has no branch here.
\<close>

definition determine_resume_action ::
    "'w val_session \<Rightarrow> cstr \<Rightarrow> u64 \<Rightarrow> (val_resume_action_t \<times> u64 \<times> u32 \<times> u64 \<times> 'w val_session) option" where
  "determine_resume_action s filename incoming_file_size =
     (let mode = rc_mode (resume (cfg s));
          (file, s) = fs_open (full_output_path s filename) ''rb'' s
      in case file of
           None \<Rightarrow> Some (VAL_RESUME_START_ZERO, 0, 0, 0, s)
         | Some file \<Rightarrow>
             let (_, s) = fs_seek file 0 SEEK_END s;
                 (existing_size_l, s) = fs_tell file s;
                 existing_size = (word_of_int existing_size_l :: u64);
                 start_zero = (\<lambda>s. Some (VAL_RESUME_START_ZERO, 0, 0, 0, fs_close file s))
             in if existing_size_l < 0 then start_zero s
                else if mode = VAL_RESUME_NEVER then start_zero s
                else if mode = VAL_RESUME_SKIP_EXISTING then
                  (if existing_size > 0 then Some (VAL_RESUME_SKIP_FILE, 0, 0, 0, fs_close file s) else start_zero s)
                else if existing_size = 0 then start_zero s
                else if existing_size > incoming_file_size then
                  (if rc_mismatch_skip (resume (cfg s)) then Some (VAL_RESUME_SKIP_FILE, 0, 0, 0, fs_close file s)
                   else start_zero s)
                else if mtu s = 0 then start_zero s
                else
                  let verify_len = verify_window (resume (cfg s)) existing_size in do {
                    (st, tail_crc, s) \<leftarrow> val_internal_crc32_region s file (existing_size - verify_len) verify_len;
                    if st \<noteq> VAL_OK then start_zero s
                    else Some (VAL_RESUME_VERIFY_FIRST, existing_size, tail_crc, verify_len, fs_close file s)
                  })"

text \<open>The older way to announce a decision; the receive loop does not call it.\<close>

definition handle_file_resume ::
    "'w val_session \<Rightarrow> cstr \<Rightarrow> cstr \<Rightarrow> u64 \<Rightarrow> (val_status_t \<times> u64 option \<times> 'w val_session) option" where
  "handle_file_resume s filename sender_path file_size =
     do {
       (action, resume_offset, _, _, s) \<leftarrow> determine_resume_action s filename file_size;
       let announce = (\<lambda>off. let (st, s) = send_resume_ack s off in
             if st \<noteq> VAL_OK then Some (st, None, s)
             else Some (VAL_OK, Some off, call_file_start filename sender_path file_size off s));
       if action = VAL_RESUME_SKIP_FILE then announce file_size
       else if action = VAL_RESUME_ABORT_FILE then
         (let (st, s) = send_resume_ack s 0 in
          Some (if st \<noteq> VAL_OK then st else VAL_ERR_ABORTED, None, s))
       else if action = VAL_RESUME_START_ZERO then
         (if rc_mode (resume (cfg s)) = VAL_RESUME_NEVER
          then Some (VAL_OK, Some 0, call_file_start filename sender_path file_size 0 s)
          else announce 0)
       else if action = VAL_RESUME_VERIFY_FIRST then announce resume_offset
       else Some (VAL_ERR_PROTOCOL, None, s)
     }"

definition val_internal_handle_file_resume ::
    "'w val_session \<Rightarrow> cstr \<Rightarrow> cstr \<Rightarrow> u64 \<Rightarrow> (val_status_t \<times> u64 option \<times> 'w val_session) option" where
  "val_internal_handle_file_resume s filename sender_path file_size = handle_file_resume s filename sender_path file_size"

section \<open>Waiting for the metadata\<close>

text \<open>The retry loops of the receiver double a delay that is not zero.\<close>

definition double_backoff :: "u32 \<Rightarrow> 'w val_session \<Rightarrow> u32 \<times> 'w val_session" where
  "double_backoff backoff s =
     (let s = (if backoff \<noteq> 0 then delay backoff s else s)
      in (if backoff \<noteq> 0 then push_bit 1 backoff else backoff, s))"

text \<open>\<open>P\<close> is the packet size read once; the payload is delivered into the receive buffer itself.\<close>

partial_function (option) recv_meta_loop ::
    "size_t \<Rightarrow> u32 \<Rightarrow> u8 \<Rightarrow> u32 \<Rightarrow> 'w val_session \<Rightarrow> (rx_info, 'w) part" where
  "recv_meta_loop P to_meta tries backoff s =
     (let s = VAL_HEALTH_RECORD_OPERATION s;
          (hst, s) = val_internal_check_health s
      in if hst \<noteq> VAL_OK then Some (Return hst, s)
         else
           let (connected, s) = val_internal_transport_is_connected s in
           if \<not> connected then Some (Return VAL_ERR_IO, VAL_SET_NETWORK_ERROR s VAL_ERROR_DETAIL_CONNECTION)
           else if val_check_for_cancel s then Some (Return VAL_ERR_ABORTED, s)
           else do {
             (st, rx, s) \<leftarrow> val_internal_recv_packet s (Some (ucast P)) to_meta;
             if st = VAL_OK then Some (Next rx, s)
             else if st \<noteq> VAL_ERR_TIMEOUT \<or> tries = 0 then
               Some (Return st, if st = VAL_ERR_TIMEOUT \<and> tries = 0
                 then val_metrics_inc_timeout_hard (VAL_SET_TIMEOUT_ERROR s VAL_ERROR_DETAIL_TIMEOUT_META) else s)
             else
               let s = VAL_HEALTH_RECORD_RETRY s;
                   (backoff, s) = double_backoff backoff s
               in recv_meta_loop P to_meta (tries - 1) backoff s
           })"

text \<open>What is kept of a file: its cleaned name, the metadata as received, and the output path.\<close>

record recv_file =
  rf_name :: cstr
  rf_meta :: val_meta_payload_t
  rf_path :: cstr

abbreviation (input) rf_size :: "recv_file \<Rightarrow> u64" where "rf_size r \<equiv> meta_file_size (rf_meta r)"
abbreviation (input) rf_sender :: "recv_file \<Rightarrow> cstr" where "rf_sender r \<equiv> c_string (meta_sender_path (rf_meta r))"

definition recv_meta :: "size_t \<Rightarrow> 'w val_session \<Rightarrow> (recv_file, 'w) part" where
  "recv_meta P s =
     (let to_meta = val_internal_get_timeout s VAL_OP_META in do {
        (fl, s) \<leftarrow> recv_meta_loop P to_meta (meta_retries (retries (cfg s))) (backoff_ms_base (retries (cfg s))) s;
        case fl of
          Return st \<Rightarrow> Some (Return st, s)
        | Next rx \<Rightarrow>
            if rx_type rx = VAL_PKT_EOT then
              Some (Return VAL_OK, snd (val_internal_send_packet s VAL_PKT_EOT_ACK P_NULL 0 0))
            else if rx_type rx = VAL_PKT_CANCEL then
              Some (Return VAL_ERR_ABORTED, val_internal_set_last_error s VAL_ERR_ABORTED 0)
            else if rx_type rx \<noteq> VAL_PKT_SEND_META \<or> rx_len rx < of_nat VAL_WIRE_META_SIZE then
              Some (Return VAL_ERR_PROTOCOL, VAL_SET_PROTOCOL_ERROR s VAL_ERROR_DETAIL_MALFORMED_PKT)
            else
              let meta = val_deserialize_meta (recv_buf s);
                  clean_name = the (val_clean_filename (Some (c_string (meta_filename meta))) (VAL_MAX_FILENAME + 1))
              in Some (Next \<lparr>rf_name = clean_name, rf_meta = meta, rf_path = full_output_path s clean_name\<rparr>, s)
      })"

section \<open>Negotiating where to start\<close>

definition announce_start :: "recv_file \<Rightarrow> u64 \<Rightarrow> 'w val_session \<Rightarrow> 'w val_session" where
  "announce_start rf off s = call_file_start (rf_name rf) (rf_sender rf) (rf_size rf) off s"

text \<open>The RESUME_RESP: the decision as it is sent, with its bytes for a later resend.\<close>

definition reply_resume :: "recv_file \<Rightarrow> 'w val_session \<Rightarrow> (val_resume_action_t \<times> u64 \<times> u8 list, 'w) part" where
  "reply_resume rf s =
     do {
       (action, rec_resume_off, verify_crc, verify_len, s) \<leftarrow> determine_resume_action s (rf_name rf) (rf_size rf);
       let rr = \<lparr>rr_action = action, rr_resume_offset = rec_resume_off, rr_verify_crc = verify_crc, rr_verify_length = verify_len\<rparr>;
       let rr_wire = val_serialize_resume_resp rr (replicate VAL_WIRE_RESUME_RESP_SIZE 0);
       let (send_st, s) = val_internal_send_packet s VAL_PKT_RESUME_RESP (P_BYTES rr_wire) (of_nat VAL_WIRE_RESUME_RESP_SIZE) 0;
       Some (if send_st \<noteq> VAL_OK then Return send_st else Next (action, rec_resume_off, rr_wire), s)
     }"

definition send_verify_response :: "val_status_t \<Rightarrow> u32 \<Rightarrow> 'w val_session \<Rightarrow> 'w val_session" where
  "send_verify_response result crc s =
     snd (val_internal_send_packet s VAL_PKT_VERIFY
            (P_BYTES (val_serialize_verify_response result crc (replicate VAL_WIRE_VERIFY_RESP_SIZE 0)))
            (of_nat VAL_WIRE_VERIFY_RESP_SIZE) (scast (status_to_u32 result)))"

text \<open>
  The VERIFY request of the sender is answered with the comparison of the CRCs. \<open>mskip\<close> is the
  \<^verbatim>\<open>mismatch_skip\<close> policy, which the branch for disabled resume does not apply. The request buffer is
  a local array: a VERIFY packet shorter than a request leaves bytes of it unset.
\<close>

definition receiver_verify :: "bool \<Rightarrow> recv_file \<Rightarrow> u8 list \<Rightarrow> 'w val_session \<Rightarrow> (val_status_t, 'w) part" where
  "receiver_verify mskip rf rr_wire s =
     do {
       (vw, rx, vbuf, s) \<leftarrow> val_internal_wait_verify_request_rx s (val_internal_get_timeout s VAL_OP_VERIFY)
                              (ack_retries (retries (cfg s))) (backoff_ms_base (retries (cfg s))) (Some rr_wire)
                              (replicate VAL_WIRE_VERIFY_REQ_SIZE 0) (of_nat VAL_WIRE_VERIFY_REQ_SIZE);
       if vw \<noteq> VAL_OK then Some (Return vw, s)
       else
         let (verify_offset, sender_crc, verify_length) = val_deserialize_verify_request vbuf;
             (lf, s) = fs_open (rf_path rf) ''rb'' s
         in case lf of
              None \<Rightarrow> Some (Return VAL_ERR_IO, send_verify_response VAL_ERR_RESUME_VERIFY 0 s)
            | Some lf \<Rightarrow> do {
                (crcst, local_crc, s) \<leftarrow> val_internal_crc32_region s lf verify_offset (ucast verify_length);
                let s = fs_close lf s;
                let result = (if crcst = VAL_OK \<and> local_crc = sender_crc then VAL_OK else VAL_ERR_RESUME_VERIFY);
                let result = (if result \<noteq> VAL_OK \<and> mskip then VAL_SKIPPED else result);
                Some (Next result, send_verify_response result local_crc s)
              }
     }"

text \<open>Following the decision: the resume offset and whether the file is skipped.\<close>

definition follow_action ::
    "bool \<Rightarrow> val_resume_action_t \<Rightarrow> u64 \<Rightarrow> u8 list \<Rightarrow> recv_file \<Rightarrow> 'w val_session \<Rightarrow> (u64 \<times> bool, 'w) part" where
  "follow_action mskip action rec_resume_off rr_wire rf s =
     (case action of
        VAL_RESUME_SKIP_FILE \<Rightarrow> Some (Next (rf_size rf, True), announce_start rf (rf_size rf) s)
      | VAL_RESUME_START_ZERO \<Rightarrow> Some (Next (0, False), announce_start rf 0 s)
      | VAL_RESUME_START_OFFSET \<Rightarrow> Some (Next (rec_resume_off, False), announce_start rf rec_resume_off s)
      | VAL_RESUME_VERIFY_FIRST \<Rightarrow> do {
          (fl, s) \<leftarrow> receiver_verify mskip rf rr_wire s;
          case fl of
            Return st \<Rightarrow> Some (Return st, s)
          | Next result \<Rightarrow>
              if result = VAL_OK then Some (Next (rec_resume_off, False), announce_start rf rec_resume_off s)
              else if result = VAL_SKIPPED then Some (Next (rf_size rf, True), announce_start rf (rf_size rf) s)
              else Some (Next (0, False), announce_start rf 0 s)
        }
      | VAL_RESUME_ABORT_FILE \<Rightarrow> Some (Return VAL_ERR_ABORTED, snd (val_internal_send_error s VAL_ERR_ABORTED 0))
      | VAL_RESUME_ACTION_OTHER _ \<Rightarrow> Some (Next (0, False), s))"

text \<open>The metadata validator, in the branch for disabled resume only.\<close>

definition validate_file :: "recv_file \<Rightarrow> 'w val_session \<Rightarrow> val_validation_action_t flow \<times> 'w val_session" where
  "validate_file rf s =
     (let (pr, target_path) = val_construct_target_path s (rf_name rf) (VAL_MAX_PATH * 2 + 8) in
      if pr \<noteq> VAL_OK then (Return VAL_ERR_INVALID_ARG, snd (val_handle_validation_action s VAL_VALIDATION_ABORT))
      else
        let (act, s) = val_validate_metadata s (rf_meta rf) target_path;
            (hr, s) = val_handle_validation_action s act
        in if act = VAL_VALIDATION_ABORT
           then (Return VAL_ERR_ABORTED, snd (val_internal_send_error s VAL_ERR_ABORTED 0))
           else (Next act, s))"

text \<open>No RESUME_REQ came: start at zero, or skip when the validator says so.\<close>

definition validate_or_skip :: "recv_file \<Rightarrow> 'w val_session \<Rightarrow> (u64 \<times> bool, 'w) part" where
  "validate_or_skip rf s =
     (case validate_file rf s of
        (Return st, s) \<Rightarrow> Some (Return st, s)
      | (Next act, s) \<Rightarrow> Some (Next (if act = VAL_VALIDATION_SKIP then (rf_size rf, True) else (0, False)), s))"

definition negotiate_never :: "recv_file \<Rightarrow> 'w val_session \<Rightarrow> (u64 \<times> bool, 'w) part" where
  "negotiate_never rf s =
     do {
       (rcs, rx, s) \<leftarrow> val_internal_recv_packet s None (val_internal_get_timeout s VAL_OP_META);
       if rcs = VAL_OK \<and> rx_type rx = VAL_PKT_RESUME_REQ then do {
         (fl, s) \<leftarrow> reply_resume rf s;
         case fl of
           Return st \<Rightarrow> Some (Return st, s)
         | Next (action, rec_resume_off, rr_wire) \<Rightarrow> do {
             (fl, s) \<leftarrow> follow_action False action rec_resume_off rr_wire rf s;
             case fl of
               Return st \<Rightarrow> Some (Return st, s)
             | Next (resume_off, skipping) \<Rightarrow>
                 (case validate_file rf s of
                    (Return st, s) \<Rightarrow> Some (Return st, s)
                  | (Next act, s) \<Rightarrow>
                      if act = VAL_VALIDATION_SKIP then
                        let (ack_st, s) = send_resume_ack s (rf_size rf) in
                        if ack_st \<noteq> VAL_OK then Some (Return ack_st, s)
                        else Some (Next (rf_size rf, True), announce_start rf (rf_size rf) s)
                      else Some (Next (resume_off, skipping), s))
           }
       }
       else if rcs = VAL_ERR_TIMEOUT then
         (let (st, s) = send_resume_ack s 0;
              s = announce_start rf 0 s
          in if st \<noteq> VAL_OK then Some (Return st, s) else validate_or_skip rf s)
       else if rcs = VAL_ERR_CRC \<or> rcs = VAL_ERR_IO \<or> rcs = VAL_ERR_ABORTED \<or> rcs = VAL_ERR_PROTOCOL
       then Some (Return rcs, s)
       else
         (let (st, s) = send_resume_ack s 0 in
          if st \<noteq> VAL_OK then Some (Return st, s) else validate_or_skip rf (announce_start rf 0 s))
     }"

partial_function (option) wait_resume_req ::
    "u32 \<Rightarrow> u8 \<Rightarrow> u32 \<Rightarrow> 'w val_session \<Rightarrow> (unit, 'w) part" where
  "wait_resume_req to_req rtries rback s =
     do {
       (rcs, rx, s) \<leftarrow> val_internal_recv_packet s None to_req;
       if rcs = VAL_OK then
         (if rx_type rx = VAL_PKT_RESUME_REQ then Some (Next (), s)
          else if rx_type rx = VAL_PKT_CANCEL then Some (Return VAL_ERR_ABORTED, s)
          else if rx_type rx = VAL_PKT_ERROR then Some (Return VAL_ERR_PROTOCOL, s)
          else wait_resume_req to_req rtries rback s)
       else if rcs \<noteq> VAL_ERR_TIMEOUT \<or> rtries = 0 then
         Some (Return rcs, if rcs = VAL_ERR_TIMEOUT then VAL_SET_TIMEOUT_ERROR s VAL_ERROR_DETAIL_TIMEOUT_META else s)
       else
         let (rback, s) = double_backoff rback s in wait_resume_req to_req (rtries - 1) rback s
     }"

definition negotiate_resume :: "recv_file \<Rightarrow> 'w val_session \<Rightarrow> (u64 \<times> bool, 'w) part" where
  "negotiate_resume rf s =
     do {
       (fl, s) \<leftarrow> wait_resume_req (val_internal_get_timeout s VAL_OP_META) (ack_retries (retries (cfg s)))
                    (backoff_ms_base (retries (cfg s))) s;
       case fl of
         Return st \<Rightarrow> Some (Return st, s)
       | Next _ \<Rightarrow> do {
           (fl, s) \<leftarrow> reply_resume rf s;
           case fl of
             Return st \<Rightarrow> Some (Return st, s)
           | Next (action, rec_resume_off, rr_wire) \<Rightarrow> do {
               (fl, s) \<leftarrow> follow_action (rc_mismatch_skip (resume (cfg s))) action rec_resume_off rr_wire rf s;
               case fl of
                 Return st \<Rightarrow> Some (Return st, s)
               | Next (resume_off, _) \<Rightarrow> Some (Next (resume_off, resume_off \<ge> rf_size rf), s)
             }
         }
     }"

section \<open>Receiving a file that is skipped\<close>

text \<open>The inner loop waits for one packet with its retries; the outer one starts them afresh.\<close>

partial_function (option) skip_recv_loop ::
    "size_t \<Rightarrow> u32 \<Rightarrow> u8 \<Rightarrow> u32 \<Rightarrow> 'w val_session \<Rightarrow> (rx_info, 'w) part" where
  "skip_recv_loop P to_done tries backoff s =
     do {
       (stw, rx, s) \<leftarrow> val_internal_recv_packet s (Some (ucast P)) to_done;
       if stw = VAL_OK then Some (Next rx, s)
       else if stw \<noteq> VAL_ERR_TIMEOUT \<or> tries = 0 then Some (Return stw, s)
       else let (backoff, s) = double_backoff backoff s in skip_recv_loop P to_done (tries - 1) backoff s
     }"

partial_function (option) skip_loop :: "size_t \<Rightarrow> u64 \<Rightarrow> 'w val_session \<Rightarrow> (unit, 'w) part" where
  "skip_loop P total_size s =
     do {
       (fl, s) \<leftarrow> skip_recv_loop P (val_internal_get_timeout s VAL_OP_DONE_ACK) (ack_retries (retries (cfg s)))
                    (backoff_ms_base (retries (cfg s))) s;
       case fl of
         Return st \<Rightarrow> Some (Return st, s)
       | Next rx \<Rightarrow>
           if rx_type rx = VAL_PKT_DONE then
             Some (Next (), snd (val_internal_send_packet s VAL_PKT_DONE_ACK P_NULL 0 total_size))
           else if rx_type rx = VAL_PKT_EOT then
             Some (Return VAL_OK, snd (val_internal_send_packet s VAL_PKT_EOT_ACK P_NULL 0 0))
           else if rx_type rx = VAL_PKT_CANCEL then
             Some (Return VAL_ERR_ABORTED, val_internal_set_last_error s VAL_ERR_ABORTED 0)
           else skip_loop P total_size s
     }"

section \<open>Receiving data\<close>

text \<open>The batch counters and the variables of the data loop.\<close>

record recv_batch =
  rb_transferred :: u64
  rb_files_completed :: u32
  rb_start_ms :: u32

record recv_vars =
  rv_written :: u64
  rv_crc_state :: u32
  rv_pkts_since_ack :: u32

text \<open>Leaving on a cancelled session.\<close>

definition recv_cancelled :: "nat \<Rightarrow> recv_file \<Rightarrow> 'w val_session \<Rightarrow> 'w val_session" where
  "recv_cancelled f rf s =
     (let s = fs_close f s;
          s = call_file_complete (rf_name rf) (rf_sender rf) VAL_ERR_ABORTED s
      in val_internal_set_last_error s VAL_ERR_ABORTED 0)"

text \<open>The wait for the next packet.\<close>

partial_function (option) recv_data_wait ::
    "size_t \<Rightarrow> nat \<Rightarrow> recv_file \<Rightarrow> u32 \<Rightarrow> u8 \<Rightarrow> u32 \<Rightarrow> 'w val_session \<Rightarrow> (rx_info, 'w) part" where
  "recv_data_wait P f rf to_data tries backoff s =
     (let s = VAL_HEALTH_RECORD_OPERATION s;
          (hst, s) = val_internal_check_health s
      in if hst \<noteq> VAL_OK then Some (Return hst, fs_close f s)
         else
           let (connected, s) = val_internal_transport_is_connected s in
           if \<not> connected then Some (Return VAL_ERR_IO, VAL_SET_NETWORK_ERROR (fs_close f s) VAL_ERROR_DETAIL_CONNECTION)
           else if val_check_for_cancel s then Some (Return VAL_ERR_ABORTED, recv_cancelled f rf s)
           else do {
             (st, rx, s) \<leftarrow> val_internal_recv_packet s (Some (ucast P)) to_data;
             if st = VAL_OK then Some (Next rx, s)
             else if (st \<noteq> VAL_ERR_TIMEOUT \<and> st \<noteq> VAL_ERR_CRC) \<or> tries = 0 then
               let s = fs_close f s in
               Some (Return st, if st = VAL_ERR_TIMEOUT
                 then val_metrics_inc_timeout_hard (VAL_SET_TIMEOUT_ERROR s VAL_ERROR_DETAIL_TIMEOUT_DATA)
                 else if st = VAL_ERR_CRC then VAL_SET_CRC_ERROR s VAL_ERROR_DETAIL_PACKET_CORRUPT else s)
             else
               let s = VAL_HEALTH_RECORD_RETRY s;
                   (backoff, s) = double_backoff backoff s
               in recv_data_wait P f rf to_data (tries - 1) backoff s
           })"

text \<open>The progress callback of the receiver; the result says whether the session was cancelled.\<close>

definition recv_progress :: "recv_batch \<Rightarrow> recv_file \<Rightarrow> u64 \<Rightarrow> 'w val_session \<Rightarrow> bool \<times> 'w val_session" where
  "recv_progress batch rf written s =
     (if on_progress (callbacks (cfg s)) = None then (False, s)
      else
        let transferred = rb_transferred batch + written;
            (now, s) = ticks s;
            elapsed_ms = (if rb_start_ms batch \<noteq> 0 \<and> now \<ge> rb_start_ms batch then now - rb_start_ms batch else 0);
            rate = (if elapsed_ms > 0
                    then let bps = (transferred * 1000) div ucast elapsed_ms in ucast (if bps > 0xFFFFFFFF then 0xFFFFFFFF else bps)
                    else 0);
            s = call_progress \<lparr>pi_bytes_transferred = transferred, pi_total_bytes = 0, pi_current_file_bytes = written,
                  pi_files_completed = rb_files_completed batch, pi_total_files = 0, pi_transfer_rate_bps = rate,
                  pi_eta_seconds = 0, pi_current_filename = rf_name rf\<rparr> s
        in (val_check_for_cancel s, s))"

definition send_data_ack :: "u64 \<Rightarrow> 'w val_session \<Rightarrow> val_status_t \<times> 'w val_session" where
  "send_data_ack written s = val_internal_send_packet s VAL_PKT_DATA_ACK P_NULL 0 written"

text \<open>After the ordering decision: progress, then the acknowledgement policy with a stride of one packet.\<close>

definition after_data ::
    "nat \<Rightarrow> recv_file \<Rightarrow> recv_batch \<Rightarrow> bool \<Rightarrow> recv_vars \<Rightarrow> 'w val_session \<Rightarrow> recv_vars flow \<times> 'w val_session" where
  "after_data f rf batch in_order v s =
     (let (cancelled, s) = recv_progress batch rf (rv_written v) s in
      if cancelled then (Return VAL_ERR_ABORTED, recv_cancelled f rf s)
      else
        let ack_stride = 1;
            v = (if in_order then v\<lparr>rv_pkts_since_ack := rv_pkts_since_ack v + 1\<rparr> else v);
            force_ack = (in_order \<and> rv_written v \<ge> rf_size rf)
        in if force_ack \<or> rv_pkts_since_ack v \<ge> ack_stride then
             let (st2, s) = send_data_ack (rv_written v) s in
             if st2 \<noteq> VAL_OK then (Return st2, fs_close f s)
             else (Next (v\<lparr>rv_pkts_since_ack := 0\<rparr>), s)
           else (Next v, s))"

text \<open>A DATA packet: in order it is written, behind it is acknowledged again, ahead of it is refused.\<close>

definition receive_data ::
    "nat \<Rightarrow> recv_file \<Rightarrow> recv_batch \<Rightarrow> rx_info \<Rightarrow> recv_vars \<Rightarrow> 'w val_session \<Rightarrow> recv_vars flow \<times> 'w val_session" where
  "receive_data f rf batch rx v s =
     (let written = rv_written v;
          eff_off = (if rx_off rx = UINT64_MAX then written else rx_off rx);
          len = rx_len rx
      in if eff_off = written then
           let data = take (unat len) (recv_buf s);
               (w, s) = (if len \<noteq> 0 then fs_write data f s else (ucast len, s))
           in if w \<noteq> ucast len
              then (Return VAL_ERR_IO, val_internal_set_error_detailed (fs_close f s) VAL_ERR_IO VAL_ERROR_DETAIL_DISK_FULL)
              else
                let crc' = (if len \<noteq> 0 then val_crc32_update_state (rv_crc_state v) data else rv_crc_state v);
                    completes_file = (written + ucast len \<ge> rf_size rf);
                    v = v\<lparr>rv_crc_state := crc', rv_written := written + ucast len\<rparr>
                in if completes_file then
                     let (st2, s) = send_data_ack (rv_written v) s in
                     if st2 \<noteq> VAL_OK then (Return st2, fs_close f s)
                     else (Next (v\<lparr>rv_pkts_since_ack := 0\<rparr>), s)
                   else after_data f rf batch True v s
         else if eff_off < written then
           after_data f rf batch False v (snd (send_data_ack written s))
         else
           let s = snd (val_internal_send_packet_ex s VAL_PKT_DATA_NAK (P_BYTES (VAL_PUT_LE32 1)) 4 written False);
               s = snd (send_data_ack written s)
           in after_data f rf batch False v s)"

text \<open>One packet of the data loop; \<open>(v, True)\<close> is the end of the file.\<close>

definition receive_packet ::
    "nat \<Rightarrow> recv_file \<Rightarrow> recv_batch \<Rightarrow> rx_info \<Rightarrow> recv_vars \<Rightarrow> 'w val_session \<Rightarrow> (recv_vars \<times> bool) flow \<times> 'w val_session" where
  "receive_packet f rf batch rx v s =
     (if rx_type rx = VAL_PKT_DATA then
        (case receive_data f rf batch rx v s of
           (Return st, s) \<Rightarrow> (Return st, s)
         | (Next v, s) \<Rightarrow> (Next (v, False), s))
      else if rx_type rx = VAL_PKT_DONE then
        let (st2, s) = val_internal_send_packet s VAL_PKT_DONE_ACK P_NULL 0 (rv_written v) in
        if st2 \<noteq> VAL_OK then (Return st2, fs_close f s) else (Next (v, True), s)
      else if rx_type rx = VAL_PKT_ERROR then (Return VAL_ERR_PROTOCOL, fs_close f s)
      else if rx_type rx = VAL_PKT_CANCEL then (Return VAL_ERR_ABORTED, recv_cancelled f rf s)
      else if rx_type rx = VAL_PKT_SEND_META then
        (Return VAL_ERR_PROTOCOL, VAL_SET_PROTOCOL_ERROR (fs_close f s) VAL_ERROR_DETAIL_INVALID_STATE)
      else (Next (v, False), s))"

partial_function (option) recv_data_loop ::
    "size_t \<Rightarrow> nat \<Rightarrow> recv_file \<Rightarrow> recv_batch \<Rightarrow> recv_vars \<Rightarrow> 'w val_session \<Rightarrow> (recv_vars, 'w) part" where
  "recv_data_loop P f rf batch v s =
     do {
       (fl, s) \<leftarrow> recv_data_wait P f rf (val_internal_get_timeout s VAL_OP_DATA_RECV) (data_retries (retries (cfg s)))
                    (backoff_ms_base (retries (cfg s))) s;
       case fl of
         Return st \<Rightarrow> Some (Return st, s)
       | Next rx \<Rightarrow>
           (case receive_packet f rf batch rx v s of
              (Return st, s) \<Rightarrow> Some (Return st, s)
            | (Next (v, fin), s) \<Rightarrow> if fin then Some (Next v, s) else recv_data_loop P f rf batch v s)
     }"

section \<open>Receiving files\<close>

text \<open>Opening the output, and the loops for skipped and for received files.\<close>

definition file_received :: "recv_file \<Rightarrow> recv_batch \<Rightarrow> val_status_t \<Rightarrow> 'w val_session \<Rightarrow> recv_batch \<times> 'w val_session" where
  "file_received rf batch st s =
     (let s = call_file_complete (rf_name rf) (rf_sender rf) st s;
          s = val_metrics_inc_files_recv s
      in (batch\<lparr>rb_files_completed := rb_files_completed batch + 1, rb_transferred := rb_transferred batch + rf_size rf\<rparr>, s))"

definition recv_body :: "size_t \<Rightarrow> recv_file \<Rightarrow> u64 \<Rightarrow> bool \<Rightarrow> recv_batch \<Rightarrow> 'w val_session \<Rightarrow> (recv_batch, 'w) part" where
  "recv_body P rf resume_off skipping batch s =
     (if skipping then do {
        (fl, s) \<leftarrow> skip_loop P (rf_size rf) s;
        case fl of
          Return st \<Rightarrow> Some (Return st, s)
        | Next _ \<Rightarrow> (case file_received rf batch VAL_SKIPPED s of (batch, s) \<Rightarrow> Some (Next batch, s))
      }
      else
        let (f, s) = fs_open (rf_path rf) (if resume_off = 0 then ''wb'' else ''ab'') s in
        case f of
          None \<Rightarrow> Some (Return VAL_ERR_IO, val_internal_set_error_detailed s VAL_ERR_IO VAL_ERROR_DETAIL_PERMISSION)
        | Some f \<Rightarrow> do {
            (fl, s) \<leftarrow> recv_data_loop P f rf batch
                         \<lparr>rv_written = resume_off, rv_crc_state = val_crc32_init_state, rv_pkts_since_ack = 0\<rparr> s;
            case fl of
              Return st \<Rightarrow> Some (Return st, s)
            | Next _ \<Rightarrow> (case file_received rf batch VAL_OK (fs_close f s) of (batch, s) \<Rightarrow> Some (Next batch, s))
          })"

definition recv_one :: "size_t \<Rightarrow> recv_batch \<Rightarrow> 'w val_session \<Rightarrow> (recv_batch, 'w) part" where
  "recv_one P batch s =
     do {
       (fl, s) \<leftarrow> recv_meta P s;
       case fl of
         Return st \<Rightarrow> Some (Return st, s)
       | Next rf \<Rightarrow> do {
           (fl, s) \<leftarrow> (if rc_mode (resume (cfg s)) = VAL_RESUME_NEVER then negotiate_never rf s else negotiate_resume rf s);
           case fl of
             Return st \<Rightarrow> Some (Return st, s)
           | Next (resume_off, skipping) \<Rightarrow> recv_body P rf resume_off skipping batch s
         }
     }"

partial_function (option) receive_files_loop ::
    "size_t \<Rightarrow> recv_batch \<Rightarrow> 'w val_session \<Rightarrow> (val_status_t \<times> 'w val_session) option" where
  "receive_files_loop P batch s =
     do {
       (fl, s) \<leftarrow> recv_one P batch s;
       case fl of
         Return st \<Rightarrow> Some (st, s)
       | Next batch \<Rightarrow> receive_files_loop P batch s
     }"

definition val_internal_receive_files :: "'w val_session \<Rightarrow> (val_status_t \<times> 'w val_session) option" where
  "val_internal_receive_files s =
     (let P = mtu s;
          (start_ms, s) = ticks s
      in receive_files_loop P \<lparr>rb_transferred = 0, rb_files_completed = 0, rb_start_ms = start_ms\<rparr> s)"

definition val_receive_files :: "'w val_session \<Rightarrow> cstr option \<Rightarrow> (val_status_t \<times> 'w val_session) option" where
  "val_receive_files s out_dir =
     (let s = val_internal_lock s;
          s = (case out_dir of
                 Some d \<Rightarrow> s\<lparr>output_directory := take (val_internal_strnlen (Some d) VAL_MAX_PATH) d\<rparr>
               | None \<Rightarrow> s\<lparr>output_directory := []\<rparr>)
      in do {
        (hs, s) \<leftarrow> val_internal_do_handshake_receiver s;
        if hs \<noteq> VAL_OK then Some (hs, val_internal_unlock s)
        else do {
          (rs, s) \<leftarrow> val_internal_receive_files s;
          Some (rs, val_internal_unlock s)
        }
      })"

end
