(* ===== verification/Val_Gbn.thy ===== *)
theory Val_Gbn
  imports Val_Receiver
begin

text \<open>
  The receiver's data loop of \<^verbatim>\<open>src/val_receiver.c\<close> against a specification: a go-back-N receiver with
  cumulative acknowledgements, without sessions, buffers and hooks. The environment is given by three observations of
  the world: the bytes that wait, the bytes that were sent, and the output file.
\<close>

section \<open>The receiver as a go-back-N receiver\<close>

text \<open>
  The specification: what a cumulative receiver makes of a sequence of DATA packets, without sessions,
  buffers and hooks. Its state is the file so far; a packet without an offset counts as the next
  one. The replies are acknowledgements of the length of the file, and a NAK before it when the
  packet lies ahead.
\<close>

definition pkt_off :: "pkt \<Rightarrow> u64" where "pkt_off x = carried_offset (pkt_type x) (fst (snd (snd x))) (snd (snd (snd x)))"

definition gbn_step :: "u8 list \<Rightarrow> pkt \<Rightarrow> u8 list \<times> pkt list" where
  "gbn_step file x =
     (let n = length file in
      if pkt_off x = UINT64_MAX \<or> unat (pkt_off x) = n
      then (file @ pkt_bytes x, [ack_pkt (n + length (pkt_bytes x))])
      else if unat (pkt_off x) < n then (file, [ack_pkt n])
      else (file, [nak_pkt n, ack_pkt n]))"

fun gbn_receive :: "u8 list \<Rightarrow> pkt list \<Rightarrow> u8 list \<times> pkt list" where
  "gbn_receive file [] = (file, [])"
| "gbn_receive file (x # xs) =
     (let (file, reply) = gbn_step file x; (file, replies) = gbn_receive file xs in (file, reply @ replies))"

text \<open>
  The environment of the data loop: the transport delivers \<open>rxq\<close> and logs what is sent in \<open>tx\<close>; the
  handle \<open>f\<close> appends to the file \<open>out\<close>; the progress callback only looks.
\<close>

definition sink ::
    "'w val_config \<Rightarrow> nat \<Rightarrow> ('w \<Rightarrow> u8 list) \<Rightarrow> ('w \<Rightarrow> u8 list) \<Rightarrow> ('w \<Rightarrow> u8 list) \<Rightarrow> bool" where
  "sink c f rxq out tx \<longleftrightarrow> plain c \<and> delivers c rxq \<and> rx_keeps c (\<lambda>w. (out w, tx w)) \<and>
     (\<exists>fn. tr_send (transport c) = Some fn \<and>
        (\<forall>w d. rxq (snd (fn w d)) = rxq w \<and> out (snd (fn w d)) = out w \<and> tx (snd (fn w d)) = tx w @ d)) \<and>
     (\<exists>wr. fs_fwrite (filesystem c) = Some wr \<and>
        (\<forall>w bs. \<exists>w'. wr w bs f = (of_nat (length bs), w') \<and> rxq w' = rxq w \<and> out w' = out w @ bs \<and> tx w' = tx w)) \<and>
     (\<forall>fn w i. on_progress (callbacks c) = Some fn \<longrightarrow>
        (\<exists>w'. fn w i = (False, w') \<and> rxq w' = rxq w \<and> out w' = out w \<and> tx w' = tx w))"

text \<open>A session that can receive data: nobody cancelled it, and it is built without the health check.\<close>

definition ready :: "nat \<Rightarrow> ('w \<Rightarrow> u8 list) \<Rightarrow> ('w \<Rightarrow> u8 list) \<Rightarrow> ('w \<Rightarrow> u8 list) \<Rightarrow> 'w val_session \<Rightarrow> bool" where
  "ready f rxq out tx s \<longleftrightarrow> fed rxq s \<and> sink (cfg s) f rxq out tx \<and> \<not> build_diagnostics (build s)"

text \<open>Where a step of the loop leaves the world; of the session only scratch data and counters change.\<close>

definition leaves ::
    "('w \<Rightarrow> u8 list) \<Rightarrow> ('w \<Rightarrow> u8 list) \<Rightarrow> ('w \<Rightarrow> u8 list) \<Rightarrow> 'w val_session \<Rightarrow> 'w val_session \<Rightarrow>
     u8 list \<Rightarrow> u8 list \<Rightarrow> u8 list \<Rightarrow> bool" where
  "leaves rxq out tx s s' q d t \<longleftrightarrow> core s' = core s \<and> last_error s' = last_error s \<and>
     rxq (world s') = q \<and> out (world s') = d \<and> tx (world s') = t"

lemma leaves_refl: "leaves rxq out tx s s (rxq (world s)) (out (world s)) (tx (world s))"
  by (simp add: leaves_def)

lemma leaves_trans:
  "leaves rxq out tx s s' q d t \<Longrightarrow> leaves rxq out tx s' s'' q' d' t' \<Longrightarrow> leaves rxq out tx s s'' q' d' t'"
  by (simp add: leaves_def)

lemma leaves_ready: "leaves rxq out tx s s' q d t \<Longrightarrow> ready f rxq out tx s \<Longrightarrow> ready f rxq out tx s'"
  using fed_core [of rxq s s'] core_fields(1,2) [of s' s] by (simp add: ready_def leaves_def)

lemma leaves_frames: "leaves rxq out tx s s' q d t \<Longrightarrow> pkt_frame s' = pkt_frame s \<and> mtu s' = mtu s \<and> cfg s' = cfg s"
  using core_fields(1,3) [of s' s] frame_bytes_cfg [of s' s]
  by (simp add: leaves_def pkt_frame_def fun_eq_iff mtu_def)

text \<open>Sending a packet.\<close>

lemma send_sink:
  assumes r: "ready f rxq out tx s" and p: "payload_is (send_buf s) payload bs"
    and room: "12 + needs_room t bs off ex \<le> unat (mtu s)" and small: "needs_room t bs off ex < 65536"
  shows "\<exists>s'. val__internal_send_packet_core s t payload (of_nat (length bs)) off ex = (VAL_OK, s') \<and>
     leaves rxq out tx s s' (rxq (world s)) (out (world s)) (tx (world s) @ frame_bytes s t bs off ex)"
proof -
  obtain fn where fn: "tr_send (transport (cfg s)) = Some fn"
    "\<forall>w d. rxq (snd (fn w d)) = rxq w \<and> out (snd (fn w d)) = out w \<and> tx (snd (fn w d)) = tx w @ d"
    using r unfolding ready_def sink_def by blast
  have "session_ok s" "plain (cfg s)" using r by (simp_all add: ready_def fed_def sink_def)
  from send_plain [OF this fn(1) p room small] show ?thesis using fn(2) by (auto simp: leaves_def)
qed

lemma send_ack_sink:
  assumes r: "ready f rxq out tx s"
  shows "\<exists>s'. send_data_ack (of_nat n) s = (VAL_OK, s') \<and>
      leaves rxq out tx s s' (rxq (world s)) (out (world s)) (tx (world s) @ pkt_frame s (ack_pkt n))"
    "\<exists>s'. val_internal_send_packet_ex s VAL_PKT_DATA_NAK (P_BYTES (VAL_PUT_LE32 1)) 4 (of_nat n) False = (VAL_OK, s') \<and>
      leaves rxq out tx s s' (rxq (world s)) (out (world s)) (tx (world s) @ pkt_frame s (nak_pkt n))"
    "\<exists>s'. val_internal_send_packet s VAL_PKT_DONE_ACK P_NULL 0 (of_nat n) = (VAL_OK, s') \<and>
      leaves rxq out tx s s' (rxq (world s)) (out (world s)) (tx (world s) @ pkt_frame s (done_ack_pkt n))"
proof -
  have m: "512 \<le> unat (mtu s)" using r session_ok_mtu [of s] by (simp add: ready_def fed_def)
  have "12 + needs_room VAL_PKT_DATA_ACK [] (of_nat n) True \<le> unat (mtu s)" "needs_room VAL_PKT_DATA_ACK [] (of_nat n) True < 65536"
    "12 + needs_room VAL_PKT_DONE_ACK [] (of_nat n) True \<le> unat (mtu s)" "needs_room VAL_PKT_DONE_ACK [] (of_nat n) True < 65536"
    using ack_room(1,2) [of "of_nat n"] m by linarith+
  then show "\<exists>s'. send_data_ack (of_nat n) s = (VAL_OK, s') \<and>
      leaves rxq out tx s s' (rxq (world s)) (out (world s)) (tx (world s) @ pkt_frame s (ack_pkt n))"
    "\<exists>s'. val_internal_send_packet s VAL_PKT_DONE_ACK P_NULL 0 (of_nat n) = (VAL_OK, s') \<and>
      leaves rxq out tx s s' (rxq (world s)) (out (world s)) (tx (world s) @ pkt_frame s (done_ack_pkt n))"
    using send_sink [OF r payload_null, of VAL_PKT_DATA_ACK "of_nat n" True]
      send_sink [OF r payload_null, of VAL_PKT_DONE_ACK "of_nat n" True]
    by (simp_all add: send_data_ack_def val_internal_send_packet_def ack_pkt_def done_ack_pkt_def pkt_frame_def)
  have l: "length (VAL_PUT_LE32 1) = 4" by simp
  have p: "payload_is (send_buf s) (P_BYTES (VAL_PUT_LE32 1)) (VAL_PUT_LE32 1)" by (simp add: payload_is_def)
  show "\<exists>s'. val_internal_send_packet_ex s VAL_PKT_DATA_NAK (P_BYTES (VAL_PUT_LE32 1)) 4 (of_nat n) False = (VAL_OK, s') \<and>
      leaves rxq out tx s s' (rxq (world s)) (out (world s)) (tx (world s) @ pkt_frame s (nak_pkt n))"
    using send_sink [OF r p, of VAL_PKT_DATA_NAK "of_nat n" False] m
    unfolding l by (simp add: val_internal_send_packet_ex_def nak_pkt_def pkt_frame_def ack_room(3))
qed

lemma fs_write_sink:
  assumes r: "ready f rxq out tx s"
  shows "\<exists>s'. fs_write bs f s = (of_nat (length bs), s') \<and>
     leaves rxq out tx s s' (rxq (world s)) (out (world s) @ bs) (tx (world s))"
proof -
  obtain wr where "fs_fwrite (filesystem (cfg s)) = Some wr"
    "\<exists>w'. wr (world s) bs f = (of_nat (length bs), w') \<and> rxq w' = rxq (world s) \<and> out w' = out (world s) @ bs \<and> tx w' = tx (world s)"
    using r unfolding ready_def sink_def by blast
  then show ?thesis by (auto simp: fs_write_def leaves_def)
qed

lemma ticks_sink:
  assumes r: "ready f rxq out tx s" and t: "ticks s = (now, s')"
  shows "leaves rxq out tx s s' (rxq (world s)) (out (world s)) (tx (world s))"
proof -
  have f: "fed rxq s" and k: "rx_keeps (cfg s) (\<lambda>w. (out w, tx w))" using r by (simp_all add: ready_def sink_def)
  show ?thesis using fed_ticks [OF f t] ticks_ob(1) [OF k t] by (simp add: leaves_def)
qed

lemma progress_sink:
  assumes r: "ready f rxq out tx s"
  shows "\<exists>s'. recv_progress batch rf n s = (False, s') \<and>
     leaves rxq out tx s s' (rxq (world s)) (out (world s)) (tx (world s))"
proof (cases "on_progress (callbacks (cfg s))")
  case None
  then show ?thesis using leaves_refl [of rxq out tx s] by (intro exI [of _ s]) (simp add: recv_progress_def)
next
  case (Some fn)
  obtain now s1 where t: "ticks s = (now, s1)" by (cases "ticks s")
  note l1 = ticks_sink [OF r t]
  note r1 = leaves_ready [OF l1 r]
  have o: "\<forall>i. \<exists>w'. fn (world s1) i = (False, w') \<and> rxq w' = rxq (world s1) \<and> out w' = out (world s1) \<and> tx w' = tx (world s1)"
    using r Some unfolding ready_def sink_def by blast
  have c1: "on_progress (callbacks (cfg s1)) = Some fn" using leaves_frames [OF l1] Some by simp
  have nc: "\<not> val_check_for_cancel s1" using r1 by (simp add: ready_def fed_def)
  have "\<exists>s'. call_progress i s1 = s' \<and> \<not> val_check_for_cancel s' \<and>
      leaves rxq out tx s s' (rxq (world s)) (out (world s)) (tx (world s))" for i
  proof -
    obtain w' where "fn (world s1) i = (False, w')" "rxq w' = rxq (world s1)" "out w' = out (world s1)" "tx w' = tx (world s1)"
      using o by blast
    then show ?thesis using nc l1 by (simp add: call_progress_def c1 Let_def leaves_def val_check_for_cancel_def)
  qed
  then show ?thesis using Some by (auto simp: recv_progress_def t Let_def)
qed

lemma after_data_sink:
  assumes r: "ready f rxq out tx s" and v: "rv_written v = of_nat n" "rv_pkts_since_ack v = 0"
  shows "\<exists>s'. after_data f rf batch True v s = (Next v, s') \<and>
      leaves rxq out tx s s' (rxq (world s)) (out (world s)) (tx (world s) @ pkt_frame s (ack_pkt n))"
    "\<exists>s'. after_data f rf batch False v s = (Next v, s') \<and>
      leaves rxq out tx s s' (rxq (world s)) (out (world s)) (tx (world s))"
proof -
  obtain s1 where p: "recv_progress batch rf (rv_written v) s = (False, s1)"
    and l: "leaves rxq out tx s s1 (rxq (world s)) (out (world s)) (tx (world s))"
    using progress_sink [OF r] by blast
  note p = p [unfolded v(1)]
  obtain s2 where a: "send_data_ack (of_nat n) s1 = (VAL_OK, s2)"
    "leaves rxq out tx s1 s2 (rxq (world s1)) (out (world s1)) (tx (world s1) @ pkt_frame s1 (ack_pkt n))"
    using send_ack_sink(1) [OF leaves_ready [OF l r]] by blast
  have e: "v\<lparr>rv_pkts_since_ack := 0\<rparr> = v" using v(2) by (cases v) simp
  have "after_data f rf batch True v s = (Next (v\<lparr>rv_pkts_since_ack := 0\<rparr>), s2)"
    using v a(1) by (simp add: after_data_def v(1) p Let_def)
  moreover have "leaves rxq out tx s s2 (rxq (world s)) (out (world s)) (tx (world s) @ pkt_frame s (ack_pkt n))"
    using leaves_trans [OF l a(2)] leaves_frames [OF l] l by (simp add: leaves_def)
  ultimately show "\<exists>s'. after_data f rf batch True v s = (Next v, s') \<and>
      leaves rxq out tx s s' (rxq (world s)) (out (world s)) (tx (world s) @ pkt_frame s (ack_pkt n))" using e by auto
  show "\<exists>s'. after_data f rf batch False v s = (Next v, s') \<and>
      leaves rxq out tx s s' (rxq (world s)) (out (world s)) (tx (world s))"
    using v l by (simp add: after_data_def v(1) p Let_def)
qed

lemma pkt_off_data: "pkt_off (VAL_PKT_DATA, bs, off, ex) = (if ex then off else UINT64_MAX)"
  by (simp add: pkt_off_def pkt_type_def carried_offset_def)

lemma receive_data_sink:
  assumes r: "ready f rxq out tx s" and x: "x = (VAL_PKT_DATA, bs, off, ex)"
    and rx: "rx_off rx = pkt_off x" "rx_len rx = of_nat (length bs)" "take (length bs) (recv_buf s) = bs"
    and small: "length bs < 65536" "length file + length bs < 2 ^ 64 - 1"
    and v: "rv_written v = of_nat (length file)" "rv_pkts_since_ack v = 0" and o: "out (world s) = file"
    and g: "gbn_step file x = (file', replies)"
  shows "\<exists>v' s'. receive_data f rf batch rx v s = (Next v', s') \<and> rv_written v' = of_nat (length file') \<and>
      rv_pkts_since_ack v' = 0 \<and>
      leaves rxq out tx s s' (rxq (world s)) file' (tx (world s) @ concat (map (pkt_frame s) replies))"
proof -
  let ?n = "length file" and ?e = "if rx_off rx = UINT64_MAX then rv_written v else rx_off rx"
  have un: "unat (of_nat ?n :: u64) = ?n" using small(2) by (simp add: unat_of_nat_small)
  have ul: "unat (of_nat (length bs) :: u32) = length bs" using small(1) by (simp add: unat_of_nat_small)
  have uc: "(ucast (of_nat (length bs) :: u32) :: u64) = of_nat (length bs)"
    using small(1) by (simp add: word_eq_iff_unsigned [where ?'a = nat] ul unat_of_nat_small)
  have z: "(of_nat (length bs) :: u32) = 0 \<longleftrightarrow> bs = []" using ul by (auto simp: word_eq_iff_unsigned [where ?'a = nat])
  have e: "?e = of_nat ?n \<longleftrightarrow> pkt_off x = UINT64_MAX \<or> unat (pkt_off x) = ?n"
    using v(1) rx(1) un by (auto simp: word_eq_iff_unsigned [where ?'a = nat])
  show ?thesis
  proof (cases "?e = of_nat ?n")
    case True
    then have g': "file' = file @ bs" "replies = [ack_pkt (?n + length bs)]"
      using g e by (auto simp: gbn_step_def Let_def x pkt_bytes_def)
    obtain s1 where w: "(if (of_nat (length bs) :: u32) \<noteq> 0 then fs_write bs f s else (ucast (of_nat (length bs) :: u32), s)) = (of_nat (length bs), s1)"
      and l1: "leaves rxq out tx s s1 (rxq (world s)) (file @ bs) (tx (world s))"
      using fs_write_sink [OF r, of bs] o leaves_refl [of rxq out tx s] z uc by (cases "bs = []") auto
    note r1 = leaves_ready [OF l1 r]
    define v1 where "v1 = v\<lparr>rv_crc_state := (if (of_nat (length bs) :: u32) \<noteq> 0 then val_crc32_update_state (rv_crc_state v) bs else rv_crc_state v),
        rv_written := rv_written v + ucast (of_nat (length bs) :: u32)\<rparr>"
    have v1: "rv_written v1 = of_nat (?n + length bs)" "rv_pkts_since_ack v1 = 0" "v1\<lparr>rv_pkts_since_ack := 0\<rparr> = v1"
      using v uc by (simp_all add: v1_def)
    have eT: "?e = rv_written v" using True v(1) by simp
    have q: "receive_data f rf batch rx v s =
       (if rf_size rf \<le> of_nat ?n + of_nat (length bs) then
          let (st2, s) = send_data_ack (rv_written v1) s1 in
          if st2 \<noteq> VAL_OK then (Return st2, fs_close f s) else (Next (v1\<lparr>rv_pkts_since_ack := 0\<rparr>), s)
        else after_data f rf batch True v1 s1)"
      unfolding receive_data_def Let_def if_P [OF eT] rx(2,3) ul w prod.case v1_def [symmetric]
      by (simp add: v(1) uc)
    obtain s2 where "receive_data f rf batch rx v s = (Next v1, s2)"
      "leaves rxq out tx s1 s2 (rxq (world s1)) (out (world s1)) (tx (world s1) @ pkt_frame s1 (ack_pkt (?n + length bs)))"
      using send_ack_sink(1) [OF r1, of "?n + length bs"] after_data_sink(1) [OF r1 v1(1,2), of rf batch] v1
      unfolding q by (cases "rf_size rf \<le> of_nat ?n + of_nat (length bs)") (auto simp del: of_nat_add)
    then show ?thesis using v1 g' l1 leaves_trans [OF l1] leaves_frames [OF l1] by (auto simp: leaves_def)
  next
    case ahead: False
    obtain s1 where a: "send_data_ack (of_nat ?n) s = (VAL_OK, s1)"
      "leaves rxq out tx s s1 (rxq (world s)) file (tx (world s) @ pkt_frame s (ack_pkt ?n))"
      using send_ack_sink(1) [OF r, of ?n] o by blast
    have ne: "rx_off rx \<noteq> UINT64_MAX" using ahead v(1) by auto
    have oe: "?e = rx_off rx" and na: "rx_off rx \<noteq> rv_written v" using ne ahead v(1) by simp_all
    have lt: "?e < of_nat ?n \<longleftrightarrow> unat (pkt_off x) < ?n" using ne rx(1) by (simp add: word_less_nat_alt un)
    show ?thesis
    proof (cases "unat (pkt_off x) < ?n")
      case True
      then have g': "file' = file" "replies = [ack_pkt ?n]" using g e ahead by (auto simp: gbn_step_def Let_def)
      obtain s2 where b: "after_data f rf batch False v s1 = (Next v, s2)"
        "leaves rxq out tx s1 s2 (rxq (world s1)) (out (world s1)) (tx (world s1))"
        using after_data_sink(2) [OF leaves_ready [OF a(2) r] v] by blast
      have "receive_data f rf batch rx v s = (Next v, s2)"
        unfolding receive_data_def Let_def oe if_not_P [OF na] using lt True v(1) a(1) b(1) ne by simp
      then show ?thesis using v g' leaves_trans [OF a(2) b(2)] a(2) by (auto simp: leaves_def)
    next
      case False
      then have g': "file' = file" "replies = [nak_pkt ?n, ack_pkt ?n]"
        using g e ahead by (auto simp: gbn_step_def Let_def)
      obtain s3 where c: "val_internal_send_packet_ex s VAL_PKT_DATA_NAK (P_BYTES (VAL_PUT_LE32 1)) 4 (of_nat ?n) False = (VAL_OK, s3)"
        "leaves rxq out tx s s3 (rxq (world s)) file (tx (world s) @ pkt_frame s (nak_pkt ?n))"
        using send_ack_sink(2) [OF r, of ?n] o by blast
      note r3 = leaves_ready [OF c(2) r]
      obtain s4 where d: "send_data_ack (of_nat ?n) s3 = (VAL_OK, s4)"
        "leaves rxq out tx s3 s4 (rxq (world s3)) (out (world s3)) (tx (world s3) @ pkt_frame s3 (ack_pkt ?n))"
        using send_ack_sink(1) [OF r3, of ?n] by blast
      obtain s2 where b: "after_data f rf batch False v s4 = (Next v, s2)"
        "leaves rxq out tx s4 s2 (rxq (world s4)) (out (world s4)) (tx (world s4))"
        using after_data_sink(2) [OF leaves_ready [OF d(2) r3] v] by blast
      have "receive_data f rf batch rx v s = (Next v, s2)"
        unfolding receive_data_def Let_def oe if_not_P [OF na] using lt False v(1) c(1) d(1) b(1) ne by simp
      then show ?thesis using v g' leaves_frames [OF c(2)] c(2) d(2) b(2) by (auto simp: leaves_def)
    qed
  qed
qed

text \<open>The packets of the loop: they fit the receiver's packet size.\<close>

definition data_fits :: "'w val_session \<Rightarrow> pkt \<Rightarrow> bool" where
  "data_fits s x = (case x of (t, bs, off, ex) \<Rightarrow>
     12 + needs_room t bs off ex \<le> unat (mtu s) \<and> needs_room t bs off ex < 65536)"

lemma recv_wait_sink:
  assumes r: "ready f rxq out tx s" and q: "rxq (world s) = pkt_frame p x @ rest"
    and crc: "val_internal_crc32 s = val_internal_crc32 p" and x: "x = (t, bs, off, ex)" "t = VAL_PKT_DATA \<or> t = VAL_PKT_DONE"
    and fits: "data_fits s x"
  shows "\<exists>rx s'. recv_data_wait (mtu s) f rf to_ms tries backoff s = Some (Next rx, s') \<and>
     rx_type rx = t \<and> rx_off rx = pkt_off x \<and> rx_len rx = of_nat (length bs) \<and>
     take (length bs) (recv_buf s') = bs \<and> length bs < 65536 \<and> leaves rxq out tx s s' rest (out (world s)) (tx (world s))"
proof -
  have fd: "session_ok s" "delivers (cfg s) rxq" "capture (cfg s) = None" "\<not> val_check_for_cancel s"
    and sk: "plain (cfg s)" "rx_keeps (cfg s) (\<lambda>w. (out w, tx w))" and nd: "\<not> build_diagnostics (build s)"
    using r by (simp_all add: ready_def fed_def sink_def)
  obtain fl td ct where wc: "wire_content t bs off ex = (fl, td, ct)" by (cases "wire_content t bs off ex")
  have n: "12 + needs_room t bs off ex \<le> unat (mtu s)" "needs_room t bs off ex < 65536" using fits by (simp_all add: data_fits_def x(1))
  have m: "512 \<le> unat (mtu s)" "unat (mtu s) \<le> 2097152" using session_ok_mtu [OF fd(1)] by simp_all
  have c: "unat (ucast (mtu s) :: u32) = unat (mtu s)" using m(2) by (simp add: unsigned_ucast_eq take_bit_nat_eq_self)
  have c0: "(ucast (mtu s) :: u32) \<noteq> 0" using c m(1) by auto
  have lc: "length ct \<le> unat (ucast (mtu s) :: u32)" using n(1) wc c by (simp add: needs_room_def)
  have hp: "has_payload t" "pkt_known t" using x(2) by (auto simp: has_payload_def)
  have q': "rxq (world s) = frame_bytes p t bs off ex @ rest" using q by (simp add: x(1) pkt_frame_def)
  obtain s' where rc: "val_internal_recv_packet s (Some (ucast (mtu s))) to_ms = Some (VAL_OK,
       \<lparr>rx_type = t, rx_len = of_nat (length bs), rx_off = carried_offset t off ex\<rparr>, s')"
    "length bs < 65536" "mem_read (recv_buf s') 0 (length bs) = bs" "rxq (world s') = rest" "core s' = core s"
    "last_error s' = after_type t (last_error s)"
    using recv_frame_some [OF fd(1-3) crc hp(2) q' n wc hp(1) c0 lc, of to_ms] by blast
  have ob: "out (world s') = out (world s)" "tx (world s') = tx (world s)"
    using recv_packet_ob [OF rc(1) sk(2)] by simp_all
  have w: "recv_data_wait (mtu s) f rf to_ms tries backoff s =
      Some (Next \<lparr>rx_type = t, rx_len = of_nat (length bs), rx_off = carried_offset t off ex\<rparr>, s')"
    using nd sk(1) fd(4) rc(1)
    by (subst recv_data_wait.simps)
      (simp add: VAL_HEALTH_RECORD_OPERATION_def val_internal_check_health_def val_internal_transport_is_connected_def plain_def)
  show ?thesis
    using rc ob x w by (auto simp: leaves_def pkt_off_def pkt_type_def mem_read_def after_type_def)
qed

text \<open>The loop over a sequence of DATA packets.\<close>

definition is_data :: "pkt \<Rightarrow> bool" where "is_data x \<longleftrightarrow> pkt_type x = VAL_PKT_DATA"

definition stream_size :: "pkt list \<Rightarrow> nat" where "stream_size xs = sum_list (map (\<lambda>x. length (pkt_bytes x)) xs)"

lemma recv_loop_data:
  assumes "ready f rxq out tx s" and "rxq (world s) = concat (map (pkt_frame p) xs) @ rest"
    and "val_internal_crc32 s = val_internal_crc32 p" and "\<forall>x \<in> set xs. is_data x \<and> data_fits s x"
    and "length content + stream_size xs < 2 ^ 64 - 1"
    and "rv_written v = of_nat (length content)" "rv_pkts_since_ack v = 0" and "out (world s) = content"
    and "gbn_receive content xs = (content', replies)"
  shows "\<exists>v' s'. recv_data_loop (mtu s) f rf batch v s = recv_data_loop (mtu s) f rf batch v' s' \<and>
      rv_written v' = of_nat (length content') \<and> rv_pkts_since_ack v' = 0 \<and> length content' \<le> length content + stream_size xs \<and>
      leaves rxq out tx s s' rest content' (tx (world s) @ concat (map (pkt_frame s) replies))"
  using assms
proof (induction xs arbitrary: s v content replies)
  case Nil
  then show ?case using leaves_refl [of rxq out tx s] by (auto simp: stream_size_def)
next
  case (Cons x xs)
  obtain t bs off ex where x0: "x = (t, bs, off, ex)" by (cases x)
  have x: "x = (VAL_PKT_DATA, bs, off, ex)" using Cons.prems(4) x0 by (simp add: is_data_def pkt_type_def)
  have q: "rxq (world s) = pkt_frame p x @ concat (map (pkt_frame p) xs) @ rest" using Cons.prems(2) by simp
  obtain file1 rep1 where g1: "gbn_step content x = (file1, rep1)" by (cases "gbn_step content x")
  obtain rep2 where g2: "gbn_receive file1 xs = (content', rep2)" "replies = rep1 @ rep2"
    using Cons.prems(9) g1 by (auto split: prod.splits)
  have sz: "length content + length bs < 2 ^ 64 - 1" "length file1 + stream_size xs \<le> length content + stream_size (x # xs)"
    using Cons.prems(5) g1 by (auto simp: stream_size_def x pkt_bytes_def gbn_step_def Let_def split: if_splits)
  define to_ms where "to_ms = val_internal_get_timeout s VAL_OP_DATA_RECV"
  obtain rx s1 where w: "recv_data_wait (mtu s) f rf to_ms (data_retries (retries (cfg s))) (backoff_ms_base (retries (cfg s))) s = Some (Next rx, s1)"
    "rx_type rx = VAL_PKT_DATA" "rx_off rx = pkt_off x" "rx_len rx = of_nat (length bs)" "take (length bs) (recv_buf s1) = bs"
    "length bs < 65536" and l1: "leaves rxq out tx s s1 (concat (map (pkt_frame p) xs) @ rest) (out (world s)) (tx (world s))"
    using recv_wait_sink [OF Cons.prems(1) q Cons.prems(3) x, of rf to_ms "data_retries (retries (cfg s))" "backoff_ms_base (retries (cfg s))"]
      Cons.prems(4) by auto
  note r1 = leaves_ready [OF l1 Cons.prems(1)]
  have o1: "out (world s1) = content" using l1 Cons.prems(8) by (simp add: leaves_def)
  obtain v2 s2 where d: "receive_data f rf batch rx v s1 = (Next v2, s2)" "rv_written v2 = of_nat (length file1)" "rv_pkts_since_ack v2 = 0"
    and l2: "leaves rxq out tx s1 s2 (rxq (world s1)) file1 (tx (world s1) @ concat (map (pkt_frame s1) rep1))"
    using receive_data_sink [OF r1 x w(3,4,5,6) sz(1) Cons.prems(6,7) o1 g1] by blast
  have l12: "leaves rxq out tx s s2 (concat (map (pkt_frame p) xs) @ rest) file1 (tx (world s) @ concat (map (pkt_frame s) rep1))"
    using leaves_trans [OF l1 l2] l1 leaves_frames [OF l1] by (simp add: leaves_def)
  note fr = leaves_frames [OF l12]
  have e: "recv_data_loop (mtu s) f rf batch v s = recv_data_loop (mtu s) f rf batch v2 s2"
    using w(1,2) d(1) by (subst recv_data_loop.simps) (simp add: to_ms_def [symmetric] receive_packet_def)
  have "\<exists>v' s'. recv_data_loop (mtu s2) f rf batch v2 s2 = recv_data_loop (mtu s2) f rf batch v' s' \<and>
      rv_written v' = of_nat (length content') \<and> rv_pkts_since_ack v' = 0 \<and> length content' \<le> length file1 + stream_size xs \<and>
      leaves rxq out tx s2 s' rest content' (tx (world s2) @ concat (map (pkt_frame s2) rep2))"
  proof (rule Cons.IH [OF leaves_ready [OF l12 Cons.prems(1)] _ _ _ _ d(2,3) _ g2(1)])
    show "rxq (world s2) = concat (map (pkt_frame p) xs) @ rest" "out (world s2) = file1" using l12 by (simp_all add: leaves_def)
    show "val_internal_crc32 s2 = val_internal_crc32 p" using Cons.prems(3) crc_cfg [of s2 s] fr by simp
    show "\<forall>x \<in> set xs. is_data x \<and> data_fits s2 x" using Cons.prems(4) fr by (simp add: data_fits_def)
    show "length file1 + stream_size xs < 2 ^ 64 - 1" using sz(2) Cons.prems(5) by linarith
  qed
  then obtain v3 s3 where "recv_data_loop (mtu s2) f rf batch v2 s2 = recv_data_loop (mtu s2) f rf batch v3 s3"
      "rv_written v3 = of_nat (length content')" "rv_pkts_since_ack v3 = 0" "length content' \<le> length file1 + stream_size xs"
      "leaves rxq out tx s2 s3 rest content' (tx (world s2) @ concat (map (pkt_frame s2) rep2))"
    by blast
  then show ?case using e fr sz(2) l12 g2(2) by (auto simp: leaves_def)
qed

lemma recv_loop_done:
  assumes r: "ready f rxq out tx s"
    and q: "rxq (world s) = concat (map (pkt_frame p) xs) @ pkt_frame p (done_pkt n) @ rest"
    and crc: "val_internal_crc32 s = val_internal_crc32 p" and xs: "\<forall>x \<in> set xs. is_data x \<and> data_fits s x"
    and size: "length (out (world s)) + stream_size xs < 2 ^ 64 - 1"
    and v: "rv_written v = of_nat (length (out (world s)))" "rv_pkts_since_ack v = 0"
  shows "\<exists>v' s'. recv_data_loop (mtu s) f rf batch v s = Some (Next v', s') \<and>
     rv_written v' = of_nat (length (out (world s'))) \<and>
     out (world s') = fst (gbn_receive (out (world s)) xs) \<and>
     tx (world s') = tx (world s) @ concat (map (pkt_frame s) (snd (gbn_receive (out (world s)) xs)
       @ [done_ack_pkt (length (out (world s')))])) \<and>
     rxq (world s') = rest \<and> last_error s' = last_error s \<and> core s' = core s"
proof -
  let ?file = "out (world s)"
  obtain file' replies where g: "gbn_receive ?file xs = (file', replies)" by (cases "gbn_receive ?file xs")
  obtain v1 s1 where e: "recv_data_loop (mtu s) f rf batch v s = recv_data_loop (mtu s) f rf batch v1 s1"
    "rv_written v1 = of_nat (length file')"
    and l1: "leaves rxq out tx s s1 (pkt_frame p (done_pkt n) @ rest) file' (tx (world s) @ concat (map (pkt_frame s) replies))"
    using recv_loop_data [OF r q crc xs size v refl g] by blast
  note fr = leaves_frames [OF l1] and r1 = leaves_ready [OF l1 r]
  have q1: "rxq (world s1) = pkt_frame p (done_pkt n) @ rest" using l1 by (simp add: leaves_def)
  have fits: "data_fits s1 (done_pkt n)"
    using r1 session_ok_mtu [of s1] by (simp add: data_fits_def done_pkt_def needs_room_def wire_content_def ready_def fed_def)
  have crc1: "val_internal_crc32 s1 = val_internal_crc32 p" using crc crc_cfg [of s1 s] fr by simp
  define to_ms where "to_ms = val_internal_get_timeout s1 VAL_OP_DATA_RECV"
  obtain rx s2 where w: "recv_data_wait (mtu s1) f rf to_ms (data_retries (retries (cfg s1))) (backoff_ms_base (retries (cfg s1))) s1 = Some (Next rx, s2)"
    "rx_type rx = VAL_PKT_DONE" and l2: "leaves rxq out tx s1 s2 rest (out (world s1)) (tx (world s1))"
    using recv_wait_sink [OF r1 q1 crc1 done_pkt_def _ fits, of rf to_ms "data_retries (retries (cfg s1))" "backoff_ms_base (retries (cfg s1))"]
    by auto
  obtain s3 where d: "val_internal_send_packet s2 VAL_PKT_DONE_ACK P_NULL 0 (of_nat (length file')) = (VAL_OK, s3)"
    and l3: "leaves rxq out tx s2 s3 (rxq (world s2)) (out (world s2)) (tx (world s2) @ pkt_frame s2 (done_ack_pkt (length file')))"
    using send_ack_sink(3) [OF leaves_ready [OF l2 r1]] by blast
  have "recv_data_loop (mtu s) f rf batch v1 s1 = Some (Next v1, s3)"
    using w d e(2) fr by (subst recv_data_loop.simps) (simp add: to_ms_def [symmetric] receive_packet_def)
  then show ?thesis
    using e l1 l2 l3 g leaves_frames [OF l2] fr by (auto simp: leaves_def)
qed

text \<open>
  C4. The receiver's data loop implements the go-back-N receiver: on any sequence of DATA frames -
  in order, repeated, overlapping, ahead, with or without an offset - followed by DONE it ends, and
  then the output file holds exactly what the specification makes of that sequence, and exactly the
  replies of the specification were sent, frame by frame in their order, then the acknowledgement of
  DONE. Nothing behind DONE is taken from the stream.
\<close>

theorem receiver_refines_gbn:
  assumes r: "ready f rxq out tx s"
    and q: "rxq (world s) = concat (map (pkt_frame p) xs) @ pkt_frame p (done_pkt n) @ rest"
    and crc: "val_internal_crc32 s = val_internal_crc32 p" and xs: "\<forall>x \<in> set xs. is_data x \<and> data_fits s x"
    and size: "length (out (world s)) + stream_size xs < 2 ^ 64 - 1"
    and v: "rv_written v = of_nat (length (out (world s)))" "rv_pkts_since_ack v = 0"
  shows "\<exists>v' s'. recv_data_loop (mtu s) f rf batch v s = Some (Next v', s') \<and>
     rv_written v' = of_nat (length (out (world s'))) \<and>
     out (world s') = fst (gbn_receive (out (world s)) xs) \<and>
     tx (world s') = tx (world s) @ concat (map (pkt_frame s) (snd (gbn_receive (out (world s)) xs)
       @ [done_ack_pkt (length (out (world s')))])) \<and>
     rxq (world s') = rest \<and> last_error s' = last_error s"
  using recv_loop_done [OF r q crc xs size v, of rf batch] by blast

lemma desk_ready: "ready 2 dk_rx dk_out dk_tx (desk_session mode w)"
proof -
  have "sink (desk_config mode) 2 dk_rx dk_out dk_tx"
    using desk_plain [of mode] desk_fed [of mode w]
    by (simp add: sink_def fed_def rx_keeps_def) (auto simp: desk_config_def desk_files_def desk_send_def desk_recv_def)
  then show ?thesis using desk_fed [of mode w] by (simp add: ready_def) (simp add: desk_session_def bed_build_def)
qed

theorem receiver_refines_gbn_witness:
  "\<forall>rf batch. \<exists>v' s'. recv_data_loop 512 2 rf batch \<lparr>rv_written = 0, rv_crc_state = 0, rv_pkts_since_ack = 0\<rparr>
       (desk_session VAL_RESUME_NEVER (desk_world (concat (map (pkt_frame bed_session)
          [(VAL_PKT_DATA, [1, 2, 3], 0, True), (VAL_PKT_DATA, [9], 5, True), (VAL_PKT_DATA, [4], 0, False), (VAL_PKT_DATA, [7, 7], 1, True)]) @
          pkt_frame bed_session (done_pkt 4) @ [42]) [] [])) = Some (Next v', s') \<and>
     dk_out (world s') = [1, 2, 3, 4] \<and> dk_rx (world s') = [42]"
proof -
  let ?xs = "[(VAL_PKT_DATA, [1, 2, 3], 0, True), (VAL_PKT_DATA, [9], 5, True), (VAL_PKT_DATA, [4], 0, False), (VAL_PKT_DATA, [7, 7], 1, True)]"
  let ?s = "desk_session VAL_RESUME_NEVER (desk_world (concat (map (pkt_frame bed_session) ?xs) @
      pkt_frame bed_session (done_pkt 4) @ [42]) [] [])"
  have crc: "val_internal_crc32 ?s = val_internal_crc32 bed_session"
    by (simp add: val_internal_crc32_def fun_eq_iff desk_config_def bed_session_cfg bed_config_def)
  have fits: "\<forall>x \<in> set ?xs. is_data x \<and> data_fits ?s x"
    by (simp add: is_data_def pkt_type_def data_fits_def needs_room_def wire_content_def)
  have g: "fst (gbn_receive [] ?xs) = [1, 2, 3, 4]"
    by (simp add: gbn_step_def pkt_off_data pkt_bytes_def Let_def)
  let ?v = "\<lparr>rv_written = 0, rv_crc_state = 0, rv_pkts_since_ack = 0\<rparr> :: recv_vars"
  have q: "dk_rx (world ?s) = concat (map (pkt_frame bed_session) ?xs) @ pkt_frame bed_session (done_pkt 4) @ [42]"
    and o: "dk_out (world ?s) = []" by (simp_all only: desk_simps desk_world_def desk.simps)
  have "\<exists>v' s'. recv_data_loop 512 2 rf batch ?v ?s = Some (Next v', s') \<and> dk_out (world s') = [1, 2, 3, 4] \<and> dk_rx (world s') = [42]" for rf batch
    using receiver_refines_gbn [OF desk_ready q crc fits, of ?v rf batch] o g unfolding o desk_simps by (auto simp: stream_size_def pkt_bytes_def)
  then show ?thesis by blast
qed

end
