(* ===== verification/Val_Transfer.thy ===== *)
theory Val_Transfer
  imports Val_Window Val_Gbn
begin

text \<open>
  Sender and receiver together: a file over an undisturbed link, and what loss does to it.
\<close>

section \<open>What the receiver makes of the sender's packets\<close>

lemma gbn_receive_append:
  "gbn_receive f0 (xs @ ys) =
     (let (f1, r1) = gbn_receive f0 xs; (f2, r2) = gbn_receive f1 ys in (f2, r1 @ r2))"
  by (induction f0 xs rule: gbn_receive.induct) (auto simp: Let_def split: prod.splits)

lemma gbn_step_data:
  assumes "length X = n" and "n < length F" and "length F < 2 ^ 63"
  shows "gbn_step X (data_pkt F m acked n) = (X @ take (chunk F m acked n) (drop n F), [ack_pkt (n + chunk F m acked n)])"
proof -
  let ?c = "chunk F m acked n"
  have u: "unat (of_nat n :: u64) = n" using assms by (simp add: unat_of_nat_small)
  have c: "n + ?c \<le> length F" using assms(2) by (simp add: chunk_def)
  have b: "pkt_bytes (data_pkt F m acked n) = take ?c (drop n F)" by (simp add: data_pkt_def pkt_bytes_def)
  have o: "pkt_off (data_pkt F m acked n) = UINT64_MAX \<or> unat (pkt_off (data_pkt F m acked n)) = length X"
    using u assms(1) by (auto simp: data_pkt_def pkt_off_data)
  show ?thesis using o c assms(1,2) by (simp add: gbn_step_def Let_def b)
qed

lemma gbn_receive_window:
  assumes "length X = n" and "n \<le> length F" and "length F < 2 ^ 63"
  shows "gbn_receive X (window_pkts F m acked k n) =
    (X @ take (window_end F m acked k n - n) (drop n F), map ack_pkt (window_acks F m acked k n))"
  using assms(1,2)
proof (induction k arbitrary: n X)
  case (Suc k)
  show ?case
  proof (cases "n < length F")
    case True
    let ?c = "chunk F m acked n" and ?e = "window_end F m acked (Suc k) n"
    have c: "n + ?c \<le> length F" using True by (simp add: chunk_def)
    let ?X = "X @ take ?c (drop n F)"
    have l: "length ?X = n + ?c" using Suc.prems(1) c by simp
    note IH = Suc.IH [OF l c]
    have "n + ?c \<le> ?e" using window_end_le [OF c, of m acked k] True by simp
    then have "take ?c (drop n F) @ take (?e - (n + ?c)) (drop (n + ?c) F) = take (?e - n) (drop n F)"
      using take_add [of ?c "?e - (n + ?c)" "drop n F"] by (simp add: add.commute)
    then show ?thesis using True by (simp add: gbn_step_data [OF Suc.prems(1) True assms(3)] IH)
  qed (use Suc.prems in simp)
qed simp

lemma gbn_receive_file:
  assumes "length X = n" and "n \<le> length F" and "length F < 2 ^ 63" and "8 < m" and "0 < k"
  shows "gbn_receive X (file_pkts F m k n) = (X @ drop n F, map ack_pkt (file_acks F m k n))"
  using assms(1,2)
proof (induction "length F - n" arbitrary: n X rule: less_induct)
  case less
  let ?e = "window_end F m n k n"
  show ?case
  proof (cases "n < length F")
    case True
    have e: "n < ?e" "?e \<le> length F" using window_moves [OF True assms(4,5)] window_end_le [of n F m n k] True by simp_all
    let ?X = "X @ take (?e - n) (drop n F)"
    have IH: "gbn_receive ?X (file_pkts F m k ?e) = (?X @ drop ?e F, map ack_pkt (file_acks F m k ?e))"
      by (rule less.hyps) (use e True less.prems in simp_all)
    have d: "take (?e - n) (drop n F) @ drop ?e F = drop n F"
      using append_take_drop_id [of "?e - n" "drop n F"] e by simp
    show ?thesis
      using e gbn_receive_window [OF less.prems assms(3), of m n k] IH d
      by (simp add: file_pkts.simps [of F m k n] file_acks.simps [of F m k n] gbn_receive_append)
  next
    case False
    then have "\<not> n < ?e" using window_end_le [of n F m n k] less.prems by simp
    then show ?thesis using False by (simp add: file_pkts.simps [of F m k n] file_acks.simps [of F m k n])
  qed
qed

text \<open>The packets fit the packet size they were cut for, and carry the file once.\<close>

lemma window_pkts_fit:
  assumes "m + 12 \<le> unat (mtu s)" and "8 < m" "m < 65536"
  shows "x \<in> set (window_pkts F m acked k n) \<Longrightarrow> is_data x \<and> data_fits s x"
proof (induction k arbitrary: n)
  case (Suc k)
  have "is_data (data_pkt F m acked n) \<and> data_fits s (data_pkt F m acked n)"
    using assms by (auto simp: data_pkt_def is_data_def pkt_type_def data_fits_def needs_room_def wire_content_def chunk_def)
  then show ?case using Suc by (auto split: if_splits)
qed simp

lemma window_pkts_size: "n \<le> length F \<Longrightarrow> n + stream_size (window_pkts F m acked k n) = window_end F m acked k n"
proof (induction k arbitrary: n)
  case (Suc k)
  show ?case
  proof (cases "n < length F")
    case True
    have c: "n + chunk F m acked n \<le> length F" using True by (simp add: chunk_def)
    show ?thesis using Suc.IH [OF c] True c by (simp add: stream_size_def data_pkt_def pkt_bytes_def add.assoc [symmetric])
  qed (use Suc.prems in \<open>simp add: stream_size_def\<close>)
qed (simp add: stream_size_def)

lemma file_pkts_fit:
  assumes "m + 12 \<le> unat (mtu s)" and "8 < m" "m < 65536" and "x \<in> set (file_pkts F m k n)"
  shows "is_data x \<and> data_fits s x"
  using assms(4)
proof (induction "length F - n" arbitrary: n rule: less_induct)
  case less
  let ?e = "window_end F m n k n"
  have n: "n < ?e" using less.prems by (simp add: file_pkts.simps [of F m k n] split: if_splits)
  then have "n < length F" by (cases k) (auto split: if_splits)
  then have lt: "length F - ?e < length F - n" using n by linarith
  have "x \<in> set (window_pkts F m n k n) \<or> x \<in> set (file_pkts F m k ?e)"
    using less.prems n by (simp add: file_pkts.simps [of F m k n])
  then show ?case using window_pkts_fit [OF assms(1-3)] less.hyps [OF lt] by blast
qed

lemma file_pkts_size: "n \<le> length F \<Longrightarrow> n + stream_size (file_pkts F m k n) \<le> length F"
proof (induction "length F - n" arbitrary: n rule: less_induct)
  case less
  let ?e = "window_end F m n k n"
  show ?case
  proof (cases "n < ?e")
    case True
    note le = window_end_le [OF less.prems, of m n k]
    have "?e + stream_size (file_pkts F m k ?e) \<le> length F" by (rule less.hyps) (use True le in linarith)+
    then show ?thesis using True window_pkts_size [OF less.prems, of m n k]
      by (simp add: file_pkts.simps [of F m k n] stream_size_def)
  qed (use less.prems in \<open>simp add: file_pkts.simps [of F m k n] stream_size_def\<close>)
qed

section \<open>A file from one side to the other\<close>

text \<open>
  The two byte streams of a transfer, from the position \<open>n\<close> on: the DATA frames of the sender with DONE,
  and the acknowledgements of the receiver with the one of DONE.
\<close>

definition data_stream :: "'w val_session \<Rightarrow> u8 list \<Rightarrow> nat \<Rightarrow> nat \<Rightarrow> nat \<Rightarrow> u8 list" where
  "data_stream s F m k n = concat (map (pkt_frame s) (file_pkts F m k n @ [done_pkt (of_nat (length F))]))"

definition ack_stream :: "'w val_session \<Rightarrow> u8 list \<Rightarrow> nat \<Rightarrow> nat \<Rightarrow> nat \<Rightarrow> u8 list" where
  "ack_stream s F m k n = concat (map (pkt_frame s) (map ack_pkt (file_acks F m k n) @ [done_ack_pkt (length F)]))"

lemma receive_stream:
  assumes r: "ready f rxq out tx r" and o: "out (world r) = take n F" "n \<le> length F" "length F < 2 ^ 63"
    and m: "m + 12 \<le> unat (mtu r)" "8 < m" "m < 65536" and k: "0 < k"
    and q: "rxq (world r) = data_stream p F m k n @ rest" and crc: "val_internal_crc32 r = val_internal_crc32 p"
    and v: "rv_written v = of_nat n" "rv_pkts_since_ack v = 0"
  shows "\<exists>v' r'. recv_data_loop (mtu r) f rf batch v r = Some (Next v', r') \<and> out (world r') = F \<and>
     rv_written v' = of_nat (length F) \<and> tx (world r') = tx (world r) @ ack_stream r F m k n \<and> rxq (world r') = rest \<and>
     last_error r' = last_error r \<and> core r' = core r"
proof -
  have q': "rxq (world r) = concat (map (pkt_frame p) (file_pkts F m k n)) @ pkt_frame p (done_pkt (of_nat (length F))) @ rest"
    using q by (simp add: data_stream_def)
  have fit: "\<forall>x \<in> set (file_pkts F m k n). is_data x \<and> data_fits r x" using file_pkts_fit [OF m] by blast
  have len: "length (out (world r)) = n" using o by simp
  have size: "length (out (world r)) + stream_size (file_pkts F m k n) < 2 ^ 64 - 1"
    using file_pkts_size [OF o(2), of m k] o(3) unfolding len by simp
  have g: "gbn_receive (out (world r)) (file_pkts F m k n) = (F, map ack_pkt (file_acks F m k n))"
    using gbn_receive_file [OF len o(2,3) m(2) k] o(1) by simp
  have v1: "rv_written v = of_nat (length (out (world r)))" using v(1) len by simp
  show ?thesis
    using recv_loop_done [OF r q' crc fit size v1 v(2), of rf batch] unfolding g by (auto simp: ack_stream_def)
qed

lemma stream_cfg: "cfg s = cfg p \<Longrightarrow> data_stream s = data_stream p \<and> ack_stream s = ack_stream p"
  by (simp add: fun_eq_iff data_stream_def ack_stream_def pkt_frame_cfg [of s p])

text \<open>
  C2. A transfer over an undisturbed link delivers the file. The sender and the receiver each
  read what the other one sends: the receiver's acknowledgements are the sender's input, the
  sender's frames are the receiver's. From any agreed resume position \<open>n\<close>, with any window \<open>k\<close> of at least one packet and any packet size with
  less than 65536 bytes of content \<open>m\<close> (up to 65547 bytes; larger packets are cut), for a file below \<open>2 ^ 63\<close> bytes:
  the sender's part of \<^verbatim>\<open>send_file_data_adaptive\<close> behind the resume negotiation returns VAL_OK, the receiver's data
  loop ends, and the output, which held the first \<open>n\<close> bytes, holds the whole file. Neither side reads past the
  other's last packet.
\<close>

theorem transfer_delivers:
  fixes s s0 :: "'a val_session" and r :: "'b val_session"
  assumes snd: "sender_ready h F m content pos tx rxq s" "quiet_close (cfg s) tx rxq" "pos (world s) = n"
    and rcv: "ready f rxq' out tx' r" "out (world r) = take n F"
    and fits: "m + 12 \<le> unat (mtu r)" "n \<le> length F" and crc: "val_internal_crc32 s = val_internal_crc32 r"
    and win: "k = unat (sv_win (send_vars_init h (of_nat (length F)) (of_nat n) (mtu s - 12) prog s0))" "0 < k"
    and q: "rxq (world s) = ack_stream r F m k n @ rest" and q': "rxq' (world r) = data_stream s F m k n @ rest'"
  shows "(\<exists>prog' s'. send_file_body s0 h filename path (of_nat (length F)) (of_nat n) prog s = Some (VAL_OK, prog', s') \<and>
       tx (world s') = tx (world s) @ data_stream s F m k n \<and> rxq (world s') = rest) \<and>
     (\<exists>v' r'. recv_data_loop (mtu r) f rf batch \<lparr>rv_written = of_nat n, rv_crc_state = cs, rv_pkts_since_ack = 0\<rparr> r = Some (Next v', r') \<and>
       out (world r') = F \<and> tx' (world r') = tx' (world r) @ ack_stream r F m k n \<and> rxq' (world r') = rest' \<and>
       last_error r' = last_error r)"
proof
  have sz: "sizes_ok s F m" using snd(1) by (simp add: sender_ready_def)
  have m: "8 < m" "m < 65536" "length F < 2 ^ 63" using sizes_ok_m [OF sz] sz by (simp_all add: sizes_ok_def)
  have qa: "rxq (world s) = concat (map (\<lambda>a. pkt_frame r (ack_pkt a)) (file_acks F m k n)) @ pkt_frame r (done_ack_pkt (length F)) @ rest"
    using q by (simp add: ack_stream_def comp_def)
  show "\<exists>prog' s'. send_file_body s0 h filename path (of_nat (length F)) (of_nat n) prog s = Some (VAL_OK, prog', s') \<and>
       tx (world s') = tx (world s) @ data_stream s F m k n \<and> rxq (world s') = rest"
    using send_file_body_acked [OF snd(1,2) fits(2) snd(3) win qa crc, of filename path] by (auto simp: data_stream_def)
  show "\<exists>v' r'. recv_data_loop (mtu r) f rf batch \<lparr>rv_written = of_nat n, rv_crc_state = cs, rv_pkts_since_ack = 0\<rparr> r = Some (Next v', r') \<and>
       out (world r') = F \<and> tx' (world r') = tx' (world r) @ ack_stream r F m k n \<and> rxq' (world r') = rest' \<and>
       last_error r' = last_error r"
    using receive_stream [OF rcv fits(2) m(3) fits(1) m(1,2) win(2) q', of "\<lparr>rv_written = of_nat n, rv_crc_state = cs, rv_pkts_since_ack = 0\<rparr>" rf batch]
      crc by auto
qed

lemma desk_sender_ready:
  assumes "dk_src w = F" and "length F < 2 ^ 63"
  shows "sender_ready 1 F 500 dk_src dk_pos dk_tx dk_rx (desk_session mode w)"
proof -
  have "\<not> val_check_for_cancel (desk_session mode w)" using desk_fed [of mode w] by (simp add: fed_def)
  moreover have "\<not> build_diagnostics (build (desk_session mode w))" by (simp add: desk_session_def bed_build_def)
  ultimately show "sender_ready 1 F 500 dk_src dk_pos dk_tx dk_rx (desk_session mode w)"
    using assms desk_source [of mode] by (simp add: sender_ready_def sizes_ok_def)
qed

lemma desk_quiet_close: "quiet_close (desk_config mode) dk_tx dk_rx"
  by (auto simp: quiet_close_def desk_config_def desk_files_def)

text \<open>Two sessions that read each other's streams, for a file of three bytes of which one is there.\<close>

theorem transfer_delivers_witness:
  "\<exists>(s :: desk val_session) (r :: desk val_session) prog' s' v' r'. send_file_body s 1 [65] [66] 3 1 None s = Some (VAL_OK, prog', s') \<and>
     recv_data_loop 512 2 \<lparr>rf_name = [65], rf_meta = \<lparr>meta_filename = [], meta_sender_path = [], meta_file_size = 3\<rparr>, rf_path = [65]\<rparr>
       \<lparr>rb_transferred = 0, rb_files_completed = 0, rb_start_ms = 0\<rparr>
       \<lparr>rv_written = 1, rv_crc_state = 0, rv_pkts_since_ack = 0\<rparr> r = Some (Next v', r') \<and>
     dk_src (world s) = [10, 20, 30] \<and> dk_out (world r) = [10] \<and> dk_out (world r') = [10, 20, 30] \<and>
     dk_rx (world r) = dk_tx (world s') \<and> dk_rx (world s) = dk_tx (world r')"
proof -
  let ?F = "[10, 20, 30] :: u8 list" and ?p = "desk_session VAL_RESUME_TAIL (desk_world [] [] [])"
  define s where "s = desk_session VAL_RESUME_TAIL ((desk_world (ack_stream ?p ?F 500 4 1) ?F [])\<lparr>dk_pos := 1\<rparr>)"
  define r where "r = desk_session VAL_RESUME_TAIL (desk_world (data_stream ?p ?F 500 4 1) [] [10])"
  have c: "cfg s = desk_config VAL_RESUME_TAIL" "cfg r = desk_config VAL_RESUME_TAIL" "mtu s = 512" "mtu r = 512" by (simp_all add: s_def r_def)
  have st: "data_stream s = data_stream ?p" "ack_stream r = ack_stream ?p" using stream_cfg [of s ?p] stream_cfg [of r ?p] c by simp_all
  have w: "dk_rx (world s) = ack_stream r ?F 500 4 1 @ []" "dk_rx (world r) = data_stream s ?F 500 4 1 @ []"
    "dk_pos (world s) = 1" "dk_out (world r) = take 1 ?F" "dk_tx (world s) = []" "dk_tx (world r) = []" "dk_src (world s) = ?F"
    by (simp_all add: st) (simp_all add: s_def r_def desk_world_def)
  have sr: "sender_ready 1 ?F 500 dk_src dk_pos dk_tx dk_rx s" unfolding s_def by (rule desk_sender_ready) (simp_all add: desk_world_def)
  have qc: "quiet_close (cfg s) dk_tx dk_rx" using desk_quiet_close c by simp
  have rr: "ready 2 dk_rx dk_out dk_tx r" unfolding r_def by (rule desk_ready)
  have crc: "val_internal_crc32 s = val_internal_crc32 r" by (simp add: val_internal_crc32_def fun_eq_iff c desk_config_def)
  have win: "4 = unat (sv_win (send_vars_init 1 (of_nat (length ?F)) (of_nat 1) (mtu s - 12) None s))"
    by (simp add: send_vars_init_def s_def)
  have "500 + 12 \<le> unat (mtu r)" "1 \<le> length ?F" by (simp_all add: c)
  from transfer_delivers [OF sr qc w(3) rr w(4) this crc win _ w(1,2), of "[65]" "[66]"
      "\<lparr>rf_name = [65], rf_meta = \<lparr>meta_filename = [], meta_sender_path = [], meta_file_size = 3\<rparr>, rf_path = [65]\<rparr>"
      "\<lparr>rb_transferred = 0, rb_files_completed = 0, rb_start_ms = 0\<rparr>" 0]
  obtain prog' s' v' r' where "send_file_body s 1 [65] [66] 3 1 None s = Some (VAL_OK, prog', s')"
    "recv_data_loop 512 2 \<lparr>rf_name = [65], rf_meta = \<lparr>meta_filename = [], meta_sender_path = [], meta_file_size = 3\<rparr>, rf_path = [65]\<rparr>
       \<lparr>rb_transferred = 0, rb_files_completed = 0, rb_start_ms = 0\<rparr>
       \<lparr>rv_written = 1, rv_crc_state = 0, rv_pkts_since_ack = 0\<rparr> r = Some (Next v', r')"
    "dk_out (world r') = ?F" "dk_tx (world s') = data_stream s ?F 500 4 1" "dk_tx (world r') = ack_stream r ?F 500 4 1"
    unfolding c(4) w(5,6) by auto
  then have "send_file_body s 1 [65] [66] 3 1 None s = Some (VAL_OK, prog', s') \<and>
     recv_data_loop 512 2 \<lparr>rf_name = [65], rf_meta = \<lparr>meta_filename = [], meta_sender_path = [], meta_file_size = 3\<rparr>, rf_path = [65]\<rparr>
       \<lparr>rb_transferred = 0, rb_files_completed = 0, rb_start_ms = 0\<rparr>
       \<lparr>rv_written = 1, rv_crc_state = 0, rv_pkts_since_ack = 0\<rparr> r = Some (Next v', r') \<and>
     dk_src (world s) = ?F \<and> dk_out (world r) = [10] \<and> dk_out (world r') = ?F \<and>
     dk_rx (world r) = dk_tx (world s') \<and> dk_rx (world s) = dk_tx (world r')" using w by simp
  then show ?thesis by blast
qed

section \<open>Loss\<close>

text \<open>A packet with its offset that carries bytes of the file \<open>F\<close> from there on.\<close>

definition slice_of :: "u8 list \<Rightarrow> pkt \<Rightarrow> bool" where
  "slice_of F x \<longleftrightarrow> (\<exists>off bs. x = (VAL_PKT_DATA, bs, off, True) \<and> off \<noteq> UINT64_MAX \<and>
     unat off + length bs \<le> length F \<and> bs = take (length bs) (drop (unat off) F))"

lemma gbn_step_slice:
  assumes "slice_of F x" and "n \<le> length F"
  shows "\<exists>n' \<ge> n. n' \<le> length F \<and> fst (gbn_step (take n F) x) = take n' F"
proof -
  obtain off bs where x: "x = (VAL_PKT_DATA, bs, off, True)" "off \<noteq> UINT64_MAX" "unat off + length bs \<le> length F"
    "bs = take (length bs) (drop (unat off) F)" using assms(1) by (auto simp: slice_of_def)
  have o: "pkt_off x = off" "pkt_bytes x = bs" using x(1) by (simp_all add: pkt_off_data pkt_bytes_def)
  show ?thesis
  proof (cases "unat off = n")
    case True
    have "take n F @ bs = take (n + length bs) F" using x(4) True by (simp add: take_add)
    then show ?thesis using o True assms(2) x(3) by (intro exI [of _ "n + length bs"]) (simp add: gbn_step_def Let_def)
  next
    case False
    then show ?thesis using o x(2) assms(2) by (intro exI [of _ n]) (auto simp: gbn_step_def Let_def)
  qed
qed

lemma gbn_receive_slices:
  assumes "\<forall>x \<in> set xs. slice_of F x" and "n \<le> length F"
  shows "\<exists>n' \<ge> n. n' \<le> length F \<and> fst (gbn_receive (take n F) xs) = take n' F"
  using assms
proof (induction xs arbitrary: n)
  case Nil
  then show ?case by auto
next
  case (Cons x xs)
  obtain n1 where n1: "n \<le> n1" "n1 \<le> length F" "fst (gbn_step (take n F) x) = take n1 F"
    using gbn_step_slice [of F x n] Cons.prems by auto
  obtain n2 where "n1 \<le> n2" "n2 \<le> length F" "fst (gbn_receive (take n1 F) xs) = take n2 F"
    using Cons.IH [OF _ n1(2)] Cons.prems(1) by auto
  then show ?case using n1 by (intro exI [of _ n2]) (auto split: prod.splits)
qed

text \<open>
  C12. DATA packets that carry their offset are safe on any link: whatever packets with their offsets arrive -
  lost, repeated, reordered, cut differently - the output file is always a prefix of the sender's file, it never
  shrinks, and the offset acknowledged with DONE is its length.
\<close>

theorem explicit_offsets_safe:
  assumes r: "ready f rxq out tx s" and o: "out (world s) = take n F" "n \<le> length F"
    and q: "rxq (world s) = concat (map (pkt_frame p) xs) @ pkt_frame p (done_pkt l) @ rest"
    and crc: "val_internal_crc32 s = val_internal_crc32 p" and xs: "\<forall>x \<in> set xs. slice_of F x \<and> data_fits s x"
    and size: "n + stream_size xs < 2 ^ 64 - 1"
  shows "\<exists>v' s' n'. recv_data_loop (mtu s) f rf batch \<lparr>rv_written = of_nat n, rv_crc_state = c, rv_pkts_since_ack = 0\<rparr> s = Some (Next v', s') \<and>
     n \<le> n' \<and> n' \<le> length F \<and> out (world s') = take n' F \<and> rv_written v' = of_nat n' \<and>
     (\<exists>replies. tx (world s') = tx (world s) @ concat (map (pkt_frame s) (replies @ [done_ack_pkt n'])))"
proof -
  let ?v = "\<lparr>rv_written = of_nat n, rv_crc_state = c, rv_pkts_since_ack = 0\<rparr> :: recv_vars"
  have len: "length (out (world s)) = n" using o by simp
  have d: "\<forall>x \<in> set xs. is_data x \<and> data_fits s x" using xs by (auto simp: slice_of_def is_data_def pkt_type_def)
  have sz: "length (out (world s)) + stream_size xs < 2 ^ 64 - 1" using size len by simp
  have v: "rv_written ?v = of_nat (length (out (world s)))" "rv_pkts_since_ack ?v = 0" using len by simp_all
  obtain n' where n': "n \<le> n'" "n' \<le> length F" "fst (gbn_receive (out (world s)) xs) = take n' F"
    using gbn_receive_slices [of xs F n] xs o by auto
  obtain v' s' where "recv_data_loop (mtu s) f rf batch ?v s = Some (Next v', s')" "rv_written v' = of_nat (length (out (world s')))"
    "out (world s') = take n' F"
    "tx (world s') = tx (world s) @ concat (map (pkt_frame s) (snd (gbn_receive (out (world s)) xs) @ [done_ack_pkt (length (out (world s')))]))"
    using recv_loop_done [OF r q crc d sz v, of rf batch] n'(3) by auto
  then show ?thesis using n'
    by (intro exI [of _ v'] exI [of _ s'] exI [of _ n'] conjI exI [of _ "snd (gbn_receive (out (world s)) xs)"]) (simp_all add: min_def)
qed

theorem explicit_offsets_safe_witness:
  "\<forall>rf batch. \<exists>v' s' n'. recv_data_loop 512 2 rf batch \<lparr>rv_written = 0, rv_crc_state = 0, rv_pkts_since_ack = 0\<rparr>
       (desk_session VAL_RESUME_NEVER (desk_world (concat (map (pkt_frame bed_session)
          [(VAL_PKT_DATA, [2, 3], 1, True), (VAL_PKT_DATA, [1, 2], 0, True), (VAL_PKT_DATA, [1], 0, True)]) @
          pkt_frame bed_session (done_pkt 3)) [] [])) = Some (Next v', s') \<and>
     dk_out (world s') = take n' [1, 2, 3]"
proof -
  let ?xs = "[(VAL_PKT_DATA, [2, 3], 1, True), (VAL_PKT_DATA, [1, 2], 0, True), (VAL_PKT_DATA, [1], 0, True)]"
  let ?s = "desk_session VAL_RESUME_NEVER (desk_world (concat (map (pkt_frame bed_session) ?xs) @ pkt_frame bed_session (done_pkt 3)) [] [])"
  let ?F = "[1, 2, 3] :: u8 list"
  have crc: "val_internal_crc32 ?s = val_internal_crc32 bed_session"
    by (simp add: val_internal_crc32_def fun_eq_iff desk_config_def bed_session_cfg bed_config_def)
  have fits: "\<forall>x \<in> set ?xs. slice_of ?F x \<and> data_fits ?s x"
    by (auto simp: slice_of_def data_fits_def needs_room_def wire_content_def)
  have q: "dk_rx (world ?s) = concat (map (pkt_frame bed_session) ?xs) @ pkt_frame bed_session (done_pkt 3) @ []"
    and o: "dk_out (world ?s) = take 0 ?F" by (simp_all only: desk_simps desk_world_def desk.simps append_Nil2 take_0)
  have "\<exists>v' s' n'. recv_data_loop 512 2 rf batch \<lparr>rv_written = 0, rv_crc_state = 0, rv_pkts_since_ack = 0\<rparr> ?s = Some (Next v', s') \<and>
      dk_out (world s') = take n' ?F" for rf batch
    using explicit_offsets_safe [OF desk_ready o _ q crc fits, of rf batch 0] unfolding desk_simps by (auto simp: stream_size_def pkt_bytes_def)
  then show ?thesis by blast
qed

text \<open>
  C13. One lost DATA packet corrupts the file unnoticed. A window starts with a packet that carries its offset, the
  packets behind it do not. When the second packet of the first window is lost, the third one is appended in its place
  and acknowledged as if it were the second; the sender, which goes on from the acknowledged byte, then sends the third
  one again with its offset. The receiver ends the file with success and the full length, having sent the very
  acknowledgements of a good transfer (up to where the loss was), and the output has the third packet twice and the
  second one not at all.
\<close>

theorem lost_packet_corrupts:
  assumes r: "ready f rxq out tx s" and o: "out (world s) = []" and m: "m + 12 \<le> unat (mtu s)" "8 < m" "m < 65536" "0 < k"
    and F: "3 * m - 8 \<le> length F" "length F < 2 ^ 63"
    and q: "rxq (world s) = concat (map (pkt_frame p)
        ([data_pkt F m 0 0, data_pkt F m 0 (2 * m - 8)] @ file_pkts F m k (2 * m - 8))) @ pkt_frame p (done_pkt (of_nat (length F))) @ rest"
    and crc: "val_internal_crc32 s = val_internal_crc32 p"
  shows "take 3 (window_pkts F m 0 3 0) = [data_pkt F m 0 0, data_pkt F m 0 (m - 8), data_pkt F m 0 (2 * m - 8)] \<and>
    (\<exists>v' s'. recv_data_loop (mtu s) f rf batch \<lparr>rv_written = 0, rv_crc_state = c, rv_pkts_since_ack = 0\<rparr> s = Some (Next v', s') \<and>
     out (world s') = take (m - 8) F @ take m (drop (2 * m - 8) F) @ drop (2 * m - 8) F \<and> rv_written v' = of_nat (length F) \<and>
     tx (world s') = tx (world s) @ concat (map (pkt_frame s)
        (map ack_pkt ([m - 8, 2 * m - 8] @ file_acks F m k (2 * m - 8)) @ [done_ack_pkt (length F)])))"
proof
  let ?n = "2 * m - 8" and ?xs = "[data_pkt F m 0 0, data_pkt F m 0 (2 * m - 8)] @ file_pkts F m k (2 * m - 8)"
  have c: "chunk F m 0 0 = m - 8" "chunk F m 0 (m - 8) = m" "chunk F m 0 ?n = m" using F(1) m(2) by (auto simp: chunk_def)
  have lt: "0 < length F" "m - 8 < length F" "?n < length F" using F(1) m(2) by auto
  have e: "0 + (m - 8) = m - 8" "m - 8 + m = ?n" using m(2) by simp_all
  have "window_pkts F m 0 3 0 = [data_pkt F m 0 0, data_pkt F m 0 (m - 8), data_pkt F m 0 ?n]"
    using lt by (simp add: numeral_3_eq_3 c e)
  then show "take 3 (window_pkts F m 0 3 0) = [data_pkt F m 0 0, data_pkt F m 0 (m - 8), data_pkt F m 0 ?n]" by simp
  let ?X = "take (m - 8) F @ take m (drop ?n F)"
  have X: "length ?X = ?n" using F(1) m(2) by auto
  have g1: "gbn_step [] (data_pkt F m 0 0) = (take (m - 8) F, [ack_pkt (m - 8)])"
    using gbn_step_data [OF _ lt(1) F(2), of "[]" m 0] c by simp
  have l1: "length (take (m - 8) F) = m - 8" using lt(2) by simp
  have g2: "gbn_step (take (m - 8) F) (data_pkt F m 0 ?n) = (?X, [ack_pkt ?n])"
  proof -
    have "pkt_off (data_pkt F m 0 ?n) = UINT64_MAX" "pkt_bytes (data_pkt F m 0 ?n) = take m (drop ?n F)"
      using m(2) c by (simp_all add: data_pkt_def pkt_off_data pkt_bytes_def)
    moreover have "length (take m (drop ?n F)) = m" using F(1) m(2) by auto
    ultimately show ?thesis using l1 e by (simp add: gbn_step_def Let_def)
  qed
  have g: "gbn_receive [] ?xs = (?X @ drop ?n F, map ack_pkt ([m - 8, ?n] @ file_acks F m k ?n))"
    using gbn_receive_file [OF X less_imp_le [OF lt(3)] F(2) m(2,4)] by (simp add: g1 g2)
  have fit: "\<forall>x \<in> set ?xs. is_data x \<and> data_fits s x"
    using file_pkts_fit [OF m(1,2,3), of _ F k ?n] m
    by (auto simp: data_pkt_def is_data_def pkt_type_def data_fits_def needs_room_def wire_content_def chunk_def)
  have sz: "length (out (world s)) + stream_size ?xs < 2 ^ 64 - 1"
  proof -
    have "stream_size ?xs \<le> (m - 8) + m + stream_size (file_pkts F m k ?n)"
      using c by (auto simp: stream_size_def data_pkt_def pkt_bytes_def)
    then show ?thesis using o file_pkts_size [OF less_imp_le [OF lt(3)], of m k] F(2) m(3) by simp
  qed
  have "length (?X @ drop ?n F) = length ?X + (length F - ?n)" by simp
  then have len: "length (?X @ drop ?n F) = length F" using X lt(3) by linarith
  let ?v = "\<lparr>rv_written = 0, rv_crc_state = c, rv_pkts_since_ack = 0\<rparr> :: recv_vars"
  have v: "rv_written ?v = of_nat (length (out (world s)))" "rv_pkts_since_ack ?v = 0" using o by simp_all
  obtain v' s' where e: "recv_data_loop (mtu s) f rf batch ?v s = Some (Next v', s')" "rv_written v' = of_nat (length (out (world s')))"
    "out (world s') = ?X @ drop ?n F" "tx (world s') = tx (world s) @ concat (map (pkt_frame s)
        (map ack_pkt ([m - 8, ?n] @ file_acks F m k ?n) @ [done_ack_pkt (length (out (world s')))]))"
    using recv_loop_done [OF r q crc fit sz v, of rf batch] unfolding o g by auto
  have l: "length (out (world s')) = length F" by (simp only: e(3) len)
  show "\<exists>v' s'. recv_data_loop (mtu s) f rf batch ?v s = Some (Next v', s') \<and>
     out (world s') = take (m - 8) F @ take m (drop ?n F) @ drop ?n F \<and> rv_written v' = of_nat (length F) \<and>
     tx (world s') = tx (world s) @ concat (map (pkt_frame s)
        (map ack_pkt ([m - 8, ?n] @ file_acks F m k ?n) @ [done_ack_pkt (length F)]))"
    using e(1,3) e(2,4) [unfolded l] by (intro exI [of _ v'] exI [of _ s']) simp
qed

theorem lost_packet_corrupts_witness:
  "\<forall>rf batch. \<exists>F s v' s'. recv_data_loop 512 2 rf batch \<lparr>rv_written = 0, rv_crc_state = 0, rv_pkts_since_ack = 0\<rparr>
       (desk_session VAL_RESUME_NEVER s) = Some (Next v', s') \<and>
     dk_rx s = concat (map (pkt_frame bed_session) ([data_pkt F 500 0 0, data_pkt F 500 0 992] @ file_pkts F 500 4 992))
       @ pkt_frame bed_session (done_pkt (of_nat (length F))) \<and>
     rv_written v' = of_nat (length F) \<and> length (dk_out (world s')) = length F \<and> dk_out (world s') \<noteq> F"
proof (intro allI)
  fix rf batch
  let ?F = "replicate 492 1 @ replicate 500 2 @ replicate 500 3 :: u8 list"
  define q where "q = concat (map (pkt_frame bed_session) ([data_pkt ?F 500 0 0, data_pkt ?F 500 0 (2 * 500 - 8)] @ file_pkts ?F 500 4 (2 * 500 - 8)))
       @ pkt_frame bed_session (done_pkt (of_nat (length ?F)))"
  let ?s = "desk_session VAL_RESUME_NEVER (desk_world q [] [])"
  have w: "dk_rx (world ?s) = concat (map (pkt_frame bed_session) ([data_pkt ?F 500 0 0, data_pkt ?F 500 0 (2 * 500 - 8)] @ file_pkts ?F 500 4 (2 * 500 - 8)))
       @ pkt_frame bed_session (done_pkt (of_nat (length ?F))) @ []" "dk_out (world ?s) = []"
    unfolding q_def by (simp_all only: desk_simps desk_world_def desk.simps append_Nil2)
  have crc: "val_internal_crc32 ?s = val_internal_crc32 bed_session"
    by (simp add: val_internal_crc32_def fun_eq_iff desk_config_def bed_session_cfg bed_config_def)
  have m: "500 + 12 \<le> unat (mtu ?s)" "(8 :: nat) < 500" "(500 :: nat) < 65536" "(0 :: nat) < 4"
    and F: "3 * 500 - 8 \<le> length ?F" "length ?F < 2 ^ 63" by simp_all
  obtain v' s' where r: "recv_data_loop (mtu ?s) 2 rf batch \<lparr>rv_written = 0, rv_crc_state = 0, rv_pkts_since_ack = 0\<rparr> ?s = Some (Next v', s')"
    "dk_out (world s') = take (500 - 8) ?F @ take 500 (drop (2 * 500 - 8) ?F) @ drop (2 * 500 - 8) ?F" "rv_written v' = of_nat (length ?F)"
    using lost_packet_corrupts [OF desk_ready w(2) m F w(1) crc, of rf batch 0] by blast
  have out: "dk_out (world s') = replicate 492 1 @ replicate 500 3 @ replicate 500 3" unfolding r(2) by simp
  have d: "dk_out (world s') \<noteq> ?F" unfolding out by (simp add: replicate_eq_replicate)
  have e: "dk_rx (desk_world q [] []) = concat (map (pkt_frame bed_session) ([data_pkt ?F 500 0 0, data_pkt ?F 500 0 992] @ file_pkts ?F 500 4 992))
       @ pkt_frame bed_session (done_pkt (of_nat (length ?F)))" by (simp add: desk_world_def q_def)
  have l: "length (dk_out (world s')) = length ?F" unfolding out by simp
  show "\<exists>F s v' s'. recv_data_loop 512 2 rf batch \<lparr>rv_written = 0, rv_crc_state = 0, rv_pkts_since_ack = 0\<rparr>
       (desk_session VAL_RESUME_NEVER s) = Some (Next v', s') \<and>
     dk_rx s = concat (map (pkt_frame bed_session) ([data_pkt F 500 0 0, data_pkt F 500 0 992] @ file_pkts F 500 4 992))
       @ pkt_frame bed_session (done_pkt (of_nat (length F))) \<and>
     rv_written v' = of_nat (length F) \<and> length (dk_out (world s')) = length F \<and> dk_out (world s') \<noteq> F"
    using r(1) [unfolded desk_simps] r(3) d e l by blast
qed

end
