(* ===== verification/Val_Exchange.thy ===== *)
theory Val_Exchange
  imports Val_Transfer
begin

text \<open>
  A whole file between two sessions, from its name and size to the acknowledgement of DONE: the metadata, the
  question where to start and its answer, and the data. Then where the receiver puts a file, and how it decides where an
  interrupted file goes on.
\<close>

section \<open>The receiver's files\<close>

text \<open>
  The environment of the receiver for a whole file: opening the output for writing empties it, and no
  other file hook and no callback touches the output or the transport. There is no metadata
  validator.
\<close>

definition undisturbed :: "('w \<Rightarrow> u8 list) \<Rightarrow> ('w \<Rightarrow> u8 list) \<Rightarrow> ('w \<Rightarrow> u8 list) \<Rightarrow> 'w \<Rightarrow> 'w \<Rightarrow> bool" where
  "undisturbed rxq out tx w w' \<longleftrightarrow> rxq w' = rxq w \<and> out w' = out w \<and> tx w' = tx w"

definition store ::
    "'w val_config \<Rightarrow> nat \<Rightarrow> ('w \<Rightarrow> u8 list) \<Rightarrow> ('w \<Rightarrow> u8 list) \<Rightarrow> ('w \<Rightarrow> u8 list) \<Rightarrow> bool" where
  "store c f rxq out tx \<longleftrightarrow> validator c = None \<and>
     (\<exists>fn. fs_fopen (filesystem c) = Some fn \<and>
        (\<forall>w path. undisturbed rxq out tx w (snd (fn w path ''rb''))) \<and>
        (\<forall>w path. \<exists>w'. fn w path ''wb'' = (Some f, w') \<and> rxq w' = rxq w \<and> out w' = [] \<and> tx w' = tx w)) \<and>
     (\<forall>fn w h off wh. fs_fseek (filesystem c) = Some fn \<longrightarrow> undisturbed rxq out tx w (snd (fn w h off wh))) \<and>
     (\<forall>fn w h. fs_ftell (filesystem c) = Some fn \<longrightarrow> undisturbed rxq out tx w (snd (fn w h))) \<and>
     (\<forall>fn w h. fs_fclose (filesystem c) = Some fn \<longrightarrow> undisturbed rxq out tx w (snd (fn w h))) \<and>
     (\<forall>fn w a b n m. on_file_start (callbacks c) = Some fn \<longrightarrow> undisturbed rxq out tx w (fn w a b n m)) \<and>
     (\<forall>fn w a b st. on_file_complete (callbacks c) = Some fn \<longrightarrow> undisturbed rxq out tx w (fn w a b st))"

text \<open>A step that only did something the observations do not see.\<close>

abbreviation (input) idle where
  "idle rxq out tx s s' \<equiv> leaves rxq out tx s s' (rxq (world s)) (out (world s)) (tx (world s))"

lemma idle_trans: "idle rxq out tx s s' \<Longrightarrow> idle rxq out tx s' s'' \<Longrightarrow> idle rxq out tx s s''"
  by (simp add: leaves_def)

lemma idle_cfg: "idle rxq out tx s s' \<Longrightarrow> cfg s' = cfg s"
  using core_fields(1) [of s' s] by (simp add: leaves_def)

lemma store_hooks:
  assumes "store (cfg s) f rxq out tx"
  shows "idle rxq out tx s (snd (fs_open path ''rb'' s))" "idle rxq out tx s (snd (fs_seek h off wh s))"
    "idle rxq out tx s (snd (fs_tell h s))" "idle rxq out tx s (fs_close h s)"
    "idle rxq out tx s (call_file_start a b n m s)" "idle rxq out tx s (call_file_complete a b st s)"
proof -
  have w: "idle rxq out tx s (s\<lparr>world := w'\<rparr>)" if "undisturbed rxq out tx (world s) w'" for w'
    using that by (simp add: leaves_def undisturbed_def)
  note c = assms [unfolded store_def]
  show "idle rxq out tx s (snd (fs_open path ''rb'' s))"
    using c w by (auto simp: fs_open_def split: prod.splits) (metis snd_conv)
  show "idle rxq out tx s (snd (fs_seek h off wh s))"
    using c w leaves_refl [of rxq out tx s] by (auto simp: fs_seek_def split: prod.splits option.splits) (metis snd_conv)
  show "idle rxq out tx s (snd (fs_tell h s))"
    using c w leaves_refl [of rxq out tx s] by (auto simp: fs_tell_def split: prod.splits option.splits) (metis snd_conv)
  show "idle rxq out tx s (fs_close h s)"
    using c w leaves_refl [of rxq out tx s] by (auto simp: fs_close_def split: option.splits)
  show "idle rxq out tx s (call_file_start a b n m s)"
    using c w leaves_refl [of rxq out tx s] by (auto simp: call_file_start_def split: option.splits)
  show "idle rxq out tx s (call_file_complete a b st s)"
    using c w leaves_refl [of rxq out tx s] by (auto simp: call_file_complete_def split: option.splits)
qed

lemma open_output:
  assumes "store (cfg s) f rxq out tx"
  shows "\<exists>s'. fs_open path ''wb'' s = (Some f, s') \<and> leaves rxq out tx s s' (rxq (world s)) [] (tx (world s))"
proof -
  obtain fn where fn: "fs_fopen (filesystem (cfg s)) = Some fn"
      "\<forall>w path. \<exists>w'. fn w path ''wb'' = (Some f, w') \<and> rxq w' = rxq w \<and> out w' = [] \<and> tx w' = tx w"
    using assms by (auto simp: store_def)
  from spec [OF spec [OF fn(2), of "world s"], of path]
  obtain w' where "fn (world s) path ''wb'' = (Some f, w')" "rxq w' = rxq (world s)" "out w' = []" "tx w' = tx (world s)" by blast
  then show ?thesis using fn(1) by (simp add: fs_open_def leaves_def)
qed

section \<open>Receiving one packet\<close>

lemma recv_packet_sink:
  assumes r: "ready f rxq out tx s" and q: "rxq (world s) = pkt_frame p (t, bs, off, ex) @ rest"
    and crc: "val_internal_crc32 s = val_internal_crc32 p" and t: "has_payload t" "pkt_known t" "t \<noteq> VAL_PKT_CANCEL"
    and fits: "data_fits s (t, bs, off, ex)"
  shows "\<exists>s'. val_internal_recv_packet s (Some (ucast (mtu s))) to_ms = Some (VAL_OK,
       \<lparr>rx_type = t, rx_len = of_nat (length bs), rx_off = carried_offset t off ex\<rparr>, s') \<and> length bs < 65536 \<and>
     take (length bs) (recv_buf s') = bs \<and> leaves rxq out tx s s' rest (out (world s)) (tx (world s))"
proof -
  have fd: "session_ok s" "delivers (cfg s) rxq" "capture (cfg s) = None"
    and sk: "rx_keeps (cfg s) (\<lambda>w. (out w, tx w))" using r by (simp_all add: ready_def fed_def sink_def)
  obtain fl td ct where wc: "wire_content t bs off ex = (fl, td, ct)" by (cases "wire_content t bs off ex")
  have n: "12 + needs_room t bs off ex \<le> unat (mtu s)" "needs_room t bs off ex < 65536" using fits by (simp_all add: data_fits_def)
  have m: "512 \<le> unat (mtu s)" "unat (mtu s) \<le> 2097152" using session_ok_mtu [OF fd(1)] by simp_all
  have c: "unat (ucast (mtu s) :: u32) = unat (mtu s)" using m(2) by (simp add: unsigned_ucast_eq take_bit_nat_eq_self)
  have c0: "(ucast (mtu s) :: u32) \<noteq> 0" using c m(1) by auto
  have lc: "length ct \<le> unat (ucast (mtu s) :: u32)" using n(1) wc c by (simp add: needs_room_def)
  have q': "rxq (world s) = frame_bytes p t bs off ex @ rest" using q by (simp add: pkt_frame_def)
  obtain s' where rc: "val_internal_recv_packet s (Some (ucast (mtu s))) to_ms = Some (VAL_OK,
       \<lparr>rx_type = t, rx_len = of_nat (length bs), rx_off = carried_offset t off ex\<rparr>, s')"
    "length bs < 65536" "mem_read (recv_buf s') 0 (length bs) = bs" "rxq (world s') = rest" "core s' = core s"
    "last_error s' = after_type t (last_error s)"
    using recv_frame_some [OF fd(1-3) crc t(2) q' n wc t(1) c0 lc, of to_ms] by blast
  have "out (world s') = out (world s)" "tx (world s') = tx (world s)" using recv_packet_ob [OF rc(1) sk] by simp_all
  then show ?thesis using rc t(3) by (auto simp: leaves_def mem_read_def after_type_def)
qed

section \<open>The packets around the data\<close>

definition meta_pkt :: "val_meta_payload_t \<Rightarrow> pkt" where "meta_pkt meta = (VAL_PKT_SEND_META, meta_bytes meta, 0, True)"
definition resume_req_pkt :: pkt where "resume_req_pkt = (VAL_PKT_RESUME_REQ, [], 0, True)"
definition resume_resp_pkt :: "val_resume_resp_t \<Rightarrow> pkt" where
  "resume_resp_pkt rr = (VAL_PKT_RESUME_RESP, resume_resp_bytes rr, 0, True)"

text \<open>The answer that starts a file from its first byte.\<close>

definition start_zero_resp :: val_resume_resp_t where
  "start_zero_resp = \<lparr>rr_action = VAL_RESUME_START_ZERO, rr_resume_offset = 0, rr_verify_crc = 0, rr_verify_length = 0\<rparr>"

text \<open>What the receiver keeps of the metadata.\<close>

definition clean_name :: "val_meta_payload_t \<Rightarrow> cstr" where
  "clean_name meta = the (val_clean_filename (Some (c_string (meta_filename meta))) (VAL_MAX_FILENAME + 1))"

definition file_of :: "val_meta_payload_t \<Rightarrow> 'w val_session \<Rightarrow> recv_file" where
  "file_of meta s = \<lparr>rf_name = clean_name meta, rf_meta = meta, rf_path = full_output_path s (clean_name meta)\<rparr>"

lemma clean_name_length: "length (clean_name meta) \<le> 127"
  by (simp add: clean_name_def val_clean_filename_eq Let_def)

lemma leaves_directory: "leaves rxq out tx s s' q d t \<Longrightarrow> output_directory s' = output_directory s"
  by (drule leaves_def [THEN iffD1, THEN conjunct1]) (drule arg_cong [where f = output_directory], simp add: core_def)

lemma meta_bytes_length: "meta_ok meta \<Longrightarrow> length (meta_bytes meta) = 264"
  using meta.bytes_length [of meta] by simp

lemma recv_meta_sink:
  assumes r: "ready f rxq out tx s" and q: "rxq (world s) = pkt_frame p (meta_pkt meta) @ rest"
    and crc: "val_internal_crc32 s = val_internal_crc32 p" and ok: "meta_ok meta"
  shows "\<exists>s'. recv_meta (mtu s) s = Some (Next (file_of meta s), s') \<and> leaves rxq out tx s s' rest (out (world s)) (tx (world s))"
proof -
  have m: "512 \<le> unat (mtu s)" using r session_ok_mtu [of s] by (simp add: ready_def fed_def)
  have nc: "\<not> val_check_for_cancel s" and nd: "\<not> build_diagnostics (build s)" and pl: "plain (cfg s)"
    using r by (simp_all add: ready_def fed_def sink_def)
  have fits: "data_fits s (VAL_PKT_SEND_META, meta_bytes meta, 0, True)"
    using m meta_bytes_length [OF ok] by (simp add: data_fits_def needs_room_def wire_content_def)
  have t: "has_payload VAL_PKT_SEND_META" "pkt_known VAL_PKT_SEND_META" "VAL_PKT_SEND_META \<noteq> VAL_PKT_CANCEL" by (simp_all add: has_payload_def)
  define to_ms where "to_ms = val_internal_get_timeout s VAL_OP_META"
  obtain s' where s': "val_internal_recv_packet s (Some (ucast (mtu s))) to_ms = Some (VAL_OK,
       \<lparr>rx_type = VAL_PKT_SEND_META, rx_len = of_nat (length (meta_bytes meta)), rx_off = carried_offset VAL_PKT_SEND_META 0 True\<rparr>, s')"
     "take (length (meta_bytes meta)) (recv_buf s') = meta_bytes meta" "leaves rxq out tx s s' rest (out (world s)) (tx (world s))"
    using recv_packet_sink [OF r q [unfolded meta_pkt_def] crc t fits, of to_ms] by blast
  have d: "val_deserialize_meta (recv_buf s') = meta"
    using meta.dec_bytes [OF ok, of "drop 264 (recv_buf s')"] s'(2) append_take_drop_id [of 264 "recv_buf s'"]
    by (simp add: meta_bytes_length [OF ok])
  have l: "recv_meta_loop (mtu s) to_ms tr bo s = Some (Next
      \<lparr>rx_type = VAL_PKT_SEND_META, rx_len = of_nat (length (meta_bytes meta)), rx_off = carried_offset VAL_PKT_SEND_META 0 True\<rparr>, s')" for tr bo
    using nd pl nc s'(1)
    by (subst recv_meta_loop.simps)
      (simp add: VAL_HEALTH_RECORD_OPERATION_def val_internal_check_health_def val_internal_transport_is_connected_def plain_def)
  have fp: "full_output_path s' = full_output_path s" using leaves_directory [OF s'(3)] by (simp add: full_output_path_def fun_eq_iff)
  show ?thesis
    using l s'(3) d fp
    by (simp add: recv_meta_def to_ms_def [symmetric] Let_def file_of_def clean_name_def meta_bytes_length [OF ok])
qed

text \<open>The decision and the answer, with resume switched off.\<close>

lemma determine_never:
  assumes st: "store (cfg s) f rxq out tx" and never: "rc_mode (resume (cfg s)) = VAL_RESUME_NEVER"
  shows "\<exists>s'. determine_resume_action s name n = Some (VAL_RESUME_START_ZERO, 0, 0, 0, s') \<and> idle rxq out tx s s'"
proof -
  obtain h s1 where o: "fs_open (full_output_path s name) ''rb'' s = (h, s1)" by (cases "fs_open (full_output_path s name) ''rb'' s")
  have l1: "idle rxq out tx s s1" using store_hooks(1) [OF st, of "full_output_path s name"] o by simp
  show ?thesis
  proof (cases h)
    case None
    then show ?thesis using o l1 by (simp add: determine_resume_action_def)
  next
    case (Some h)
    have st1: "store (cfg s1) f rxq out tx" using st idle_cfg [OF l1] by simp
    obtain a s2 where k: "fs_seek h 0 SEEK_END s1 = (a, s2)" by (cases "fs_seek h 0 SEEK_END s1")
    have l2: "idle rxq out tx s1 s2" using store_hooks(2) [OF st1, of h 0 SEEK_END] k by simp
    have st2: "store (cfg s2) f rxq out tx" using st1 idle_cfg [OF l2] by simp
    obtain b s3 where t: "fs_tell h s2 = (b, s3)" by (cases "fs_tell h s2")
    have l3: "idle rxq out tx s2 s3" using store_hooks(3) [OF st2, of h] t by simp
    have st3: "store (cfg s3) f rxq out tx" using st2 idle_cfg [OF l3] by simp
    have "idle rxq out tx s (fs_close h s3)"
      by (rule idle_trans [OF idle_trans [OF idle_trans [OF l1 l2] l3] store_hooks(4) [OF st3]])
    then show ?thesis using o k t never Some by (simp add: determine_resume_action_def Let_def)
  qed
qed

lemma send_bytes_sink:
  assumes r: "ready f rxq out tx s" and t: "t \<notin> {VAL_PKT_DATA, VAL_PKT_DATA_ACK, VAL_PKT_DONE_ACK, VAL_PKT_EOT_ACK, VAL_PKT_DATA_NAK}"
    and len: "length bs \<le> 500"
  shows "\<exists>s'. val_internal_send_packet s t (P_BYTES bs) (of_nat (length bs)) 0 = (VAL_OK, s') \<and>
     leaves rxq out tx s s' (rxq (world s)) (out (world s)) (tx (world s) @ pkt_frame s (t, bs, 0, True))"
proof -
  have m: "512 \<le> unat (mtu s)" using r session_ok_mtu [of s] by (simp add: ready_def fed_def)
  have "wire_content t bs 0 True = (0, 0, bs)" using t by (cases t) (simp_all add: wire_content_def)
  then have room: "12 + needs_room t bs 0 True \<le> unat (mtu s)" "needs_room t bs 0 True < 65536" using m len by (simp_all add: needs_room_def)
  have p: "payload_is (send_buf s) (P_BYTES bs) bs" using len by (simp add: payload_is_def)
  show ?thesis using send_sink [OF r p room] by (simp add: val_internal_send_packet_def pkt_frame_def)
qed

lemma start_zero_resp_facts:
  "val_serialize_resume_resp start_zero_resp (replicate VAL_WIRE_RESUME_RESP_SIZE 0) = resume_resp_bytes start_zero_resp"
  "length (resume_resp_bytes start_zero_resp) = 24"
  using resume_resp.enc_exact [of start_zero_resp "replicate VAL_WIRE_RESUME_RESP_SIZE 0"] resume_resp.bytes_length [of start_zero_resp]
  by (simp_all add: start_zero_resp_def)

lemma reply_never:
  assumes r: "ready f rxq out tx s" and st: "store (cfg s) f rxq out tx" and never: "rc_mode (resume (cfg s)) = VAL_RESUME_NEVER"
  shows "\<exists>s'. reply_resume rf s = Some (Next (VAL_RESUME_START_ZERO, 0, resume_resp_bytes start_zero_resp), s') \<and>
     leaves rxq out tx s s' (rxq (world s)) (out (world s)) (tx (world s) @ pkt_frame s (resume_resp_pkt start_zero_resp))"
proof -
  obtain s1 where d: "determine_resume_action s (rf_name rf) (rf_size rf) = Some (VAL_RESUME_START_ZERO, 0, 0, 0, s1)"
    and l1: "idle rxq out tx s s1" using determine_never [OF st never] by blast
  have len: "length (resume_resp_bytes start_zero_resp) \<le> 500" using start_zero_resp_facts(2) by simp
  obtain s2 where p: "val_internal_send_packet s1 VAL_PKT_RESUME_RESP (P_BYTES (resume_resp_bytes start_zero_resp)) 24 0 = (VAL_OK, s2)"
    and l2: "leaves rxq out tx s1 s2 (rxq (world s1)) (out (world s1)) (tx (world s1) @ pkt_frame s1 (resume_resp_pkt start_zero_resp))"
    using send_bytes_sink [OF leaves_ready [OF l1 r] _ len, of VAL_PKT_RESUME_RESP]
    unfolding start_zero_resp_facts(2) by (auto simp: resume_resp_pkt_def)
  have "reply_resume rf s = Some (Next (VAL_RESUME_START_ZERO, 0, resume_resp_bytes start_zero_resp), s2)"
    using d p start_zero_resp_facts(1) by (simp add: reply_resume_def Let_def start_zero_resp_def)
  then show ?thesis using l1 l2 leaves_frames [OF l1] by (auto simp: leaves_def)
qed

lemma validate_accepts:
  assumes "store (cfg s) f rxq out tx" and "length (output_directory s) \<le> 127"
  shows "validate_file (file_of meta p) s = (Next VAL_VALIDATION_ACCEPT, s)"
proof -
  let ?n = "the (val_clean_filename (Some (clean_name meta)) (VAL_MAX_FILENAME + 1))"
  have "length ?n \<le> 127" by (simp add: val_clean_filename_eq Let_def)
  then have "fst (val_construct_target_path s (clean_name meta) (VAL_MAX_PATH * 2 + 8)) = VAL_OK"
    using assms(2) by (simp add: val_construct_target_path_def val_internal_join_path_def snprintf_def val_clean_filename_eq Let_def)
  then show ?thesis
    using assms(1) by (simp add: validate_file_def file_of_def store_def val_validate_metadata_def val_handle_validation_action_def Let_def split: prod.splits) auto
qed

lemma negotiate_never_sink:
  assumes r: "ready f rxq out tx s" and st: "store (cfg s) f rxq out tx" and never: "rc_mode (resume (cfg s)) = VAL_RESUME_NEVER"
    and dir: "length (output_directory s) \<le> 127"
    and q: "rxq (world s) = pkt_frame p resume_req_pkt @ rest" and crc: "val_internal_crc32 s = val_internal_crc32 p"
  shows "\<exists>s'. negotiate_never (file_of meta s0) s = Some (Next (0, False), s') \<and>
     leaves rxq out tx s s' rest (out (world s)) (tx (world s) @ pkt_frame s (resume_resp_pkt start_zero_resp))"
proof -
  let ?rf = "file_of meta s0"
  have fd: "session_ok s" "delivers (cfg s) rxq" "capture (cfg s) = None" and sk: "rx_keeps (cfg s) (\<lambda>w. (out w, tx w))"
    using r by (simp_all add: ready_def fed_def sink_def)
  have m: "512 \<le> unat (mtu s)" using session_ok_mtu [OF fd(1)] by simp
  have wc: "wire_content VAL_PKT_RESUME_REQ [] 0 True = (0, 0, [])" by (simp add: wire_content_def)
  have room: "12 + needs_room VAL_PKT_RESUME_REQ [] 0 True \<le> unat (mtu s)" "needs_room VAL_PKT_RESUME_REQ [] 0 True < 65536"
    using m by (simp_all add: needs_room_def wc)
  have q': "rxq (world s) = frame_bytes p VAL_PKT_RESUME_REQ [] 0 True @ rest" using q by (simp add: resume_req_pkt_def pkt_frame_def)
  have k: "pkt_known VAL_PKT_RESUME_REQ" by simp
  define to_ms where "to_ms = val_internal_get_timeout s VAL_OP_META"
  obtain s1 where s1: "val_internal_recv_packet s None to_ms = Some (VAL_OK,
       \<lparr>rx_type = VAL_PKT_RESUME_REQ, rx_len = 0, rx_off = carried_offset VAL_PKT_RESUME_REQ 0 True\<rparr>, s1)"
    "rxq (world s1) = rest" "core s1 = core s" "last_error s1 = last_error s"
    using recv_frame_none [OF fd crc k q' room wc, of to_ms] by (auto simp: after_type_def)
  have l1: "leaves rxq out tx s s1 rest (out (world s)) (tx (world s))"
    using s1 recv_packet_ob [OF s1(1) sk] by (simp add: leaves_def)
  have c1: "cfg s1 = cfg s" using leaves_frames [OF l1] by simp
  obtain s2 where p2: "reply_resume ?rf s1 = Some (Next (VAL_RESUME_START_ZERO, 0, resume_resp_bytes start_zero_resp), s2)"
    and l2: "leaves rxq out tx s1 s2 (rxq (world s1)) (out (world s1)) (tx (world s1) @ pkt_frame s1 (resume_resp_pkt start_zero_resp))"
    using reply_never [OF leaves_ready [OF l1 r], of ?rf] st never c1 by auto
  have c2: "cfg s2 = cfg s" using leaves_frames [OF l2] c1 by simp
  define s3 where "s3 = announce_start ?rf 0 s2"
  have l3: "idle rxq out tx s2 s3" using store_hooks(5) [of s2 f rxq out tx] st c2 by (simp add: s3_def announce_start_def)
  have c3: "cfg s3 = cfg s" using leaves_frames [OF l3] c2 by simp
  have d3: "output_directory s3 = output_directory s"
    using leaves_directory [OF l1] leaves_directory [OF l2] leaves_directory [OF l3] by simp
  have v: "validate_file ?rf s3 = (Next VAL_VALIDATION_ACCEPT, s3)" using validate_accepts [of s3 f rxq out tx] st c3 d3 dir by simp
  have "negotiate_never ?rf s = Some (Next (0, False), s3)"
    using s1(1) p2 v by (simp add: negotiate_never_def to_ms_def [symmetric] follow_action_def s3_def [symmetric])
  then show ?thesis using l1 l2 l3 leaves_frames [OF l1] by (auto simp: leaves_def)
qed

text \<open>A whole file, from its metadata to the acknowledgement of DONE.\<close>

definition file_stream :: "'w val_session \<Rightarrow> val_meta_payload_t \<Rightarrow> u8 list \<Rightarrow> nat \<Rightarrow> nat \<Rightarrow> u8 list" where
  "file_stream s meta F m k = pkt_frame s (meta_pkt meta) @ pkt_frame s resume_req_pkt @ data_stream s F m k 0"

definition reply_stream :: "'w val_session \<Rightarrow> u8 list \<Rightarrow> nat \<Rightarrow> nat \<Rightarrow> u8 list" where
  "reply_stream s F m k = pkt_frame s (resume_resp_pkt start_zero_resp) @ ack_stream s F m k 0"

lemma recv_one_file:
  assumes r: "ready f rxq out tx s" and st: "store (cfg s) f rxq out tx" and never: "rc_mode (resume (cfg s)) = VAL_RESUME_NEVER"
    and dir: "length (output_directory s) \<le> 127" and ok: "meta_ok meta"
    and m: "m + 12 \<le> unat (mtu s)" "8 < m" "m < 65536" and k: "0 < k" and F: "length F < 2 ^ 63"
    and q: "rxq (world s) = file_stream p meta F m k @ rest" and crc: "val_internal_crc32 s = val_internal_crc32 p"
  shows "\<exists>batch' s'. recv_one (mtu s) batch s = Some (Next batch', s') \<and>
     leaves rxq out tx s s' rest F (tx (world s) @ reply_stream s F m k) \<and>
     batch' = batch\<lparr>rb_files_completed := rb_files_completed batch + 1, rb_transferred := rb_transferred batch + meta_file_size meta\<rparr>"
proof -
  have q0: "rxq (world s) = pkt_frame p (meta_pkt meta) @ pkt_frame p resume_req_pkt @ data_stream p F m k 0 @ rest"
    using q by (simp add: file_stream_def)
  obtain s1 where e1: "recv_meta (mtu s) s = Some (Next (file_of meta s), s1)"
    and l1: "leaves rxq out tx s s1 (pkt_frame p resume_req_pkt @ data_stream p F m k 0 @ rest) (out (world s)) (tx (world s))"
    using recv_meta_sink [OF r q0 crc ok] by blast
  let ?rf = "file_of meta s"
  note fr1 = leaves_frames [OF l1] and r1 = leaves_ready [OF l1 r]
  have q1: "rxq (world s1) = pkt_frame p resume_req_pkt @ data_stream p F m k 0 @ rest" using l1 by (simp add: leaves_def)
  have crc1: "val_internal_crc32 s1 = val_internal_crc32 p" using crc crc_cfg [of s1 s] fr1 by simp
  obtain s2 where e2: "negotiate_never ?rf s1 = Some (Next (0, False), s2)"
    and l2: "leaves rxq out tx s1 s2 (data_stream p F m k 0 @ rest) (out (world s1)) (tx (world s1) @ pkt_frame s1 (resume_resp_pkt start_zero_resp))"
    using negotiate_never_sink [OF r1 _ _ _ q1 crc1, of meta s] st never dir fr1 leaves_directory [OF l1] by auto
  note fr2 = leaves_frames [OF l2]
  obtain s3 where e3: "fs_open (rf_path ?rf) ''wb'' s2 = (Some f, s3)" and l3: "leaves rxq out tx s2 s3 (rxq (world s2)) [] (tx (world s2))"
    using open_output [of s2 f rxq out tx "rf_path ?rf"] st fr1 fr2 by auto
  note fr3 = leaves_frames [OF l3]
  have l23: "leaves rxq out tx s s3 (data_stream p F m k 0 @ rest) [] (tx (world s) @ pkt_frame s (resume_resp_pkt start_zero_resp))"
    using l1 l2 l3 fr1 by (simp add: leaves_def)
  note r3 = leaves_ready [OF l23 r] and fr = leaves_frames [OF l23]
  let ?v = "\<lparr>rv_written = 0, rv_crc_state = val_crc32_init_state, rv_pkts_since_ack = 0\<rparr> :: recv_vars"
  have w3: "out (world s3) = take 0 F" "rxq (world s3) = data_stream p F m k 0 @ rest" using l23 by (simp_all add: leaves_def)
  have m3: "m + 12 \<le> unat (mtu s3)" and crc3: "val_internal_crc32 s3 = val_internal_crc32 p" using m fr crc crc_cfg [of s3 s] by simp_all
  obtain v4 s4 where e4: "recv_data_loop (mtu s3) f ?rf batch ?v s3 = Some (Next v4, s4)"
    and l4: "leaves rxq out tx s3 s4 rest F (tx (world s3) @ ack_stream s3 F m k 0)"
    using receive_stream [OF r3 w3(1) le0 F m3 m(2,3) k w3(2) crc3, of ?v ?rf batch] by (auto simp: leaves_def)
  note fr4 = leaves_frames [OF l4]
  define s5 where "s5 = call_file_complete (rf_name ?rf) (rf_sender ?rf) VAL_OK (fs_close f s4)"
  have l5: "idle rxq out tx s4 s5"
  proof -
    have st4: "store (cfg s4) f rxq out tx" using st fr fr4 by simp
    note a = store_hooks(4) [OF st4, of f]
    show ?thesis unfolding s5_def by (rule idle_trans [OF a store_hooks(6)]) (use st4 idle_cfg [OF a] in simp)
  qed
  have "recv_one (mtu s) batch s = Some (Next (batch\<lparr>rb_files_completed := rb_files_completed batch + 1,
      rb_transferred := rb_transferred batch + meta_file_size meta\<rparr>), val_metrics_inc_files_recv s5)"
    using e1 e2 e3 e4 never fr1 fr
    by (simp add: recv_one_def recv_body_def file_received_def s5_def [symmetric] Let_def) (simp add: file_of_def)
  moreover have "leaves rxq out tx s (val_metrics_inc_files_recv s5) rest F (tx (world s) @ reply_stream s F m k)"
    using l23 l4 l5 stream_cfg [of s3 s] fr by (simp add: leaves_def reply_stream_def val_metrics_inc_files_recv_def upd_metrics_def)
  ultimately show ?thesis by blast
qed

section \<open>The sender's files\<close>

text \<open>
  The environment of the sender for a whole file: opening a file for reading gives the handle at its first byte,
  seeking to the end and asking for the position give the length of the file; no hook touches the file or the transport.
\<close>

definition shelf ::
    "'w val_config \<Rightarrow> nat \<Rightarrow> ('w \<Rightarrow> u8 list) \<Rightarrow> ('w \<Rightarrow> nat) \<Rightarrow> ('w \<Rightarrow> u8 list) \<Rightarrow> ('w \<Rightarrow> u8 list) \<Rightarrow> bool" where
  "shelf c h content pos tx rxq \<longleftrightarrow>
     (\<exists>fn. fs_fopen (filesystem c) = Some fn \<and> (\<forall>w path. \<exists>w'. fn w path ''rb'' = (Some h, w') \<and>
        content w' = content w \<and> pos w' = 0 \<and> tx w' = tx w \<and> rxq w' = rxq w)) \<and>
     (\<exists>fn. fs_fseek (filesystem c) = Some fn \<and> (\<forall>w. \<exists>w'. fn w h 0 SEEK_END = (0, w') \<and>
        content w' = content w \<and> pos w' = length (content w) \<and> tx w' = tx w \<and> rxq w' = rxq w)) \<and>
     (\<exists>fn. fs_ftell (filesystem c) = Some fn \<and> (\<forall>w. \<exists>w'. fn w h = (int (pos w), w') \<and>
        content w' = content w \<and> pos w' = pos w \<and> tx w' = tx w \<and> rxq w' = rxq w)) \<and>
     (\<exists>fn. fs_fclose (filesystem c) = Some fn \<and> (\<forall>w. content (snd (fn w h)) = content w \<and> tx (snd (fn w h)) = tx w \<and> rxq (snd (fn w h)) = rxq w)) \<and>
     (\<forall>fn w a b n m. on_file_start (callbacks c) = Some fn \<longrightarrow> content (fn w a b n m) = content w \<and> pos (fn w a b n m) = pos w \<and>
        tx (fn w a b n m) = tx w \<and> rxq (fn w a b n m) = rxq w)"

text \<open>A step of the sender that sent and received nothing.\<close>

definition hushed :: "nat \<Rightarrow> u8 list \<Rightarrow> nat \<Rightarrow> ('w \<Rightarrow> u8 list) \<Rightarrow> ('w \<Rightarrow> nat) \<Rightarrow> ('w \<Rightarrow> u8 list) \<Rightarrow> ('w \<Rightarrow> u8 list) \<Rightarrow>
    'w val_session \<Rightarrow> 'w val_session \<Rightarrow> bool" where
  "hushed h F m content pos tx rxq s s' \<longleftrightarrow> sender_ready h F m content pos tx rxq s' \<and> cfg s' = cfg s \<and>
     tx (world s') = tx (world s) \<and> rxq (world s') = rxq (world s)"

lemma hushed_trans: "hushed h F m content pos tx rxq s s' \<Longrightarrow> hushed h F m content pos tx rxq s' s'' \<Longrightarrow> hushed h F m content pos tx rxq s s''"
  by (simp add: hushed_def)

lemma hushed_world:
  assumes "sender_ready h F m content pos tx rxq s" and "content w' = F" "tx w' = tx (world s)" "rxq w' = rxq (world s)"
  shows "hushed h F m content pos tx rxq s (s\<lparr>world := w'\<rparr>)"
  using sender_ready_calm [OF assms(1), of "s\<lparr>world := w'\<rparr>"] assms by (simp add: hushed_def calm_def)

lemma hushed_still:
  "sender_ready h F m content pos tx rxq s \<Longrightarrow> still content pos tx rxq s s' \<Longrightarrow> hushed h F m content pos tx rxq s s'"
  using still_ready [of content pos tx rxq s s' h F m] by (simp add: hushed_def still_def mild_def)

lemma shelf_open:
  assumes sh: "shelf (cfg s) h content pos tx rxq" and r: "sender_ready h F m content pos tx rxq s"
  shows "\<exists>s'. fs_open path ''rb'' s = (Some h, s') \<and> hushed h F m content pos tx rxq s s' \<and> pos (world s') = 0"
proof -
  have F: "content (world s) = F" using r by (simp add: sender_ready_def)
  obtain fn where fn: "fs_fopen (filesystem (cfg s)) = Some fn" "\<forall>w path. \<exists>w'. fn w path ''rb'' = (Some h, w') \<and>
        content w' = content w \<and> pos w' = 0 \<and> tx w' = tx w \<and> rxq w' = rxq w" using sh by (auto simp: shelf_def)
  from spec [OF spec [OF fn(2), of "world s"], of path]
  obtain w' where w: "fn (world s) path ''rb'' = (Some h, w')" "content w' = content (world s)" "pos w' = 0"
    "tx w' = tx (world s)" "rxq w' = rxq (world s)" by blast
  show ?thesis using fn(1) w F hushed_world [OF r, of w'] by (simp add: fs_open_def)
qed

lemma shelf_size:
  assumes sh: "shelf (cfg s) h content pos tx rxq" and r: "sender_ready h F m content pos tx rxq s"
  shows "\<exists>s1 s2. fs_seek h 0 SEEK_END s = (0, s1) \<and> fs_tell h s1 = (int (length F), s2) \<and> hushed h F m content pos tx rxq s s2"
proof -
  have F: "content (world s) = F" using r by (simp add: sender_ready_def)
  obtain sk where sk: "fs_fseek (filesystem (cfg s)) = Some sk" "\<forall>w. \<exists>w'. sk w h 0 SEEK_END = (0, w') \<and>
        content w' = content w \<and> pos w' = length (content w) \<and> tx w' = tx w \<and> rxq w' = rxq w" using sh by (auto simp: shelf_def)
  obtain tl where tl: "fs_ftell (filesystem (cfg s)) = Some tl" "\<forall>w. \<exists>w'. tl w h = (int (pos w), w') \<and>
        content w' = content w \<and> pos w' = pos w \<and> tx w' = tx w \<and> rxq w' = rxq w" using sh by (auto simp: shelf_def)
  obtain w1 where w1: "sk (world s) h 0 SEEK_END = (0, w1)" "content w1 = F" "pos w1 = length F" "tx w1 = tx (world s)" "rxq w1 = rxq (world s)"
    using sk(2) F by metis
  obtain w2 where w2: "tl w1 h = (int (length F), w2)" "content w2 = F" "tx w2 = tx (world s)" "rxq w2 = rxq (world s)"
    using tl(2) w1 by metis
  show ?thesis using sk(1) w1(1) tl(1) w2 hushed_world [OF r w2(2-4)] by (simp add: fs_seek_def fs_tell_def)
qed

lemma shelf_close:
  assumes sh: "shelf (cfg s) h content pos tx rxq" and r: "sender_ready h F m content pos tx rxq s"
  shows "hushed h F m content pos tx rxq s (fs_close h s)"
proof -
  have F: "content (world s) = F" using r by (simp add: sender_ready_def)
  obtain fn where fn: "fs_fclose (filesystem (cfg s)) = Some fn"
    "\<forall>w. content (snd (fn w h)) = content w \<and> tx (snd (fn w h)) = tx w \<and> rxq (snd (fn w h)) = rxq w"
    using sh by (auto simp: shelf_def)
  then show ?thesis using F hushed_world [OF r, of "snd (fn (world s) h)"] by (simp add: fs_close_def)
qed

text \<open>The name of the file, as it goes into the metadata.\<close>

definition sent_name :: "cstr \<Rightarrow> cstr" where
  "sent_name filepath = the (val_clean_filename (Some (basename_loop filepath filepath)) (VAL_MAX_FILENAME + 1))"

lemma sent_name_length: "length (sent_name filepath) \<le> 127"
  by (simp add: sent_name_def val_clean_filename_eq Let_def)

lemma get_size_shelf:
  assumes sh: "shelf (cfg s) h content pos tx rxq" and r: "sender_ready h F m content pos tx rxq s"
  shows "\<exists>s'. get_file_size_and_name s filepath = (VAL_OK, of_nat (length F), sent_name filepath, s') \<and>
     hushed h F m content pos tx rxq s s'"
proof -
  obtain s1 where o: "fs_open filepath ''rb'' s = (Some h, s1)" and u1: "hushed h F m content pos tx rxq s s1"
    using shelf_open [OF sh r] by blast
  have r1: "sender_ready h F m content pos tx rxq s1" "cfg s1 = cfg s" using u1 by (simp_all add: hushed_def)
  obtain s2 s3 where k: "fs_seek h 0 SEEK_END s1 = (0, s2)" "fs_tell h s2 = (int (length F), s3)" and u3: "hushed h F m content pos tx rxq s1 s3"
    using shelf_size [OF _ r1(1)] sh r1(2) by fastforce
  have r3: "sender_ready h F m content pos tx rxq s3" "cfg s3 = cfg s" using u3 r1 by (simp_all add: hushed_def)
  have src: "source (cfg s3) h content pos tx rxq" "content (world s3) = F" "length F < 2 ^ 63"
    using r3(1) by (simp_all add: sender_ready_def sizes_ok_def)
  obtain w4 where z: "fs_seek h (int 0) SEEK_SET s3 = (0, s3\<lparr>world := w4\<rparr>)" "content w4 = F"
    using fs_seek_file [of s3 h content pos F 0] src by (auto simp: source_def)
  obtain sk where sk: "fs_fseek (filesystem (cfg s3)) = Some sk" using sh r3(2) by (auto simp: shelf_def)
  have "snd (sk (world s3) h (int 0) SEEK_SET) = w4"
    using z(1) sk by (cases "sk (world s3) h (int 0) SEEK_SET") (auto simp: fs_seek_def dest: arg_cong [where f = world])
  then have w4: "tx w4 = tx (world s3)" "rxq w4 = rxq (world s3)" using src(1) sk unfolding source_def by metis+
  have u4: "hushed h F m content pos tx rxq s3 (s3\<lparr>world := w4\<rparr>)" by (rule hushed_world [OF r3(1) z(2) w4])
  have u5: "hushed h F m content pos tx rxq (s3\<lparr>world := w4\<rparr>) (fs_close h (s3\<lparr>world := w4\<rparr>))"
    by (rule shelf_close) (use sh r3 u4 in \<open>simp_all add: hushed_def\<close>)
  have nm: "take 127 (sent_name filepath) = sent_name filepath" using sent_name_length [of filepath] by simp
  have "get_file_size_and_name s filepath = (VAL_OK, of_nat (length F), sent_name filepath, fs_close h (s3\<lparr>world := w4\<rparr>))"
    using o k z(1) nm by (simp add: get_file_size_and_name_def Let_def snprintf_def sent_name_def)
  then show ?thesis using hushed_trans [OF hushed_trans [OF hushed_trans [OF u1 u3] u4] u5] by blast
qed

text \<open>The metadata the sender announces.\<close>

definition sent_meta :: "cstr \<Rightarrow> cstr \<Rightarrow> nat \<Rightarrow> val_meta_payload_t" where
  "sent_meta name path n = \<lparr>meta_filename = char_array (VAL_MAX_FILENAME + 1) name,
     meta_sender_path = char_array (VAL_MAX_PATH + 1) (the (val_clean_path (Some path) (VAL_MAX_PATH + 1))),
     meta_file_size = of_nat n\<rparr>"

lemma clean_path_length: "length (the (val_clean_path (Some path) 128)) \<le> 127"
proof -
  let ?o = "clean_path_loop path 128 [] True"
  have "length ?o < 128" using clean_path_loop_ok [of "[]" True 128 path] by (auto simp: out_ok_def)
  then show ?thesis by (simp add: val_clean_path_def Let_def)
qed

lemma sent_meta_ok: "length name \<le> 127 \<Longrightarrow> meta_ok (sent_meta name path n)"
  using clean_path_length [of path] by (simp add: meta_ok_def sent_meta_def char_array_def length_mem_write)

lemma send_ready_bytes:
  assumes r: "sender_ready h F m content pos tx rxq s"
    and t: "t \<notin> {VAL_PKT_DATA, VAL_PKT_DATA_ACK, VAL_PKT_DONE_ACK, VAL_PKT_EOT_ACK, VAL_PKT_DATA_NAK}"
    and p: "payload_is (send_buf s) payload bs" and len: "length bs \<le> 500"
  shows "\<exists>s'. val_internal_send_packet s t payload (of_nat (length bs)) 0 = (VAL_OK, s') \<and>
     sender_ready h F m content pos tx rxq s' \<and> cfg s' = cfg s \<and>
     tx (world s') = tx (world s) @ pkt_frame s (t, bs, 0, True) \<and> rxq (world s') = rxq (world s)"
proof -
  have ms: "512 \<le> unat (mtu s)" using r session_ok_mtu [of s] by (simp add: sender_ready_def sizes_ok_def)
  have "wire_content t bs 0 True = (0, 0, bs)" using t by (cases t) (simp_all add: wire_content_def)
  then have room: "12 + needs_room t bs 0 True \<le> unat (mtu s)" "needs_room t bs 0 True < 65536" using ms len by (simp_all add: needs_room_def)
  show ?thesis using send_ready [OF r p room] by (auto simp: val_internal_send_packet_def pkt_frame_def)
qed

lemma send_metadata_ready:
  assumes r: "sender_ready h F m content pos tx rxq s" and name: "length name \<le> 127"
  shows "\<exists>s'. send_metadata s (Some path) (of_nat n) (Some name) = (VAL_OK, s') \<and>
     sender_ready h F m content pos tx rxq s' \<and> cfg s' = cfg s \<and>
     tx (world s') = tx (world s) @ pkt_frame s (meta_pkt (sent_meta name path n)) \<and> rxq (world s') = rxq (world s)"
proof -
  let ?meta = "sent_meta name path n"
  note ok = sent_meta_ok [OF name, of path n]
  have e: "val_serialize_meta ?meta (replicate VAL_WIRE_META_SIZE 0) = meta_bytes ?meta" using meta.enc_exact [OF ok] by simp
  have len: "length (meta_bytes ?meta) \<le> 500" by (simp add: meta_bytes_length [OF ok])
  have p: "payload_is (send_buf s) (P_BYTES (meta_bytes ?meta)) (meta_bytes ?meta)" using len by (simp add: payload_is_def)
  have "send_metadata s (Some path) (of_nat n) (Some name) =
      val_internal_send_packet s VAL_PKT_SEND_META (P_BYTES (val_serialize_meta ?meta (replicate VAL_WIRE_META_SIZE 0))) 264 0"
    using name clean_path_length [of path] by (simp add: send_metadata_def sent_meta_def snprintf_def Let_def)
  then show ?thesis
    using send_ready_bytes [OF r _ p len, of VAL_PKT_SEND_META] unfolding e meta_bytes_length [OF ok] by (simp add: meta_pkt_def)
qed

lemma resume_negotiation_ready:
  assumes r: "sender_ready h F m content pos tx rxq s" and crc: "val_internal_crc32 s = val_internal_crc32 p"
    and q: "rxq (world s) = pkt_frame p (resume_resp_pkt start_zero_resp) @ rest"
  shows "\<exists>s'. handle_resume_negotiation s n filepath = Some (VAL_OK, 0, s') \<and> sender_ready h F m content pos tx rxq s' \<and> cfg s' = cfg s \<and>
     tx (world s') = tx (world s) @ pkt_frame s resume_req_pkt \<and> rxq (world s') = rest"
proof -
  obtain s1 where s1: "val_internal_send_packet s VAL_PKT_RESUME_REQ P_NULL 0 0 = (VAL_OK, s1)"
    "sender_ready h F m content pos tx rxq s1" "cfg s1 = cfg s" "tx (world s1) = tx (world s) @ pkt_frame s resume_req_pkt"
    "rxq (world s1) = rxq (world s)"
    using send_ready_bytes [OF r _ payload_null, of VAL_PKT_RESUME_REQ] by (auto simp: resume_req_pkt_def)
  have q1: "rxq (world s1) = pkt_frame p (resume_resp_pkt start_zero_resp) @ rest" using q s1(5) by simp
  have crc1: "val_internal_crc32 s1 = val_internal_crc32 p" using crc crc_cfg [OF s1(3)] by simp
  let ?x = "resume_resp_pkt start_zero_resp"
  have t: "pkt_type ?x = VAL_PKT_RESUME_RESP" by (simp add: resume_resp_pkt_def pkt_type_def)
  have ok1: "session_ok s1" using s1(2) by (simp add: sender_ready_def sizes_ok_def)
  have fits: "pkt_fits s1 (unat (24 :: u32)) ?x"
    using session_ok_mtu [OF ok1] by (simp add: pkt_fits_def resume_resp_pkt_def needs_room_def wire_content_def start_zero_resp_facts(2))
  obtain s2 where w: "val_internal_wait_control s1 (val_internal_get_timeout s1 VAL_OP_META) (ack_retries (retries (cfg s1)))
      (backoff_ms_base (retries (cfg s1))) (Some (replicate 24 0)) 24 accept_resume_resp_cb (Some retry_send_resume_req_cb) =
      Some (VAL_OK, pkt_info ?x, after_copy (replicate 24 0) ?x, s2)"
    "mild (watched content pos tx) s1 s2" "rxq (world s2) = rest"
    using wait_control_ready [OF s1(2) q1 crc1 fits, where accept = accept_resume_resp_cb and to_ms = "val_internal_get_timeout s1 VAL_OP_META"
        and tries = "ack_retries (retries (cfg s1))" and backoff = "backoff_ms_base (retries (cfg s1))" and mem = "replicate 24 0"
        and on_timeout = "Some retry_send_resume_req_cb"] t
    by (auto simp: accept_resume_resp_cb_def)
  have len: "rx_len (pkt_info ?x) = 24"
    by (simp add: pkt_info_def resume_resp_pkt_def wire_content_def start_zero_resp_facts(2))
  have "after_copy (replicate 24 0) ?x = resume_resp_bytes start_zero_resp @ []"
    by (simp add: after_copy_def resume_resp_pkt_def wire_content_def mem_write_def start_zero_resp_facts(2))
  then have d: "val_deserialize_resume_resp (after_copy (replicate 24 0) ?x) = start_zero_resp"
    using resume_resp.dec_bytes [of start_zero_resp "[]"] by (simp add: start_zero_resp_def)
  have "handle_resume_negotiation s n filepath = Some (VAL_OK, 0, s2)"
    using s1(1) w(1) len d by (simp add: handle_resume_negotiation_def Let_def val_internal_wait_resume_resp_def start_zero_resp_def)
  then show ?thesis using sender_ready_mild [OF s1(2) w(2)] w(2,3) s1(3,4) by (auto simp: mild_def)
qed

lemma open_for_send_ready:
  assumes sh: "shelf (cfg s) h content pos tx rxq" and r: "sender_ready h F m content pos tx rxq s"
  shows "\<exists>prog' s'. open_for_send filepath filename path n 0 prog s = (Next (h, prog'), s') \<and>
     hushed h F m content pos tx rxq s s' \<and> pos (world s') = 0"
proof -
  obtain s1 where o: "fs_open filepath ''rb'' s = (Some h, s1)" and u1: "hushed h F m content pos tx rxq s s1" and p1: "pos (world s1) = 0"
    using shelf_open [OF sh r] by blast
  have r1: "sender_ready h F m content pos tx rxq s1" "cfg s1 = cfg s" using u1 by (simp_all add: hushed_def)
  define s2 where "s2 = call_file_start filename path n 0 s1"
  have u2: "hushed h F m content pos tx rxq s1 s2" and p2: "pos (world s2) = 0"
  proof -
    have F1: "content (world s1) = F" using r1(1) by (simp add: sender_ready_def)
    have "hushed h F m content pos tx rxq s1 s2 \<and> pos (world s2) = 0"
    proof (cases "on_file_start (callbacks (cfg s1))")
      case None
      then show ?thesis using r1 p1 by (simp add: s2_def call_file_start_def hushed_def)
    next
      case (Some fn)
      then have k: "content (fn w a b n m) = content w \<and> pos (fn w a b n m) = pos w \<and> tx (fn w a b n m) = tx w \<and> rxq (fn w a b n m) = rxq w"
        for w a b n m using sh r1(2) by (simp add: shelf_def)
      then show ?thesis using Some p1 F1 hushed_world [OF r1(1), of "fn (world s1) filename path n 0"]
        by (simp add: s2_def call_file_start_def)
    qed
    then show "hushed h F m content pos tx rxq s1 s2" "pos (world s2) = 0" by simp_all
  qed
  have r2: "sender_ready h F m content pos tx rxq s2" using u2 by (simp add: hushed_def)
  obtain prog' s3 where g: "val_emit_progress_sender s2 prog filename 0 True = (prog', s3)" and l3: "still content pos tx rxq s2 s3"
    using progress_still [OF r2] by blast
  note u3 = hushed_still [OF r2 l3]
  have nc: "\<not> val_check_for_cancel s3" using u3 by (simp add: hushed_def sender_ready_def)
  have p3: "pos (world s3) = 0" using l3 p2 by (simp add: still_def mild_def)
  have "open_for_send filepath filename path n 0 prog s = (Next (h, prog'), s3)"
    using o g nc by (simp add: open_for_send_def s2_def [symmetric] Let_def)
  then show ?thesis using hushed_trans [OF hushed_trans [OF u1 u2] u3] p3 by blast
qed

lemma send_file_ready:
  assumes sh: "shelf (cfg s) h content pos tx rxq" and r: "sender_ready h F m content pos tx rxq s" and qc: "quiet_close (cfg s) tx rxq"
    and crc: "val_internal_crc32 s = val_internal_crc32 p" and k: "k = unat (current_window_packets s)"
    and q: "rxq (world s) = pkt_frame p (resume_resp_pkt start_zero_resp) @ concat (map (\<lambda>a. pkt_frame p (ack_pkt a)) (file_acks F m k 0)) @
      pkt_frame p (done_ack_pkt l) @ rest"
  shows "0 < k \<and> (\<exists>prog' s'. val_internal_send_file s filepath sender_path prog = Some (VAL_OK, prog', s') \<and> rxq (world s') = rest \<and>
     tx (world s') = tx (world s) @ file_stream s (sent_meta (sent_name filepath) (reported_path sender_path filepath) (length F)) F m k)"
proof
  have ok: "session_ok s" using r by (simp add: sender_ready_def sizes_ok_def)
  then have cw: "current_window_packets s \<noteq> 0" by (auto simp: session_ok_def window_ok_def)
  then show k0: "0 < k" using k by (simp add: unat_gt_0)
  let ?path = "reported_path sender_path filepath"
  let ?meta = "sent_meta (sent_name filepath) ?path (length F)"
  obtain s1 where e1: "get_file_size_and_name s filepath = (VAL_OK, of_nat (length F), sent_name filepath, s1)"
    and u1: "hushed h F m content pos tx rxq s s1" using get_size_shelf [OF sh r] by blast
  have r1: "sender_ready h F m content pos tx rxq s1" and c1: "cfg s1 = cfg s" using u1 by (simp_all add: hushed_def)
  obtain s2 where s2: "send_metadata s1 (Some ?path) (of_nat (length F)) (Some (sent_name filepath)) = (VAL_OK, s2)"
    "sender_ready h F m content pos tx rxq s2" "cfg s2 = cfg s1" "tx (world s2) = tx (world s1) @ pkt_frame s1 (meta_pkt ?meta)"
    "rxq (world s2) = rxq (world s1)"
    using send_metadata_ready [OF r1 sent_name_length] by blast
  have crc2: "val_internal_crc32 s2 = val_internal_crc32 p" using crc crc_cfg [of s2 s] c1 s2(3) by simp
  have q2: "rxq (world s2) = pkt_frame p (resume_resp_pkt start_zero_resp) @ concat (map (\<lambda>a. pkt_frame p (ack_pkt a)) (file_acks F m k 0)) @
      pkt_frame p (done_ack_pkt l) @ rest" using q u1 s2(5) by (simp add: hushed_def)
  obtain s3 where s3: "handle_resume_negotiation s2 (of_nat (length F)) filepath = Some (VAL_OK, 0, s3)"
    "sender_ready h F m content pos tx rxq s3" "cfg s3 = cfg s2" "tx (world s3) = tx (world s2) @ pkt_frame s2 resume_req_pkt"
    "rxq (world s3) = concat (map (\<lambda>a. pkt_frame p (ack_pkt a)) (file_acks F m k 0)) @ pkt_frame p (done_ack_pkt l) @ rest"
    using resume_negotiation_ready [OF s2(2) crc2 q2] by blast
  have c3: "cfg s3 = cfg s" using s3(3) s2(3) c1 by simp
  obtain prog' s4 where e4: "open_for_send filepath (sent_name filepath) ?path (of_nat (length F)) 0 prog s3 = (Next (h, prog'), s4)"
    and u4: "hushed h F m content pos tx rxq s3 s4" and p4: "pos (world s4) = 0"
    using open_for_send_ready [OF _ s3(2)] sh c3 by fastforce
  have r4: "sender_ready h F m content pos tx rxq s4" and c4: "cfg s4 = cfg s" using u4 c3 by (simp_all add: hushed_def)
  have qc4: "quiet_close (cfg s4) tx rxq" and crc4: "val_internal_crc32 s4 = val_internal_crc32 p"
    using qc crc c4 crc_cfg [OF c4] by simp_all
  have q4: "rxq (world s4) = concat (map (\<lambda>a. pkt_frame p (ack_pkt a)) (file_acks F m k 0)) @ pkt_frame p (done_ack_pkt l) @ rest"
    using u4 s3(5) by (simp add: hushed_def)
  have k4: "k = unat (sv_win (send_vars_init h (of_nat (length F)) (of_nat 0) 0 prog' s))"
    using cw k unat_less_2p16 [of "current_window_packets s"] by (simp add: send_vars_init_def)
  obtain prog5 s5 where s5: "send_file_body s h (sent_name filepath) ?path (of_nat (length F)) 0 prog' s4 = Some (VAL_OK, prog5, s5)"
    "rxq (world s5) = rest" "tx (world s5) = tx (world s4) @ concat (map (pkt_frame s4) (file_pkts F m k 0 @ [done_pkt (of_nat (length F))]))"
    using send_file_body_acked [OF r4 qc4 le0 p4 k4 k0 q4 crc4, of "sent_name filepath" ?path] by auto
  have nz: "(0 :: u64) \<noteq> UINT64_MAX" by simp
  have res: "val_internal_send_file s filepath sender_path prog = Some (VAL_OK, prog5, s5)"
    using e1 s2(1) s3(1) e4 s5(1) nz by (simp add: val_internal_send_file_def send_file_data_adaptive_def Let_def)
  have fr: "pkt_frame s1 = pkt_frame s" "pkt_frame s2 = pkt_frame s" "pkt_frame s4 = pkt_frame s"
    by (rule pkt_frame_cfg, simp add: c1 s2(3) c4)+
  show "\<exists>prog' s'. val_internal_send_file s filepath sender_path prog = Some (VAL_OK, prog', s') \<and> rxq (world s') = rest \<and>
     tx (world s') = tx (world s) @ file_stream s ?meta F m k"
    using res s5(2,3) u4 s3(4) s2(4) u1 fr by (auto simp: hushed_def file_stream_def data_stream_def)
qed

text \<open>
  C1. A file from its name to its end, with resume switched off at the receiver: each side reads what the other sends. The
  sender's \<^verbatim>\<open>val_internal_send_file\<close> finds the size of the file, announces it with the cleaned name and path, asks where to start,
  sends the data and DONE, and returns VAL_OK. The receiver's handling of one file takes the metadata, answers
  that it starts at zero, empties the output, writes the data and acknowledges; the output then holds the file, byte for byte,
  and the batch counters are those of one more file. Whatever was in the output before is gone.
\<close>

theorem file_transfer:
  fixes s :: "'a val_session" and r :: "'b val_session"
  assumes snd: "sender_ready h F m content pos tx rxq s" "shelf (cfg s) h content pos tx rxq" "quiet_close (cfg s) tx rxq"
    and rcv: "ready f rxq' out tx' r" "store (cfg r) f rxq' out tx'" "rc_mode (resume (cfg r)) = VAL_RESUME_NEVER"
      "length (output_directory r) \<le> 127"
    and fits: "m + 12 \<le> unat (mtu r)" and crc: "val_internal_crc32 s = val_internal_crc32 r"
    and k: "k = unat (current_window_packets s)"
    and meta: "meta = sent_meta (sent_name filepath) (reported_path sender_path filepath) (length F)"
    and q: "rxq (world s) = reply_stream r F m k @ rest" and q': "rxq' (world r) = file_stream s meta F m k @ rest'"
  shows "(\<exists>prog' s'. val_internal_send_file s filepath sender_path prog = Some (VAL_OK, prog', s') \<and>
       tx (world s') = tx (world s) @ file_stream s meta F m k \<and> rxq (world s') = rest) \<and>
     (\<exists>r'. recv_one (mtu r) batch r = Some (Next (batch\<lparr>rb_files_completed := rb_files_completed batch + 1,
         rb_transferred := rb_transferred batch + of_nat (length F)\<rparr>), r') \<and>
       out (world r') = F \<and> tx' (world r') = tx' (world r) @ reply_stream r F m k \<and> rxq' (world r') = rest' \<and>
       last_error r' = last_error r)"
proof
  have sz: "sizes_ok s F m" using snd(1) by (simp add: sender_ready_def)
  have m: "8 < m" "m < 65536" "length F < 2 ^ 63" using sizes_ok_m [OF sz] sz by (simp_all add: sizes_ok_def)
  have qa: "rxq (world s) = pkt_frame r (resume_resp_pkt start_zero_resp) @ concat (map (\<lambda>a. pkt_frame r (ack_pkt a)) (file_acks F m k 0)) @
      pkt_frame r (done_ack_pkt (length F)) @ rest" using q by (simp add: reply_stream_def ack_stream_def comp_def)
  note sf = send_file_ready [OF snd(2,1,3) crc k qa, of filepath sender_path prog, folded meta]
  then show "\<exists>prog' s'. val_internal_send_file s filepath sender_path prog = Some (VAL_OK, prog', s') \<and>
       tx (world s') = tx (world s) @ file_stream s meta F m k \<and> rxq (world s') = rest" by blast
  have ok: "meta_ok meta" unfolding meta by (rule sent_meta_ok [OF sent_name_length])
  have sz: "meta_file_size meta = of_nat (length F)" by (simp add: meta sent_meta_def)
  show "\<exists>r'. recv_one (mtu r) batch r = Some (Next (batch\<lparr>rb_files_completed := rb_files_completed batch + 1,
         rb_transferred := rb_transferred batch + of_nat (length F)\<rparr>), r') \<and>
       out (world r') = F \<and> tx' (world r') = tx' (world r) @ reply_stream r F m k \<and> rxq' (world r') = rest' \<and>
       last_error r' = last_error r"
    using recv_one_file [OF rcv ok fits m(1,2) conjunct1 [OF sf] m(3) q' crc [symmetric], of batch] sz by (auto simp: leaves_def)
qed

lemma desk_shelf: "shelf (desk_config mode) 1 dk_src dk_pos dk_tx dk_rx"
  by (auto simp: shelf_def desk_config_def desk_files_def)

lemma desk_store: "store (desk_config mode) 2 dk_rx dk_out dk_tx"
  by (auto simp: store_def undisturbed_def desk_config_def desk_files_def Let_def)

lemma file_stream_cfg: "cfg s = cfg p \<Longrightarrow> file_stream s = file_stream p \<and> reply_stream s = reply_stream p"
  using stream_cfg [of s p] by (simp add: fun_eq_iff file_stream_def reply_stream_def pkt_frame_cfg [of s p])

theorem file_transfer_witness:
  "\<exists>(s :: desk val_session) (r :: desk val_session) prog' s' batch' r'.
     val_internal_send_file s [100, 47, 97] None None = Some (VAL_OK, prog', s') \<and>
     recv_one 512 \<lparr>rb_transferred = 0, rb_files_completed = 0, rb_start_ms = 0\<rparr> r = Some (Next batch', r') \<and>
     dk_src (world s) = [10, 20, 30] \<and> dk_out (world r) = [1, 2, 3, 4, 5] \<and> dk_out (world r') = [10, 20, 30] \<and>
     dk_rx (world r) = dk_tx (world s') \<and> dk_rx (world s) = dk_tx (world r') \<and> rb_transferred batch' = 3"
proof -
  let ?F = "[10, 20, 30] :: u8 list" and ?p = "desk_session VAL_RESUME_NEVER (desk_world [] [] [])"
  let ?b = "\<lparr>rb_transferred = 0, rb_files_completed = 0, rb_start_ms = 0\<rparr> :: recv_batch"
  define meta where "meta = sent_meta (sent_name [100, 47, 97]) (reported_path None [100, 47, 97]) (length ?F)"
  define s where "s = desk_session VAL_RESUME_NEVER (desk_world (reply_stream ?p ?F 500 4) ?F [])"
  define r where "r = desk_session VAL_RESUME_NEVER (desk_world (file_stream ?p meta ?F 500 4) [] [1, 2, 3, 4, 5])"
  have c: "cfg s = desk_config VAL_RESUME_NEVER" "cfg r = desk_config VAL_RESUME_NEVER" "mtu s = 512" "mtu r = 512" by (simp_all add: s_def r_def)
  have st: "file_stream s = file_stream ?p" "reply_stream r = reply_stream ?p" using file_stream_cfg [of s ?p] file_stream_cfg [of r ?p] c by simp_all
  have w: "dk_rx (world s) = reply_stream r ?F 500 4 @ []" "dk_rx (world r) = file_stream s meta ?F 500 4 @ []"
    "dk_out (world r) = [1, 2, 3, 4, 5]" "dk_tx (world s) = []" "dk_tx (world r) = []" "dk_src (world s) = ?F"
    by (simp_all add: st) (simp_all add: s_def r_def desk_world_def)
  have sr: "sender_ready 1 ?F 500 dk_src dk_pos dk_tx dk_rx s" unfolding s_def by (rule desk_sender_ready) (simp_all add: desk_world_def)
  have rr: "ready 2 dk_rx dk_out dk_tx r" unfolding r_def by (rule desk_ready)
  have hooks: "shelf (cfg s) 1 dk_src dk_pos dk_tx dk_rx" "quiet_close (cfg s) dk_tx dk_rx" "store (cfg r) 2 dk_rx dk_out dk_tx"
    using desk_shelf desk_quiet_close desk_store c by simp_all
  have x: "rc_mode (resume (cfg r)) = VAL_RESUME_NEVER" "length (output_directory r) \<le> 127" "500 + 12 \<le> unat (mtu r)"
    "4 = unat (current_window_packets s)" by (simp_all add: c) (simp_all add: desk_config_def s_def r_def)
  have crc: "val_internal_crc32 s = val_internal_crc32 r" by (simp add: val_internal_crc32_def fun_eq_iff c desk_config_def)
  from file_transfer [OF sr hooks(1,2) rr hooks(3) x(1-3) crc x(4) meta_def w(1,2), of None ?b]
  obtain prog' s' r' where e: "val_internal_send_file s [100, 47, 97] None None = Some (VAL_OK, prog', s')"
    "recv_one 512 ?b r = Some (Next (?b\<lparr>rb_files_completed := 1, rb_transferred := 3\<rparr>), r')"
    "dk_out (world r') = ?F" "dk_tx (world s') = file_stream s meta ?F 500 4" "dk_tx (world r') = reply_stream r ?F 500 4"
    unfolding c(4) w(4,5) by auto
  then have "val_internal_send_file s [100, 47, 97] None None = Some (VAL_OK, prog', s') \<and>
     recv_one 512 ?b r = Some (Next (?b\<lparr>rb_files_completed := 1, rb_transferred := 3\<rparr>), r') \<and>
     dk_src (world s) = ?F \<and> dk_out (world r) = [1, 2, 3, 4, 5] \<and> dk_out (world r') = ?F \<and>
     dk_rx (world r) = dk_tx (world s') \<and> dk_rx (world s) = dk_tx (world r') \<and>
     rb_transferred (?b\<lparr>rb_files_completed := 1, rb_transferred := 3\<rparr>) = 3" using w by simp
  then show ?thesis by blast
qed

section \<open>Where the output goes\<close>

text \<open>
  C16. Whatever metadata arrives, the output stays in the output directory: the path that is opened is the directory, a
  slash and a name that is not empty and has safe characters only (no separator and no NUL), at most 127 of them; the path is
  never cut by its array of 512 characters. Without a directory it is the name. (The name may be \<open>..\<close>, which no file can have.)
\<close>

theorem output_path_safe:
  assumes r: "recv_meta P s = Some (Next rf, s')" and d: "length (output_directory s') \<le> 127"
  shows "rf_path rf = (if output_directory s' = [] then rf_name rf else output_directory s' @ [SLASH] @ rf_name rf) \<and>
     rf_name rf \<noteq> [] \<and> length (rf_name rf) \<le> 127 \<and> (\<forall>c \<in> set (rf_name rf). safe_char c \<and> \<not> is_sep c \<and> c \<noteq> 0)"
proof -
  obtain meta where m: "rf_name rf = clean_name meta" "rf_path rf = full_output_path s' (clean_name meta)"
  proof -
    obtain fl s1 where l: "recv_meta_loop P (val_internal_get_timeout s VAL_OP_META) (meta_retries (retries (cfg s)))
        (backoff_ms_base (retries (cfg s))) s = Some (fl, s1)" using r by (auto simp: recv_meta_def Let_def bind_eq_Some_conv)
    then show ?thesis using r that by (cases fl) (auto simp: recv_meta_def Let_def clean_name_def split: if_splits)
  qed
  let ?g = "take 127 (map clean_char (filter (\<lambda>c. \<not> is_sep c) (c_string (meta_filename meta))))"
  have n: "clean_name meta = (if ?g = [] then [UNDERSCORE] else ?g)" by (simp add: clean_name_def val_clean_filename_eq Let_def)
  have g: "safe_char c" if "c \<in> set ?g" for c using that by (auto dest!: in_set_takeD)
  have safe: "safe_char c" if "c \<in> set (clean_name meta)" for c
    using that g by (auto simp: n safe_char_def [of UNDERSCORE] split: if_splits)
  have z: "\<not> safe_char 0" by (simp add: safe_char_def)
  have "full_output_path s' (clean_name meta) =
      (if output_directory s' = [] then clean_name meta else output_directory s' @ [SLASH] @ clean_name meta)"
    using clean_name_length [of meta] d by (simp add: full_output_path_def val_internal_join_path_def snprintf_def Let_def)
  moreover have "clean_name meta \<noteq> []" by (simp add: n)
  moreover have "safe_char c \<and> \<not> is_sep c \<and> c \<noteq> 0" if "c \<in> set (clean_name meta)" for c
    using safe [OF that] z safe_not_sep by metis
  ultimately show ?thesis using m clean_name_length [of meta] by simp
qed

lemma desk_ready_dir: "ready 2 dk_rx dk_out dk_tx ((desk_session mode w)\<lparr>output_directory := d\<rparr>)"
  using desk_ready [of mode w]
  by (simp add: ready_def fed_def session_ok_def window_ok_def val_check_for_cancel_def)

theorem output_path_safe_witness:
  "\<exists>rf s'. recv_meta 512 ((desk_session VAL_RESUME_NEVER (desk_world (pkt_frame bed_session
       (meta_pkt (sent_meta [47, 46, 46, 47, 42, 0x61] [98] 5))) [] []))\<lparr>output_directory := [100]\<rparr>) = Some (Next rf, s') \<and>
     rf_path rf = [100, SLASH] @ rf_name rf \<and> (\<forall>c \<in> set (rf_name rf). \<not> is_sep c)"
proof -
  let ?meta = "sent_meta [47, 46, 46, 47, 42, 0x61] [98] 5"
  let ?s = "(desk_session VAL_RESUME_NEVER (desk_world (pkt_frame bed_session (meta_pkt ?meta)) [] []))\<lparr>output_directory := [100]\<rparr>"
  have crc: "val_internal_crc32 ?s = val_internal_crc32 bed_session"
    by (simp add: val_internal_crc32_def fun_eq_iff desk_config_def bed_session_cfg bed_config_def)
  have m: "mtu ?s = 512" by (simp add: mtu_def desk_session_def)
  have ok: "meta_ok ?meta" by (rule sent_meta_ok) simp
  have q: "dk_rx (world ?s) = pkt_frame bed_session (meta_pkt ?meta) @ []" by (simp add: desk_world_def)
  obtain s' where e: "recv_meta 512 ?s = Some (Next (file_of ?meta ?s), s')" and l: "leaves dk_rx dk_out dk_tx ?s s' [] (dk_out (world ?s)) (dk_tx (world ?s))"
    using recv_meta_sink [OF desk_ready_dir q crc ok] unfolding m by blast
  have d: "output_directory s' = [100]" using leaves_directory [OF l] by simp
  show ?thesis using output_path_safe [OF e] d e by fastforce
qed

section \<open>The resume decision\<close>

text \<open>The tail that is verified: the whole file up to a cap of its own, at most 256 MiB, unless a larger minimum is configured.\<close>

definition tail_length :: "val_resume_config_t \<Rightarrow> nat \<Rightarrow> nat" where
  "tail_length rc n =
     min n (max (if rc_tail_cap_bytes rc = 0 then 2 ^ 23 else min (unat (rc_tail_cap_bytes rc)) (2 ^ 28)) (unat (rc_min_verify_bytes rc)))"

lemma verify_window_length:
  assumes "n < 2 ^ 64"
  shows "unat (verify_window rc (of_nat n)) = tail_length rc n"
proof -
  let ?req = "if rc_tail_cap_bytes rc \<noteq> 0 then ucast (rc_tail_cap_bytes rc) else 8 * 1024 * 1024 :: u64"
  have n: "unat (of_nat n :: u64) = n" using assms by (simp add: unat_of_nat_small)
  define C where "C = clamp_u64 ?req 1 (256 * 1024 * 1024)"
  have cap: "unat C =
      (if rc_tail_cap_bytes rc = 0 then 2 ^ 23 else min (unat (rc_tail_cap_bytes rc)) (2 ^ 28))"
  proof (cases "rc_tail_cap_bytes rc = 0")
    case False
    then have "0 < unat (rc_tail_cap_bytes rc)" by (simp add: unat_gt_0)
    then show ?thesis using False by (auto simp: C_def clamp_u64_def word_less_nat_alt min_def)
  qed (simp add: C_def clamp_u64_def word_less_nat_alt)
  show ?thesis
    unfolding verify_window_def Let_def C_def [symmetric] tail_length_def cap [symmetric]
    by (auto simp: word_less_nat_alt n min_def max_def)
qed

lemma shelf_reads:
  assumes "shelf (cfg s) h content pos tx rxq" and "content (world s) = F"
  shows "\<exists>s1 s2 s3. fs_open path ''rb'' s = (Some h, s1) \<and> fs_seek h 0 SEEK_END s1 = (0, s2) \<and> fs_tell h s2 = (int (length F), s3) \<and>
     core s3 = core s \<and> last_error s3 = last_error s \<and> content (world s3) = F"
proof -
  obtain op where op: "fs_fopen (filesystem (cfg s)) = Some op" "\<forall>w path. \<exists>w'. op w path ''rb'' = (Some h, w') \<and>
        content w' = content w \<and> pos w' = 0 \<and> tx w' = tx w \<and> rxq w' = rxq w" using assms(1) by (auto simp: shelf_def)
  obtain sk where sk: "fs_fseek (filesystem (cfg s)) = Some sk" "\<forall>w. \<exists>w'. sk w h 0 SEEK_END = (0, w') \<and>
        content w' = content w \<and> pos w' = length (content w) \<and> tx w' = tx w \<and> rxq w' = rxq w" using assms(1) by (auto simp: shelf_def)
  obtain tl where tl: "fs_ftell (filesystem (cfg s)) = Some tl" "\<forall>w. \<exists>w'. tl w h = (int (pos w), w') \<and>
        content w' = content w \<and> pos w' = pos w \<and> tx w' = tx w \<and> rxq w' = rxq w" using assms(1) by (auto simp: shelf_def)
  obtain w0 where w0: "op (world s) path ''rb'' = (Some h, w0)" "content w0 = F" using op(2) assms(2) by metis
  obtain w1 where w1: "sk w0 h 0 SEEK_END = (0, w1)" "content w1 = F" "pos w1 = length F" using sk(2) w0(2) by metis
  obtain w2 where w2: "tl w1 h = (int (length F), w2)" "content w2 = F" using tl(2) w1 by metis
  show ?thesis using op(1) w0 sk(1) w1(1) tl(1) w2 by (simp add: fs_open_def fs_seek_def fs_tell_def)
qed

lemma shelf_close_content:
  assumes "shelf (cfg s) h content pos tx rxq"
  shows "core (fs_close h s) = core s" "content (world (fs_close h s)) = content (world s)" "last_error (fs_close h s) = last_error s"
  using assms by (auto simp: shelf_def fs_close_def)

text \<open>
  C15. Where a file of the receiver goes on, when an old file of that name can be read: with resume switched off, or when the old file
  is empty, from its first byte; in the mode for existing files any old file that is not empty is kept. In the tail mode an old file longer
  than the announced one is kept or overwritten as the policy for mismatches says; otherwise the transfer goes on at the end of the
  old file once its tail is verified: the offset is its length, the tail is within it and not empty, and the CRC is that of
  exactly its last bytes. The old file is not changed. (The documentation of the mode for existing files says that any of them is skipped; an empty
  one is not.)
\<close>

theorem resume_decision:
  assumes ok: "session_ok s" and sh: "shelf (cfg s) h content pos tx rxq" and rf: "reads_file (cfg s) h content pos"
    and old: "content (world s) = old" "length old < 2 ^ 63"
  shows "\<exists>s'. content (world s') = old \<and> last_error s' = last_error s \<and> session_ok s' \<and>
     determine_resume_action s name n = Some (
       let zero = (VAL_RESUME_START_ZERO, 0, 0, 0, s'); skip = (VAL_RESUME_SKIP_FILE, 0, 0, 0, s');
           l = tail_length (resume (cfg s)) (length old)
       in case rc_mode (resume (cfg s)) of
            VAL_RESUME_NEVER \<Rightarrow> zero
          | VAL_RESUME_SKIP_EXISTING \<Rightarrow> if old = [] then zero else skip
          | VAL_RESUME_TAIL \<Rightarrow>
              if old = [] then zero
              else if unat n < length old then (if rc_mismatch_skip (resume (cfg s)) then skip else zero)
              else (VAL_RESUME_VERIFY_FIRST, of_nat (length old), region_crc s (of_nat l) (drop (length old - l) old), of_nat l, s')) \<and>
     tail_length (resume (cfg s)) (length old) \<le> length old \<and> (old \<noteq> [] \<longrightarrow> 0 < tail_length (resume (cfg s)) (length old))"
proof -
  let ?rc = "resume (cfg s)" and ?e = "of_nat (length old) :: u64" and ?l = "tail_length (resume (cfg s)) (length old)"
  obtain s1 s2 s3 where o: "fs_open (full_output_path s name) ''rb'' s = (Some h, s1)" "fs_seek h 0 SEEK_END s1 = (0, s2)"
    "fs_tell h s2 = (int (length old), s3)" and c3: "core s3 = core s" "last_error s3 = last_error s" "content (world s3) = old"
    using shelf_reads [OF sh old(1)] by blast
  have cfg3: "cfg s3 = cfg s" "mtu s3 = mtu s" using core_fields(1,3) [OF c3(1)] by (simp_all add: mtu_def)
  have cfg1: "cfg s1 = cfg s" using o(1) by (auto simp: fs_open_def split: option.splits prod.splits)
  have ok3: "session_ok s3" using ok stable_session_ok [of s s3] c3(1) by (simp add: stable_def)
  have le: "?l \<le> length old" "old \<noteq> [] \<longrightarrow> 0 < ?l"
    by (auto simp: tail_length_def less_max_iff_disj unat_gt_0)
  have ue: "unat ?e = length old" using old(2) by (simp add: unat_of_nat_small)
  have ul: "unat (verify_window ?rc ?e) = ?l" using verify_window_length [of "length old" ?rc] old(2) by simp
  have vl: "verify_window ?rc ?e = of_nat ?l" by (simp add: ul [symmetric])
  have us: "unat (?e - verify_window ?rc ?e) = length old - ?l"
    using ue ul le(1) by (subst unat_sub) (simp_all add: word_le_nat_alt)
  have fit: "unat (?e - verify_window ?rc ?e) + unat (verify_window ?rc ?e) \<le> length old" using us ul le(1) by simp
  have rf3: "reads_file (cfg s3) h content pos" using rf cfg3 by simp
  obtain s4 where c: "val_internal_crc32_region s3 h (?e - verify_window ?rc ?e) (verify_window ?rc ?e) =
      Some (VAL_OK, region_crc s3 (verify_window ?rc ?e) (region old (?e - verify_window ?rc ?e) (verify_window ?rc ?e)), s4)"
    "core s4 = core s3" "last_error s4 = last_error s3" "content (world s4) = old"
    using crc32_region_file [OF ok3 rf3 c3(3) fit old(2)] by blast
  have reg: "region_crc s3 (verify_window ?rc ?e) (region old (?e - verify_window ?rc ?e) (verify_window ?rc ?e)) =
      region_crc s (of_nat ?l) (drop (length old - ?l) old)"
    using us ul le(1) cfg3 crc_cfg [OF cfg3(1)] by (simp add: region_def region_crc_def vl)
  have cfg4: "cfg s4 = cfg s" using core_fields(1) [OF c(2)] cfg3(1) by simp
  have m: "mtu s3 \<noteq> 0" using session_ok_mtu [OF ok3] by auto
  have e0: "?e = 0 \<longleftrightarrow> old = []" "?e > n \<longleftrightarrow> unat n < length old" "(0 < ?e) \<longleftrightarrow> old \<noteq> []"
    using ue by (auto simp: word_eq_iff_unsigned [where ?'a = nat] word_less_nat_alt)
  have w: "(word_of_int (int (length old)) :: u64) = ?e" by simp
  show ?thesis
  proof (cases "rc_mode ?rc = VAL_RESUME_TAIL \<and> old \<noteq> [] \<and> \<not> unat n < length old")
    case True
    have "determine_resume_action s name n =
        Some (VAL_RESUME_VERIFY_FIRST, ?e, region_crc s (of_nat ?l) (drop (length old - ?l) old), of_nat ?l, fs_close h s4)"
      unfolding determine_resume_action_def Let_def o(1) prod.case option.case o(2,3) w
      using True m e0 c(1) reg vl cfg3(1) by simp
    then show ?thesis
      using True le shelf_close_content [of s4 h content pos tx rxq] sh cfg4 c(2-4) c3 stable_session_ok [of s "fs_close h s4"] ok
      by (intro exI [of _ "fs_close h s4"]) (simp add: Let_def stable_def)
  next
    case False
    have "determine_resume_action s name n = Some (
       let zero = (VAL_RESUME_START_ZERO, 0, 0, 0, fs_close h s3); skip = (VAL_RESUME_SKIP_FILE, 0, 0, 0, fs_close h s3)
       in case rc_mode ?rc of
            VAL_RESUME_NEVER \<Rightarrow> zero
          | VAL_RESUME_SKIP_EXISTING \<Rightarrow> if old = [] then zero else skip
          | VAL_RESUME_TAIL \<Rightarrow> if old = [] then zero else (if rc_mismatch_skip ?rc then skip else zero))"
      unfolding determine_resume_action_def Let_def o(1) prod.case option.case o(2,3) w
      using False m e0 cfg3(1) cfg1 by (cases "rc_mode ?rc") auto
    then show ?thesis
      using False le shelf_close_content [of s3 h content pos tx rxq] sh cfg3(1) c3 stable_session_ok [of s "fs_close h s3"] ok
      by (intro exI [of _ "fs_close h s3"]) (auto simp: Let_def stable_def split: val_resume_mode_t.splits)
  qed
qed

theorem resume_decision_witness:
  "\<exists>s'. determine_resume_action (desk_session VAL_RESUME_TAIL (desk_world [] [1, 2, 3] [])) [0x61] 5 =
      Some (VAL_RESUME_VERIFY_FIRST, 3, val_crc32 [1, 2, 3], 3, s') \<and> dk_src (world s') = [1, 2, 3]"
proof -
  let ?s = "desk_session VAL_RESUME_TAIL (desk_world [] [1, 2, 3] [])"
  have h: "shelf (cfg ?s) 1 dk_src dk_pos dk_tx dk_rx" "reads_file (cfg ?s) 1 dk_src dk_pos"
    using desk_shelf desk_reads by simp_all
  have o: "dk_src (world ?s) = [1, 2, 3]" by (simp add: desk_world_def)
  have rc: "resume (cfg ?s) = \<lparr>rc_mode = VAL_RESUME_TAIL, rc_tail_cap_bytes = 0, rc_min_verify_bytes = 0, rc_mismatch_skip = False\<rparr>"
    by (simp add: desk_config_def)
  have l: "tail_length \<lparr>rc_mode = VAL_RESUME_TAIL, rc_tail_cap_bytes = 0, rc_min_verify_bytes = 0, rc_mismatch_skip = False\<rparr>
      (length [1, 2, 3 :: u8]) = 3" by (simp add: tail_length_def)
  have c: "region_crc ?s 3 [1, 2, 3] = val_crc32 [1, 2, 3]" by (simp add: region_crc_def val_internal_crc32_def desk_config_def)
  show ?thesis
    using resume_decision [OF desk_session_ok h o, of "[0x61]" 5] unfolding rc l by (auto simp: Let_def c)
qed

end
