(* ===== verification/Val_Resume.thy ===== *)
theory Val_Resume
  imports Val_Exchange
begin

text \<open>
  The VERIFY exchange between a sender and a receiver that has a part of the file: RESUME_REQ, RESUME_RESP, VERIFY and the verdict. Both
  sides read a file and use the transport, so the environment of the sender (\<open>sender_ready\<close>, \<open>shelf\<close>) serves the receiver as well.
  The result is \<open>resume_agreement\<close>; from the position both sides agree on \<open>transfer_delivers\<close> takes over.
\<close>

section \<open>The CRC of a region leaves the transport alone\<close>

lemma crc_region_loop_ob:
  assumes "crc_region_loop h step left crc s = Some r"
    and rd: "\<And>rd w n. fs_fread (filesystem (cfg s)) = Some rd \<Longrightarrow> ob (snd (rd w n h)) = ob w"
  shows "ob (world (snd (snd r))) = ob (world s)"
proof -
  let ?P = "\<lambda>h' st l c s' y. h' = h \<and> cfg s' = cfg s \<longrightarrow> ob (world (snd (snd y))) = ob (world s')"
  have "?P h step left crc s r"
  proof (rule crc_region_loop.raw_induct [where P = ?P, OF _ assms(1)])
    fix loop :: "nat \<Rightarrow> size_t \<Rightarrow> u64 \<Rightarrow> u32 \<Rightarrow> 'a val_session \<Rightarrow> _" and h' st l c s' y
    assume IH: "\<And>h' st l c s' y. loop h' st l c s' = Some y \<Longrightarrow> ?P h' st l c s' y"
      and eq: "(if l > 0 then
        let tk = (if l < st then l else st);
            (bs, s) = fs_read tk h' s';
            s = s\<lparr>recv_buf := mem_write (recv_buf s) 0 bs\<rparr>
        in if length bs \<noteq> unat tk then Some (VAL_ERR_IO, c, s)
           else loop h' st (l - tk) (val_crc32_update_state c (mem_read (recv_buf s) 0 (unat tk))) s
      else Some (VAL_OK, c, s')) = Some y"
    define tk where "tk = (if l < st then l else st)"
    obtain bs x where x: "fs_read tk h' s' = (bs, x)" by (cases "fs_read tk h' s'")
    have k: "cfg x = cfg s'" "h' = h \<Longrightarrow> cfg s' = cfg s \<Longrightarrow> ob (world x) = ob (world s')"
      using x rd [of _ "world s'" tk] by (auto simp: fs_read_def split: option.splits prod.splits)
    show "?P h' st l c s' y"
      using eq k IH unfolding tk_def [symmetric] Let_def x prod.case by (auto split: if_splits)
  qed
  then show ?thesis by simp
qed

lemma crc_region_ob:
  assumes r: "val_internal_crc32_region s h start len = Some (st, c, s')"
    and sk: "\<And>sk w off wh. fs_fseek (filesystem (cfg s)) = Some sk \<Longrightarrow> ob (snd (sk w h off wh)) = ob w"
    and rd: "\<And>rd w n. fs_fread (filesystem (cfg s)) = Some rd \<Longrightarrow> ob (snd (rd w n h)) = ob w"
  shows "ob (world s') = ob (world s)"
proof -
  obtain rc s1 where s1: "fs_seek h (sint start) SEEK_SET s = (rc, s1)" by (cases "fs_seek h (sint start) SEEK_SET s")
  have k1: "cfg s1 = cfg s" "ob (world s1) = ob (world s)"
    using s1 sk [of _ "world s" "sint start" SEEK_SET] by (auto simp: fs_seek_def split: option.splits prod.splits)
  have loop: "ob (world x) = ob (world s)" if "crc_region_loop h step len val_crc32_init_state s1 = Some (a, b, x)" for step a b x
    using crc_region_loop_ob [OF that, of ob] rd k1 by simp
  obtain bs s2 where s2: "fs_read len h s1 = (bs, s2)" by (cases "fs_read len h s1")
  have k2: "ob (world s2) = ob (world s)"
    using s2 rd [of _ "world s1" len] k1 by (auto simp: fs_read_def split: option.splits prod.splits)
  show ?thesis
    using r k1 k2 loop unfolding val_internal_crc32_region_def Let_def s1 prod.case s2
    by (auto simp: bind_eq_Some_conv split: if_splits option.splits)
qed

text \<open>The CRC of a region of the file, in the environment of a session that sends and receives.\<close>

lemma crc_region_ready:
  assumes r: "sender_ready h F m content pos tx rxq s" and fit: "unat start + unat len \<le> length F"
  shows "\<exists>s'. val_internal_crc32_region s h start len = Some (VAL_OK, region_crc s len (region F start len), s') \<and>
     hushed h F m content pos tx rxq s s' \<and> mtu s' = mtu s"
proof -
  have src: "source (cfg s) h content pos tx rxq" and ok: "session_ok s" and F: "content (world s) = F" "length F < 2 ^ 63"
    using r by (simp_all add: sender_ready_def sizes_ok_def)
  have rf: "reads_file (cfg s) h content pos" using src by (simp add: source_def)
  obtain s' where s': "val_internal_crc32_region s h start len = Some (VAL_OK, region_crc s len (region F start len), s')"
    "core s' = core s" "last_error s' = last_error s" "content (world s') = F"
    using crc32_region_file [OF ok rf F(1) fit F(2)] by blast
  have "(tx (world s'), rxq (world s')) = (tx (world s), rxq (world s))"
    by (rule crc_region_ob [OF s'(1), where ob = "\<lambda>w. (tx w, rxq w)"]) (use src in \<open>auto simp: source_def\<close>)
  moreover have "sender_ready h F m content pos tx rxq s'" by (rule sender_ready_calm [OF r]) (use s' in \<open>simp_all add: calm_def\<close>)
  ultimately show ?thesis using s' core_fields(1,3) [OF s'(2)] by (auto simp: hushed_def mtu_def)
qed

lemma seek_ready:
  assumes r: "sender_ready h F m content pos tx rxq s" and st: "unat (start :: u64) \<le> length F"
  shows "hushed h F m content pos tx rxq s (snd (fs_seek h (sint start) SEEK_SET s))"
proof -
  have src: "source (cfg s) h content pos tx rxq" and F: "content (world s) = F" "length F < 2 ^ 63"
    using r by (simp_all add: sender_ready_def sizes_ok_def)
  have rf: "reads_file (cfg s) h content pos" using src by (simp add: source_def)
  have e: "sint start = int (unat start)" by (rule sint_offset) (use st F(2) in simp)
  obtain w' where w: "fs_seek h (sint start) SEEK_SET s = (0, s\<lparr>world := w'\<rparr>)" "content w' = F"
    using fs_seek_file [OF rf F(1) st] unfolding e by blast
  obtain sk where sk: "fs_fseek (filesystem (cfg s)) = Some sk" using rf by (auto simp: reads_file_def)
  have "w' = snd (sk (world s) h (sint start) SEEK_SET)" using w(1) sk by (auto simp: fs_seek_def split: prod.splits dest: arg_cong [where f = world])
  then have "tx w' = tx (world s) \<and> rxq w' = rxq (world s)" using src sk by (simp add: source_def)
  then show ?thesis using hushed_world [OF r w(2)] w(1) by simp
qed

section \<open>The sender's side\<close>

definition verify_req_pkt :: "u64 \<Rightarrow> u32 \<Rightarrow> u32 \<Rightarrow> pkt" where
  "verify_req_pkt start crc len = (VAL_PKT_VERIFY, verify_request_bytes (start, crc, len), 0, True)"
definition verify_resp_pkt :: "val_status_t \<Rightarrow> u32 \<Rightarrow> pkt" where
  "verify_resp_pkt result crc = (VAL_PKT_VERIFY, verify_response_bytes (result, crc), 0, True)"

lemma verify_bytes_length [simp]:
  "length (verify_request_bytes v) = 16" "length (verify_response_bytes x) = 8" "length (resume_resp_bytes rr) = 24"
  by (simp_all add: bytes_defs mem_simps split: prod.splits)

lemma region_crc_same:
  assumes "sender_ready h F m content pos tx rxq s" and "sender_ready h' F' m content' pos' tx' rxq' r"
    and "val_internal_crc32 s = val_internal_crc32 r"
  shows "region_crc r = region_crc s"
proof -
  have "unat (mtu r) = unat (mtu s)" using assms(1,2) by (simp add: sender_ready_def sizes_ok_def)
  then have "mtu r = mtu s" by (simp add: word_unat_eq_iff)
  then show ?thesis using assms(3) by (simp add: region_crc_def fun_eq_iff)
qed

lemma region_crc_ready:
  assumes "sender_ready h F m content pos tx rxq s" and "sender_ready h F m content pos tx rxq s'" and "cfg s' = cfg s"
  shows "region_crc s' = region_crc s"
  by (rule region_crc_same [OF assms(1,2)]) (simp add: crc_cfg [OF assms(3)])

text \<open>The answer to RESUME_REQ, when the receiver wants to verify.\<close>

lemma ask_resume:
  assumes r: "sender_ready h F m content pos tx rxq s" and crc: "val_internal_crc32 s = val_internal_crc32 p"
    and q: "rxq (world s) = pkt_frame p (resume_resp_pkt rr) @ rest" and rr: "rr_action rr = VAL_RESUME_VERIFY_FIRST"
    and fit: "unat (rr_resume_offset rr) \<le> unat n" "unat (rr_verify_length rr) \<le> unat (rr_resume_offset rr)" "0 < unat (rr_verify_length rr)"
      "unat (rr_verify_length rr) < 2 ^ 32"
  shows "\<exists>s'. handle_resume_negotiation s n filepath = sender_verify filepath (rr_resume_offset rr) (ucast (rr_verify_length rr)) s' \<and>
     sender_ready h F m content pos tx rxq s' \<and> cfg s' = cfg s \<and>
     tx (world s') = tx (world s) @ pkt_frame s resume_req_pkt \<and> rxq (world s') = rest"
proof -
  obtain s1 where s1: "val_internal_send_packet s VAL_PKT_RESUME_REQ P_NULL 0 0 = (VAL_OK, s1)"
    "sender_ready h F m content pos tx rxq s1" "cfg s1 = cfg s" "tx (world s1) = tx (world s) @ pkt_frame s resume_req_pkt"
    "rxq (world s1) = rxq (world s)"
    using send_ready_bytes [OF r _ payload_null, of VAL_PKT_RESUME_REQ] by (auto simp: resume_req_pkt_def)
  have q1: "rxq (world s1) = pkt_frame p (resume_resp_pkt rr) @ rest" using q s1(5) by simp
  have crc1: "val_internal_crc32 s1 = val_internal_crc32 p" using crc crc_cfg [OF s1(3)] by simp
  let ?x = "resume_resp_pkt rr"
  have t: "pkt_type ?x = VAL_PKT_RESUME_RESP" by (simp add: resume_resp_pkt_def pkt_type_def)
  have ok1: "session_ok s1" using s1(2) by (simp add: sender_ready_def sizes_ok_def)
  have fits: "pkt_fits s1 (unat (24 :: u32)) ?x"
    using session_ok_mtu [OF ok1] by (simp add: pkt_fits_def resume_resp_pkt_def needs_room_def wire_content_def)
  obtain s2 where w: "val_internal_wait_control s1 (val_internal_get_timeout s1 VAL_OP_META) (ack_retries (retries (cfg s1)))
      (backoff_ms_base (retries (cfg s1))) (Some (replicate 24 0)) 24 accept_resume_resp_cb (Some retry_send_resume_req_cb) =
      Some (VAL_OK, pkt_info ?x, after_copy (replicate 24 0) ?x, s2)"
    "mild (watched content pos tx) s1 s2" "rxq (world s2) = rest"
    using wait_control_ready [OF s1(2) q1 crc1 fits, where accept = accept_resume_resp_cb and to_ms = "val_internal_get_timeout s1 VAL_OP_META"
        and tries = "ack_retries (retries (cfg s1))" and backoff = "backoff_ms_base (retries (cfg s1))" and mem = "replicate 24 0"
        and on_timeout = "Some retry_send_resume_req_cb"] t
    by (auto simp: accept_resume_resp_cb_def)
  have len: "rx_len (pkt_info ?x) = 24" by (simp add: pkt_info_def resume_resp_pkt_def wire_content_def)
  have "after_copy (replicate 24 0) ?x = resume_resp_bytes rr @ []"
    by (simp add: after_copy_def resume_resp_pkt_def wire_content_def mem_write_def)
  then have d: "val_deserialize_resume_resp (after_copy (replicate 24 0) ?x) = rr"
    using resume_resp.dec_bytes [of rr "[]"] rr by simp
  have o: "\<not> rr_resume_offset rr > n" "\<not> rr_verify_length rr > rr_resume_offset rr"
    using fit(1,2) by (simp_all add: word_less_nat_alt)
  have "unat (ucast (rr_verify_length rr) :: u32) = unat (rr_verify_length rr)"
    using fit(4) by (simp add: unsigned_ucast_eq take_bit_nat_eq_self)
  then have v: "(ucast (rr_verify_length rr) :: u32) \<noteq> 0" using fit(3) by auto
  have "handle_resume_negotiation s n filepath = sender_verify filepath (rr_resume_offset rr) (ucast (rr_verify_length rr)) s2"
    using s1(1) w(1) len d rr o v by (simp add: handle_resume_negotiation_def Let_def val_internal_wait_resume_resp_def)
  then show ?thesis using sender_ready_mild [OF s1(2) w(2)] w(2,3) s1(3,4) by (auto simp: mild_def)
qed

lemma get_le32_append: "VAL_GET_LE32 (VAL_PUT_LE32 v @ bs) = v"
proof -
  have "VAL_GET_LE32 (VAL_PUT_LE32 v @ bs) = VAL_GET_LE32 (VAL_PUT_LE32 v)" by (simp add: VAL_GET_LE32_def nth_append)
  then show ?thesis by simp
qed

text \<open>The receiver's verdict.\<close>

lemma wait_verdict:
  assumes r: "sender_ready h F m content pos tx rxq s" and crc: "val_internal_crc32 s = val_internal_crc32 p"
    and q: "rxq (world s) = pkt_frame p (verify_resp_pkt result c) @ rest"
    and res: "result \<in> {VAL_OK, VAL_SKIPPED, VAL_ERR_RESUME_VERIFY}" and vp: "vp \<noteq> []"
  shows "\<exists>s'. val_internal_wait_verify_result s vp off 0 =
       Some (VAL_OK, if result = VAL_OK then off else if result = VAL_SKIPPED then UINT64_MAX else 0, s') \<and>
     mild (watched content pos tx) s s' \<and> rxq (world s') = rest"
proof -
  let ?x = "verify_resp_pkt result c"
  have ok: "session_ok s" using r by (simp add: sender_ready_def sizes_ok_def)
  have t: "pkt_type ?x = VAL_PKT_VERIFY" by (simp add: verify_resp_pkt_def pkt_type_def)
  have fits: "pkt_fits s (unat (32 :: u32)) ?x"
    using session_ok_mtu [OF ok] by (simp add: pkt_fits_def verify_resp_pkt_def needs_room_def wire_content_def)
  have len: "rx_len (pkt_info ?x) = 8" by (simp add: pkt_info_def verify_resp_pkt_def wire_content_def)
  obtain s2 where w: "val_internal_wait_control s (val_internal_get_timeout s VAL_OP_VERIFY) (ack_retries (retries (cfg s)))
      (backoff_ms_base (retries (cfg s))) (Some (replicate 32 0)) 32 accept_verify_result_cb (Some (retry_send_verify_cb vp)) =
      Some (VAL_OK, pkt_info ?x, after_copy (replicate 32 0) ?x, s2)"
    "mild (watched content pos tx) s s2" "rxq (world s2) = rest"
    using wait_control_ready [OF r q crc fits, where accept = accept_verify_result_cb and to_ms = "val_internal_get_timeout s VAL_OP_VERIFY"
        and tries = "ack_retries (retries (cfg s))" and backoff = "backoff_ms_base (retries (cfg s))" and mem = "replicate 32 0"
        and on_timeout = "Some (retry_send_verify_cb vp)"] t len
    by (auto simp: accept_verify_result_cb_def)
  have "VAL_GET_LE32 (after_copy (replicate 32 0) ?x) = status_to_u32 result"
    by (simp add: after_copy_def verify_resp_pkt_def wire_content_def mem_write_def verify_response_bytes_def get_le32_append)
  then have "verify_outcome (rx_len (pkt_info ?x)) (after_copy (replicate 32 0) ?x) off 0 =
      (VAL_OK, if result = VAL_OK then off else if result = VAL_SKIPPED then UINT64_MAX else 0)"
    using res by (auto simp: verify_outcome_def len)
  then show ?thesis using w vp by (simp add: val_internal_wait_verify_result_def)
qed

lemma sender_verify_ready:
  assumes r: "sender_ready h F m content pos tx rxq s" and sh: "shelf (cfg s) h content pos tx rxq"
    and crc: "val_internal_crc32 s = val_internal_crc32 p"
    and q: "rxq (world s) = pkt_frame p (verify_resp_pkt result c) @ rest"
    and res: "result \<in> {VAL_OK, VAL_SKIPPED, VAL_ERR_RESUME_VERIFY}"
    and fit: "unat off \<le> length F" "unat v \<le> unat off"
  shows "\<exists>s'. sender_verify filepath off v s =
       Some (VAL_OK, if result = VAL_OK then off else if result = VAL_SKIPPED then UINT64_MAX else 0, s') \<and>
     sender_ready h F m content pos tx rxq s' \<and> cfg s' = cfg s \<and> rxq (world s') = rest \<and>
     tx (world s') = tx (world s) @
       pkt_frame s (verify_req_pkt (off - ucast v) (region_crc s (ucast v) (region F (off - ucast v) (ucast v))) v)"
proof -
  let ?st = "off - ucast v :: u64"
  have uv: "unat (ucast v :: u64) = unat v" by (simp add: unsigned_ucast_eq take_bit_nat_eq_self less_trans [OF unat_less_2p32])
  have ust: "unat ?st = unat off - unat v" using fit(2) uv by (simp add: unat_sub word_le_nat_alt)
  obtain s1 where o: "fs_open filepath ''rb'' s = (Some h, s1)" and u1: "hushed h F m content pos tx rxq s s1"
    using shelf_open [OF sh r] by blast
  define s2 where "s2 = (if ?st > 0 then snd (fs_seek h (sint ?st) SEEK_SET s1) else s1)"
  have r1: "sender_ready h F m content pos tx rxq s1" using u1 by (simp add: hushed_def)
  have u2: "hushed h F m content pos tx rxq s s2"
    using hushed_trans [OF u1 seek_ready [OF r1, of ?st]] u1 fit(1) ust by (simp add: s2_def)
  have r2: "sender_ready h F m content pos tx rxq s2" and c2: "cfg s2 = cfg s" using u2 by (simp_all add: hushed_def)
  obtain s3 where c3: "val_internal_crc32_region s2 h ?st (ucast v) = Some (VAL_OK, region_crc s2 (ucast v) (region F ?st (ucast v)), s3)"
    and u3: "hushed h F m content pos tx rxq s2 s3" using crc_region_ready [OF r2, of ?st "ucast v"] fit ust uv by auto
  have r3: "sender_ready h F m content pos tx rxq s3" using u3 by (simp add: hushed_def)
  have sh3: "shelf (cfg s3) h content pos tx rxq" using sh u2 u3 by (simp add: hushed_def)
  define s4 where "s4 = fs_close h s3"
  have u4: "hushed h F m content pos tx rxq s s4"
    unfolding s4_def by (rule hushed_trans [OF u2 hushed_trans [OF u3 shelf_close [OF sh3 r3]]])
  have r4: "sender_ready h F m content pos tx rxq s4" and c4: "cfg s4 = cfg s" and w4: "tx (world s4) = tx (world s)" "rxq (world s4) = rxq (world s)"
    using u4 by (simp_all add: hushed_def)
  let ?c = "region_crc s (ucast v) (region F ?st (ucast v))"
  let ?vp = "verify_request_bytes (?st, ?c, v)"
  have e: "region_crc s2 = region_crc s" by (rule region_crc_ready [OF r r2 c2])
  have ser: "val_serialize_verify_request ?st ?c v (replicate VAL_WIRE_VERIFY_REQ_SIZE 0) = ?vp"
    using verify_request.enc_exact [where x = "(?st, ?c, v)" and buf = "replicate VAL_WIRE_VERIFY_REQ_SIZE 0"] by simp
  have pl: "payload_is (send_buf s4) (P_BYTES ?vp) ?vp" by (simp add: payload_is_def)
  obtain s5 where s5: "val_internal_send_packet s4 VAL_PKT_VERIFY (P_BYTES ?vp) 16 0 = (VAL_OK, s5)"
    "sender_ready h F m content pos tx rxq s5" "cfg s5 = cfg s4" "tx (world s5) = tx (world s4) @ pkt_frame s4 (verify_req_pkt ?st ?c v)"
    "rxq (world s5) = rxq (world s4)"
    using send_ready_bytes [OF r4 _ pl, of VAL_PKT_VERIFY] by (auto simp: verify_req_pkt_def)
  have crc5: "val_internal_crc32 s5 = val_internal_crc32 p" using crc crc_cfg [of s5 s] s5(3) c4 by simp
  have q5: "rxq (world s5) = pkt_frame p (verify_resp_pkt result c) @ rest" using q s5(5) w4 by simp
  have vn: "?vp \<noteq> []" using verify_bytes_length(1) [of "(?st, ?c, v)"] by (metis list.size(3) zero_neq_numeral)
  obtain s6 where s6: "val_internal_wait_verify_result s5 ?vp off 0 =
       Some (VAL_OK, if result = VAL_OK then off else if result = VAL_SKIPPED then UINT64_MAX else 0, s6)"
     "mild (watched content pos tx) s5 s6" "rxq (world s6) = rest"
    using wait_verdict [OF s5(2) crc5 q5 res vn] by blast
  have fr: "pkt_frame s4 = pkt_frame s" using frame_bytes_cfg [OF c4] by (simp add: pkt_frame_def fun_eq_iff)
  have "sender_verify filepath off v s =
       Some (VAL_OK, if result = VAL_OK then off else if result = VAL_SKIPPED then UINT64_MAX else 0, s6)"
    unfolding sender_verify_def Let_def o prod.case option.case s2_def [symmetric] c3 bind.bind_lunit s4_def [symmetric] e ser
    using s5(1) s6(1) by simp
  then show ?thesis
    using s6(2,3) s5(3,4) c4 w4(1) fr sender_ready_mild [OF s5(2) s6(2)] by (auto simp: mild_def)
qed

section \<open>The receiver's side\<close>

text \<open>The old file is long enough to verify a tail of it: \<open>tail_length\<close>, which always fits 32 bits.\<close>

lemma tail_length_range: "tail_length rc n \<le> n" "0 < n \<Longrightarrow> 0 < tail_length rc n" "tail_length rc n < 2 ^ 32"
proof -
  show "tail_length rc n \<le> n" by (simp add: tail_length_def)
  show "0 < n \<Longrightarrow> 0 < tail_length rc n" by (auto simp: tail_length_def less_max_iff_disj unat_gt_0)
  have "max (if rc_tail_cap_bytes rc = 0 then 2 ^ 23 else min (unat (rc_tail_cap_bytes rc)) (2 ^ 28)) (unat (rc_min_verify_bytes rc)) < 2 ^ 32"
    using unat_less_2p32 [of "rc_min_verify_bytes rc"] by auto
  then show "tail_length rc n < 2 ^ 32" by (auto simp: tail_length_def min_less_iff_disj)
qed

definition tail_crc :: "'w val_session \<Rightarrow> u8 list \<Rightarrow> nat \<Rightarrow> nat \<Rightarrow> u32" where
  "tail_crc s file k l = region_crc s (of_nat l) (take l (drop (k - l) file))"

lemma determine_tail:
  assumes r: "sender_ready h old m content pos tx rxq s" and sh: "shelf (cfg s) h content pos tx rxq"
    and mode: "rc_mode (resume (cfg s)) = VAL_RESUME_TAIL" and old: "old \<noteq> []" "length old \<le> unat n"
  defines "l \<equiv> tail_length (resume (cfg s)) (length old)"
  shows "\<exists>s'. determine_resume_action s name n =
       Some (VAL_RESUME_VERIFY_FIRST, of_nat (length old), tail_crc s old (length old) l, of_nat l, s') \<and>
     hushed h old m content pos tx rxq s s'"
proof -
  let ?e = "of_nat (length old) :: u64"
  have small: "length old < 2 ^ 63" and ok: "session_ok s" using r by (simp_all add: sender_ready_def sizes_ok_def)
  have ue: "unat ?e = length old" using small by (simp add: unat_of_nat_small)
  have ul: "unat (verify_window (resume (cfg s)) ?e) = l" using verify_window_length [of "length old" "resume (cfg s)"] small by (simp add: l_def)
  have vl: "verify_window (resume (cfg s)) ?e = of_nat l" by (simp add: ul [symmetric])
  have le: "l \<le> length old" unfolding l_def by (rule tail_length_range)
  have us: "unat (?e - of_nat l) = length old - l" using ue ul le unfolding vl by (subst unat_sub) (simp_all add: word_le_nat_alt)
  obtain s1 where o: "fs_open (full_output_path s name) ''rb'' s = (Some h, s1)" and u1: "hushed h old m content pos tx rxq s s1"
    using shelf_open [OF sh r] by blast
  have r1: "sender_ready h old m content pos tx rxq s1" and sh1: "shelf (cfg s1) h content pos tx rxq" using u1 sh by (simp_all add: hushed_def)
  obtain s2 s3 where t: "fs_seek h 0 SEEK_END s1 = (0, s2)" "fs_tell h s2 = (int (length old), s3)" and u3: "hushed h old m content pos tx rxq s1 s3"
    using shelf_size [OF sh1 r1] by blast
  have r3: "sender_ready h old m content pos tx rxq s3" and c3: "cfg s3 = cfg s" using u1 u3 by (simp_all add: hushed_def)
  obtain s4 where c: "val_internal_crc32_region s3 h (?e - of_nat l) (of_nat l) =
      Some (VAL_OK, region_crc s3 (of_nat l) (region old (?e - of_nat l) (of_nat l)), s4)" and u4: "hushed h old m content pos tx rxq s3 s4"
    using crc_region_ready [OF r3, of "?e - of_nat l" "of_nat l"] us ul le unfolding vl by auto
  have reg: "region_crc s3 (of_nat l) (region old (?e - of_nat l) (of_nat l)) = tail_crc s old (length old) l"
    using region_crc_ready [OF r r3 c3] us ul unfolding vl by (simp add: tail_crc_def region_def)
  have r4: "sender_ready h old m content pos tx rxq s4" and sh4: "shelf (cfg s4) h content pos tx rxq" using u4 c3 sh by (simp_all add: hushed_def)
  have m0: "mtu s3 \<noteq> 0" using session_ok_mtu [of s3] r3 by (auto simp: sender_ready_def sizes_ok_def)
  have e0: "?e \<noteq> 0" "\<not> ?e > n" using ue old by (auto simp: word_less_nat_alt)
  have w: "(word_of_int (int (length old)) :: u64) = ?e" by simp
  have "determine_resume_action s name n =
      Some (VAL_RESUME_VERIFY_FIRST, ?e, tail_crc s old (length old) l, of_nat l, fs_close h s4)"
    unfolding determine_resume_action_def Let_def o prod.case option.case t w
    using mode e0 m0 c3 vl c reg by simp
  moreover have "hushed h old m content pos tx rxq s (fs_close h s4)"
    by (rule hushed_trans [OF u1 hushed_trans [OF u3 hushed_trans [OF u4 shelf_close [OF sh4 r4]]]])
  ultimately show ?thesis by blast
qed

lemma await_request:
  assumes r: "sender_ready h old m content pos tx rxq s" and q: "rxq (world s) = pkt_frame p resume_req_pkt @ rest"
    and crc: "val_internal_crc32 s = val_internal_crc32 p"
  shows "\<exists>s'. wait_resume_req to_req rtries rback s = Some (Next (), s') \<and> sender_ready h old m content pos tx rxq s' \<and>
     cfg s' = cfg s \<and> tx (world s') = tx (world s) \<and> rxq (world s') = rest"
proof -
  have fd: "session_ok s" "delivers (cfg s) rxq" "capture (cfg s) = None" using sender_ready_fed [OF r] by (simp_all add: fed_def)
  have wc: "wire_content VAL_PKT_RESUME_REQ [] 0 True = (0, 0, [])" by (simp add: wire_content_def)
  have room: "12 + needs_room VAL_PKT_RESUME_REQ [] 0 True \<le> unat (mtu s)" "needs_room VAL_PKT_RESUME_REQ [] 0 True < 65536"
    using session_ok_mtu [OF fd(1)] by (simp_all add: needs_room_def wc)
  have q': "rxq (world s) = frame_bytes p VAL_PKT_RESUME_REQ [] 0 True @ rest" using q by (simp add: resume_req_pkt_def pkt_frame_def)
  obtain s1 where s1: "val_internal_recv_packet s None to_req = Some (VAL_OK,
       \<lparr>rx_type = VAL_PKT_RESUME_REQ, rx_len = 0, rx_off = carried_offset VAL_PKT_RESUME_REQ 0 True\<rparr>, s1)"
    "rxq (world s1) = rest" "core s1 = core s" "last_error s1 = last_error s"
    using recv_frame_none [OF fd crc _ q' room wc, of to_req] by (auto simp: after_type_def)
  have o: "watched content pos tx (world s1) = watched content pos tx (world s)" "cfg s1 = cfg s"
    using recv_packet_ob [OF s1(1) sender_ready_keeps [OF r]] by simp_all
  have "sender_ready h old m content pos tx rxq s1"
    by (rule sender_ready_calm [OF r]) (use s1 o r in \<open>simp_all add: calm_def sender_ready_def\<close>)
  moreover have "wait_resume_req to_req rtries rback s = Some (Next (), s1)" by (subst wait_resume_req.simps) (simp add: s1(1))
  ultimately show ?thesis using s1(2) o by auto
qed

lemma verify_response_ready:
  assumes r: "sender_ready h F m content pos tx rxq s" and "status_enumerator result"
  shows "sender_ready h F m content pos tx rxq (send_verify_response result c s) \<and> cfg (send_verify_response result c s) = cfg s \<and>
     tx (world (send_verify_response result c s)) = tx (world s) @ pkt_frame s (verify_resp_pkt result c) \<and>
     rxq (world (send_verify_response result c s)) = rxq (world s)"
proof -
  let ?b = "verify_response_bytes (result, c)" and ?off = "scast (status_to_u32 result) :: u64"
  have ser: "val_serialize_verify_response result c (replicate VAL_WIRE_VERIFY_RESP_SIZE 0) = ?b"
    using verify_response.enc_exact [where x = "(result, c)" and buf = "replicate VAL_WIRE_VERIFY_RESP_SIZE 0"] assms(2) by simp
  have wc: "wire_content VAL_PKT_VERIFY ?b off True = (0, 0, ?b)" for off by (simp add: wire_content_def)
  have "session_ok s" using r by (simp add: sender_ready_def sizes_ok_def)
  then have room: "12 + needs_room VAL_PKT_VERIFY ?b ?off True \<le> unat (mtu s)" "needs_room VAL_PKT_VERIFY ?b ?off True < 65536"
    using session_ok_mtu [of s] by (simp_all add: needs_room_def wc)
  have pl: "payload_is (send_buf s) (P_BYTES ?b) ?b" by (simp add: payload_is_def)
  have fr: "frame_bytes s VAL_PKT_VERIFY ?b ?off True = pkt_frame s (verify_resp_pkt result c)"
    by (simp add: pkt_frame_def verify_resp_pkt_def frame_bytes_def wc)
  show ?thesis
    using send_ready [OF r pl room] unfolding fr by (auto simp: send_verify_response_def ser val_internal_send_packet_def)
qed

text \<open>The verdict, given whether the CRCs agree.\<close>

definition resume_verdict :: "bool \<Rightarrow> bool \<Rightarrow> val_status_t" where
  "resume_verdict mskip same = (if same then VAL_OK else if mskip then VAL_SKIPPED else VAL_ERR_RESUME_VERIFY)"

lemma answer_verify:
  assumes r: "sender_ready h old m content pos tx rxq s" and sh: "shelf (cfg s) h content pos tx rxq"
    and crc: "val_internal_crc32 s = val_internal_crc32 p" and l: "l \<le> length old" "l < 2 ^ 32"
    and q: "rxq (world s) = pkt_frame p (verify_req_pkt (of_nat (length old - l)) c (of_nat l)) @ rest"
  defines "mine \<equiv> tail_crc s old (length old) l"
  shows "\<exists>s'. receiver_verify mskip rf rr_wire s = Some (Next (resume_verdict mskip (mine = c)), s') \<and> sender_ready h old m content pos tx rxq s' \<and> cfg s' = cfg s \<and>
     rxq (world s') = rest \<and> tx (world s') = tx (world s) @ pkt_frame s (verify_resp_pkt (resume_verdict mskip (mine = c)) mine)"
proof -
  let ?st = "of_nat (length old - l) :: u64"
  let ?x = "verify_req_pkt ?st c (of_nat l)"
  have small: "length old < 2 ^ 63" and ok: "session_ok s" using r by (simp_all add: sender_ready_def sizes_ok_def)
  have t: "pkt_type ?x = VAL_PKT_VERIFY" by (simp add: verify_req_pkt_def pkt_type_def)
  have fits: "pkt_fits s (unat (16 :: u32)) ?x"
    using session_ok_mtu [OF ok] by (simp add: pkt_fits_def verify_req_pkt_def needs_room_def wire_content_def)
  obtain s1 where w: "val_internal_wait_control s (val_internal_get_timeout s VAL_OP_VERIFY) (ack_retries (retries (cfg s)))
      (backoff_ms_base (retries (cfg s))) (Some (replicate 16 0)) 16 (accept_verify_rx_with_resume_cb (Some rr_wire)) None =
      Some (VAL_OK, pkt_info ?x, after_copy (replicate 16 0) ?x, s1)"
    "mild (watched content pos tx) s s1" "rxq (world s1) = rest"
    using wait_control_ready [OF r q crc fits, where accept = "accept_verify_rx_with_resume_cb (Some rr_wire)"
        and to_ms = "val_internal_get_timeout s VAL_OP_VERIFY"
        and tries = "ack_retries (retries (cfg s))" and backoff = "backoff_ms_base (retries (cfg s))" and mem = "replicate 16 0"
        and on_timeout = None] t
    by (auto simp: accept_verify_rx_with_resume_cb_def)
  have "after_copy (replicate 16 0) ?x = verify_request_bytes (?st, c, of_nat l) @ []"
    by (simp add: after_copy_def verify_req_pkt_def wire_content_def mem_write_def)
  then have d: "val_deserialize_verify_request (after_copy (replicate 16 0) ?x) = (?st, c, of_nat l)"
    using verify_request.dec_bytes [of "(?st, c, of_nat l)" "[]"] by simp
  have r1: "sender_ready h old m content pos tx rxq s1" and c1: "cfg s1 = cfg s" "tx (world s1) = tx (world s)"
    using sender_ready_mild [OF r w(2)] w(2) by (simp_all add: mild_def)
  obtain s2 where o: "fs_open (rf_path rf) ''rb'' s1 = (Some h, s2)" and u2: "hushed h old m content pos tx rxq s1 s2"
    using shelf_open [OF _ r1] sh c1 by auto
  have r2: "sender_ready h old m content pos tx rxq s2" and c2: "cfg s2 = cfg s" using u2 c1 by (simp_all add: hushed_def)
  have ul: "unat (of_nat l :: u64) = l" "unat ?st = length old - l" by (rule unat_of_nat_small, use l small in simp)+
  have cast: "(ucast (of_nat l :: u32) :: u64) = of_nat l"
    using l(2) by (simp add: word_unat_eq_iff unsigned_ucast_eq unat_of_nat_small take_bit_nat_eq_self ul(1))
  obtain s3 where g: "val_internal_crc32_region s2 h ?st (of_nat l) = Some (VAL_OK, region_crc s2 (of_nat l) (region old ?st (of_nat l)), s3)"
    and u3: "hushed h old m content pos tx rxq s2 s3" using crc_region_ready [OF r2, of ?st "of_nat l"] ul l(1) by auto
  have mine: "region_crc s2 (of_nat l) (region old ?st (of_nat l)) = mine"
    using region_crc_ready [OF r r2 c2] ul by (simp add: mine_def tail_crc_def region_def)
  define s4 where "s4 = fs_close h s3"
  have r3: "sender_ready h old m content pos tx rxq s3" and sh3: "shelf (cfg s3) h content pos tx rxq" using u3 c2 sh by (simp_all add: hushed_def)
  have u4: "hushed h old m content pos tx rxq s1 s4" unfolding s4_def by (rule hushed_trans [OF u2 hushed_trans [OF u3 shelf_close [OF sh3 r3]]])
  then have r4: "sender_ready h old m content pos tx rxq s4" and c4: "cfg s4 = cfg s" "tx (world s4) = tx (world s)" "rxq (world s4) = rest"
    using c1 w(3) by (simp_all add: hushed_def)
  have fr: "pkt_frame s4 = pkt_frame s" using frame_bytes_cfg [OF c4(1)] by (simp add: pkt_frame_def fun_eq_iff)
  have "receiver_verify mskip rf rr_wire s = Some (Next (resume_verdict mskip (mine = c)), send_verify_response (resume_verdict mskip (mine = c)) mine s4)"
    using w(1) d o g mine
    by (simp add: receiver_verify_def val_internal_wait_verify_request_rx_def Let_def cast s4_def [symmetric] resume_verdict_def)
  moreover have "status_enumerator (resume_verdict mskip (mine = c))" by (simp add: resume_verdict_def)
  ultimately show ?thesis using verify_response_ready [OF r4, of "resume_verdict mskip (mine = c)" mine] c4 fr by auto
qed

lemma start_ready:
  assumes r: "sender_ready h F m content pos tx rxq s" and sh: "shelf (cfg s) h content pos tx rxq"
  shows "hushed h F m content pos tx rxq s (announce_start rf off s)"
proof -
  have F: "content (world s) = F" using r by (simp add: sender_ready_def)
  show ?thesis
  proof (cases "on_file_start (callbacks (cfg s))")
    case None
    then show ?thesis using r by (simp add: announce_start_def call_file_start_def hushed_def)
  next
    case (Some f)
    let ?w = "f (world s) (rf_name rf) (rf_sender rf) (rf_size rf) off"
    have "content ?w = F \<and> tx ?w = tx (world s) \<and> rxq ?w = rxq (world s)" using sh Some F unfolding shelf_def by blast
    then show ?thesis using hushed_world [OF r, of ?w] Some by (simp add: announce_start_def call_file_start_def)
  qed
qed

text \<open>The answer of the receiver to RESUME_REQ, with a tail of \<open>l\<close> of the \<open>k\<close> bytes it has.\<close>

definition tail_resp :: "nat \<Rightarrow> nat \<Rightarrow> u32 \<Rightarrow> val_resume_resp_t" where
  "tail_resp k l c = \<lparr>rr_action = VAL_RESUME_VERIFY_FIRST, rr_resume_offset = of_nat k, rr_verify_crc = c, rr_verify_length = of_nat l\<rparr>"

lemma receiver_negotiates:
  assumes r: "sender_ready h old m content pos tx rxq s" and sh: "shelf (cfg s) h content pos tx rxq"
    and mode: "rc_mode (resume (cfg s)) = VAL_RESUME_TAIL" and old: "old \<noteq> []" "length old \<le> unat (rf_size rf)"
    and crc: "val_internal_crc32 s = val_internal_crc32 p"
  defines "l \<equiv> tail_length (resume (cfg s)) (length old)"
  defines "mine \<equiv> tail_crc s old (length old) l"
  assumes q: "rxq (world s) = pkt_frame p resume_req_pkt @ pkt_frame p (verify_req_pkt (of_nat (length old - l)) c (of_nat l)) @ rest"
  shows "\<exists>off s'. negotiate_resume rf s = Some (Next (off, rf_size rf \<le> off), s') \<and>
     off = (if mine = c then of_nat (length old) else if rc_mismatch_skip (resume (cfg s)) then rf_size rf else 0) \<and>
     sender_ready h old m content pos tx rxq s' \<and> cfg s' = cfg s \<and> rxq (world s') = rest \<and>
     tx (world s') = tx (world s) @ pkt_frame s (resume_resp_pkt (tail_resp (length old) l mine)) @
       pkt_frame s (verify_resp_pkt (resume_verdict (rc_mismatch_skip (resume (cfg s))) (mine = c)) mine)"
proof -
  let ?rr = "tail_resp (length old) l mine" and ?skip = "rc_mismatch_skip (resume (cfg s))"
  let ?v = "pkt_frame p (verify_req_pkt (of_nat (length old - l)) c (of_nat l)) @ rest"
  have lr: "l \<le> length old" "l < 2 ^ 32" unfolding l_def by (rule tail_length_range)+
  define to_req where "to_req = val_internal_get_timeout s VAL_OP_META"
  obtain s1 where s1: "wait_resume_req to_req (ack_retries (retries (cfg s))) (backoff_ms_base (retries (cfg s))) s = Some (Next (), s1)"
    "sender_ready h old m content pos tx rxq s1" "cfg s1 = cfg s" "tx (world s1) = tx (world s)" "rxq (world s1) = ?v"
    using await_request [OF r q crc] by blast
  have e1: "region_crc s1 = region_crc s" by (rule region_crc_ready [OF r s1(2,3)])
  obtain s2 where d: "determine_resume_action s1 (rf_name rf) (rf_size rf) = Some (VAL_RESUME_VERIFY_FIRST, of_nat (length old), mine, of_nat l, s2)"
    and u2: "hushed h old m content pos tx rxq s1 s2"
    using determine_tail [OF s1(2) _ _ old] sh mode s1(3) e1 by (auto simp: l_def mine_def tail_crc_def)
  have r2: "sender_ready h old m content pos tx rxq s2" and c2: "cfg s2 = cfg s" "tx (world s2) = tx (world s)" "rxq (world s2) = ?v"
    using u2 s1 by (simp_all add: hushed_def)
  have ser: "val_serialize_resume_resp ?rr (replicate VAL_WIRE_RESUME_RESP_SIZE 0) = resume_resp_bytes ?rr"
    by (rule resume_resp.enc_exact) (simp_all add: tail_resp_def)
  have pl: "payload_is (send_buf s2) (P_BYTES (resume_resp_bytes ?rr)) (resume_resp_bytes ?rr)" by (simp add: payload_is_def)
  have fr: "pkt_frame x = pkt_frame s" if "cfg x = cfg s" for x :: "'a val_session"
    using frame_bytes_cfg [OF that] by (simp add: pkt_frame_def fun_eq_iff)
  obtain s3 where s3: "val_internal_send_packet s2 VAL_PKT_RESUME_RESP (P_BYTES (resume_resp_bytes ?rr)) 24 0 = (VAL_OK, s3)"
    "sender_ready h old m content pos tx rxq s3" "cfg s3 = cfg s" "tx (world s3) = tx (world s) @ pkt_frame s (resume_resp_pkt ?rr)" "rxq (world s3) = ?v"
    using send_ready_bytes [OF r2 _ pl, of VAL_PKT_RESUME_RESP] c2 fr [OF c2(1)] by (auto simp: resume_resp_pkt_def)
  have e3: "region_crc s3 = region_crc s" by (rule region_crc_ready [OF r s3(2,3)])
  have reply: "reply_resume rf s1 = Some (Next (VAL_RESUME_VERIFY_FIRST, of_nat (length old), resume_resp_bytes ?rr), s3)"
    using d s3(1) ser by (simp add: reply_resume_def Let_def tail_resp_def)
  have crc3: "val_internal_crc32 s3 = val_internal_crc32 p" and sh3: "shelf (cfg s3) h content pos tx rxq"
    using crc crc_cfg [OF s3(3)] sh s3(3) by simp_all
  have m3: "tail_crc s3 old (length old) l = mine" by (simp add: tail_crc_def mine_def e3)
  obtain s4 where s4: "receiver_verify ?skip rf (resume_resp_bytes ?rr) s3 = Some (Next (resume_verdict ?skip (mine = c)), s4)"
    "sender_ready h old m content pos tx rxq s4" "cfg s4 = cfg s" "rxq (world s4) = rest"
    "tx (world s4) = tx (world s3) @ pkt_frame s (verify_resp_pkt (resume_verdict ?skip (mine = c)) mine)"
    using answer_verify [OF s3(2) sh3 crc3 lr s3(5), of ?skip rf "resume_resp_bytes ?rr"] s3(3) fr [OF s3(3)] unfolding m3 by auto
  let ?off = "if mine = c then of_nat (length old) else if ?skip then rf_size rf else 0"
  have u5: "hushed h old m content pos tx rxq s4 (announce_start rf ?off s4)" using start_ready [OF s4(2)] sh s4(3) by simp
  have "negotiate_resume rf s = Some (Next (?off, rf_size rf \<le> ?off), announce_start rf ?off s4)"
    using s1(1) reply s4(1) c2 s1(3) s3(3)
    by (simp add: negotiate_resume_def to_req_def [symmetric] follow_action_def resume_verdict_def)
  then show ?thesis using u5 s4 s3(4) by (auto simp: hushed_def)
qed

section \<open>Both sides\<close>

lemma sender_negotiates:
  assumes s: "sender_ready h F m content pos tx rxq s" "shelf (cfg s) h content pos tx rxq"
    and crc: "val_internal_crc32 s = val_internal_crc32 p" and l: "0 < l" "l \<le> k" "l < 2 ^ 32" and k: "k \<le> length F"
    and res: "result \<in> {VAL_OK, VAL_SKIPPED, VAL_ERR_RESUME_VERIFY}"
    and q: "rxq (world s) = pkt_frame p (resume_resp_pkt (tail_resp k l c)) @ pkt_frame p (verify_resp_pkt result c') @ rest"
  shows "\<exists>s'. handle_resume_negotiation s (of_nat (length F)) path =
       Some (VAL_OK, if result = VAL_OK then of_nat k else if result = VAL_SKIPPED then UINT64_MAX else 0, s') \<and>
     rxq (world s') = rest \<and> tx (world s') = tx (world s) @ pkt_frame s resume_req_pkt @
       pkt_frame s (verify_req_pkt (of_nat (k - l)) (tail_crc s F k l) (of_nat l))"
proof -
  let ?rr = "tail_resp k l c"
  have small: "length F < 2 ^ 63" using s(1) by (simp add: sender_ready_def sizes_ok_def)
  have u: "unat (of_nat (length F) :: u64) = length F" "unat (of_nat k :: u64) = k" "unat (of_nat l :: u64) = l"
    "unat (of_nat (k - l) :: u64) = k - l" by (rule unat_of_nat_small, use small k l in simp)+
  have uv: "unat (ucast (of_nat l :: u64) :: u32) = l" using l(3) u(3) by (simp add: unsigned_ucast_eq take_bit_nat_eq_self)
  have cast: "(ucast (of_nat l :: u64) :: u32) = of_nat l" "(ucast (of_nat l :: u32) :: u64) = of_nat l"
    using uv u(3) l(3) by (simp_all add: word_unat_eq_iff unsigned_ucast_eq unat_of_nat_small take_bit_nat_eq_self)
  have st: "(of_nat k - of_nat l :: u64) = of_nat (k - l)" using l(2) by simp
  have rr: "rr_action ?rr = VAL_RESUME_VERIFY_FIRST" "rr_resume_offset ?rr = of_nat k" "rr_verify_length ?rr = of_nat l" by (simp_all add: tail_resp_def)
  obtain s1 where S1: "handle_resume_negotiation s (of_nat (length F)) path = sender_verify path (of_nat k) (of_nat l) s1"
    "sender_ready h F m content pos tx rxq s1" "cfg s1 = cfg s" "tx (world s1) = tx (world s) @ pkt_frame s resume_req_pkt"
    "rxq (world s1) = pkt_frame p (verify_resp_pkt result c') @ rest"
    using ask_resume [OF s(1) crc q rr(1), of "of_nat (length F)" path] u k l unfolding rr cast(1) by auto
  have crc1: "val_internal_crc32 s1 = val_internal_crc32 p" and sh1: "shelf (cfg s1) h content pos tx rxq"
    using crc crc_cfg [OF S1(3)] s(2) S1(3) by simp_all
  have fit: "unat (of_nat k :: u64) \<le> length F" "unat (of_nat l :: u32) \<le> unat (of_nat k :: u64)"
    using u(2) k l uv unfolding cast(1) by simp_all
  have th: "region_crc s1 (of_nat l) (region F (of_nat (k - l)) (of_nat l)) = tail_crc s F k l"
    using region_crc_ready [OF s(1) S1(2,3)] u by (simp add: tail_crc_def region_def del: of_nat_diff)
  have fr: "pkt_frame s1 = pkt_frame s" using frame_bytes_cfg [OF S1(3)] by (simp add: pkt_frame_def fun_eq_iff)
  show ?thesis
    using sender_verify_ready [OF S1(2) sh1 crc1 S1(5) res fit, of path] S1(1,4) unfolding cast(2) st th fr by auto
qed

text \<open>
  C3. Resuming after a VERIFY exchange. The receiver has a part of a file, \<open>old\<close>, no longer than the file \<open>F\<close> that is announced, and
  resumes by its tail; each side reads what the other sends. Then the sender's request names the tail at the end of the old file, with the CRC of those bytes of
  \<open>F\<close>; the receiver compares it with the CRC of its own bytes, and the old file is not changed. Both sides draw the same
  conclusion: if the CRCs agree both go on at the end of the old file, otherwise both skip the file or both start at
  zero, as the receiver's policy says. If the old file is a prefix of \<open>F\<close> the CRCs agree.
\<close>

theorem resume_agreement:
  assumes s: "sender_ready h F m content pos tx rxq s" "shelf (cfg s) h content pos tx rxq"
    and r: "sender_ready h' old m content' pos' tx' rxq' r" "shelf (cfg r) h' content' pos' tx' rxq'"
    and crc: "val_internal_crc32 s = val_internal_crc32 r" and mode: "rc_mode (resume (cfg r)) = VAL_RESUME_TAIL"
    and old: "old \<noteq> []" "length old \<le> length F" and size: "rf_size rf = of_nat (length F)"
    and l: "l = tail_length (resume (cfg r)) (length old)"
    and mine: "mine = tail_crc r old (length old) l" and theirs: "theirs = tail_crc s F (length old) l"
    and skip: "skip = rc_mismatch_skip (resume (cfg r))"
    and q: "rxq (world s) = pkt_frame r (resume_resp_pkt (tail_resp (length old) l mine)) @
              pkt_frame r (verify_resp_pkt (resume_verdict skip (mine = theirs)) mine) @ rest"
      "rxq' (world r) = pkt_frame s resume_req_pkt @ pkt_frame s (verify_req_pkt (of_nat (length old - l)) theirs (of_nat l)) @ rest'"
  shows "\<exists>off s' off' r'. handle_resume_negotiation s (of_nat (length F)) path = Some (VAL_OK, off, s') \<and>
     negotiate_resume rf r = Some (Next (off', rf_size rf \<le> off'), r') \<and>
     (off, off') = (if mine = theirs then (of_nat (length old), of_nat (length old))
                    else if skip then (UINT64_MAX, rf_size rf) else (0, 0)) \<and>
     tx (world s') = tx (world s) @ pkt_frame s resume_req_pkt @ pkt_frame s (verify_req_pkt (of_nat (length old - l)) theirs (of_nat l)) \<and>
     tx' (world r') = tx' (world r) @ pkt_frame r (resume_resp_pkt (tail_resp (length old) l mine)) @
       pkt_frame r (verify_resp_pkt (resume_verdict skip (mine = theirs)) mine) \<and>
     rxq (world s') = rest \<and> rxq' (world r') = rest' \<and> content' (world r') = old \<and>
     (take (length old) F = old \<longrightarrow> mine = theirs)"
proof -
  let ?k = "length old" and ?res = "resume_verdict skip (mine = theirs)"
  have small: "length F < 2 ^ 63" using s(1) by (simp add: sender_ready_def sizes_ok_def)
  have lr: "0 < l" "l \<le> ?k" "l < 2 ^ 32" unfolding l using tail_length_range [where n = ?k] old(1) by simp_all
  have k: "?k \<le> unat (rf_size rf)" using old(2) size small by (simp add: unat_of_nat_small)
  obtain off' r' where R: "negotiate_resume rf r = Some (Next (off', rf_size rf \<le> off'), r')"
     "off' = (if mine = theirs then of_nat ?k else if skip then rf_size rf else 0)"
     "sender_ready h' old m content' pos' tx' rxq' r'" "rxq' (world r') = rest'"
     "tx' (world r') = tx' (world r) @ pkt_frame r (resume_resp_pkt (tail_resp ?k l mine)) @ pkt_frame r (verify_resp_pkt ?res mine)"
    using receiver_negotiates [OF r mode old(1) k crc [symmetric] q(2) [unfolded l]] unfolding skip mine l by blast
  have res: "?res \<in> {VAL_OK, VAL_SKIPPED, VAL_ERR_RESUME_VERIFY}" by (simp add: resume_verdict_def)
  obtain s' where S: "handle_resume_negotiation s (of_nat (length F)) path =
       Some (VAL_OK, if ?res = VAL_OK then of_nat ?k else if ?res = VAL_SKIPPED then UINT64_MAX else 0, s')"
     "rxq (world s') = rest"
     "tx (world s') = tx (world s) @ pkt_frame s resume_req_pkt @ pkt_frame s (verify_req_pkt (of_nat (?k - l)) theirs (of_nat l))"
    using sender_negotiates [OF s crc lr old(2) res q(1), of path] unfolding theirs by blast
  have same: "mine = theirs" if "take ?k F = old"
  proof -
    have "take l (drop (?k - l) (take ?k F)) = take l (drop (?k - l) F)" using lr(2) by (simp add: drop_take)
    then have "take l (drop (?k - l) old) = take l (drop (?k - l) F)" unfolding that .
    then show ?thesis by (simp add: mine theirs tail_crc_def region_crc_same [OF s(1) r(1) crc])
  qed
  have "content' (world r') = old" using R(3) by (simp add: sender_ready_def)
  then show ?thesis
    using R S same
    by (intro exI [of _ "if ?res = VAL_OK then of_nat ?k else if ?res = VAL_SKIPPED then UINT64_MAX else 0"] exI [of _ s'] exI [of _ off'] exI [of _ r'])
      (auto simp: resume_verdict_def)
qed

theorem resume_agreement_witness:
  "\<exists>(s :: desk val_session) (r :: desk val_session) s' r'. dk_src (world s) = [10, 20, 30] \<and> dk_src (world r) = [10, 20] \<and>
     handle_resume_negotiation s 3 [97] = Some (VAL_OK, 2, s') \<and>
     negotiate_resume \<lparr>rf_name = [97], rf_meta = sent_meta [97] [97] 3, rf_path = [97]\<rparr> r = Some (Next (2, False), r') \<and>
     dk_rx (world r) = dk_tx (world s') \<and> dk_rx (world s) = dk_tx (world r')"
proof -
  let ?F = "[10, 20, 30] :: u8 list" and ?old = "[10, 20] :: u8 list" and ?p = "desk_session VAL_RESUME_TAIL (desk_world [] [] [])"
  let ?rf = "\<lparr>rf_name = [97], rf_meta = sent_meta [97] [97] 3, rf_path = [97]\<rparr> :: recv_file"
  let ?c = "tail_crc ?p ?old (length ?old) 2"
  define s where "s = desk_session VAL_RESUME_TAIL (desk_world (pkt_frame ?p (resume_resp_pkt (tail_resp (length ?old) 2 ?c)) @
      pkt_frame ?p (verify_resp_pkt VAL_OK ?c)) ?F [])"
  define r where "r = desk_session VAL_RESUME_TAIL (desk_world (pkt_frame ?p resume_req_pkt @
      pkt_frame ?p (verify_req_pkt (of_nat (length ?old - 2)) ?c (of_nat 2))) ?old [])"
  have c: "cfg s = desk_config VAL_RESUME_TAIL" "cfg r = desk_config VAL_RESUME_TAIL" by (simp_all add: s_def r_def)
  have fr: "pkt_frame s = pkt_frame ?p" "pkt_frame r = pkt_frame ?p"
    using frame_bytes_cfg [of s ?p] frame_bytes_cfg [of r ?p] c by (simp_all add: pkt_frame_def fun_eq_iff)
  have sr: "sender_ready 1 ?F 500 dk_src dk_pos dk_tx dk_rx s" "sender_ready 1 ?old 500 dk_src dk_pos dk_tx dk_rx r"
    unfolding s_def r_def by (rule desk_sender_ready; simp add: desk_world_def)+
  have sh: "shelf (cfg s) 1 dk_src dk_pos dk_tx dk_rx" "shelf (cfg r) 1 dk_src dk_pos dk_tx dk_rx" using desk_shelf c by simp_all
  have crc: "val_internal_crc32 s = val_internal_crc32 r" "val_internal_crc32 s = val_internal_crc32 ?p" by (rule crc_cfg, simp add: c)+
  have m: "mtu s = 512" "mtu r = 512" by (simp_all add: s_def r_def)
  have l: "2 = tail_length (resume (cfg r)) (length ?old)" by (simp add: c desk_config_def tail_length_def)
  have t: "?c = tail_crc r ?old (length ?old) 2" "?c = tail_crc s ?F (length ?old) 2"
    using crc m by (simp_all add: tail_crc_def region_crc_def)
  have x: "rc_mode (resume (cfg r)) = VAL_RESUME_TAIL" "False = rc_mismatch_skip (resume (cfg r))" "rf_size ?rf = of_nat (length ?F)"
    by (simp_all add: c desk_config_def sent_meta_def)
  have q: "dk_rx (world s) = pkt_frame r (resume_resp_pkt (tail_resp (length ?old) 2 ?c)) @
        pkt_frame r (verify_resp_pkt (resume_verdict False (?c = ?c)) ?c) @ []"
      "dk_rx (world r) = pkt_frame s resume_req_pkt @ pkt_frame s (verify_req_pkt (of_nat (length ?old - 2)) ?c (of_nat 2)) @ []"
    unfolding fr by (simp_all add: s_def r_def desk_world_def resume_verdict_def)
  have w: "dk_tx (world s) = []" "dk_tx (world r) = []" "dk_src (world s) = ?F" "dk_src (world r) = ?old" by (simp_all add: s_def r_def desk_world_def)
  from resume_agreement [OF sr(1) sh(1) sr(2) sh(2) crc(1) x(1) _ _ x(3) l t x(2) q, of "[97]"]
  obtain s' r' where "handle_resume_negotiation s (of_nat (length ?F)) [97] = Some (VAL_OK, of_nat (length ?old), s')"
    "negotiate_resume ?rf r = Some (Next (of_nat (length ?old), rf_size ?rf \<le> of_nat (length ?old)), r')"
    "dk_tx (world s') = dk_rx (world r)" "dk_tx (world r') = dk_rx (world s)" unfolding w q by auto
  then have "handle_resume_negotiation s 3 [97] = Some (VAL_OK, 2, s') \<and> negotiate_resume ?rf r = Some (Next (2, False), r') \<and>
     dk_rx (world r) = dk_tx (world s') \<and> dk_rx (world s) = dk_tx (world r')"
    by (simp add: sent_meta_def)
  then show ?thesis using w by blast
qed

end
