(* ===== verification/Val_Ends.thy ===== *)
theory Val_Ends
  imports Val_Sender Val_Receiver
begin

text \<open>
  A calculus of total correctness for the loops of the sender and the receiver: \<open>wp m Q\<close> says that a computation
  returns, with a result that satisfies \<open>Q\<close>; \<open>stays\<close> is the relation between the session a transfer
  starts with and the later ones. Every operation that sender and receiver use has a rule here, in the collections
  \<open>wp_simps\<close> and \<open>stays_intros\<close>. The results for whole transfers are in \<open>Val_Returns\<close>.
\<close>

section \<open>Results of computations that may not end\<close>

text \<open>\<open>wp m Q\<close>: the computation \<open>m\<close> returns, with a result that satisfies \<open>Q\<close>.\<close>

definition wp :: "'r option \<Rightarrow> ('r \<Rightarrow> bool) \<Rightarrow> bool" where
  "wp m Q \<longleftrightarrow> (\<exists>r. m = Some r \<and> Q r)"

named_theorems wp_simps \<open>weakest preconditions of the constructs of the model\<close>
named_theorems stays_intros \<open>operations that keep a session attending\<close>

lemma wp_Some [wp_simps]: "wp (Some r) Q \<longleftrightarrow> Q r"
  by (simp add: wp_def)

lemma wp_bind [wp_simps]: "wp (m \<bind> f) Q \<longleftrightarrow> wp m (\<lambda>r. wp (f r) Q)"
  by (cases m) (simp_all add: wp_def)

lemma wp_if [wp_simps]: "wp (if b then m else n) Q \<longleftrightarrow> (b \<longrightarrow> wp m Q) \<and> (\<not> b \<longrightarrow> wp n Q)"
  by simp

lemma wp_pair [wp_simps]: "wp (case p of (a, c) \<Rightarrow> g a c) Q \<longleftrightarrow> wp (g (fst p) (snd p)) Q"
  by (cases p) simp

lemma wp_flow [wp_simps]:
  "wp (case fl of Return st \<Rightarrow> f st | Next x \<Rightarrow> g x) Q \<longleftrightarrow>
     (\<forall>st. fl = Return st \<longrightarrow> wp (f st) Q) \<and> (\<forall>x. fl = Next x \<longrightarrow> wp (g x) Q)"
  by (cases fl) simp_all

lemma wp_option [wp_simps]:
  "wp (case h of None \<Rightarrow> m | Some x \<Rightarrow> g x) Q \<longleftrightarrow> (h = None \<longrightarrow> wp m Q) \<and> (\<forall>x. h = Some x \<longrightarrow> wp (g x) Q)"
  by (cases h) simp_all

lemma wp_mono: "wp m P \<Longrightarrow> (\<And>r. P r \<Longrightarrow> Q r) \<Longrightarrow> wp m Q"
  by (auto simp: wp_def)

section \<open>An environment in which a transfer ends\<close>

text \<open>
  Beyond \<open>quiet\<close>: no file hook and no callback makes the peer send more bytes, and the longest timeout
  is at most half the range of the millisecond clock.
\<close>

definition quiet_files :: "'w val_config \<Rightarrow> ('w \<Rightarrow> nat) \<Rightarrow> bool" where
  "quiet_files c pend \<longleftrightarrow>
     (\<forall>f w p m. fs_fopen (filesystem c) = Some f \<longrightarrow> pend (snd (f w p m)) \<le> pend w) \<and>
     (\<forall>f w n h. fs_fread (filesystem c) = Some f \<longrightarrow> pend (snd (f w n h)) \<le> pend w) \<and>
     (\<forall>f w d h. fs_fwrite (filesystem c) = Some f \<longrightarrow> pend (snd (f w d h)) \<le> pend w) \<and>
     (\<forall>f w h o' wh. fs_fseek (filesystem c) = Some f \<longrightarrow> pend (snd (f w h o' wh)) \<le> pend w) \<and>
     (\<forall>f w h. fs_ftell (filesystem c) = Some f \<longrightarrow> pend (snd (f w h)) \<le> pend w) \<and>
     (\<forall>f w h. fs_fclose (filesystem c) = Some f \<longrightarrow> pend (snd (f w h)) \<le> pend w) \<and>
     (\<forall>f w a b n m. on_file_start (callbacks c) = Some f \<longrightarrow> pend (f w a b n m) \<le> pend w) \<and>
     (\<forall>f w a b st. on_file_complete (callbacks c) = Some f \<longrightarrow> pend (f w a b st) \<le> pend w) \<and>
     (\<forall>f w i. on_progress (callbacks c) = Some f \<longrightarrow> pend (snd (f w i)) \<le> pend w) \<and>
     (\<forall>f w m p. validator c = Some f \<longrightarrow> pend (snd (f w m p)) \<le> pend w)"

definition attending :: "('w \<Rightarrow> u32) \<Rightarrow> ('w \<Rightarrow> nat) \<Rightarrow> 'w val_session \<Rightarrow> bool" where
  "attending clk pend s \<longleftrightarrow> good clk pend s \<and> max_timeout_ms (timing s) \<le> 0x7FFFFFFF \<and> quiet_files (cfg s) pend"

definition stays :: "('w \<Rightarrow> u32) \<Rightarrow> ('w \<Rightarrow> nat) \<Rightarrow> 'w val_session \<Rightarrow> 'w val_session \<Rightarrow> bool" where
  "stays clk pend s0 s \<longleftrightarrow> attending clk pend s0 \<and> keeps pend s0 s"

lemma attending_good: "attending clk pend s \<Longrightarrow> good clk pend s"
  by (simp add: attending_def)

lemma keeps_attending: "keeps pend s s' \<Longrightarrow> attending clk pend s \<Longrightarrow> attending clk pend s'"
  using keeps_good [of pend s s' clk] by (simp add: attending_def keeps_def)

lemma stays_refl: "attending clk pend s \<Longrightarrow> stays clk pend s s"
  by (simp add: stays_def)

lemma stays_attending: "stays clk pend s0 s \<Longrightarrow> attending clk pend s"
  using keeps_attending by (auto simp: stays_def)

lemma stays_good: "stays clk pend s0 s \<Longrightarrow> good clk pend s"
  by (rule attending_good [OF stays_attending])

lemma stays_keeps: "stays clk pend s0 s \<Longrightarrow> keeps pend s0 s"
  by (simp add: stays_def)

lemma stays_cfg: "stays clk pend s0 s \<Longrightarrow> cfg s = cfg s0"
  by (simp add: stays_def keeps_def)

lemma stays_mtu: "stays clk pend s0 s \<Longrightarrow> effective_packet_size s = effective_packet_size s0"
  by (simp add: stays_def keeps_def)

lemma stays_pend: "stays clk pend s0 s \<Longrightarrow> pend (world s) \<le> pend (world s0)"
  by (simp add: stays_def keeps_def)

lemma stays_step:
  assumes "stays clk pend s0 s" and "attending clk pend s \<Longrightarrow> keeps pend s s'"
  shows "stays clk pend s0 s'"
  using assms(1) keeps_trans [OF stays_keeps [OF assms(1)] assms(2) [OF stays_attending [OF assms(1)]]] by (simp add: stays_def)

lemma stays_trans: "stays clk pend s0 s \<Longrightarrow> stays clk pend s s' \<Longrightarrow> stays clk pend s0 s'"
  by (rule stays_step) (auto dest: stays_keeps)

subsection \<open>Hooks\<close>

lemma keeps_world: "pend w \<le> pend (world s) \<Longrightarrow> keeps pend s (s\<lparr>world := w\<rparr>)"
  by (simp add: keeps_core)

lemma file_hooks_keep:
  assumes "attending clk pend s"
  shows "keeps pend s (snd (fs_open path mode s))" "keeps pend s (snd (fs_read n h s))" "keeps pend s (snd (fs_write d h s))"
    "keeps pend s (snd (fs_seek h off wh s))" "keeps pend s (snd (fs_tell h s))" "keeps pend s (fs_close h s)"
    "keeps pend s (call_file_start a b m k s)" "keeps pend s (call_file_complete a b st s)"
    "keeps pend s (snd (val_validate_metadata s meta path'))"
proof -
  have q: "quiet_files (cfg s) pend" using assms by (simp add: attending_def)
  note d = hook_defs val_validate_metadata_def quiet_files_def
  show "keeps pend s (snd (fs_open path mode s))" "keeps pend s (snd (fs_read n h s))" "keeps pend s (snd (fs_write d h s))"
    "keeps pend s (snd (fs_seek h off wh s))" "keeps pend s (snd (fs_tell h s))" "keeps pend s (fs_close h s)"
    "keeps pend s (call_file_start a b m k s)" "keeps pend s (call_file_complete a b st s)"
    "keeps pend s (snd (val_validate_metadata s meta path'))"
    using q by (auto simp: d case_prod_beta intro!: keeps_world split: option.splits)
qed

lemma delay_keeps: "good clk pend s \<Longrightarrow> keeps pend s (delay ms s)"
  using hook_pend(2) [of s clk pend ms] by (simp add: good_def keeps_core)

lemma connected_keeps: "good clk pend s \<Longrightarrow> keeps pend s (snd (val_internal_transport_is_connected s))"
  using hook_pend(3) [of s clk pend] by (simp add: good_def keeps_core)

lemma keeps_lock: "keeps pend (val_internal_lock s) s' \<Longrightarrow> keeps pend s (val_internal_unlock s')"
proof -
  have "session_ok (val_internal_lock s) = session_ok s" "session_ok (val_internal_unlock s') = session_ok s'"
    by (simp_all add: sess_defs session_ok_def window_ok_def)
  then show "keeps pend (val_internal_lock s) s' \<Longrightarrow> keeps pend s (val_internal_unlock s')"
    by (simp add: keeps_def) (simp add: sess_defs)
qed

subsection \<open>Sending\<close>

lemma send_small_keeps:
  assumes "good clk pend s" and "length bs \<le> 488" and "payload_is (send_buf s) p bs"
  shows "keeps pend s (snd (val_internal_send_packet_ex s t p (of_nat (length bs)) off ex))"
    "keeps pend s (snd (val_internal_send_packet s t p (of_nat (length bs)) off))"
proof -
  have m: "512 \<le> unat (mtu s)" using session_ok_mtu assms(1) by (auto simp: good_def)
  have "needs_room t bs off e \<le> 12 + length bs" for e by (cases t) (auto simp: needs_room_def wire_content_def Let_def)
  then have "12 + needs_room t bs off e \<le> unat (mtu s)" for e using m assms(2) order_trans [of "needs_room t bs off e" "12 + length bs" "500"] by simp
  from send_packet_keeps [OF assms(1,3) this]
  show "keeps pend s (snd (val_internal_send_packet_ex s t p (of_nat (length bs)) off ex))"
    "keeps pend s (snd (val_internal_send_packet s t p (of_nat (length bs)) off))"
    by (simp_all add: val_internal_send_packet_def val_internal_send_packet_ex_def)
qed

lemma send_null_keeps: "good clk pend s \<Longrightarrow> keeps pend s (snd (val_internal_send_packet s t P_NULL 0 off))"
  using send_small_keeps(2) [of clk pend s "[]" P_NULL t off] by (simp add: payload_is_def)

lemma send_bytes_keeps:
  assumes "good clk pend s" and "length bs \<le> 488" and "n = of_nat (length bs)"
  shows "keeps pend s (snd (val_internal_send_packet s t (P_BYTES bs) n off))"
    "keeps pend s (snd (val_internal_send_packet_ex s t (P_BYTES bs) n off ex))"
  using send_small_keeps [OF assms(1,2), of "P_BYTES bs" t off] assms(2,3) by (simp_all add: payload_is_def)

lemma cancel_attempts_keep: "good clk pend s \<Longrightarrow> keeps pend s (snd (cancel_attempts n st b s))"
proof (induction n arbitrary: st b s)
  case (Suc n)
  note k1 = send_null_keeps [OF Suc.prems, of VAL_PKT_CANCEL 0]
  note k2 = keeps_trans [OF k1 delay_keeps [OF keeps_good [OF k1 Suc.prems]]]
  show ?case using keeps_trans [OF k2 Suc.IH [OF keeps_good [OF k2 Suc.prems]]] by (simp add: case_prod_beta Let_def)
qed simp

lemma flush_keeps: "good clk pend s \<Longrightarrow> keeps pend s (val_internal_transport_flush s)"
  using hook_pend(4) [of s clk pend] by (simp add: good_def keeps_core)

lemma emergency_cancel_keeps:
  assumes "good clk pend s"
  shows "keeps pend s (snd (val_emergency_cancel s))"
proof -
  let ?l = "val_internal_lock s"
  have g: "good clk pend ?l" using assms by (simp add: good_def session_ok_def window_ok_def sess_defs)
  have "keeps pend ?l (val_internal_set_last_error (val_internal_transport_flush (snd (cancel_attempts 3 VAL_ERR_IO b ?l))) VAL_ERR_ABORTED 0)" for b
    by (rule keeps_trans [OF keeps_trans [OF cancel_attempts_keep [OF g] flush_keeps [OF keeps_good [OF cancel_attempts_keep [OF g] g]]]]) (rule keeps_notes)
  then show ?thesis by (simp add: val_emergency_cancel_def Let_def case_prod_beta keeps_lock)
qed

lemma call_progress_keeps:
  assumes a: "attending clk pend s"
  shows "keeps pend s (call_progress i s)"
proof (cases "on_progress (callbacks (cfg s))")
  case (Some f)
  have k: "keeps pend s (s\<lparr>world := snd (f (world s) i)\<rparr>)" using a Some by (simp add: attending_def quiet_files_def keeps_world)
  have "keeps pend s (snd (val_emergency_cancel (s\<lparr>world := snd (f (world s) i)\<rparr>)))"
    by (rule keeps_trans [OF k emergency_cancel_keeps [OF keeps_good [OF k attending_good [OF a]]]])
  then show ?thesis using Some k by (simp add: call_progress_def Let_def case_prod_beta)
qed (simp add: call_progress_def)

lemma ticks_attending: "attending clk pend s \<Longrightarrow> ticks s = (clk (world s), s)"
  using hook_pend(1) by (auto simp: attending_def good_def)

text \<open>Timeouts computed by the session are within what a wait can count.\<close>

definition fit_ms :: "u32 \<Rightarrow> bool" where
  "fit_ms t \<longleftrightarrow> t \<noteq> 0 \<and> t \<le> 0x7FFFFFFF"

lemma clamp_range: "lo \<le> hi \<Longrightarrow> lo \<le> val__clamp_u32 v lo hi \<and> val__clamp_u32 v lo hi \<le> hi"
  by (auto simp: val__clamp_u32_def)

lemma timeout_fits:
  assumes "attending clk pend s"
  shows "fit_ms (val_internal_get_timeout s opk)"
proof -
  have b: "0 < min_timeout_ms (timing s)" "min_timeout_ms (timing s) \<le> max_timeout_ms (timing s)" "max_timeout_ms (timing s) \<le> 0x7FFFFFFF"
    using assms by (simp_all add: attending_def good_def session_ok_def)
  then have "val_sanitize_timeouts_pair (min_timeout_ms (timing s)) (max_timeout_ms (timing s)) =
      (min_timeout_ms (timing s), max_timeout_ms (timing s))"
    by (auto simp: val_sanitize_timeouts_pair_def Let_def)
  then obtain v where "val_internal_get_timeout s opk = val__clamp_u32 v (min_timeout_ms (timing s)) (max_timeout_ms (timing s))"
    by (simp add: val_internal_get_timeout_def Let_def)
  then show ?thesis using b clamp_range [OF b(2), of v] by (auto simp: fit_ms_def)
qed

subsection \<open>Rules for sessions\<close>

lemma keeps_hard [simp]: "keeps pend s (val_metrics_inc_timeout_hard s)"
  by (simp add: val_metrics_inc_timeout_hard_def)

lemma keeps_field_updates [simp]:
  "keeps pend s (s\<lparr>health := h\<rparr>)" "keeps pend s (s\<lparr>last_keepalive_recv_time := t\<rparr>)"
  "length (recv_buf s) \<le> length b \<Longrightarrow> keeps pend s (s\<lparr>recv_buf := b\<rparr>)"
  "length (send_buf s) \<le> length b \<Longrightarrow> keeps pend s (s\<lparr>send_buf := b\<rparr>)"
  by (auto simp: keeps_def session_ok_def window_ok_def)

lemma keeps_check_health [simp]: "keeps pend s (snd (val_internal_check_health s))"
  by (simp add: val_internal_check_health_def Let_def)

lemma length_mem_write_grows: "length b \<le> length (mem_write b p bs)"
  by (simp add: mem_write_def)

lemma stays_notes [stays_intros]:
  assumes "stays clk pend s0 s"
  shows "stays clk pend s0 (val_internal_set_error_detailed s c d)" "stays clk pend s0 (val_internal_set_last_error s c d)"
    "stays clk pend s0 (upd_metrics f s)" "stays clk pend s0 (VAL_HEALTH_RECORD_RETRY s)"
    "stays clk pend s0 (VAL_HEALTH_RECORD_OPERATION s)" "stays clk pend s0 (val_metrics_inc_timeout_hard s)"
    "stays clk pend s0 (snd (val_internal_check_health s))" "stays clk pend s0 (set_in_retransmit b s)"
    "stays clk pend s0 (val_internal_record_transmission_error s)" "stays clk pend s0 (val_internal_record_rtt s r)"
    "stays clk pend s0 (s\<lparr>health := h\<rparr>)" "stays clk pend s0 (s\<lparr>last_keepalive_recv_time := t\<rparr>)"
    "stays clk pend s0 (s\<lparr>recv_buf := mem_write (recv_buf s) p bs\<rparr>)"
    "stays clk pend s0 (s\<lparr>send_buf := mem_write (send_buf s) p bs\<rparr>)"
  by (rule stays_step [OF assms], simp add: length_mem_write_grows)+

lemma stays_hooks [stays_intros]:
  assumes "stays clk pend s0 s"
  shows "stays clk pend s0 (snd (fs_open path mode s))" "stays clk pend s0 (snd (fs_read n h s))"
    "stays clk pend s0 (snd (fs_write d h s))" "stays clk pend s0 (snd (fs_seek h off wh s))"
    "stays clk pend s0 (snd (fs_tell h s))" "stays clk pend s0 (fs_close h s)"
    "stays clk pend s0 (call_file_start a b m k s)" "stays clk pend s0 (call_file_complete a b st s)"
    "stays clk pend s0 (snd (val_validate_metadata s meta path'))"
    "stays clk pend s0 (delay ms s)" "stays clk pend s0 (snd (val_internal_transport_is_connected s))"
    "stays clk pend s0 (call_progress i s)" "stays clk pend s0 (snd (ticks s))"
  by (rule stays_step [OF assms];
      auto intro: file_hooks_keep delay_keeps [OF attending_good] connected_keeps [OF attending_good] call_progress_keeps
        simp: ticks_attending)+

lemma stays_send [stays_intros]:
  assumes "stays clk pend s0 s"
  shows "stays clk pend s0 (snd (val_internal_send_packet s t P_NULL 0 off))"
    "length bs \<le> 488 \<Longrightarrow> n = of_nat (length bs) \<Longrightarrow> stays clk pend s0 (snd (val_internal_send_packet s t (P_BYTES bs) n off))"
    "length bs \<le> 488 \<Longrightarrow> n = of_nat (length bs) \<Longrightarrow> stays clk pend s0 (snd (val_internal_send_packet_ex s t (P_BYTES bs) n off ex))"
    "stays clk pend s0 (snd (val_internal_send_error s code detail))"
  using stays_good [OF assms]
  by (auto simp: val_internal_send_error_def Let_def wire_defs mem_simps intro!: stays_step [OF assms] send_null_keeps send_bytes_keeps)

lemma stays_if [stays_intros]:
  "(b \<Longrightarrow> stays clk pend s0 s) \<Longrightarrow> (\<not> b \<Longrightarrow> stays clk pend s0 s') \<Longrightarrow> stays clk pend s0 (if b then s else s')"
  "(b \<Longrightarrow> stays clk pend s0 (snd p)) \<Longrightarrow> (\<not> b \<Longrightarrow> stays clk pend s0 (snd q)) \<Longrightarrow> stays clk pend s0 (snd (if b then p else q))"
  by simp_all

lemma stays_double_backoff [stays_intros]: "stays clk pend s0 s \<Longrightarrow> stays clk pend s0 (snd (double_backoff b s))"
  by (auto simp: double_backoff_def Let_def intro: stays_intros)

subsection \<open>Receiving and waiting\<close>

lemma recv_wp:
  assumes st: "stays clk pend s0 s" and t: "fit_ms to_ms" and cap: "unat (rx_cap dest) \<le> length (recv_buf s)"
    and Q: "\<And>st rx s'. stays clk pend s0 s' \<Longrightarrow> stays clk pend s s' \<Longrightarrow> (st = VAL_OK \<Longrightarrow> pend (world s') < pend (world s)) \<Longrightarrow> Q (st, rx, s')"
  shows "wp (val_internal_recv_packet s dest to_ms) Q"
proof -
  have g: "good clk pend s" by (rule stays_good [OF st])
  then have ok: "session_ok s" and q: "recv_waits (cfg s) clk" "recv_bounded (cfg s)" by (simp_all add: good_def quiet_def)
  have t': "to_ms \<noteq> 0" "to_ms \<le> 0x7FFFFFFF" using t by (simp_all add: fit_ms_def)
  obtain st' rx s' where r: "val_internal_recv_packet s dest to_ms = Some (st', rx, s')"
    using recv_packet_total [OF ok q t'(2) cap] by blast
  have k: "keeps pend s s'" and d: "st' = VAL_OK \<Longrightarrow> pend (world s') < pend (world s)"
    using recv_packet_quiet [OF g t' cap r] by auto
  have "Q (st', rx, s')" by (rule Q [OF stays_step [OF st k] stays_step [OF stays_refl [OF stays_attending [OF st]] k] d])
  then show ?thesis by (simp add: r wp_def)
qed

lemma cap_fits:
  assumes "stays clk pend s0 s" and "P \<le> packet_size (buffers (cfg s))"
  shows "unat (rx_cap (Some (ucast P))) \<le> length (recv_buf s)"
proof -
  have "unat (ucast P :: u32) \<le> unat P" by (simp add: unsigned_ucast_eq)
  also have "\<dots> \<le> unat (packet_size (buffers (cfg s)))" using assms(2) by (simp add: word_le_nat_alt)
  also have "\<dots> \<le> length (recv_buf s)" using stays_good [OF assms(1)] by (simp add: good_def session_ok_def)
  finally show ?thesis by (simp add: rx_cap_def)
qed

text \<open>A packet of the receiver's loops: into a buffer of \<open>P\<close> bytes, at most the packet size, or none.\<close>

lemmas recv_none_wp = recv_wp [where dest = None, unfolded rx_cap_def option.case, simplified]

lemma recv_buf_wp:
  assumes "stays clk pend s0 s" and "fit_ms to_ms" and "P \<le> packet_size (buffers (cfg s0))"
    and "\<And>st rx s'. stays clk pend s0 s' \<Longrightarrow> stays clk pend s s' \<Longrightarrow> (st = VAL_OK \<Longrightarrow> pend (world s') < pend (world s)) \<Longrightarrow> Q (st, rx, s')"
  shows "wp (val_internal_recv_packet s (Some (ucast P)) to_ms) Q"
  by (rule recv_wp [OF assms(1,2) cap_fits [OF assms(1)]]) (use assms(3,4) stays_cfg [OF assms(1)] in simp_all)

lemma deadline_wp:
  assumes st: "stays clk pend s0 s" and sl: "sl \<noteq> 0" "sl \<le> 0x7FFFFFFF"
    and Q: "\<And>st rx m' s'. stays clk pend s0 s' \<Longrightarrow> stays clk pend s s' \<Longrightarrow> (st = VAL_OK \<Longrightarrow> pend (world s') < pend (world s)) \<Longrightarrow>
        Q (st, rx, Some m', s')"
  shows "wp (val_internal_recv_until_deadline s (Some m) cap deadline sl) Q"
proof -
  obtain st' rx mem s' where r: "val_internal_recv_until_deadline s (Some m) cap deadline sl = Some (st', rx, mem, s')"
    and k: "keeps pend s s'" and n: "mem \<noteq> None" and d: "st' = VAL_OK \<longrightarrow> pend (world s') < pend (world s)"
    using recv_until_deadline_returns [OF stays_good [OF st] sl] by blast
  have "Q (st', rx, Some (the mem), s')"
    by (rule Q [OF stays_step [OF st k] stays_step [OF stays_refl [OF stays_attending [OF st]] k]]) (use d in simp)
  then show ?thesis using n by (simp add: r wp_def)
qed

lemma wait_wp:
  assumes st: "stays clk pend s0 s"
  shows "(\<And>st s'. stays clk pend s0 s' \<Longrightarrow> Q2 (st, s')) \<Longrightarrow> wp (val_internal_wait_done_ack s fsize) Q2"
    "(\<And>st s'. stays clk pend s0 s' \<Longrightarrow> Q2 (st, s')) \<Longrightarrow> wp (val_internal_wait_eot_ack s) Q2"
    "vp \<noteq> [] \<Longrightarrow> length vp \<le> 500 \<Longrightarrow> (\<And>st out s'. stays clk pend s0 s' \<Longrightarrow> Q3 (st, out, s')) \<Longrightarrow>
       wp (val_internal_wait_verify_result s vp e o') Q3"
    "cap \<noteq> 0 \<Longrightarrow> (\<And>st rx m' s'. stays clk pend s0 s' \<Longrightarrow> Q4 (st, rx, m', s')) \<Longrightarrow>
       wp (val_internal_wait_resume_resp s to_ms tries backoff mem cap) Q4"
    "cap \<noteq> 0 \<Longrightarrow> ctx_fits rr \<Longrightarrow> (\<And>st rx m' s'. stays clk pend s0 s' \<Longrightarrow> Q4 (st, rx, m', s')) \<Longrightarrow>
       wp (val_internal_wait_verify_request_rx s to_ms tries backoff rr mem cap) Q4"
proof -
  note g = stays_good [OF st] and k = stays_step [OF st]
  have v: "[0] \<noteq> []" "length [0 :: u8] \<le> 500" "ctx_fits None" "(1 :: u32) \<noteq> 0" by (simp_all add: ctx_fits_def)
  show "wp (val_internal_wait_done_ack s fsize) Q2" if "\<And>st s'. stays clk pend s0 s' \<Longrightarrow> Q2 (st, s')"
    using wait_results(1) [OF g v, of fsize] that k by (auto simp: wp_def)
  show "wp (val_internal_wait_eot_ack s) Q2" if "\<And>st s'. stays clk pend s0 s' \<Longrightarrow> Q2 (st, s')"
    using wait_results(2) [OF g v] that k by (auto simp: wp_def)
  show "wp (val_internal_wait_verify_result s vp e o') Q3"
    if "vp \<noteq> []" "length vp \<le> 500" "\<And>st out s'. stays clk pend s0 s' \<Longrightarrow> Q3 (st, out, s')"
    using wait_results(3) [OF g that(1,2) v(3,4), of e o'] that k by (auto simp: wp_def)
  show "wp (val_internal_wait_resume_resp s to_ms tries backoff mem cap) Q4"
    if "cap \<noteq> 0" "\<And>st rx m' s'. stays clk pend s0 s' \<Longrightarrow> Q4 (st, rx, m', s')"
    using wait_results(4) [OF g v(1-3) that(1), of to_ms tries backoff mem] that k by (auto simp: wp_def)
  show "wp (val_internal_wait_verify_request_rx s to_ms tries backoff rr mem cap) Q4"
    if "cap \<noteq> 0" "ctx_fits rr" "\<And>st rx m' s'. stays clk pend s0 s' \<Longrightarrow> Q4 (st, rx, m', s')"
    using wait_results(5) [OF g v(1,2) that(2,1), of to_ms tries backoff mem] that k by (auto simp: wp_def)
qed

subsection \<open>The CRC of a region\<close>

lemma crc_loop_wp:
  assumes "stays clk pend s0 s" and "step \<noteq> 0" and Q: "\<And>st crc s'. stays clk pend s0 s' \<Longrightarrow> Q (st, crc, s')"
  shows "wp (crc_region_loop h step left crc s) Q"
  using assms(1)
proof (induction "unat left" arbitrary: left crc s rule: less_induct)
  case less
  define tk where "tk = (if left < step then left else step)"
  have dec: "unat (left - tk) < unat left" if "left \<noteq> 0"
  proof -
    have "tk \<le> left" "tk \<noteq> 0" using that assms(2) by (auto simp: tk_def)
    then show ?thesis using that by (simp add: unat_sub unat_gt_0 word_le_nat_alt)
  qed
  show ?case
    by (subst crc_region_loop.simps, unfold tk_def [symmetric] Let_def)
      (auto simp: wp_simps word_gt_0 intro!: Q less.hyps dec intro: stays_intros less.prems)
qed

lemma crc_region_wp:
  assumes st: "stays clk pend s0 s" and Q: "\<And>st crc s'. stays clk pend s0 s' \<Longrightarrow> Q (st, crc, s')"
  shows "wp (val_internal_crc32_region s h start len) Q"
proof -
  have "512 \<le> packet_size (buffers (cfg s))" using stays_good [OF st] session_ok_psize [of s] by (simp add: good_def)
  then have "packet_size (buffers (cfg s)) \<noteq> 0" by auto
  then show ?thesis
    unfolding val_internal_crc32_region_def Let_def
    by (auto simp: wp_simps intro!: Q crc_loop_wp stays_intros st)
qed

end
