(* ===== verification/Val_Listen.thy ===== *)
theory Val_Listen
  imports Val_Ends
begin

text \<open>
  The handshake ends. Its two loops are bounded by the clock, not by a number of tries, so the proof counts
  time: \<open>spends\<close> is what a step adds to the clock beyond what the bytes it receives pay for, with a rule for every hook, for sending,
  for receiving a packet and for listening until a deadline. The results are \<open>handshake_receiver_wp\<close> and
  \<open>handshake_sender_wp\<close>; \<open>Val_Returns\<close> uses them for whole calls.
\<close>

section \<open>Time\<close>

text \<open>A step takes at most \<open>n\<close> milliseconds, unless the clock wraps around on the way.\<close>

definition within :: "('w \<Rightarrow> u32) \<Rightarrow> nat \<Rightarrow> 'w \<Rightarrow> 'w \<Rightarrow> bool" where
  "within clk n w w' \<longleftrightarrow> (unat (clk w) + n < 2 ^ 32 \<longrightarrow> clk w \<le> clk w' \<and> unat (clk w') \<le> unat (clk w) + n)"

text \<open>
  Timely hooks: a receive takes at most its timeout, a delay at most what it was asked for and \<open>lat\<close> milliseconds, any other
  hook at most \<open>lat\<close> milliseconds.
\<close>

definition timely :: "'w val_config \<Rightarrow> ('w \<Rightarrow> u32) \<Rightarrow> nat \<Rightarrow> bool" where
  "timely c clk lat \<longleftrightarrow>
     (\<forall>f w n t r got w'. tr_recv (transport c) = Some f \<longrightarrow> f w n t = (r, got, w') \<longrightarrow> within clk (unat t) w w') \<and>
     (\<forall>f w d. tr_send (transport c) = Some f \<longrightarrow> within clk lat w (snd (f w d))) \<and>
     (\<forall>f w. tr_is_connected (transport c) = Some f \<longrightarrow> within clk lat w (snd (f w))) \<and>
     (\<forall>f w. tr_flush (transport c) = Some f \<longrightarrow> within clk lat w (f w)) \<and>
     (\<forall>f w ms. sys_delay_ms (system c) = Some f \<longrightarrow> within clk (unat ms + lat) w (f w ms)) \<and>
     (\<forall>f w r. capture c = Some f \<longrightarrow> within clk lat w (f w r))"

text \<open>
  The time a step takes beyond \<open>M\<close> milliseconds for every byte it receives: the clock, plus \<open>M\<close> times
  what is still to come, grows by at most \<open>n\<close>, and the clock does not go back.
\<close>

definition spends :: "('w \<Rightarrow> u32) \<Rightarrow> ('w \<Rightarrow> nat) \<Rightarrow> nat \<Rightarrow> nat \<Rightarrow> 'w \<Rightarrow> 'w \<Rightarrow> bool" where
  "spends clk pend M n w w' \<longleftrightarrow> pend w' \<le> pend w \<and>
     (unat (clk w) + M * pend w + n < 2 ^ 32 \<longrightarrow>
        clk w \<le> clk w' \<and> unat (clk w') + M * pend w' \<le> unat (clk w) + M * pend w + n)"

lemma spends_refl [simp]: "spends clk pend M n w w"
  by (simp add: spends_def)

lemma spends_trans: "spends clk pend M n w w' \<Longrightarrow> spends clk pend M m w' w'' \<Longrightarrow> spends clk pend M (n + m) w w''"
  unfolding spends_def by (auto intro: order_trans)

lemma spends_mono: "spends clk pend M n w w' \<Longrightarrow> n \<le> m \<Longrightarrow> spends clk pend M m w w'"
  unfolding spends_def by auto

lemma within_spends:
  assumes "within clk n w w'" and "pend w' \<le> pend w"
  shows "spends clk pend M n w w'"
proof -
  obtain d where "pend w = pend w' + d" using assms(2) le_Suc_ex by blast
  then show ?thesis using assms unfolding within_def spends_def by (auto simp: add_mult_distrib2)
qed

text \<open>A step that receives something is paid for by what it receives.\<close>

lemma spends_pay:
  assumes "spends clk pend M n w w'" and "pend w' < pend w" and "n \<le> K"
  shows "spends clk pend (M + K) 0 w w'"
proof -
  have "K * pend w' + K \<le> K * pend w" using assms(2) by (metis Suc_leI add.commute mult_Suc_right mult_le_mono2)
  moreover have "M * pend w' \<le> M * pend w" using assms(2) by simp
  ultimately show ?thesis using assms unfolding spends_def by (auto simp: add_mult_distrib)
qed

lemma within_pay:
  assumes "within clk n w w'" and "pend w' < pend w" and "n \<le> M"
  shows "spends clk pend M 0 w w'"
  using spends_pay [OF within_spends [OF assms(1), where M = 0] assms(2,3)] assms(2) by simp

lemma spends_more:
  assumes "spends clk pend M n w w'"
  shows "spends clk pend (M + K) n w w'"
proof -
  obtain d where "pend w = pend w' + d" using assms le_Suc_ex unfolding spends_def by blast
  then show ?thesis using assms unfolding spends_def by (auto simp: add_mult_distrib add_mult_distrib2)
qed

section \<open>Hooks and sending\<close>

lemma hook_spends:
  assumes q: "quiet (cfg s) clk pend" and t: "timely (cfg s) clk lat"
  shows "spends clk pend M (unat ms + lat) (world s) (world (delay ms s))"
    "spends clk pend M lat (world s) (world (snd (val_internal_transport_is_connected s)))"
    "spends clk pend M lat (world s) (world (val_internal_transport_flush s))"
    "spends clk pend M lat (world s) (world (snd (send_bytes s data)))"
    "spends clk pend M lat (world s) (world (capture_packet d ty wl pl off s))"
proof -
  note p = hook_pend [OF q]
  show "spends clk pend M (unat ms + lat) (world s) (world (delay ms s))"
  proof (cases "sys_delay_ms (system (cfg s))")
    case (Some f)
    then have "within clk (unat ms + lat) (world s) (f (world s) ms)" using t unfolding timely_def by blast
    then show ?thesis using Some within_spends p(2) [of ms] by (simp add: delay_def)
  qed (simp add: delay_def)
  show "spends clk pend M lat (world s) (world (val_internal_transport_flush s))"
  proof (cases "tr_flush (transport (cfg s))")
    case (Some f)
    then have "within clk lat (world s) (f (world s))" using t unfolding timely_def by blast
    then show ?thesis using Some within_spends p(4) by (simp add: val_internal_transport_flush_def)
  qed (simp add: val_internal_transport_flush_def)
  show "spends clk pend M lat (world s) (world (snd (val_internal_transport_is_connected s)))"
  proof (cases "tr_is_connected (transport (cfg s))")
    case (Some f)
    then have "within clk lat (world s) (snd (f (world s)))" using t unfolding timely_def by blast
    then show ?thesis using Some within_spends p(3) by (simp add: val_internal_transport_is_connected_def case_prod_beta)
  qed (simp add: val_internal_transport_is_connected_def)
  show "spends clk pend M lat (world s) (world (snd (send_bytes s data)))"
  proof (cases "tr_send (transport (cfg s))")
    case (Some f)
    then have "within clk lat (world s) (snd (f (world s) data))" using t unfolding timely_def by blast
    then show ?thesis using Some within_spends p(5) [of data] by (simp add: send_bytes_def case_prod_beta)
  qed (simp add: send_bytes_def)
  show "spends clk pend M lat (world s) (world (capture_packet d ty wl pl off s))"
  proof (cases "capture (cfg s)")
    case (Some f)
    then have "within clk lat (world s) (f (world s) r)" for r using t unfolding timely_def by blast
    then show ?thesis using Some p(6) [of d ty wl pl off] by (simp add: capture_packet_def p(1) Let_def within_spends)
  qed (simp add: capture_packet_def)
qed

text \<open>Sending a packet: a connection test, the send, the capture and perhaps a flush.\<close>

lemma after_send_spends:
  assumes "quiet (cfg s) clk pend" and "timely (cfg s) clk lat"
  shows "spends clk pend M (lat + lat) (world s)
     (world (if b then val_internal_transport_flush (capture_packet d ty wl pl off s) else capture_packet d ty wl pl off s))"
proof -
  let ?c = "capture_packet d ty wl pl off s"
  have c: "cfg ?c = cfg s" by (rule core_fields(1)) simp
  note s1 = hook_spends(5) [OF assms, of M d ty wl pl off]
  have "spends clk pend M lat (world ?c) (world (val_internal_transport_flush ?c))"
    by (rule hook_spends(3)) (use assms c in simp_all)
  with s1 show ?thesis by (auto intro: spends_trans spends_mono [OF s1])
qed

lemma send_spends:
  assumes q: "quiet (cfg s) clk pend" and t: "timely (cfg s) clk lat"
  shows "spends clk pend M (4 * lat) (world s) (world (snd (val_internal_send_packet s ty p n off)))"
proof -
  obtain b s1 where c: "val_internal_transport_is_connected (val_internal_lock s) = (b, s1)"
    by (cases "val_internal_transport_is_connected (val_internal_lock s)")
  have cf1: "cfg s1 = cfg s"
    using core_hooks(3) [of "val_internal_lock s"] core_fields(1) [of s1 "val_internal_lock s"] c by simp
  have p1: "spends clk pend M lat (world s) (world s1)"
    using hook_spends(2) [of "val_internal_lock s" clk pend lat M] q t c by simp
  obtain fl cl td buf where pc: "packet_content ty (send_buf s1) p n off True = (fl, cl, td, buf)"
    by (cases "packet_content ty (send_buf s1) p n off True") auto
  obtain buf' tl where sf: "seal_frame (s1\<lparr>send_buf := buf\<rparr>) (pkt_byte ty) fl cl td buf = (buf', tl)"
    by (cases "seal_frame (s1\<lparr>send_buf := buf\<rparr>) (pkt_byte ty) fl cl td buf")
  let ?s2 = "s1\<lparr>send_buf := buf'\<rparr>"
  obtain rc s3 where sb: "send_bytes ?s2 (take tl buf') = (rc, s3)" by (cases "send_bytes ?s2 (take tl buf')")
  have cf3: "cfg s3 = cfg s"
    using core_hooks(5) [of ?s2 "take tl buf'"] core_fields(1) [of s3 ?s2] sb cf1 by simp
  have "spends clk pend M lat (world s1) (world s3)"
    using hook_spends(4) [of ?s2 clk pend lat M "take tl buf'"] q t sb cf1 by simp
  with p1 have p3: "spends clk pend M (lat + lat) (world s) (world s3)" by (rule spends_trans)
  let ?s4 = "val_metrics_add_sent (val_internal_unlock s3) (of_nat tl) (pkt_byte ty)"
  have s4: "cfg ?s4 = cfg s" "world ?s4 = world s3" using cf3 by (simp_all add: val_metrics_add_sent_def sess_defs)
  have "spends clk pend M (lat + lat) (world s3) (world (if bb then val_internal_transport_flush (capture_packet d ty' wl pl off' ?s4)
      else capture_packet d ty' wl pl off' ?s4))" for bb d ty' wl pl off'
    using after_send_spends [of ?s4 clk pend lat] q t s4 by simp
  then have p5: "spends clk pend M ((lat + lat) + (lat + lat)) (world s) (world (if bb then val_internal_transport_flush (capture_packet d ty' wl pl off' ?s4)
      else capture_packet d ty' wl pl off' ?s4))" for bb d ty' wl pl off'
    by (rule spends_trans [OF p3])
  have w: "world (val_internal_unlock x) = world x" for x :: "'a val_session" by (simp add: sess_defs)
  show ?thesis
    using spends_mono [OF p1, of "4 * lat"] spends_mono [OF p3, of "4 * lat"] spends_mono [OF p5, of "4 * lat"]
    by (simp add: val_internal_send_packet_def val__internal_send_packet_core_def c pc sf sb Let_def w)
qed

section \<open>Receiving\<close>

lemma recv_round_spends:
  assumes q: "quiet (cfg s) clk pend" and tm: "timely (cfg s) clk lat" and t: "to_ms \<noteq> 0" "unat to_ms \<le> M"
  shows "(case recv_round start need to_ms hv s of
     Inl (st, bs, s') \<Rightarrow> spends clk pend M (unat to_ms) (world s) (world s') \<and>
        (st = VAL_OK \<longrightarrow> spends clk pend M 0 (world s) (world s'))
   | Inr (hv', s') \<Rightarrow> length hv < length hv' \<longrightarrow> spends clk pend M 0 (world s) (world s'))"
proof (cases "need \<le> length hv \<or> tr_recv (transport (cfg s)) = None")
  case True
  then show ?thesis by (auto simp: recv_round_def hook_pend(1) [OF q] Let_def)
next
  case False
  then obtain f where n: "\<not> need \<le> length hv" and f: "tr_recv (transport (cfg s)) = Some f" by auto
  let ?e = "if start \<le> clk (world s) then clk (world s) - start else 0"
  let ?rm = "if to_ms > ?e then to_ms - ?e else 0"
  let ?sl = "if ?rm \<noteq> 0 then ?rm else if to_ms \<noteq> 0 then 1 else 0"
  obtain r got w where fr: "f (world s) (of_nat (need - length hv)) ?sl = (r, got, w)"
    by (cases "f (world s) (of_nat (need - length hv)) ?sl")
  have p: "pend w + length got \<le> pend (world s)" using q f fr unfolding quiet_def by blast
  have sub: "to_ms - x \<le> to_ms" if "x < to_ms" for x using that by (simp add: word_sub_le)
  have one: "1 \<le> to_ms" using t(1) inc_le [of 0 to_ms] by (simp add: word_neq_0_conv)
  have "?sl \<le> to_ms" using one sub [of ?e] by auto
  then have sl: "unat ?sl \<le> unat to_ms" by (rule iffD1 [OF word_le_nat_alt])
  have wi: "within clk (unat ?sl) (world s) w" using tm f fr unfolding timely_def by blast
  have full: "spends clk pend M (unat to_ms) (world s) w"
    by (rule spends_mono [OF within_spends [OF wi] sl]) (use p in simp)
  have paid: "spends clk pend M 0 (world s) w" if "got \<noteq> []"
  proof (rule within_pay [OF wi _ order_trans [OF sl t(2)]])
    show "pend w < pend (world s)" using p that by (cases got) auto
  qed
  have tw: "ticks (s\<lparr>world := w\<rparr>) = (clk w, s\<lparr>world := w\<rparr>)"
    using hook_pend(1) [of "s\<lparr>world := w\<rparr>" clk pend] q by simp
  have e: "recv_round start need to_ms hv s =
     (if r < 0 then Inl (VAL_ERR_IO, hv @ got, s\<lparr>world := w\<rparr>)
      else if length (hv @ got) \<ge> need then Inl (VAL_OK, hv @ got, s\<lparr>world := w\<rparr>)
      else if clk w - start \<ge> to_ms then Inl (VAL_ERR_TIMEOUT, hv @ got, s\<lparr>world := w\<rparr>)
      else Inr (hv @ got, s\<lparr>world := w\<rparr>))"
    using n f fr by (simp add: recv_round_def hook_pend(1) [OF q] tw Let_def)
  show ?thesis using full paid n by (cases "got = []") (auto simp: e)
qed

lemma val_recv_full_spends:
  assumes q: "quiet (cfg s) clk pend" and tm: "timely (cfg s) clk lat"
    and n: "need < 2 ^ 64" and t: "to_ms \<noteq> 0" "unat to_ms \<le> M" "to_ms \<le> 0x7FFFFFFF"
    and r: "val_recv_full need to_ms s = Some (st, bs, s')"
  shows "spends clk pend M (unat to_ms) (world s) (world s') \<and> (st = VAL_OK \<longrightarrow> spends clk pend M 0 (world s) (world s'))"
proof (cases "tr_recv (transport (cfg s)) = None")
  case True
  with r show ?thesis by (auto simp: val_recv_full_def)
next
  case False
  let ?start = "clk (world s)"
  let ?I = "\<lambda>hv s2. only_world s s2 \<and> clk (world s2) - ?start \<le> to_ms \<and> spends clk pend M 0 (world s) (world s2)"
  let ?Q = "\<lambda>(st, bs, s2). spends clk pend M (unat to_ms) (world s) (world s2) \<and>
      (st = VAL_OK \<longrightarrow> spends clk pend M 0 (world s) (world s2))"
  have c: "cfg s2 = cfg s" if "only_world s s2" for s2 using only_world_cfg [OF that] .
  have l: "val_recv_full_loop ?start need to_ms [] s = Some (st, bs, s')"
    using r False hook_pend(1) [OF q] by (simp add: val_recv_full_def)
  have rd: "case recv_round ?start need to_ms hv s1 of
     Inl (st, bs, s') \<Rightarrow> spends clk pend M (unat to_ms) (world s1) (world s') \<and>
        (st = VAL_OK \<longrightarrow> spends clk pend M 0 (world s1) (world s'))
   | Inr (hv', s') \<Rightarrow> length hv < length hv' \<longrightarrow> spends clk pend M 0 (world s1) (world s')" if "only_world s s1" for hv s1
    by (rule recv_round_spends) (use q tm t c [OF that] in simp_all)
  have "?Q (st, bs, s')"
  proof (rule val_recv_full_loop_inv [where I = ?I and Q = ?Q, OF l])
    show "?I [] s" by simp
  next
    fix h s1 h' s2
    assume I: "?I h s1" and e: "recv_round ?start need to_ms h s1 = Inr (h', s2)"
    have w: "recv_waits (cfg s1) clk" using q c [of s1] I by (simp add: quiet_def)
    note pr = recv_round_progress [OF w t(3) n _ e]
    have "spends clk pend M (0 + 0) (world s) (world s2)"
      by (rule spends_trans [where w' = "world s1"]) (use I rd [of s1 h] pr e in auto)
    then show "?I h' s2" using pr I only_world_trans [of s s1 s2] by auto
  next
    fix h s1 r
    assume I: "?I h s1" and e: "recv_round ?start need to_ms h s1 = Inl r"
    obtain st bs s2 where r: "r = (st, bs, s2)" by (cases r)
    have i: "spends clk pend M 0 (world s) (world s1)" using I by simp
    show "?Q r"
      using rd [of s1 h] I e spends_trans [OF i, of "unat to_ms" "world s2"] spends_trans [OF i, of 0 "world s2"] by (simp add: r)
  qed
  then show ?thesis by simp
qed

lemma accept_spends:
  assumes q: "quiet (cfg s) clk pend" and tm: "timely (cfg s) clk lat"
    and r: "accept_frame tb fl pl td tc dest s = (st, rx, s')"
  shows "spends clk pend M (if st = VAL_OK then lat else 0) (world s) (world s')"
proof -
  have w [simp]: "world (val_internal_unlock x) = world x" "cfg (val_internal_unlock x) = cfg x" for x :: "'a val_session"
    by (simp_all add: sess_defs)
  have cap: "spends clk pend M lat (world s) (world (capture_packet d t wl pl off s1))"
    if "cfg s1 = cfg s" "world s1 = world s" for s1 d t wl pl off
    using hook_spends(5) [of s1 clk pend lat M d t wl pl off] q tm that by simp
  show ?thesis using r
    by (auto simp: accept_frame_def deliver_frame_def Let_def val_metrics_inc_crcerr_def val_metrics_add_recv_def cap split: if_splits)
qed

lemma recv_packet_spends:
  assumes q: "quiet (cfg s) clk pend" and tm: "timely (cfg s) clk lat"
    and t: "to_ms \<noteq> 0" "unat to_ms \<le> M" "to_ms \<le> 0x7FFFFFFF"
    and r: "val_internal_recv_packet s dest to_ms = Some (st, rx, s')"
  shows "spends clk pend M (if st = VAL_OK then lat else unat to_ms) (world s) (world s')"
proof -
  let ?c = "if st = VAL_OK then lat else unat to_ms"
  have step: "P" if v: "val_recv_full k to_ms x = Some (rc, bs, y)" and x: "cfg x = cfg s" and k: "k < 2 ^ 64"
    and fail: "rc \<noteq> VAL_OK \<Longrightarrow> spends clk pend M (unat to_ms) (world x) (world y) \<Longrightarrow> P"
    and ok: "rc = VAL_OK \<Longrightarrow> spends clk pend M 0 (world x) (world y) \<Longrightarrow> cfg y = cfg s \<Longrightarrow> P" for P k x rc bs y
  proof -
    have b: "recv_bounded (cfg x)" using q x by (simp add: quiet_def)
    have "cfg y = cfg s" using val_recv_full_world [OF v b k] x by (auto dest: only_world_cfg)
    then show P using val_recv_full_spends [OF _ _ k t v] q tm x fail ok by (cases "rc = VAL_OK") auto
  qed
  have failed: "spends clk pend M ?c w (world s')"
    if "rx_fail rc y = Some (st, rx, s')" "rc \<noteq> VAL_OK" "spends clk pend M (unat to_ms) w (world y)" for rc y w
    using rx_fail_eq [OF that(1)] that(3) by auto
  have trailer: "spends clk pend M ?c (world x) (world s')"
    if e: "recv_trailer dest to_ms tb fl pl td x = Some (st, rx, s')" and x: "cfg x = cfg s" for tb fl pl td x
  proof -
    obtain rc bs y where v: "val_recv_full 4 to_ms x = Some (rc, bs, y)"
      using e by (auto simp: recv_trailer_def bind_eq_Some_conv)
    show ?thesis
    proof (rule step [OF v x])
      assume "rc \<noteq> VAL_OK" "spends clk pend M (unat to_ms) (world x) (world y)"
      then show ?thesis using e failed [of rc y "world x"] by (simp add: recv_trailer_def v)
    next
      assume o: "rc = VAL_OK" "spends clk pend M 0 (world x) (world y)" "cfg y = cfg s"
      then have "accept_frame tb fl pl td (VAL_GET_LE32 bs) dest y = (st, rx, s')" using e by (simp add: recv_trailer_def v)
      from accept_spends [OF _ _ this, of clk pend lat M] o q tm
      have "spends clk pend M (if st = VAL_OK then lat else 0) (world y) (world s')" by simp
      from spends_trans [OF o(2) this] show ?thesis by (auto intro: spends_mono)
    qed simp
  qed
  have payload: "spends clk pend M ?c (world x) (world s')"
    if e: "recv_payload dest to_ms tb fl pl td x = Some (st, rx, s')" and x: "cfg x = cfg s" for tb fl pl td x
  proof (cases "pl > 0")
    case False
    then show ?thesis using e trailer [of tb fl pl td "x\<lparr>recv_buf := mem_write (recv_buf x) 8 []\<rparr>"] x by (simp add: recv_payload_def)
  next
    case True
    obtain rc bs y where v: "val_recv_full (unat pl) to_ms x = Some (rc, bs, y)"
      using e True by (auto simp: recv_payload_def bind_eq_Some_conv)
    let ?y = "y\<lparr>recv_buf := mem_write (recv_buf y) 8 bs\<rparr>"
    have k: "unat pl < 2 ^ 64" using unat_less_2p32 [of pl] by simp
    show ?thesis
    proof (rule step [OF v x k])
      assume "rc \<noteq> VAL_OK" "spends clk pend M (unat to_ms) (world x) (world y)"
      then show ?thesis using e True failed [of rc ?y "world x"] by (simp add: recv_payload_def v)
    next
      assume o: "rc = VAL_OK" "spends clk pend M 0 (world x) (world y)" "cfg y = cfg s"
      then have "spends clk pend M ?c (world y) (world s')" using e True trailer [of tb fl pl td ?y] by (simp add: recv_payload_def v)
      from spends_trans [OF o(2) this] show ?thesis by simp
    qed
  qed
  let ?l = "val_internal_lock s"
  obtain rc bs y where v: "val_recv_full 8 to_ms ?l = Some (rc, bs, y)"
    using r unfolding val_internal_recv_packet_def Let_def bind_eq_Some_conv by auto
  let ?y = "y\<lparr>recv_buf := mem_write (recv_buf y) 0 bs\<rparr>"
  show ?thesis
  proof (rule step [OF v])
    assume "rc \<noteq> VAL_OK" "spends clk pend M (unat to_ms) (world ?l) (world y)"
    then show ?thesis using r failed [of rc ?y "world s"] by (simp add: val_internal_recv_packet_def v Let_def)
  next
    assume o: "rc = VAL_OK" "spends clk pend M 0 (world ?l) (world y)" "cfg y = cfg s"
    have w: "world (val_internal_unlock x) = world x" for x :: "'a val_session" by (simp add: sess_defs)
    have "spends clk pend M ?c (world y) (world s')"
      using r o payload [where x = ?y]
      by (auto simp: val_internal_recv_packet_def v Let_def w split: prod.splits if_splits)
    from spends_trans [OF o(2) this] show ?thesis by simp
  qed simp_all
qed

section \<open>Listening until a deadline\<close>

definition dl_slice :: "u32 \<Rightarrow> u32 \<Rightarrow> u32 \<Rightarrow> u32" where
  "dl_slice now dl m =
     (let rem = (if now < dl then dl - now else 0); sl = (if rem > m then m else rem) in if sl = 0 then 1 else sl)"

lemma dl_slice_range:
  assumes "m \<noteq> 0" "m \<le> 0x7FFFFFFF"
  shows "dl_slice now dl m \<noteq> 0" "dl_slice now dl m \<le> m" "unat (dl_slice now dl m) \<le> max 1 (unat dl - unat now)"
proof -
  have one: "1 \<le> m" using assms(1) inc_le [of 0 m] by (simp add: word_neq_0_conv)
  show "dl_slice now dl m \<noteq> 0" using assms(1) by (auto simp: dl_slice_def Let_def)
  show "dl_slice now dl m \<le> m" using one by (auto simp: dl_slice_def Let_def)
  have "unat (dl - now) = unat dl - unat now" if "now < dl" using that by (simp add: unat_sub less_imp_le)
  then show "unat (dl_slice now dl m) \<le> max 1 (unat dl - unat now)"
    by (auto simp: dl_slice_def Let_def word_less_nat_alt)
qed

text \<open>One round: a result, or the session to go on with.\<close>

lemma deadline_inv:
  assumes res: "val_internal_recv_until_deadline s buf cap dl m = Some (st, rx, mem, s')" and start: "I s"
    and q: "\<And>s. I s \<Longrightarrow> quiet (cfg s) clk pend"
    and qk: "\<And>s st rx s1. I s \<Longrightarrow> val_internal_recv_packet s None (dl_slice (clk (world s)) dl m) = Some (st, rx, s1) \<Longrightarrow> cfg s1 = cfg s"
    and step: "\<And>s st rx s1. I s \<Longrightarrow> val_internal_recv_packet s None (dl_slice (clk (world s)) dl m) = Some (st, rx, s1) \<Longrightarrow>
        st \<noteq> VAL_OK \<Longrightarrow> clk (world s1) < dl \<Longrightarrow> st = VAL_ERR_TIMEOUT \<or> st = VAL_ERR_CRC \<Longrightarrow> I s1"
    and stop: "\<And>s. I s \<Longrightarrow> Q VAL_ERR_ABORTED s"
    and fin: "\<And>s st rx s1 st'. I s \<Longrightarrow> val_internal_recv_packet s None (dl_slice (clk (world s)) dl m) = Some (st, rx, s1) \<Longrightarrow>
        st' = VAL_ERR_TIMEOUT \<Longrightarrow> st = VAL_ERR_TIMEOUT \<or> st = VAL_ERR_CRC \<Longrightarrow> Q st' s1"
    and other: "\<And>s st rx s1 st'. I s \<Longrightarrow> val_internal_recv_packet s None (dl_slice (clk (world s)) dl m) = Some (st, rx, s1) \<Longrightarrow>
        st' \<noteq> VAL_ERR_TIMEOUT \<Longrightarrow> st' \<noteq> VAL_ERR_CRC \<Longrightarrow> Q st' s1"
  shows "Q st s'"
proof -
  let ?P = "\<lambda>s b c d k y. c = cap \<and> d = dl \<and> k = m \<and> I s \<longrightarrow> Q (fst y) (snd (snd (snd y)))"
  have "?P s buf cap dl m (st, rx, mem, s')"
  proof (rule val_internal_recv_until_deadline.raw_induct [where P = ?P, OF _ res])
    fix loop :: "'a val_session \<Rightarrow> u8 list option \<Rightarrow> u32 \<Rightarrow> u32 \<Rightarrow> u32 \<Rightarrow> _" and s b c d k y
    assume IH: "\<And>s b c d k y. loop s b c d k = Some y \<Longrightarrow> ?P s b c d k y"
      and eq: "(if sys_get_ticks_ms (system (cfg s)) = None then Some (VAL_ERR_INVALID_ARG, rx_none, b, s)
      else if val_check_for_cancel s then Some (VAL_ERR_ABORTED, rx_none, b, s)
      else
        let (now, s) = ticks s;
            remaining = (if now < d then d - now else 0);
            slice = (if remaining > k then k else remaining);
            slice = (if slice = 0 then 1 else slice)
        in do {
          (st, rx, s) \<leftarrow> val_internal_recv_packet s None slice;
          if st = VAL_OK then
            (case copy_control b c rx s of (st, mem) \<Rightarrow> Some (st, rx, mem, s))
          else if st \<noteq> VAL_ERR_TIMEOUT \<and> st \<noteq> VAL_ERR_CRC then Some (st, rx_none, b, s)
          else
            let (now, s) = ticks s in
            if now \<ge> d then Some (VAL_ERR_TIMEOUT, rx_none, b, s)
            else loop s b c d k
        }) = Some y"
    show "?P s b c d k y"
    proof (intro impI, elim conjE)
      assume a: "c = cap" "d = dl" "k = m" "I s"
      have hk: "sys_get_ticks_ms (system (cfg s)) = Some (\<lambda>w. (clk w, w))" using q [OF a(4)] by (simp add: quiet_def recv_waits_def)
      note tk = hook_pend(1) [OF q [OF a(4)]]
      show "Q (fst y) (snd (snd (snd y)))"
      proof (cases "val_check_for_cancel s")
        case True
        then show ?thesis using eq hk stop [OF a(4)] by auto
      next
        case False
        let ?sl = "dl_slice (clk (world s)) dl m"
        obtain st rx s1 where r: "val_internal_recv_packet s None ?sl = Some (st, rx, s1)"
          using eq hk False unfolding a(1-3) tk
          by (cases "val_internal_recv_packet s None ?sl") (auto simp: Let_def dl_slice_def)
        have "quiet (cfg s1) clk pend" using qk [OF a(4) r] q [OF a(4)] by simp
        note tk1 = hook_pend(1) [OF this]
        have "(if st = VAL_OK then (case copy_control b cap rx s1 of (st, mem) \<Rightarrow> Some (st, rx, mem, s1))
           else if st \<noteq> VAL_ERR_TIMEOUT \<and> st \<noteq> VAL_ERR_CRC then Some (st, rx_none, b, s1)
           else let (now, s) = ticks s1 in if now \<ge> dl then Some (VAL_ERR_TIMEOUT, rx_none, b, s) else loop s b cap dl m) = Some y"
          using eq hk False r unfolding a(1-3) by (simp add: tk dl_slice_def Let_def)
        note e = this [unfolded tk1 prod.case Let_def]
        have cc: "x = VAL_OK \<or> x = VAL_ERR_INVALID_ARG" if "copy_control b cap rx s1 = (x, z)" for x z
          using that by (auto simp: copy_control_def split: if_splits option.splits)
        show ?thesis
          using e IH [of s1 b cap dl m y] step [OF a(4) r] fin [OF a(4) r] other [OF a(4) r] a(1-3)
          by (auto simp: not_le split: if_splits prod.splits dest!: cc)
      qed
    qed
  qed
  then show ?thesis using start by simp
qed

text \<open>Slices that end at the deadline do not add up.\<close>

lemma spends_until:
  assumes a: "spends clk pend M (max 1 (unat dl - unat (clk w))) w x" and x: "clk x < dl \<or> x = w"
    and b: "spends clk pend M n x y" and n: "n \<le> max 1 (unat dl - unat (clk x))"
  shows "spends clk pend M (max 1 (unat dl - unat (clk w))) w y \<and>
     (unat (clk w) + M * pend w + max 1 (unat dl - unat (clk w)) < 2 ^ 32 \<longrightarrow> clk x \<le> clk y)"
proof -
  let ?c = "max 1 (unat dl - unat (clk w))"
  have d: "unat (clk x) + n \<le> unat (clk w) + ?c" using x n by (auto simp: word_less_nat_alt)
  have p: "pend x \<le> pend w" "pend y \<le> pend x" using a b by (simp_all add: spends_def)
  then obtain k where k: "pend w = pend x + k" using le_Suc_ex by blast
  have "clk w \<le> clk x \<and> clk x \<le> clk y \<and> unat (clk y) + M * pend y \<le> unat (clk w) + M * pend w + ?c"
    if s: "unat (clk w) + M * pend w + ?c < 2 ^ 32"
  proof -
    have wx: "clk w \<le> clk x" using a s unfolding spends_def by blast
    have l: "unat (clk x) + M * pend x + n \<le> unat (clk w) + M * pend w + ?c"
      unfolding k add_mult_distrib2 using d by linarith
    then have "clk x \<le> clk y \<and> unat (clk y) + M * pend y \<le> unat (clk x) + M * pend x + n"
      using b s unfolding spends_def by linarith
    then show ?thesis using l wx by auto
  qed
  then show ?thesis using p unfolding spends_def by auto
qed

lemma deadline_spends:
  assumes g: "good clk pend s" and tm: "timely (cfg s) clk lat" and m: "m \<noteq> 0" "m \<le> 0x7FFFFFFF" "unat m \<le> M"
    and r: "val_internal_recv_until_deadline s buf cap dl m = Some (st, rx, mem, s')"
  shows "spends clk pend M (max 1 (unat dl - unat (clk (world s))) + lat) (world s) (world s') \<and> st \<noteq> VAL_ERR_CRC \<and>
     (st = VAL_ERR_TIMEOUT \<longrightarrow>
        unat (clk (world s)) + M * pend (world s) + max 1 (unat dl - unat (clk (world s))) + lat < 2 ^ 32 \<longrightarrow>
        pend (world s') < pend (world s) \<or> clk (world s) < clk (world s'))"
proof -
  let ?c = "max 1 (unat dl - unat (clk (world s)))"
  let ?fits = "unat (clk (world s)) + M * pend (world s) + ?c + lat < 2 ^ 32"
  let ?on = "\<lambda>x. ?fits \<longrightarrow> pend (world x) < pend (world s) \<or> clk (world s) < clk (world x)"
  let ?I = "\<lambda>x. keeps pend s x \<and> spends clk pend M ?c (world s) (world x) \<and> (clk (world x) < dl \<or> world x = world s)"
  let ?Q = "\<lambda>st x. spends clk pend M (?c + lat) (world s) (world x) \<and> st \<noteq> VAL_ERR_CRC \<and> (st = VAL_ERR_TIMEOUT \<longrightarrow> ?on x)"
  have cf: "cfg x = cfg s" if "?I x" for x using that by (simp add: keeps_def)
  have gx: "good clk pend x" if "?I x" for x using keeps_good [OF _ g] that by blast
  have round: "keeps pend s y \<and> spends clk pend M (?c + (if st = VAL_OK then lat else 0)) (world s) (world y) \<and>
      (st = VAL_ERR_TIMEOUT \<or> st = VAL_ERR_CRC \<longrightarrow> ?on y)"
    if I: "?I x" and v: "val_internal_recv_packet x None (dl_slice (clk (world x)) dl m) = Some (st, rx, y)" for x st rx y
  proof -
    let ?sl = "dl_slice (clk (world x)) dl m"
    note sl = dl_slice_range [OF m(1,2), of "clk (world x)" dl]
    have i: "spends clk pend M ?c (world s) (world x)" "clk (world x) < dl \<or> world x = world s" using I by auto
    have u: "unat ?sl \<le> M" using sl(2) m(3) by (simp add: word_le_nat_alt)
    have q: "quiet (cfg x) clk pend" "timely (cfg x) clk lat" using gx [OF I] cf [OF I] tm by (simp_all add: good_def)
    have sp: "spends clk pend M (if st = VAL_OK then lat else unat ?sl) (world x) (world y)"
      by (rule recv_packet_spends [OF q sl(1) u _ v]) (use sl(2) m(2) in auto)
    have k: "keeps pend x y \<and> (pend (world y) < pend (world x) \<or> st = VAL_ERR_TIMEOUT \<and> clk (world y) = clk (world x) + ?sl \<or> st = VAL_ERR_IO)"
      by (rule recv_packet_quiet [OF gx [OF I] sl(1) _ _ v]) (use sl(2) m(2) in \<open>auto simp: rx_cap_def\<close>)
    have whole: "spends clk pend M (?c + (if st = VAL_OK then lat else 0)) (world s) (world y)"
    proof (cases "st = VAL_OK")
      case True
      then show ?thesis using spends_trans [OF i(1)] sp by simp
    next
      case False
      then show ?thesis using spends_until [OF i _ sl(3), of "world y"] sp by simp
    qed
    have "?on y" if st: "st = VAL_ERR_TIMEOUT \<or> st = VAL_ERR_CRC"
    proof (intro impI, cases "pend (world y) < pend (world x)")
      case True
      then show "pend (world y) < pend (world s) \<or> clk (world s) < clk (world y)" using I by (auto simp: keeps_def)
    next
      case False
      assume f: ?fits
      have e: "clk (world y) = clk (world x) + ?sl" using False k st by auto
      have x: "clk (world s) \<le> clk (world x)" using i(1) f unfolding spends_def by auto
      have "clk (world s) \<le> clk (world y) \<and> clk (world x) \<noteq> clk (world y)"
        using whole f st e sl(1) unfolding spends_def by auto
      moreover have "clk (world x) \<le> clk (world y)"
        using spends_until [OF i _ sl(3), of "world y"] sp st f by auto
      ultimately show "pend (world y) < pend (world s) \<or> clk (world s) < clk (world y)" using x by auto
    qed
    then show ?thesis using whole k I keeps_trans by blast
  qed
  have "?Q st s'"
  proof (rule deadline_inv [where I = ?I and Q = ?Q, OF r])
    show "?I s" by simp
    show "quiet (cfg x) clk pend" if "?I x" for x using gx [OF that] by (simp add: good_def)
    show "?Q VAL_ERR_ABORTED x" if "?I x" for x
      using spends_mono [of clk pend M ?c "world s" "world x" "?c + lat"] that by auto
  next
    fix x st rx y
    assume I: "?I x" and v: "val_internal_recv_packet x None (dl_slice (clk (world x)) dl m) = Some (st, rx, y)"
    note rd = round [OF I v]
    have c: "cfg y = cfg s" and sp: "spends clk pend M (?c + lat) (world s) (world y)"
      using rd by (auto simp: keeps_def intro: spends_mono)
    show "cfg y = cfg x" using c cf [OF I] by simp
    show "?I y" if "st \<noteq> VAL_OK" "clk (world y) < dl" using rd that by simp
    show "?Q st' y" if "st' = VAL_ERR_TIMEOUT" "st = VAL_ERR_TIMEOUT \<or> st = VAL_ERR_CRC" for st' using rd sp that by auto
    show "?Q st' y" if "st' \<noteq> VAL_ERR_TIMEOUT" "st' \<noteq> VAL_ERR_CRC" for st' using sp that by blast
  qed
  then show ?thesis by simp
qed

section \<open>The handshake loops end\<close>

lemma hs_deadline_range: "unat (hs_deadline now base) - unat now \<le> unat base"
proof -
  have "unat (now + base) = unat now + unat base" if "\<not> now + base < now"
    using that by (simp add: unat_plus_simple not_less)
  moreover have "2 ^ 32 \<le> unat now + unat base" if "now + base < now"
    using that no_olen_add_nat [of now base] by (simp add: not_less [symmetric])
  ultimately show ?thesis by (auto simp: hs_deadline_def Let_def)
qed

text \<open>One listening round of a handshake, with a base timeout of at most \<open>K - lat\<close> milliseconds.\<close>

lemma listen_wp:
  assumes st: "stays clk pend s0 s" and tm: "timely (cfg s0) clk lat" and K: "max 1 (unat base) + lat \<le> K"
    and Q: "\<And>st rx m' s'. stays clk pend s0 s' \<Longrightarrow> spends clk pend (20 + K) K (world s) (world s') \<Longrightarrow>
        (pend (world s') < pend (world s) \<Longrightarrow> spends clk pend (20 + K) 0 (world s) (world s')) \<Longrightarrow> st \<noteq> VAL_ERR_CRC \<Longrightarrow>
        (st = VAL_OK \<Longrightarrow> pend (world s') < pend (world s)) \<Longrightarrow>
        (st = VAL_ERR_TIMEOUT \<Longrightarrow> unat (clk (world s)) + (20 + K) * pend (world s) + K < 2 ^ 32 \<Longrightarrow>
           pend (world s') < pend (world s) \<or> clk (world s) < clk (world s')) \<Longrightarrow> Q (st, rx, Some m', s')"
  shows "wp (val_internal_recv_until_deadline s (Some m) cap (hs_deadline (clk (world s)) base) 20) Q"
proof -
  let ?dl = "hs_deadline (clk (world s)) base"
  have g: "good clk pend s" by (rule stays_good [OF st])
  obtain st' rx mem s' where r: "val_internal_recv_until_deadline s (Some m) cap ?dl 20 = Some (st', rx, mem, s')"
    and k: "keeps pend s s'" and n: "mem \<noteq> None" and d: "st' = VAL_OK \<longrightarrow> pend (world s') < pend (world s)"
    using recv_until_deadline_returns [OF g, of 20 m cap ?dl] by auto
  have c: "max 1 (unat ?dl - unat (clk (world s))) + lat \<le> K"
    using K hs_deadline_range [of "clk (world s)" base] by auto
  have ds: "spends clk pend 20 (max 1 (unat ?dl - unat (clk (world s))) + lat) (world s) (world s') \<and> st' \<noteq> VAL_ERR_CRC \<and>
     (st' = VAL_ERR_TIMEOUT \<longrightarrow>
        unat (clk (world s)) + 20 * pend (world s) + max 1 (unat ?dl - unat (clk (world s))) + lat < 2 ^ 32 \<longrightarrow>
        pend (world s') < pend (world s) \<or> clk (world s) < clk (world s'))"
    by (rule deadline_spends [OF g _ _ _ _ r]) (use tm stays_cfg [OF st] in simp_all)
  have sp: "spends clk pend 20 K (world s) (world s')" using ds c by (auto intro: spends_mono)
  have "Q (st', rx, Some (the mem), s')"
  proof (rule Q [OF stays_step [OF st k] spends_more [OF sp] spends_pay [OF sp]])
    show "pend (world s') < pend (world s) \<or> clk (world s) < clk (world s')"
      if "st' = VAL_ERR_TIMEOUT" "unat (clk (world s)) + (20 + K) * pend (world s) + K < 2 ^ 32"
    proof -
      have "unat (clk (world s)) + 20 * pend (world s) + max 1 (unat ?dl - unat (clk (world s))) + lat < 2 ^ 32"
        using that(2) c unfolding add_mult_distrib by linarith
      then show ?thesis using ds that(1) by blast
    qed
  qed (use d ds in auto)
  then show ?thesis using n by (simp add: r wp_def)
qed

text \<open>
  Where a handshake is on the clock: before the end of its budget, but for a last round (of at most \<open>D\<close>
  milliseconds) and for the bytes it has received meanwhile.
\<close>

definition before :: "('w \<Rightarrow> u32) \<Rightarrow> ('w \<Rightarrow> nat) \<Rightarrow> nat \<Rightarrow> u32 \<Rightarrow> nat \<Rightarrow> nat \<Rightarrow> 'w \<Rightarrow> bool" where
  "before clk pend M gd D p0 w \<longleftrightarrow> pend w \<le> p0 \<and> unat (clk w) + M * pend w \<le> unat gd + D + M * p0 \<and>
     unat gd + 2 * D + M * p0 < 2 ^ 32"

lemma before_step:
  assumes b: "before clk pend M gd D p0 w" and sp: "spends clk pend M n w x"
    and c: "n = 0 \<and> pend x < pend w \<or> n \<le> D \<and> clk w < gd \<and> (pend x < pend w \<or> clk w < clk x)"
  shows "before clk pend M gd D p0 x"
    "pend x * 2 ^ 33 + (2 ^ 32 - unat (clk x)) < pend w * 2 ^ 33 + (2 ^ 32 - unat (clk w))"
proof -
  obtain k where k: "p0 = pend w + k" using b le_Suc_ex unfolding before_def by blast
  have lt: "unat (clk w) + M * pend w + n < 2 ^ 32"
    using b c unfolding before_def by (auto simp: k add_mult_distrib2)
  then have s: "clk w \<le> clk x" "unat (clk x) + M * pend x \<le> unat (clk w) + M * pend w + n" "pend x \<le> pend w"
    using sp unfolding spends_def by auto
  show "before clk pend M gd D p0 x"
    using b c s unfolding before_def by (auto simp: k add_mult_distrib2 word_less_nat_alt)
  have u: "unat (clk x) < 2 ^ 32" "unat (clk w) < 2 ^ 32" using unat_less_2p32 by auto
  consider "pend x < pend w" | "pend x = pend w" "clk w < clk x" using c s(3) by force
  then show "pend x * 2 ^ 33 + (2 ^ 32 - unat (clk x)) < pend w * 2 ^ 33 + (2 ^ 32 - unat (clk w))"
    using u by cases (auto simp: word_less_nat_alt)
qed

lemma before_fits: "before clk pend M gd D p0 w \<Longrightarrow> clk w < gd \<Longrightarrow> n \<le> D \<Longrightarrow> unat (clk w) + M * pend w + n < 2 ^ 32"
proof -
  assume b: "before clk pend M gd D p0 w" "clk w < gd" "n \<le> D"
  then obtain k where "p0 = pend w + k" using le_Suc_ex unfolding before_def by blast
  with b show ?thesis by (auto simp: before_def add_mult_distrib2 word_less_nat_alt)
qed

lemma accept_hello_stays:
  assumes "stays clk pend s0 s"
  shows "stays clk pend s0 (snd (accept_hello_rx_cb s t b l off))" "world (snd (accept_hello_rx_cb s t b l off)) = world s"
    "stays clk pend s0 (snd (accept_hello_cb s t b l off))" "world (snd (accept_hello_cb s t b l off)) = world s"
  using assms by (auto simp: accept_hello_rx_cb_def accept_hello_cb_def reject_malformed_def intro!: stays_intros)

lemma ticks_stays: "stays clk pend s0 s \<Longrightarrow> ticks s = (clk (world s), s)"
  by (rule ticks_attending [OF stays_attending])

lemma hook_stays_spends:
  assumes "stays clk pend s0 s" and "timely (cfg s0) clk lat"
  shows "spends clk pend M (unat ms + lat) (world s) (world (delay ms s))"
    "spends clk pend M (4 * lat) (world s) (world (snd (val_internal_send_packet s ty p n off)))"
proof -
  have q: "quiet (cfg s) clk pend" "timely (cfg s) clk lat"
    using stays_good [OF assms(1)] stays_cfg [OF assms(1)] assms(2) by (simp_all add: good_def)
  show "spends clk pend M (unat ms + lat) (world s) (world (delay ms s))"
    "spends clk pend M (4 * lat) (world s) (world (snd (val_internal_send_packet s ty p n off)))"
    by (rule hook_spends(1) [OF q], rule send_spends [OF q])
qed

lemma hs_receiver_loop_wp:
  assumes tm: "timely (cfg s0) clk lat" and K: "max 1 (unat base) + lat \<le> K" and D: "K + 10 + lat \<le> D" and gd: "gd \<noteq> 0"
    and st: "stays clk pend s0 s" and b: "before clk pend (20 + K) gd D p0 (world s)"
  shows "wp (hs_receiver_loop base gd pw s) (\<lambda>r. stays clk pend s0 (snd (snd r)))"
  using st b
proof (induction "pend (world s) * 2 ^ 33 + (2 ^ 32 - unat (clk (world s)))" arbitrary: s pw rule: less_induct)
  case less
  note st = less.prems(1) and b = less.prems(2)
  have again: "wp (hs_receiver_loop base gd m' x) (\<lambda>r. stays clk pend s0 (snd (snd r)))"
    if "stays clk pend s0 s'" "pend (world s') < pend (world s)" "spends clk pend (20 + K) 0 (world s) (world s')"
      "x = snd (accept_hello_rx_cb s' t m' l off)" for m' s' x t l off
  proof -
    have w: "world x = world s'" using accept_hello_stays(2) [OF that(1)] that(4) by simp
    show ?thesis
      by (rule less.hyps) (use before_step [OF b that(3)] that accept_hello_stays(1) [OF that(1)] w in auto)
  qed
  have later: "wp (hs_receiver_loop base gd m' (delay 10 s')) (\<lambda>r. stays clk pend s0 (snd (snd r)))"
    if s': "stays clk pend s0 s'" and sp: "spends clk pend (20 + K) K (world s) (world s')" and lt: "clk (world s) < gd"
      and pr: "unat (clk (world s)) + (20 + K) * pend (world s) + K < 2 ^ 32 \<Longrightarrow>
           pend (world s') < pend (world s) \<or> clk (world s) < clk (world s')" for m' s'
  proof -
    let ?x = "delay 10 s'"
    note h = hook_stays_spends(1) [OF s' tm, of "20 + K" 10]
    have sx: "spends clk pend (20 + K) (K + (unat (10 :: u32) + lat)) (world s) (world ?x)" by (rule spends_trans [OF sp h])
    have n: "K + (unat (10 :: u32) + lat) \<le> D" using D by simp
    have f: "unat (clk (world s)) + (20 + K) * pend (world s) + (K + (unat (10 :: u32) + lat)) < 2 ^ 32"
      by (rule before_fits [OF b lt n])
    have "pend (world ?x) < pend (world s) \<or> clk (world s) < clk (world ?x)"
      using pr sp h f unfolding spends_def by force
    then show ?thesis
      by (intro less.hyps) (use before_step [OF b sx] lt n stays_hooks(10) [OF s'] in auto)
  qed
  show ?case
    by (subst hs_receiver_loop.simps)
      (auto simp: wp_simps ticks_stays [OF st] Let_def hs_expired_def gd not_le
        intro!: listen_wp [OF st tm K] again later stays_intros st accept_hello_stays)
qed

text \<open>The sender's pacing: a resend with its backoff, or a delay.\<close>

lemma backoff_next:
  assumes "unat backoff \<le> BO" and "4000 \<le> BO" and "val_internal_backoff_step s backoff tries = (b', t', s')"
  shows "unat b' \<le> BO"
  using assms by (auto simp: val_internal_backoff_step_def Let_def word_less_nat_alt split: if_splits)

lemma hs_pace_spends:
  assumes st: "stays clk pend s0 s" and tm: "timely (cfg s0) clk lat" and BO: "unat backoff \<le> BO" "4000 \<le> BO" and mr: "mr \<le> 500"
    and hw: "length hw = VAL_WIRE_HANDSHAKE_SIZE"
    and p: "hs_pace now mr hw ls backoff tries s = (rs, ls', b', t', s')"
  shows "stays clk pend s0 s' \<and> unat b' \<le> BO \<and> spends clk pend M (BO + 500 + 5 * lat) (world s) (world s')"
proof -
  let ?c = "VAL_HEALTH_RECORD_RETRY (val_metrics_inc_retrans (set_in_retransmit 1 s))"
  have sc: "stays clk pend s0 ?c" using st by (auto simp: val_metrics_inc_retrans_def intro!: stays_intros)
  have wc: "world ?c = world s" by (simp add: sess_defs)
  obtain r1 s1 where sd: "val_internal_send_packet ?c VAL_PKT_HELLO (P_BYTES hw) (of_nat VAL_WIRE_HANDSHAKE_SIZE) 0 = (r1, s1)"
    by (cases "val_internal_send_packet ?c VAL_PKT_HELLO (P_BYTES hw) (of_nat VAL_WIRE_HANDSHAKE_SIZE) 0")
  have s1: "stays clk pend s0 s1"
    using stays_send(2) [OF sc, of hw "of_nat VAL_WIRE_HANDSHAKE_SIZE" VAL_PKT_HELLO 0] hw sd by simp
  have p1: "spends clk pend M (4 * lat) (world s) (world s1)"
    using hook_stays_spends(2) [OF sc tm, of M VAL_PKT_HELLO "P_BYTES hw" "of_nat VAL_WIRE_HANDSHAKE_SIZE" 0] sd wc by simp
  have dl: "spends clk pend M (BO + 500 + 5 * lat) (world s) (world (delay ms x))"
    if "stays clk pend s0 x" "spends clk pend M (4 * lat) (world s) (world x)" "unat ms \<le> BO + 500" for ms x
    by (rule spends_mono [OF spends_trans [OF that(2) hook_stays_spends(1) [OF that(1) tm]]]) (use that(3) in simp)
  have mrn: "unat mr \<le> 500" using mr by (simp add: word_le_nat_alt)
  have gap: "unat (mr - (now - ls)) \<le> 500" if "now - ls < mr"
    using mrn that by (simp add: unat_sub less_imp_le)
  show ?thesis
  proof (cases "tries > 0")
    case False
    then show ?thesis using p st BO dl [OF st, of 10] by (auto simp: hs_pace_def intro: stays_intros)
  next
    case True
    show ?thesis
    proof (cases "now = 0 \<or> mr \<le> now - ls")
      case False
      then have c: "\<not> mr \<le> now - ls" "now \<noteq> 0" "now - ls < mr" by auto
      then have "b' = backoff" "s' = delay (mr - (now - ls)) s" using p True by (auto simp: hs_pace_def)
      then show ?thesis using st BO dl [OF st] gap [OF c(3)] by (auto intro: stays_intros)
    next
      case c: True
      obtain b2 t2 s2 where bs: "val_internal_backoff_step s1 backoff tries = (b2, t2, s2)" by (cases "val_internal_backoff_step s1 backoff tries")
      have "s2 = s1 \<or> s2 = delay backoff s1" using bs by (auto simp: val_internal_backoff_step_def Let_def split: if_splits)
      then have s2: "stays clk pend s0 s2" "spends clk pend M (BO + 500 + 5 * lat) (world s) (world s2)"
        using s1 dl [OF s1 p1, of backoff] BO(1) spends_mono [OF p1, of "BO + 500 + 5 * lat"] by (auto intro: stays_intros)
      have "rs = r1 \<and> b' = backoff \<and> s' = s1 \<or> b' = b2 \<and> s' = s2"
        using p True c sd bs by (auto simp: hs_pace_def Let_def split: if_splits)
      then show ?thesis
        using s1 s2 BO backoff_next [OF BO bs] spends_mono [OF p1, of "BO + 500 + 5 * lat"] by auto
    qed
  qed
qed

text \<open>What a handshake keeps: it may change the packet size and the window, nothing that ending depends on.\<close>

definition settles :: "('w \<Rightarrow> u32) \<Rightarrow> ('w \<Rightarrow> nat) \<Rightarrow> 'w val_session \<Rightarrow> 'w val_session \<Rightarrow> bool" where
  "settles clk pend s s' \<longleftrightarrow> attending clk pend s' \<and> cfg s' = cfg s \<and> lock_depth s' = lock_depth s \<and> pend (world s') \<le> pend (world s)"

lemma stays_settles: "stays clk pend s s' \<Longrightarrow> settles clk pend s s'"
  using stays_attending [of clk pend s s'] by (simp add: settles_def stays_def keeps_def)

lemma settles_trans: "settles clk pend s s' \<Longrightarrow> settles clk pend s' s'' \<Longrightarrow> settles clk pend s s''"
  by (auto simp: settles_def)

lemma settles_attending: "settles clk pend s s' \<Longrightarrow> attending clk pend s'"
  by (simp add: settles_def)

lemma adopt_settles:
  assumes a: "attending clk pend s"
  shows "settles clk pend s (snd (val__adopt_peer_hello s h))"
proof -
  have ok: "session_ok s" using a by (simp add: attending_def good_def)
  show ?thesis
  proof (cases "hello_refusal s h = VAL_OK")
    case False
    then show ?thesis using stays_settles [OF stays_notes(1) [OF stays_refl [OF a]]] by (simp add: adopt_cases [OF ok])
  next
    case True
    let ?s1 = "s\<lparr>effective_packet_size := agreed_size s h, peer_features := hs_features h\<rparr>"
    have "VAL_MIN_PACKET_SIZE \<le> agreed_size s h" "agreed_size s h \<le> packet_size (buffers (cfg s))"
      using True by (simp_all add: hello_refusal_def not_less split: if_splits) (simp add: agreed_size_def)
    then have "session_ok (adopt_window h ?s1)"
      using ok adopt_window_range [of h ?s1] unfolding session_ok_def by (simp add: adopt_window_fields)
    then show ?thesis using a True by (simp add: adopt_cases [OF ok] settles_def attending_def good_def adopt_window_fields)
  qed
qed

lemma note_handshake_settles: "attending clk pend s \<Longrightarrow> settles clk pend s (note_handshake s)"
  by (simp add: settles_def attending_def good_def note_handshake_def session_ok_def window_ok_def sess_defs)

lemma sender_adopt_settles:
  assumes "attending clk pend s"
  shows "settles clk pend s (snd (hs_sender_adopt w s))"
proof -
  note a = adopt_settles [OF assms, of "val_deserialize_handshake w"]
  show ?thesis
    using a settles_trans [OF a note_handshake_settles [OF settles_attending [OF a]]]
    by (simp add: hs_sender_adopt_def Let_def case_prod_beta)
qed

lemma receiver_answer_settles:
  assumes at: "attending clk pend s"
  shows "settles clk pend s (snd (hs_receiver_answer w s))"
proof -
  let ?h = "val_deserialize_handshake w"
  let ?a = "snd (val__adopt_peer_hello s ?h)"
  let ?b = "?a\<lparr>peer_features := hs_features ?h\<rparr>"
  note a = adopt_settles [OF at, of ?h]
  have "session_ok ?b = session_ok ?a" by (simp add: session_ok_def window_ok_def)
  then have ab: "settles clk pend s ?b" using a by (auto simp: settles_def attending_def good_def)
  note sb = stays_refl [OF settles_attending [OF ab]]
  have n: "settles clk pend s x" if "stays clk pend ?b x" for x
    by (rule settles_trans [OF ab stays_settles [OF that]])
  let ?w = "local_hello_wire ?a (effective_packet_size ?a)"
  let ?sd = "snd (val_internal_send_packet ?b VAL_PKT_HELLO (P_BYTES ?w) (of_nat VAL_WIRE_HANDSHAKE_SIZE) 0)"
  have sd: "stays clk pend ?b ?sd"
    by (rule stays_send(2) [OF sb]) (simp_all add: local_hello_wire_eq)
  have fin: "settles clk pend s (note_handshake ?sd)"
    by (rule settles_trans [OF n [OF sd] note_handshake_settles [OF stays_attending [OF sd]]])
  show ?thesis
    using stays_settles [OF stays_notes(1) [OF stays_refl [OF at]]] a n [OF sd] fin
    by (simp add: hs_receiver_answer_def Let_def case_prod_beta local_hello_wire_def [symmetric])
qed

lemma hs_sender_loop_wp:
  assumes tm: "timely (cfg s0) clk lat" and K: "max 1 (unat base) + lat \<le> K" and BO: "4000 \<le> BO"
    and D: "K + (BO + 500 + 5 * lat) \<le> D" and gd: "gd \<noteq> 0" and mr: "mr \<le> 500" and hw: "length hw = VAL_WIRE_HANDSHAKE_SIZE"
    and st: "stays clk pend s0 s" and b: "before clk pend (20 + K) gd D p0 (world s)" and bo: "unat backoff \<le> BO"
  shows "wp (hs_sender_loop base gd mr hw ls backoff tries s) (\<lambda>r. settles clk pend s0 (snd r))"
  using st b bo
proof (induction "pend (world s) * 2 ^ 33 + (2 ^ 32 - unat (clk (world s)))" arbitrary: s ls backoff tries rule: less_induct)
  case less
  note st = less.prems(1) and b = less.prems(2) and bo = less.prems(3)
  have again: "wp (hs_sender_loop base gd mr hw ls backoff tries x) (\<lambda>r. settles clk pend s0 (snd r))"
    if "stays clk pend s0 s'" "pend (world s') < pend (world s)" "spends clk pend (20 + K) 0 (world s) (world s')"
      "x = snd (accept_hello_cb s' t m' l off)" for m' s' x t l off
  proof -
    have w: "world x = world s'" using accept_hello_stays(4) [OF that(1)] that(4) by simp
    show ?thesis
      by (rule less.hyps) (use before_step [OF b that(3)] that accept_hello_stays(3) [OF that(1)] w bo in auto)
  qed
  have adopt: "settles clk pend s0 (snd (hs_sender_adopt m' x))"
    if "stays clk pend s0 s'" "x = snd (accept_hello_cb s' t m' l off)" for m' s' x t l off
  proof -
    have x: "stays clk pend s0 x" using accept_hello_stays(3) [OF that(1)] that(2) by simp
    show ?thesis by (rule settles_trans [OF stays_settles [OF x] sender_adopt_settles [OF stays_attending [OF x]]])
  qed
  let ?p = "\<lambda>s'. hs_pace (clk (world s)) mr hw ls backoff tries s'"
  have later: "settles clk pend s0 (snd (snd (snd (snd (?p s')))))"
    "wp (hs_sender_loop base gd mr hw (fst (snd (?p s'))) (fst (snd (snd (?p s')))) (fst (snd (snd (snd (?p s')))))
       (snd (snd (snd (snd (?p s')))))) (\<lambda>r. settles clk pend s0 (snd r))"
    if s': "stays clk pend s0 s'" and sp: "spends clk pend (20 + K) K (world s) (world s')" and lt: "clk (world s) < gd"
      and pr: "unat (clk (world s)) + (20 + K) * pend (world s) + K < 2 ^ 32 \<Longrightarrow>
           pend (world s') < pend (world s) \<or> clk (world s) < clk (world s')" for s'
  proof -
    let ?n = "K + (BO + 500 + 5 * lat)"
    obtain rs ls' b' t' x where p: "?p s' = (rs, ls', b', t', x)" by (cases "?p s'") auto
    have h: "stays clk pend s0 x" "unat b' \<le> BO" "spends clk pend (20 + K) (BO + 500 + 5 * lat) (world s') (world x)"
      using hs_pace_spends [OF s' tm bo BO mr hw p] by auto
    have sx: "spends clk pend (20 + K) ?n (world s) (world x)" by (rule spends_trans [OF sp h(3)])
    have f: "unat (clk (world s)) + (20 + K) * pend (world s) + ?n < 2 ^ 32" by (rule before_fits [OF b lt D])
    have "pend (world x) < pend (world s) \<or> clk (world s) < clk (world x)"
      using pr sp h(3) f unfolding spends_def by force
    then have "wp (hs_sender_loop base gd mr hw ls' b' t' x) (\<lambda>r. settles clk pend s0 (snd r))"
      by (intro less.hyps) (use before_step [OF b sx] lt D h in auto)
    then show "settles clk pend s0 (snd (snd (snd (snd (?p s')))))"
      "wp (hs_sender_loop base gd mr hw (fst (snd (?p s'))) (fst (snd (snd (?p s')))) (fst (snd (snd (snd (?p s')))))
       (snd (snd (snd (snd (?p s')))))) (\<lambda>r. settles clk pend s0 (snd r))"
      using stays_settles [OF h(1)] by (simp_all add: p)
  qed
  show ?case
    by (subst hs_sender_loop.simps)
      (auto simp: wp_simps ticks_stays [OF st] Let_def hs_expired_def gd not_le
        intro!: listen_wp [OF st tm K] again later adopt stays_intros st accept_hello_stays intro: stays_settles)
qed

section \<open>Whole handshakes\<close>

text \<open>
  The longest listening round of a handshake and the longest round with the pause that follows it. An environment is prompt for
  a session when its hooks are timely, its clock does not read 0 (the code takes 0 for the absence of a clock, and then never
  gives up), and the clock does not wrap around in the time a handshake can take: the budget, two rounds, and a round for
  every byte the peer sends.
\<close>

definition hs_round_ms :: "nat \<Rightarrow> 'w val_session \<Rightarrow> nat" where
  "hs_round_ms lat s = unat (val_internal_get_timeout s VAL_OP_HANDSHAKE) + lat"

definition hs_pause_ms :: "nat \<Rightarrow> 'w val_session \<Rightarrow> nat" where
  "hs_pause_ms lat s = hs_round_ms lat s + (max (unat (backoff_ms_base (retries (cfg s)))) 4000 + 500 + 5 * lat)"

definition prompt :: "('w \<Rightarrow> u32) \<Rightarrow> ('w \<Rightarrow> nat) \<Rightarrow> nat \<Rightarrow> 'w val_session \<Rightarrow> bool" where
  "prompt clk pend lat s \<longleftrightarrow> timely (cfg s) clk lat \<and> clk (world s) \<noteq> 0 \<and>
     unat (clk (world s)) + unat (hs_budget s) + 2 * hs_pause_ms lat s + (20 + hs_round_ms lat s) * pend (world s) < 2 ^ 32"

lemma prompt_before:
  assumes "attending clk pend s" and "prompt clk pend lat s"
  defines "gd \<equiv> hs_global_deadline (clk (world s)) (hs_budget s)"
  shows "gd \<noteq> 0" "timely (cfg s) clk lat" "max 1 (unat (val_internal_get_timeout s VAL_OP_HANDSHAKE)) + lat \<le> hs_round_ms lat s"
    "spends clk pend (20 + hs_round_ms lat s) n (world s) w \<Longrightarrow> n \<le> hs_pause_ms lat s \<Longrightarrow>
       before clk pend (20 + hs_round_ms lat s) gd (hs_pause_ms lat s) (pend (world s)) w"
proof -
  have nz: "clk (world s) \<noteq> 0" and
    fits: "unat (clk (world s)) + unat (hs_budget s) + 2 * hs_pause_ms lat s + (20 + hs_round_ms lat s) * pend (world s) < 2 ^ 32"
    using assms(2) by (auto simp: prompt_def)
  then have u: "unat gd = unat (clk (world s)) + unat (hs_budget s)" by (simp add: gd_def hs_global_deadline_def unat_word_ariths)
  then show "gd \<noteq> 0" using nz by (auto dest!: unat_gt_0 [THEN iffD2])
  show "timely (cfg s) clk lat" using assms(2) by (simp add: prompt_def)
  have "val_internal_get_timeout s VAL_OP_HANDSHAKE \<noteq> 0" using timeout_fits [OF assms(1)] by (simp add: fit_ms_def)
  then show "max 1 (unat (val_internal_get_timeout s VAL_OP_HANDSHAKE)) + lat \<le> hs_round_ms lat s"
    using unat_gt_0 [of "val_internal_get_timeout s VAL_OP_HANDSHAKE"] by (simp add: hs_round_ms_def)
  show "before clk pend (20 + hs_round_ms lat s) gd (hs_pause_ms lat s) (pend (world s)) w"
    if "spends clk pend (20 + hs_round_ms lat s) n (world s) w" "n \<le> hs_pause_ms lat s"
    using that fits unfolding before_def spends_def u by linarith
qed

lemma handshake_receiver_wp:
  assumes a: "attending clk pend s" and p: "handshake_done s \<or> prompt clk pend lat s"
  shows "wp (val_internal_do_handshake_receiver s) (\<lambda>r. settles clk pend s (snd r))"
proof (cases "handshake_done s")
  case True
  then show ?thesis using stays_settles [OF stays_refl [OF a]] by (simp add: val_internal_do_handshake_receiver_def wp_simps)
next
  case False
  with p have p: "prompt clk pend lat s" by simp
  note b = prompt_before [OF a p]
  have D: "hs_round_ms lat s + 10 + lat \<le> hs_pause_ms lat s" by (simp add: hs_pause_ms_def)
  note l = hs_receiver_loop_wp [OF b(2,3) D b(1) stays_refl [OF a] b(4) [OF spends_refl, of 0]]
  have ans: "settles clk pend s (snd (hs_receiver_answer w x))" if "stays clk pend s x" for w x
    by (rule settles_trans [OF stays_settles [OF that] receiver_answer_settles [OF stays_attending [OF that]]])
  show ?thesis
    using False unfolding val_internal_do_handshake_receiver_def ticks_attending [OF a] Let_def prod.case
    by (auto simp: wp_simps intro!: wp_mono [OF l] ans intro: stays_settles)
qed

lemma handshake_sender_wp:
  assumes a: "attending clk pend s" and p: "handshake_done s \<or> prompt clk pend lat s"
  shows "wp (val_internal_do_handshake_sender s) (\<lambda>r. settles clk pend s (snd r))"
proof (cases "handshake_done s")
  case True
  then show ?thesis using stays_settles [OF stays_refl [OF a]] by (simp add: val_internal_do_handshake_sender_def wp_simps)
next
  case False
  with p have p: "prompt clk pend lat s" by simp
  note b = prompt_before [OF a p] and st = stays_refl [OF a]
  let ?hw = "local_hello_wire s (packet_size (buffers (cfg s)))" and ?BO = "max (unat (backoff_ms_base (retries (cfg s)))) 4000"
  obtain rc x where sd: "val_internal_send_packet s VAL_PKT_HELLO (P_BYTES ?hw) (of_nat VAL_WIRE_HANDSHAKE_SIZE) 0 = (rc, x)"
    by (cases "val_internal_send_packet s VAL_PKT_HELLO (P_BYTES ?hw) (of_nat VAL_WIRE_HANDSHAKE_SIZE) 0")
  have hw: "length ?hw = VAL_WIRE_HANDSHAKE_SIZE" by (simp add: local_hello_wire_eq)
  have mr: "hs_min_resend s \<le> 500" by (simp add: hs_min_resend_def Let_def not_less)
  have x: "stays clk pend s x"
    using stays_send(2) [OF st _ _, of ?hw "of_nat VAL_WIRE_HANDSHAKE_SIZE" VAL_PKT_HELLO 0] hw unfolding sd by simp
  have D: "hs_round_ms lat s + (?BO + 500 + 5 * lat) \<le> hs_pause_ms lat s" by (simp add: hs_pause_ms_def)
  have bx: "before clk pend (20 + hs_round_ms lat s) (hs_global_deadline (clk (world s)) (hs_budget s)) (hs_pause_ms lat s)
      (pend (world s)) (world x)"
    by (rule b(4) [OF hook_stays_spends(2) [OF st b(2), of _ VAL_PKT_HELLO "P_BYTES ?hw" "of_nat VAL_WIRE_HANDSHAKE_SIZE" 0, unfolded sd snd_conv]])
      (simp add: hs_pause_ms_def)
  note l = hs_sender_loop_wp [OF b(2,3) _ D b(1) mr hw x bx]
  have e: "stays clk pend s (VAL_SET_FEATURE_ERROR s m)" for m by (rule stays_notes(1) [OF st])
  show ?thesis
    using False unfolding val_internal_do_handshake_sender_def ticks_attending [OF a] Let_def prod.case sd ticks_stays [OF x]
    by (auto simp: wp_simps intro!: l stays_settles [OF x] stays_settles [OF st] stays_settles [OF e])
qed

end
