(* ===== verification/Val_Returns.thy ===== *)
theory Val_Returns
  imports Val_Listen
begin

text \<open>
  Sending and receiving return: by induction on the bytes the peer still sends and on the tries left,
  every loop of \<^verbatim>\<open>val_receiver.c\<close> and \<^verbatim>\<open>val_sender.c\<close> ends, and with them \<^verbatim>\<open>val_receive_files\<close> and
  \<^verbatim>\<open>val_send_files\<close>.
\<close>

section \<open>The receiver returns\<close>

text \<open>The result of a part that used up a packet when it goes on.\<close>

definition took :: "('w \<Rightarrow> u32) \<Rightarrow> ('w \<Rightarrow> nat) \<Rightarrow> 'w val_session \<Rightarrow> 'a flow \<times> 'w val_session \<Rightarrow> bool" where
  "took clk pend s0 r \<longleftrightarrow> stays clk pend s0 (snd r) \<and> (\<forall>x. fst r = Next x \<longrightarrow> pend (world (snd r)) < pend (world s0))"

lemma took_Return [simp]: "took clk pend s0 (Return st, s) \<longleftrightarrow> stays clk pend s0 s"
  by (simp add: took_def)

lemma took_Next [simp]: "took clk pend s0 (Next x, s) \<longleftrightarrow> stays clk pend s0 s \<and> pend (world s) < pend (world s0)"
  by (auto simp: took_def)

lemma stays_less: "stays clk pend s0 s \<Longrightarrow> pend (world s') < pend (world s) \<Longrightarrow> pend (world s') < pend (world s0)"
  using stays_pend [of clk pend s0 s] by simp

lemma took_after: "stays clk pend s0 s \<Longrightarrow> took clk pend s r \<Longrightarrow> took clk pend s0 r"
  using stays_trans [of clk pend s0 s] stays_less [of clk pend s0 s] by (auto simp: took_def)

lemma tries_less: "tries \<noteq> 0 \<Longrightarrow> unat (tries - 1) < unat (tries :: u8)"
  using unat_minus_one [of tries] by (simp add: unat_gt_0)

lemma recv_meta_loop_wp:
  assumes "stays clk pend s0 s" and t: "fit_ms to_ms" and P: "P \<le> packet_size (buffers (cfg s0))"
  shows "wp (recv_meta_loop P to_ms tries backoff s) (took clk pend s0)"
  using assms(1)
proof (induction "unat tries" arbitrary: tries backoff s rule: less_induct)
  case less
  show ?case
    by (subst recv_meta_loop.simps, unfold Let_def)
      (auto simp: wp_simps intro!: recv_buf_wp [of clk pend s0] t P less.hyps tries_less stays_intros less.prems
        elim: stays_less [rotated])
qed

lemma recv_meta_wp:
  assumes st: "stays clk pend s0 s" and P: "P \<le> packet_size (buffers (cfg s0))"
  shows "wp (recv_meta P s) (took clk pend s0)"
  unfolding recv_meta_def Let_def
  by (auto simp: wp_simps took_def intro!: wp_mono [OF recv_meta_loop_wp [OF st timeout_fits [OF stays_attending [OF st]] P]] stays_intros)

lemma skip_recv_wp:
  assumes "stays clk pend s0 s" and t: "fit_ms to_ms" and P: "P \<le> packet_size (buffers (cfg s0))"
  shows "wp (skip_recv_loop P to_ms tries backoff s) (took clk pend s0)"
  using assms(1)
proof (induction "unat tries" arbitrary: tries backoff s rule: less_induct)
  case less
  show ?case
    by (subst skip_recv_loop.simps)
      (auto simp: wp_simps intro!: recv_buf_wp [of clk pend s0] t P less.hyps tries_less stays_intros less.prems
        elim: stays_less [rotated])
qed

lemma skip_loop_wp:
  assumes "stays clk pend s0 s" and P: "P \<le> packet_size (buffers (cfg s0))"
  shows "wp (skip_loop P n s) (\<lambda>r. stays clk pend s0 (snd r))"
  using assms(1)
proof (induction "pend (world s)" arbitrary: s rule: less_induct)
  case less
  note a = stays_attending [OF less.prems]
  have "wp (skip_recv_loop P (val_internal_get_timeout s VAL_OP_DONE_ACK) (ack_retries (retries (cfg s)))
       (backoff_ms_base (retries (cfg s))) s) (took clk pend s)"
    by (rule skip_recv_wp [OF stays_refl [OF a] timeout_fits [OF a]]) (use P stays_cfg [OF less.prems] in simp)
  then show ?case
    by (subst skip_loop.simps)
      (auto simp: wp_simps took_def elim!: wp_mono intro!: stays_intros less.hyps intro: stays_trans [OF less.prems])
qed

text \<open>Bytes pending and tries left, in this order.\<close>

lemma rank_packet:
  assumes "p' < p"
  shows "p' * 256 + unat (t' :: u8) < p * 256 + unat (t :: u8)"
proof -
  have "p' * 256 + 256 \<le> p * 256" using mult_le_mono1 [of "Suc p'" p 256] assms by simp
  then show ?thesis using unsigned_less [of t', where 'a = nat] by simp
qed

lemma rank_try:
  "stays clk pend s s' \<Longrightarrow> t \<noteq> 0 \<Longrightarrow> pend (world s') * 256 + unat (t - 1) < pend (world s) * 256 + unat (t :: u8)"
  using tries_less [of t] stays_pend [of clk pend s s'] by linarith

lemma wait_resume_req_wp:
  assumes "stays clk pend s0 s" and t: "fit_ms to_ms"
  shows "wp (wait_resume_req to_ms tries backoff s) (\<lambda>r. stays clk pend s0 (snd r))"
  using assms(1)
proof (induction "pend (world s) * 256 + unat tries" arbitrary: tries backoff s rule: less_induct)
  case less
  show ?case
    by (subst wait_resume_req.simps)
      (auto simp: wp_simps intro!: recv_none_wp [of clk pend s0] t stays_intros less.prems less.hyps
        intro: rank_packet rank_try [of clk pend s])
qed

subsection \<open>Negotiation\<close>

lemma determine_wp:
  assumes st: "stays clk pend s0 s" and Q: "\<And>a o' c l s'. stays clk pend s0 s' \<Longrightarrow> Q (a, o', c, l, s')"
  shows "wp (determine_resume_action s name n) Q"
  unfolding determine_resume_action_def Let_def
  by (auto simp: wp_simps intro!: Q crc_region_wp [of clk pend s0] stays_intros st)

lemma reply_resume_wp:
  assumes st: "stays clk pend s0 s"
    and Q: "\<And>st s'. stays clk pend s0 s' \<Longrightarrow> Q (Return st, s')"
      "\<And>a o' w s'. stays clk pend s0 s' \<Longrightarrow> ctx_fits (Some w) \<Longrightarrow> Q (Next (a, o', w), s')"
  shows "wp (reply_resume rf s) Q"
  unfolding reply_resume_def Let_def
  by (auto simp: wp_simps ctx_fits_def wire_defs mem_simps intro!: Q determine_wp [of clk pend s0] stays_intros st)

lemma stays_verify_response [stays_intros]:
  "stays clk pend s0 s \<Longrightarrow> stays clk pend s0 (send_verify_response res crc s)"
  unfolding send_verify_response_def by (rule stays_intros) (simp_all add: wire_defs mem_simps)

lemma receiver_verify_wp:
  assumes st: "stays clk pend s0 s" and rr: "ctx_fits (Some w)" and Q: "\<And>fl s'. stays clk pend s0 s' \<Longrightarrow> Q (fl, s')"
  shows "wp (receiver_verify mskip rf w s) Q"
  unfolding receiver_verify_def Let_def
  by (auto simp: wp_simps wire_defs intro!: Q rr wait_wp(5) [of clk pend s0] crc_region_wp [of clk pend s0] stays_intros st)

lemma stays_announce [stays_intros]: "stays clk pend s0 s \<Longrightarrow> stays clk pend s0 (announce_start rf off s)"
  unfolding announce_start_def by (rule stays_intros)

lemma follow_action_wp:
  assumes st: "stays clk pend s0 s" and rr: "ctx_fits (Some w)" and Q: "\<And>fl s'. stays clk pend s0 s' \<Longrightarrow> Q (fl, s')"
  shows "wp (follow_action mskip a off w rf s) Q"
  by (cases a) (auto simp: follow_action_def wp_simps intro!: Q rr receiver_verify_wp [of clk pend s0] stays_intros st)

lemma stays_validate_file [stays_intros]:
  assumes "stays clk pend s0 s"
  shows "stays clk pend s0 (snd (validate_file rf s))"
proof -
  have h: "stays clk pend s0 s' \<Longrightarrow> stays clk pend s0 (snd (val_handle_validation_action s' a))" for a s'
    by (cases a) (auto simp: val_handle_validation_action_def intro!: stays_intros)
  show ?thesis by (auto simp: validate_file_def Let_def case_prod_beta intro!: stays_intros h assms)
qed

lemma validate_or_skip_wp:
  assumes "stays clk pend s0 s" and "\<And>fl s'. stays clk pend s0 s' \<Longrightarrow> Q (fl, s')"
  shows "wp (validate_or_skip rf s) Q"
  by (auto simp: validate_or_skip_def wp_simps intro!: assms stays_intros)

lemma stays_resume_ack [stays_intros]: "stays clk pend s0 s \<Longrightarrow> stays clk pend s0 (snd (send_resume_ack s off))"
  unfolding send_resume_ack_def by (rule stays_intros)

lemma negotiate_never_wp:
  assumes st: "stays clk pend s0 s" and Q: "\<And>fl s'. stays clk pend s0 s' \<Longrightarrow> Q (fl, s')"
  shows "wp (negotiate_never rf s) Q"
  unfolding negotiate_never_def Let_def
  by (auto simp: wp_simps intro!: Q recv_none_wp [of clk pend s0] timeout_fits [OF stays_attending [OF st]]
      reply_resume_wp [of clk pend s0] follow_action_wp [of clk pend s0] validate_or_skip_wp [of clk pend s0] stays_intros st)

lemma negotiate_resume_wp:
  assumes st: "stays clk pend s0 s" and Q: "\<And>fl s'. stays clk pend s0 s' \<Longrightarrow> Q (fl, s')"
  shows "wp (negotiate_resume rf s) Q"
  unfolding negotiate_resume_def Let_def
  by (auto simp: wp_simps intro!: Q wp_mono [OF wait_resume_req_wp [OF st timeout_fits [OF stays_attending [OF st]]]]
      reply_resume_wp [of clk pend s0] follow_action_wp [of clk pend s0] stays_intros st)

subsection \<open>Data and files\<close>

lemma stays_recv_cancelled [stays_intros]: "stays clk pend s0 s \<Longrightarrow> stays clk pend s0 (recv_cancelled f rf s)"
  by (auto simp: recv_cancelled_def Let_def intro!: stays_intros)

lemma recv_data_wait_wp:
  assumes "stays clk pend s0 s" and t: "fit_ms to_ms" and P: "P \<le> packet_size (buffers (cfg s0))"
  shows "wp (recv_data_wait P f rf to_ms tries backoff s) (took clk pend s0)"
  using assms(1)
proof (induction "unat tries" arbitrary: tries backoff s rule: less_induct)
  case less
  show ?case
    by (subst recv_data_wait.simps, unfold Let_def)
      (auto simp: wp_simps intro!: recv_buf_wp [of clk pend s0] t P less.hyps tries_less stays_intros less.prems
        elim: stays_less [rotated])
qed

lemma stays_recv_progress [stays_intros]: "stays clk pend s0 s \<Longrightarrow> stays clk pend s0 (snd (recv_progress b rf w s))"
  by (auto simp: recv_progress_def Let_def case_prod_beta intro!: stays_intros)

lemma stays_data_ack [stays_intros]: "stays clk pend s0 s \<Longrightarrow> stays clk pend s0 (snd (send_data_ack w s))"
  unfolding send_data_ack_def by (rule stays_intros)

lemma stays_after_data [stays_intros]: "stays clk pend s0 s \<Longrightarrow> stays clk pend s0 (snd (after_data f rf b io v s))"
  by (auto simp: after_data_def Let_def case_prod_beta intro!: stays_intros)

lemma stays_receive_data [stays_intros]:
  assumes "stays clk pend s0 s"
  shows "stays clk pend s0 (snd (receive_data f rf b rx v s))"
  unfolding receive_data_def Let_def case_prod_beta
  by (auto intro!: stays_intros assms)

lemma stays_receive_packet [stays_intros]:
  assumes "stays clk pend s0 s"
  shows "stays clk pend s0 (snd (receive_packet f rf b rx v s))"
  using stays_receive_data [OF assms, of f rf b rx v]
  by (auto simp: receive_packet_def Let_def case_prod_beta intro!: stays_intros assms split: flow.splits)

lemma recv_data_loop_wp:
  assumes "stays clk pend s0 s" and P: "P \<le> packet_size (buffers (cfg s0))"
  shows "wp (recv_data_loop P f rf b v s) (\<lambda>r. stays clk pend s0 (snd r))"
  using assms(1)
proof (induction "pend (world s)" arbitrary: s v rule: less_induct)
  case less
  note a = stays_attending [OF less.prems]
  have w: "wp (recv_data_wait P f rf (val_internal_get_timeout s VAL_OP_DATA_RECV) (data_retries (retries (cfg s)))
       (backoff_ms_base (retries (cfg s))) s) (took clk pend s)"
    by (rule recv_data_wait_wp [OF stays_refl [OF a] timeout_fits [OF a]]) (use P stays_cfg [OF less.prems] in simp)
  have h: "pend (world (snd (receive_packet f rf b rx v s'))) < pend (world s)" "stays clk pend s0 (snd (receive_packet f rf b rx v s'))"
    if "stays clk pend s s'" "pend (world s') < pend (world s)" for rx s'
    using that stays_pend [OF stays_receive_packet [OF stays_refl [OF stays_attending [OF that(1)]]], of f rf b rx v]
      stays_receive_packet [OF stays_trans [OF less.prems that(1)], of f rf b rx v] by simp_all
  show ?case
    by (subst recv_data_loop.simps)
      (auto simp: wp_simps took_def intro!: wp_mono [OF w] h less.hyps intro: stays_trans [OF less.prems])
qed

lemma file_received_stays [stays_intros]: "stays clk pend s0 s \<Longrightarrow> stays clk pend s0 (snd (file_received rf b st s))"
  by (auto simp: file_received_def Let_def val_metrics_inc_files_recv_def intro!: stays_intros)

lemma recv_body_wp:
  assumes st: "stays clk pend s0 s" and P: "P \<le> packet_size (buffers (cfg s0))"
  shows "wp (recv_body P rf off sk b s) (\<lambda>r. stays clk pend s0 (snd r))"
  unfolding recv_body_def Let_def
  by (auto simp: wp_simps intro!: wp_mono [OF skip_loop_wp [of clk pend s0]] wp_mono [OF recv_data_loop_wp [of clk pend s0]] P st stays_intros)

lemma recv_one_wp:
  assumes st: "stays clk pend s0 s" and P: "P \<le> packet_size (buffers (cfg s0))"
  shows "wp (recv_one P b s) (took clk pend s0)"
proof -
  have b: "wp (recv_body P rf off sk b s2) (took clk pend s0)"
    if "stays clk pend s1 s2" "stays clk pend s0 s1" "pend (world s1) < pend (world s0)" for rf off sk s1 s2
  proof (rule wp_mono [OF recv_body_wp [OF that(1)]])
    show "P \<le> packet_size (buffers (cfg s1))" using P stays_cfg [OF that(2)] by simp
    fix r :: "recv_batch flow \<times> 'a val_session" assume r: "stays clk pend s1 (snd r)"
    show "took clk pend s0 r" using stays_trans [OF that(2) r] stays_pend [OF r] that(3) by (simp add: took_def)
  qed
  have n: "wp (negotiate_never rf s1) Q" "wp (negotiate_resume rf s1) Q"
    if "stays clk pend s0 s1" "\<And>fl s2. stays clk pend s1 s2 \<Longrightarrow> stays clk pend s0 s2 \<Longrightarrow> Q (fl, s2)" for rf s1 Q
    using negotiate_never_wp [OF stays_refl [OF stays_attending [OF that(1)]], of Q rf]
      negotiate_resume_wp [OF stays_refl [OF stays_attending [OF that(1)]], of Q rf] stays_trans [OF that(1)] that(2) by blast+
  show ?thesis
    unfolding recv_one_def
    by (auto simp: wp_simps intro!: wp_mono [OF recv_meta_wp [OF st P]] n intro: b)
qed

lemma receive_files_loop_wp:
  assumes "stays clk pend s0 s" and P: "P \<le> packet_size (buffers (cfg s0))"
  shows "wp (receive_files_loop P b s) (\<lambda>r. stays clk pend s0 (snd r))"
  using assms(1)
proof (induction "pend (world s)" arbitrary: s b rule: less_induct)
  case less
  note a = stays_attending [OF less.prems]
  have w: "wp (recv_one P b s) (took clk pend s)"
    by (rule recv_one_wp [OF stays_refl [OF a]]) (use P stays_cfg [OF less.prems] in simp)
  show ?case
    by (subst receive_files_loop.simps)
      (auto simp: wp_simps took_def intro!: wp_mono [OF w] less.hyps intro: stays_trans [OF less.prems])
qed

lemma internal_receive_files_wp:
  assumes st: "stays clk pend s0 s"
  shows "wp (val_internal_receive_files s) (\<lambda>r. stays clk pend s0 (snd r))"
proof -
  have "mtu s \<le> packet_size (buffers (cfg s))" using stays_good [OF st] by (simp add: good_def session_ok_def mtu_def)
  then show ?thesis
    unfolding val_internal_receive_files_def Let_def
    by (auto simp: wp_simps stays_cfg [OF st] intro!: receive_files_loop_wp stays_intros st)
qed

section \<open>The sender returns\<close>

lemma stays_success [stays_intros]: "stays clk pend s0 s \<Longrightarrow> stays clk pend s0 (val_internal_record_transmission_success s)"
  by (erule stays_step) (rule keeps_success)

lemma stays_metrics [stays_intros]:
  assumes "stays clk pend s0 s"
  shows "stays clk pend s0 (val_metrics_inc_retrans s)" "stays clk pend s0 (val_metrics_inc_timeout s)"
    "stays clk pend s0 (val_metrics_inc_crcerr s)" "stays clk pend s0 (val_metrics_inc_files_sent s)"
  unfolding val_metrics_inc_retrans_def val_metrics_inc_timeout_def val_metrics_inc_crcerr_def val_metrics_inc_files_sent_def
  by (auto intro!: stays_intros assms)

lemma stays_file_size [stays_intros]:
  assumes "stays clk pend s0 s"
  shows "stays clk pend s0 (snd (snd (snd (get_file_size_and_name s path))))"
  unfolding get_file_size_and_name_def Let_def case_prod_beta
  by (auto intro!: stays_intros assms split: option.splits)

lemma stays_metadata [stays_intros]:
  "stays clk pend s0 s \<Longrightarrow> stays clk pend s0 (snd (send_metadata s path n name))"
  unfolding send_metadata_def Let_def
  by (rule stays_intros) (simp_all add: wire_defs mem_simps char_array_def)

lemma stays_close_and_report [stays_intros]: "stays clk pend s0 s \<Longrightarrow> stays clk pend s0 (close_and_report f name path st s)"
  by (auto simp: close_and_report_def intro!: stays_intros)

lemma stays_emit_progress [stays_intros]:
  "stays clk pend s0 s \<Longrightarrow> stays clk pend s0 (snd (val_emit_progress_sender s c name n frc))"
  by (auto simp: val_emit_progress_sender_def Let_def case_prod_beta intro!: stays_intros split: option.splits)

lemma stays_rewind [stays_intros]: "stays clk pend s0 s \<Longrightarrow> stays clk pend s0 (rewind_file v s)"
  by (auto simp: rewind_file_def Let_def case_prod_beta intro!: stays_intros)

lemma stays_send_health [stays_intros]: "stays clk pend s0 s \<Longrightarrow> stays clk pend s0 (snd (send_health f name path s))"
  by (auto simp: send_health_def Let_def case_prod_beta intro!: stays_intros)

lemma stays_open_for_send [stays_intros]:
  assumes "stays clk pend s0 s"
  shows "stays clk pend s0 (snd (open_for_send fp name path n off pg s))"
  unfolding open_for_send_def Let_def case_prod_beta
  by (auto intro!: stays_intros assms split: option.splits)

subsection \<open>Negotiation and the end of a file\<close>

lemma verify_request_size: "length (val_serialize_verify_request a c n (replicate 16 0)) = 16"
  by (simp add: wire_defs mem_simps)

lemma verify_request_nonempty: "val_serialize_verify_request a c n (replicate 16 0) \<noteq> []"
  using verify_request_size [of a c n] by force

lemma wp_action [wp_simps]:
  "wp (case a of VAL_RESUME_SKIP_FILE \<Rightarrow> m1 | VAL_RESUME_START_ZERO \<Rightarrow> m2 | VAL_RESUME_START_OFFSET \<Rightarrow> m3
     | VAL_RESUME_VERIFY_FIRST \<Rightarrow> m4 | VAL_RESUME_ABORT_FILE \<Rightarrow> m5 | VAL_RESUME_ACTION_OTHER x \<Rightarrow> m6 x) Q \<longleftrightarrow>
   (a = VAL_RESUME_SKIP_FILE \<longrightarrow> wp m1 Q) \<and> (a = VAL_RESUME_START_ZERO \<longrightarrow> wp m2 Q) \<and> (a = VAL_RESUME_START_OFFSET \<longrightarrow> wp m3 Q) \<and>
   (a = VAL_RESUME_VERIFY_FIRST \<longrightarrow> wp m4 Q) \<and> (a = VAL_RESUME_ABORT_FILE \<longrightarrow> wp m5 Q) \<and>
   (\<forall>x. a = VAL_RESUME_ACTION_OTHER x \<longrightarrow> wp (m6 x) Q)"
  by (cases a) simp_all

lemma sender_verify_wp:
  assumes st: "stays clk pend s0 s" and Q: "\<And>st off s'. stays clk pend s0 s' \<Longrightarrow> Q (st, off, s')"
  shows "wp (sender_verify fp off vl s) Q"
  unfolding sender_verify_def Let_def
  by (auto simp: wp_simps verify_request_size verify_request_nonempty
      intro!: Q crc_region_wp [of clk pend s0] wait_wp(3) [of clk pend s0] stays_intros st)

lemma resume_negotiation_wp:
  assumes st: "stays clk pend s0 s" and Q: "\<And>st off s'. stays clk pend s0 s' \<Longrightarrow> Q (st, off, s')"
  shows "wp (handle_resume_negotiation s n fp) Q"
  unfolding handle_resume_negotiation_def Let_def
  by (auto simp: wp_simps intro!: Q sender_verify_wp [of clk pend s0] wait_wp(4) [of clk pend s0] stays_intros st)

lemma send_done_wp:
  assumes st: "stays clk pend s0 s"
  shows "wp (send_done f name path n s) (\<lambda>r. stays clk pend s0 (snd r))"
    "wp (send_skipped name path n s) (\<lambda>r. stays clk pend s0 (snd r))"
  unfolding send_done_def send_skipped_def Let_def
  by (auto simp: wp_simps intro!: wait_wp(1) [of clk pend s0] stays_intros st)

subsection \<open>The window\<close>

text \<open>A packet of the largest payload fits.\<close>

definition io_fits :: "'w val_session \<Rightarrow> sender_vars \<Rightarrow> bool" where
  "io_fits s v \<longleftrightarrow> unat (io_max_payload (sv_io v)) + 12 \<le> unat (mtu s)"

lemma stays_read_data [stays_intros]:
  "stays clk pend s0 s \<Longrightarrow> stays clk pend s0 (snd (read_data_loop h n got s))"
proof (induction h n got s rule: read_data_loop.induct)
  case (1 h n got s)
  show ?case
    by (subst read_data_loop.simps) (auto simp: Let_def case_prod_beta intro!: stays_intros 1)
qed

lemma send_in_buffer_keeps:
  assumes g: "good clk pend s" and n: "unat n + (if ex then 8 else 0) + 12 \<le> unat (mtu s)"
  shows "keeps pend s (snd (val_internal_send_packet_ex s VAL_PKT_DATA P_IN_SEND_BUF (ucast (n :: size_t)) off ex))"
proof -
  have ok: "session_ok s" using g by (simp add: good_def)
  have m: "unat (mtu s) \<le> length (send_buf s)" "unat (mtu s) \<le> 2097152"
    using ok session_ok_psize [OF ok] by (auto simp: session_ok_def mtu_def word_le_nat_alt)
  define bs where "bs = mem_read (send_buf s) 8 (unat n)"
  have l: "length bs = unat n" using m n by (simp add: bs_def mem_simps)
  have p: "payload_is (send_buf s) P_IN_SEND_BUF bs" using m n l by (simp add: payload_is_def bs_def)
  have r: "12 + needs_room VAL_PKT_DATA bs off ex \<le> unat (mtu s)" using n l by (simp add: needs_room_def wire_content_def split: if_splits)
  have u: "(ucast n :: u32) = of_nat (length bs)" by (simp add: l unsigned_ucast_eq)
  show ?thesis using send_packet_keeps [OF g p r] by (simp add: val_internal_send_packet_ex_def u)
qed

text \<open>Sending the next packet; each success counts one packet more in flight.\<close>

lemma stays_send_data [stays_intros]:
  assumes "stays clk pend s0 s" and "unat n + (if ex then 8 else 0) + 12 \<le> unat (mtu s0)"
  shows "stays clk pend s0 (snd (val_internal_send_packet_ex s VAL_PKT_DATA P_IN_SEND_BUF (ucast (n :: size_t)) off ex))"
proof -
  have "mtu s = mtu s0" using stays_cfg [OF assms(1)] stays_mtu [OF assms(1)] by (simp add: mtu_def)
  then show ?thesis using stays_step [OF assms(1)] send_in_buffer_keeps [OF stays_good [OF assms(1)], of n ex off] assms(2) by simp
qed

text \<open>The bytes of a packet: at most the payload without the room for an offset.\<close>

lemma to_read_fits:
  fixes rem m :: size_t and k :: u32
  assumes "unat k + 12 \<le> M" and "m = ucast k" and "ex \<longrightarrow> \<not> m \<le> 8"
  defines "tr \<equiv> (if rem < (if ex then m - 8 else m) then rem else (if ex then m - 8 else m))"
  shows "unat tr + (if ex then 8 else 0) + 12 \<le> M"
proof -
  have "unat m = unat k" using assms(2) by (simp add: unsigned_ucast_eq)
  moreover have "ex \<Longrightarrow> unat (m - 8) + 8 = unat m" using assms(3) by (auto simp: unat_sub word_le_nat_alt not_le)
  ultimately show ?thesis using assms(1) by (auto simp: tr_def word_less_nat_alt)
qed

lemma send_data_packet_stays:
  assumes st: "stays clk pend s0 s" and io: "io_fits s0 v" and r: "send_data_packet v inc s = (res, v', s')"
  shows "stays clk pend s0 s'" "io_fits s0 v'" "sv_win v' = sv_win v" "io_file_size (sv_io v') = io_file_size (sv_io v)"
    "res = VAL_OK \<Longrightarrow> sv_next_to_send v < io_file_size (sv_io v) \<Longrightarrow> sv_inflight v' = sv_inflight v + 1"
proof -
  have f: "unat (io_max_payload (sv_io v)) + 12 \<le> unat (mtu s0)" using io by (simp add: io_fits_def)
  define m :: size_t where "m = ucast (io_max_payload (sv_io v))"
  define tr where "tr = (if io_file_size (sv_io v) - sv_next_to_send v < (if inc then m - 8 else m)
      then io_file_size (sv_io v) - sv_next_to_send v else (if inc then m - 8 else m))"
  have t: "unat tr + (if inc then 8 else 0) + 12 \<le> unat (mtu s0)" if "\<not> (inc \<and> m \<le> 8)"
    unfolding tr_def by (rule to_read_fits [OF f m_def]) (use that in simp)
  have pos: "tr \<noteq> 0" if "\<not> (inc \<and> m \<le> 8)" "io_max_payload (sv_io v) \<noteq> 0" "sv_next_to_send v < io_file_size (sv_io v)"
  proof -
    have "unat m \<noteq> 0" using that(2) by (simp add: m_def unsigned_ucast_eq unat_eq_0)
    then have "m \<noteq> 0" by auto
    then show ?thesis using that by (auto simp: tr_def)
  qed
  define p where "p = (if io_file_cursor (sv_io v) \<noteq> sv_next_to_send v
      then ((sv_io v)\<lparr>io_file_cursor := sv_next_to_send v\<rparr>,
            snd (fs_seek (io_file_handle (sv_io v)) (sint (sv_next_to_send v)) SEEK_SET s)) else (sv_io v, s))"
  obtain i1 s1 where p: "p = (i1, s1)" by (cases p)
  have s1: "stays clk pend s0 s1" and i1: "io_max_payload i1 = io_max_payload (sv_io v)" "io_file_size i1 = io_file_size (sv_io v)"
    using p st stays_hooks(4) [OF st] by (auto simp: p_def split: if_splits)
  obtain got s2 where g: "read_data_loop (io_file_handle i1) (unat tr) 0 s1 = (got, s2)"
    by (cases "read_data_loop (io_file_handle i1) (unat tr) 0 s1")
  have s2: "stays clk pend s0 s2" using stays_read_data [OF s1, of "io_file_handle i1" "unat tr" 0] g by simp
  obtain q s3 where x: "val_internal_send_packet_ex s2 VAL_PKT_DATA P_IN_SEND_BUF (ucast tr) (sv_next_to_send v) inc = (q, s3)"
    by (cases "val_internal_send_packet_ex s2 VAL_PKT_DATA P_IN_SEND_BUF (ucast tr) (sv_next_to_send v) inc")
  have s3: "stays clk pend s0 s3" if "\<not> (inc \<and> m \<le> 8)" using stays_send_data [OF s2 t [OF that], of "sv_next_to_send v"] x by simp
  have e: "send_data_packet v inc s =
    (if fs_fread (filesystem (cfg s)) = None \<or> io_max_payload (sv_io v) = 0 then (VAL_ERR_INVALID_ARG, v, s)
     else if sv_next_to_send v \<ge> io_file_size (sv_io v) then (VAL_OK, v, s)
     else if inc \<and> m \<le> 8 then (VAL_ERR_INVALID_ARG, v, s)
     else if tr = 0 then (VAL_OK, v, s)
     else if got \<noteq> unat tr then (VAL_ERR_IO, v\<lparr>sv_io := i1\<rparr>, s2)
     else if q \<noteq> VAL_OK then (q, v\<lparr>sv_io := i1\<rparr>, s3)
     else (VAL_OK, v\<lparr>sv_io := i1\<lparr>io_file_cursor := io_file_cursor i1 + tr\<rparr>, sv_next_to_send := sv_next_to_send v + tr,
             sv_inflight := sv_inflight v + 1\<rparr>, s3))"
    unfolding send_data_packet_def Let_def m_def [symmetric] tr_def [symmetric] p_def [symmetric] p prod.case
    by (simp add: g x)
  show "stays clk pend s0 s'" using e r st s2 s3 by (auto split: if_splits)
  show "io_fits s0 v'" "sv_win v' = sv_win v" "io_file_size (sv_io v') = io_file_size (sv_io v)"
    using e r io i1 by (auto simp: io_fits_def split: if_splits)
  show "sv_inflight v' = sv_inflight v + 1" if "res = VAL_OK" "sv_next_to_send v < io_file_size (sv_io v)"
    using e r that pos by (auto split: if_splits)
qed

lemma fill_window_wp:
  assumes "stays clk pend s0 s" and "io_fits s0 v"
    and Q: "\<And>st s'. stays clk pend s0 s' \<Longrightarrow> Q (Return st, s')" "\<And>v' s'. stays clk pend s0 s' \<Longrightarrow> io_fits s0 v' \<Longrightarrow> Q (Next v', s')"
  shows "wp (fill_window name path v s) Q"
  using assms(1,2)
proof (induction "unat (sv_win v - sv_inflight v)" arbitrary: v s rule: less_induct)
  case less
  obtain res v' s' where r: "send_data_packet v (sv_next_to_send v = sv_last_acked v) s = (res, v', s')"
    by (cases "send_data_packet v (sv_next_to_send v = sv_last_acked v) s")
  note p = send_data_packet_stays [OF less.prems r]
  have "unat (sv_win v' - sv_inflight v') < unat (sv_win v - sv_inflight v)"
    if "res = VAL_OK" "sv_next_to_send v < io_file_size (sv_io v)" "sv_inflight v < sv_win v"
  proof -
    have "sv_win v - sv_inflight v \<noteq> 0" using that(3) by auto
    then show ?thesis using p(3) p(5) [OF that(1,2)] unat_minus_one [of "sv_win v - sv_inflight v"] by (simp add: diff_diff_eq2 algebra_simps unat_gt_0)
  qed
  then show ?case
    using less.hyps [of v' s'] p(1,2)
    by (subst fill_window.simps) (auto simp: wp_simps r Let_def intro!: Q stays_intros less.prems)
qed

lemma stays_on_nak:
  assumes "stays clk pend s0 s" and "io_fits s0 v"
  shows "stays clk pend s0 (snd (on_data_nak off v s))" "io_fits s0 (fst (on_data_nak off v s))"
  using assms(2) by (auto simp: on_data_nak_def handle_nak_retransmit_def Let_def case_prod_beta io_fits_def intro!: stays_intros assms(1))

lemma stays_on_ack_timeout:
  assumes "stays clk pend s0 s" and "io_fits s0 v" and "on_ack_timeout st ctx v s = (ctx', v', s')"
  shows "stays clk pend s0 s'" "io_fits s0 v'" "ac_tries ctx' = ac_tries ctx - 1"
proof -
  have "stays clk pend s0 (snd (snd (on_ack_timeout st ctx v s)))"
    by (auto simp: on_ack_timeout_def Let_def intro!: stays_intros assms(1))
  then show "stays clk pend s0 s'" by (simp add: assms(3))
  show "io_fits s0 v'" "ac_tries ctx' = ac_tries ctx - 1"
    using assms(2,3) by (auto simp: on_ack_timeout_def Let_def io_fits_def)
qed

lemma stays_gave_up [stays_intros]: "stays clk pend s0 s \<Longrightarrow> stays clk pend s0 (ack_gave_up st s)"
  by (auto simp: ack_gave_up_def intro!: stays_intros)

lemma stays_on_data_ack:
  assumes "stays clk pend s0 s" and "io_fits s0 v" and "on_data_ack off ctx v s = (res, ctx', v', s')"
  shows "stays clk pend s0 s'" "io_fits s0 v'"
proof -
  define s1 where "s1 = (if sys_get_ticks_ms (system (cfg s)) \<noteq> None
      then let (now, s) = ticks s in s\<lparr>last_keepalive_recv_time := now\<rparr> else s)"
  define s2 where "s2 = (if ac_t0 ctx \<noteq> 0 \<and> in_retransmit (timing s1) = 0
      then let (now, s) = ticks s1 in val_internal_record_rtt s (now - ac_t0 ctx) else s1)"
  define s3 where "s3 = (if in_retransmit (timing s2) = 0 then val_internal_record_transmission_success s2 else s2)"
  define s4 where "s4 = s3\<lparr>health := (health s3)\<lparr>soft_trips := 0\<rparr>\<rparr>"
  define w where "w = v\<lparr>sv_first_ack_grace := False, sv_last_acked := off\<rparr>"
  obtain pg s5 where e: "val_emit_progress_sender s4 (sv_progress w) (ac_filename ctx) off True = (pg, s5)"
    by (cases "val_emit_progress_sender s4 (sv_progress w) (ac_filename ctx) off True")
  have s2: "stays clk pend s0 s2"
    unfolding s2_def s1_def Let_def case_prod_beta by (auto intro!: stays_intros assms(1))
  have s4: "stays clk pend s0 s4" unfolding s4_def s3_def by (auto intro!: stays_intros s2)
  have s5: "stays clk pend s0 s5" using stays_emit_progress [OF s4, of "sv_progress w" "ac_filename ctx" off True] e by simp
  have u: "on_data_ack off ctx v s =
    (if off \<le> sv_last_acked v then (None, ctx, v\<lparr>sv_first_ack_grace := False\<rparr>, s2)
     else if val_check_for_cancel s5 then (Some VAL_ERR_ABORTED, ctx, w\<lparr>sv_progress := pg\<rparr>, s5)
     else
       (if off < ac_target_ack ctx then None else Some VAL_OK,
        ctx\<lparr>ac_wait_deadline := fst (ticks s5) + ac_to_ack_base ctx, ac_tries := ac_tries_initial ctx, ac_backoff := ac_backoff_initial ctx\<rparr>,
        w\<lparr>sv_progress := pg, sv_inflight := ucast (((if sv_next_to_send v > off then sv_next_to_send v - off else 0) + ac_max_payload ctx - 1) div ac_max_payload ctx)\<rparr>,
        set_in_retransmit 0 (snd (ticks s5))))"
    unfolding on_data_ack_def s1_def [symmetric]
    unfolding Let_def s2_def [unfolded Let_def, symmetric] s3_def [symmetric]
    using e by (simp add: s4_def w_def case_prod_beta)
  show "stays clk pend s0 s'" using u assms(3) s2 s5 by (auto intro: stays_intros split: if_splits)
  show "io_fits s0 v'" using u assms(2,3) by (auto simp: io_fits_def w_def split: if_splits)
qed

lemma io_fits_stays: "stays clk pend s0 s \<Longrightarrow> io_fits s v = io_fits s0 v"
  using stays_cfg [of clk pend s0 s] stays_mtu [of clk pend s0 s] by (simp add: io_fits_def mtu_def)

text \<open>
  The wait for acknowledgements. A restart of the window costs a packet of the peer or a try; a wait that
  ends with success has seen a packet.
\<close>

definition ack_progress :: "('w \<Rightarrow> u32) \<Rightarrow> ('w \<Rightarrow> nat) \<Rightarrow> 'w val_session \<Rightarrow> nat \<Rightarrow> u8 \<Rightarrow>
    val_status_t \<times> bool \<times> val_sender_ack_ctx_t \<times> sender_vars \<times> 'w val_session \<Rightarrow> bool" where
  "ack_progress clk pend s0 p t r = (case r of (st, restart, ctx, v, s) \<Rightarrow> stays clk pend s0 s \<and> io_fits s0 v \<and>
     (st = VAL_OK \<longrightarrow> (if restart then pend (world s) * 256 + unat (ac_tries ctx) < p * 256 + unat t else pend (world s) < p)))"

lemma ack_progress_weaken: "p' < p \<Longrightarrow> ack_progress clk pend s0 p' t' r \<Longrightarrow> ack_progress clk pend s0 p t r"
  using rank_packet [of p' p t' t] by (auto simp: ack_progress_def split: if_splits)

lemma ack_progress_le: "p' \<le> p \<Longrightarrow> ack_progress clk pend s0 p' t r \<Longrightarrow> ack_progress clk pend s0 p t r"
  by (auto simp: ack_progress_def split: if_splits)

lemma ack_progress_failed:
  "st \<noteq> VAL_OK \<Longrightarrow> stays clk pend s0 s \<Longrightarrow> io_fits s0 v \<Longrightarrow> ack_progress clk pend s0 p t (st, b, ctx, v, s)"
  by (simp add: ack_progress_def)

lemma window_ack_loop_wp:
  assumes "stays clk pend s0 s" and "io_fits s0 v"
  shows "wp (window_ack_loop ctx v buf s) (ack_progress clk pend s0 (pend (world s)) (ac_tries ctx))"
  using assms
proof (induction "pend (world s)" arbitrary: ctx v buf s rule: less_induct)
  case less
  let ?Q = "ack_progress clk pend s0 (pend (world s)) (ac_tries ctx)"
  have sk: "snd (ticks s) = s" using ticks_attending [OF stays_attending [OF less.prems(1)]] by simp
  have go: "wp (window_ack_loop ctx' v' buf' s') ?Q" if "stays clk pend s0 s'" "io_fits s0 v'" "pend (world s') < pend (world s)" for ctx' v' buf' s'
    by (rule wp_mono [OF less.hyps [OF that(3,1,2)] ack_progress_weaken [OF that(3)]])
  have i: "io_fits s' v" if "stays clk pend s0 s'" for s' using io_fits_stays [OF that] less.prems(2) by simp
  have nak: "?Q (VAL_OK, True, ctx, on_data_nak off v s')"
    if "stays clk pend s0 s'" "pend (world s') < pend (world s)" for off s'
  proof -
    have "pend (world (snd (on_data_nak off v s'))) < pend (world s)"
      using stays_pend [OF stays_on_nak(1) [OF stays_refl [OF stays_attending [OF that(1)]] i [OF that(1)]]] that(2) by (rule le_less_trans)
    then show ?thesis
      using stays_on_nak [OF that(1) less.prems(2), of off] by (simp add: ack_progress_def rank_packet case_prod_beta)
  qed
  have ack: "wp (window_ack_loop (fst (snd x)) (fst (snd (snd x))) buf' (snd (snd (snd x)))) ?Q" "?Q (st, False, snd x)"
    if "stays clk pend s0 s'" "pend (world s') < pend (world s)" "x = on_data_ack off ctx v s'" for off s' x buf' st
  proof -
    obtain res ctx' v' s2 where r: "on_data_ack off ctx v s' = (res, ctx', v', s2)" by (cases "on_data_ack off ctx v s'")
    have l: "pend (world s2) < pend (world s)"
      using stays_pend [OF stays_on_data_ack(1) [OF stays_refl [OF stays_attending [OF that(1)]] i [OF that(1)] r]] that(2)
      by (rule le_less_trans)
    note t = stays_on_data_ack [OF that(1) less.prems(2) r]
    show "wp (window_ack_loop (fst (snd x)) (fst (snd (snd x))) buf' (snd (snd (snd x)))) ?Q" "?Q (st, False, snd x)"
      using r that(3) go [OF t l] t l by (simp_all add: ack_progress_def)
  qed
  have late: "?Q (VAL_OK, True, on_ack_timeout st ctx v s')"
    if "stays clk pend s0 s'" "stays clk pend s s'" "ac_tries ctx \<noteq> 0" for st s'
  proof -
    obtain ctx' v' s2 where r: "on_ack_timeout st ctx v s' = (ctx', v', s2)" by (cases "on_ack_timeout st ctx v s'")
    show ?thesis
      using stays_on_ack_timeout [OF that(1) less.prems(2) r] rank_try [OF stays_on_ack_timeout(1) [OF that(2) i [OF less.prems(1)] r] that(3)]
      by (simp add: r ack_progress_def)
  qed
  have other: "wp (window_ack_loop ctx v buf' s') ?Q" if "stays clk pend s0 s'" "pend (world s') < pend (world s)" for buf' s'
    by (rule go [OF that(1) less.prems(2) that(2)])
  show ?case
    by (subst window_ack_loop.simps, unfold Let_def)
      (auto simp: wp_simps sk intro!: deadline_wp [of clk pend s0] ack_progress_failed nak late other ack [OF _ _ refl] stays_intros less.prems)
qed

text \<open>A window that was acknowledged has used up a packet of the peer.\<close>

definition window_done :: "('w \<Rightarrow> u32) \<Rightarrow> ('w \<Rightarrow> nat) \<Rightarrow> 'w val_session \<Rightarrow> nat \<Rightarrow> sender_vars flow \<times> 'w val_session \<Rightarrow> bool" where
  "window_done clk pend s0 p r \<longleftrightarrow> stays clk pend s0 (snd r) \<and>
     (\<forall>v. fst r = Next v \<longrightarrow> io_fits s0 v \<and> pend (world (snd r)) < p)"

lemma window_done_le: "p' \<le> p \<Longrightarrow> window_done clk pend s0 p' r \<Longrightarrow> window_done clk pend s0 p r"
  by (auto simp: window_done_def)

lemma send_window_loop_wp:
  assumes "stays clk pend s0 s" and "io_fits s0 v"
  shows "wp (send_window_loop name path mp to_ack to_base tries backoff v s) (window_done clk pend s0 (pend (world s)))"
  using assms
proof (induction "pend (world s) * 256 + unat tries" arbitrary: tries backoff v s rule: less_induct)
  case less
  let ?Q = "window_done clk pend s0 (pend (world s))"
  note a = stays_refl [OF stays_attending [OF less.prems(1)]]
  have i: "io_fits s' v' = io_fits s0 v'" if "stays clk pend s s'" for s' v'
    using io_fits_stays [OF stays_trans [OF less.prems(1) that]] .
  have rest: "wp (wait_for_window_ack ctx v' s'' \<bind> (\<lambda>(ack_status, restart_window, ctx, v, s).
       if ack_status \<noteq> VAL_OK
       then Some (Return ack_status, close_and_report (io_file_handle (sv_io v)) name path ack_status s)
       else if restart_window then
         send_window_loop name path mp to_ack to_base (ac_tries ctx) (ac_backoff ctx) (v\<lparr>sv_win := window_of s\<rparr>) s
       else Some (Next v, s))) ?Q"
    if "stays clk pend s s''" "ac_tries ctx = tries" "io_fits s0 v'" for ctx v' s''
  proof -
    have step: "wp (if st \<noteq> VAL_OK then Some (Return st, close_and_report (io_file_handle (sv_io v2)) name path st s2)
       else if b then send_window_loop name path mp to_ack to_base (ac_tries ctx2) (ac_backoff ctx2) (v2\<lparr>sv_win := window_of s2\<rparr>) s2
       else Some (Next v2, s2)) ?Q" if p: "ack_progress clk pend s0 (pend (world s)) tries (st, b, ctx2, v2, s2)" for st b ctx2 v2 s2
    proof -
      have s2: "stays clk pend s0 s2" "io_fits s0 v2" using p by (simp_all add: ack_progress_def)
      have "wp (send_window_loop name path mp to_ack to_base (ac_tries ctx2) (ac_backoff ctx2) (v2\<lparr>sv_win := window_of s2\<rparr>) s2) ?Q"
        if "st = VAL_OK" b
      proof -
        have r: "pend (world s2) * 256 + unat (ac_tries ctx2) < pend (world s) * 256 + unat tries" using p that by (simp add: ack_progress_def)
        have le: "pend (world s2) \<le> pend (world s)" using r unsigned_less [of tries, where 'a = nat] by simp
        show ?thesis
          by (rule wp_mono [OF less.hyps [OF r s2(1)] window_done_le [OF le]]) (use s2(2) in \<open>simp add: io_fits_def\<close>)
      qed
      then show ?thesis using p s2 by (auto simp: wp_simps window_done_def ack_progress_def intro!: stays_intros)
    qed
    have w: "wp (wait_for_window_ack ctx v' s'') (ack_progress clk pend s0 (pend (world s)) tries)"
      unfolding wait_for_window_ack_def
      by (rule wp_mono [OF window_ack_loop_wp [OF stays_trans [OF less.prems(1) that(1)] that(3)] ack_progress_le [OF stays_pend [OF that(1)]]])
        (simp add: that(2))
    show ?thesis unfolding wp_bind by (rule wp_mono [OF w]) (use step in \<open>simp add: case_prod_beta del: not_None_eq\<close>)
  qed
  show ?case
  proof (subst send_window_loop.simps, rule wp_bind [THEN iffD2], rule fill_window_wp [OF a i [OF a, THEN iffD2, OF less.prems(2)]], goal_cases)
    case (1 st s')
    then show ?case using stays_trans [OF less.prems(1)] by (simp add: wp_Some window_done_def)
  next
    case (2 v' s')
    have tk: "ticks s' = (clk (world s'), s')" by (rule ticks_attending [OF stays_attending [OF 2(1)]])
    show ?case unfolding prod.case flow.case Let_def tk
      by (rule rest) (use 2 i [OF a] in \<open>auto simp: window_ack_ctx_def intro: stays_intros\<close>)
  qed
qed

lemma send_data_loop_wp:
  assumes "stays clk pend s0 s" and "io_fits s0 v"
  shows "wp (send_data_loop name path mp off xt v s) (\<lambda>r. stays clk pend s0 (snd r))"
  using assms
proof (induction "pend (world s)" arbitrary: off v s rule: less_induct)
  case less
  obtain fl s1 where h: "send_health (io_file_handle (sv_io v)) name path s = (fl, s1)"
    by (cases "send_health (io_file_handle (sv_io v)) name path s")
  have s1: "stays clk pend s0 s1" using stays_send_health [OF less.prems(1), of "io_file_handle (sv_io v)" name path] h by simp
  have le: "pend (world s1) \<le> pend (world s)"
    using stays_pend [OF stays_send_health [OF stays_refl [OF stays_attending [OF less.prems(1)]]], of "io_file_handle (sv_io v)" name path] h by simp
  have w: "wp (send_window_loop name path mp ta tb tr bo v s1) (\<lambda>r. wp (case r of (fl, s) \<Rightarrow>
      (case fl of Return st \<Rightarrow> Some (Return st, s) | Next v \<Rightarrow> send_data_loop name path mp off' xt v s)) (\<lambda>r. stays clk pend s0 (snd r)))"
    for ta tb tr bo off'
    by (rule wp_mono [OF send_window_loop_wp [OF s1 less.prems(2)]])
      (use le in \<open>auto simp: wp_simps window_done_def intro!: less.hyps\<close>)
  show ?case
    by (subst send_data_loop.simps, unfold Let_def wp_if wp_bind h prod.case)
      (auto simp: wp_Some wp_flow wp_bind intro!: stays_intros less.prems s1 w)
qed

subsection \<open>Files and batches\<close>

lemma send_file_body_wp:
  assumes st: "stays clk pend s0 s"
  shows "wp (send_file_body s' f name path n off pg s) (\<lambda>r. stays clk pend s0 (snd (snd r)))"
proof -
  have m: "mtu s = mtu s0" using stays_cfg [OF st] stays_mtu [OF st] by (simp add: mtu_def)
  have io: "io_fits s0 (send_vars_init f n off (mtu s - 12) pg s')" if "\<not> mtu s \<le> 12"
  proof -
    have "unat (ucast (mtu s - 12) :: u32) \<le> unat (mtu s - 12)" by (simp add: unsigned_ucast_eq)
    moreover have "unat (mtu s - 12) + 12 = unat (mtu s)" using that by (simp add: unat_sub word_le_nat_alt not_le)
    ultimately show ?thesis by (simp add: io_fits_def send_vars_init_def m [symmetric])
  qed
  show ?thesis
    unfolding send_file_body_def Let_def
    by (auto simp: wp_simps intro!: wp_mono [OF send_data_loop_wp [of clk pend s0]] wp_mono [OF send_done_wp(1) [of clk pend s0]] io stays_intros st)
qed

lemma send_file_wp:
  assumes st: "stays clk pend s0 s"
  shows "wp (val_internal_send_file s fp path pg) (\<lambda>r. stays clk pend s0 (snd (snd r)))"
  unfolding val_internal_send_file_def send_file_data_adaptive_def Let_def
  by (auto simp: wp_simps intro!: resume_negotiation_wp [of clk pend s0] wp_mono [OF send_done_wp(2) [of clk pend s0]]
      send_file_body_wp stays_intros st)

lemma scan_sizes_stays [stays_intros]: "stays clk pend s0 s \<Longrightarrow> stays clk pend s0 (snd (scan_sizes ps acc s))"
proof (induction ps arbitrary: acc s)
  case (Cons p ps)
  show ?case using Cons.IH [OF stays_file_size [OF Cons.prems]] by (simp add: case_prod_beta)
qed simp

lemma send_files_loop_wp: "stays clk pend s0 s \<Longrightarrow> wp (send_files_loop ps path pg s) (\<lambda>r. stays clk pend s0 (snd r))"
proof (induction ps arbitrary: pg s)
  case (Cons p ps)
  show ?case by (auto simp: wp_simps intro!: wp_mono [OF send_file_wp [OF Cons.prems]] Cons.IH)
qed (simp add: wp_simps)

lemma send_files_wp:
  assumes h: "val_internal_do_handshake_sender (val_internal_lock s) = Some (hs, s1)" and a: "attending clk pend s1"
  shows "wp (val_send_files s (Some ps) path) (\<lambda>r. ps = [] \<and> snd r = s \<or> (\<exists>s'. snd r = val_internal_unlock s' \<and> stays clk pend s1 s'))"
proof -
  note st = stays_refl [OF a]
  show ?thesis
    unfolding val_send_files_def option.case Let_def
    by (auto simp: h wp_simps intro!: wp_mono [OF send_files_loop_wp [of clk pend s1]] wait_wp(2) [of clk pend s1] stays_intros st exI)
qed

lemma receive_files_wp:
  assumes h: "val_internal_do_handshake_receiver ((val_internal_lock s)\<lparr>output_directory := dir\<rparr>) = Some (hs, s1)" and a: "attending clk pend s1"
    and d: "dir = (case out_dir of Some d \<Rightarrow> take (val_internal_strnlen (Some d) VAL_MAX_PATH) d | None \<Rightarrow> [])"
  shows "wp (val_receive_files s out_dir) (\<lambda>r. \<exists>s'. snd r = val_internal_unlock s' \<and> stays clk pend s1 s')"
proof -
  have e: "(case out_dir of Some d \<Rightarrow> (val_internal_lock s)\<lparr>output_directory := take (val_internal_strnlen (Some d) VAL_MAX_PATH) d\<rparr>
     | None \<Rightarrow> (val_internal_lock s)\<lparr>output_directory := []\<rparr>) = (val_internal_lock s)\<lparr>output_directory := dir\<rparr>"
    unfolding d by (simp split: option.splits)
  note st = stays_refl [OF a]
  show ?thesis
    unfolding val_receive_files_def Let_def e
    by (auto simp: h wp_simps intro!: wp_mono [OF internal_receive_files_wp [of clk pend s1]] st exI)
qed

lemma stays_unlock:
  assumes "stays clk pend s1 s'"
  shows "session_ok (val_internal_unlock s') \<and> cfg (val_internal_unlock s') = cfg s1 \<and>
     lock_depth (val_internal_unlock s') = lock_depth s1 - 1 \<and> pend (world (val_internal_unlock s')) \<le> pend (world s1)"
proof -
  have "session_ok s'" using stays_good [OF assms] by (simp add: good_def)
  then show ?thesis using assms by (simp add: stays_def keeps_def sess_defs session_ok_def window_ok_def)
qed

lemma call_starts:
  assumes "attending clk pend s" and "handshake_done s \<or> prompt clk pend lat s"
  shows "attending clk pend ((val_internal_lock s)\<lparr>output_directory := dir\<rparr>)"
    "handshake_done ((val_internal_lock s)\<lparr>output_directory := dir\<rparr>) \<or> prompt clk pend lat ((val_internal_lock s)\<lparr>output_directory := dir\<rparr>)"
proof -
  let ?l = "(val_internal_lock s)\<lparr>output_directory := dir\<rparr>"
  have "hs_budget ?l = hs_budget s" "val_internal_get_timeout ?l VAL_OP_HANDSHAKE = val_internal_get_timeout s VAL_OP_HANDSHAKE"
    "cfg ?l = cfg s" "world ?l = world s" "handshake_done ?l = handshake_done s"
    by (simp_all add: hs_budget_def val_internal_get_timeout_def sess_defs)
  then show "handshake_done ?l \<or> prompt clk pend lat ?l"
    using assms(2) unfolding prompt_def hs_pause_ms_def hs_round_ms_def by simp
  show "attending clk pend ?l"
    using assms(1) by (simp add: attending_def good_def session_ok_def window_ok_def sess_defs)
qed

lemma call_ends:
  assumes "settles clk pend ((val_internal_lock s)\<lparr>output_directory := dir\<rparr>) s1" and "stays clk pend s1 s'"
  shows "session_ok (val_internal_unlock s') \<and> cfg (val_internal_unlock s') = cfg s \<and>
     lock_depth (val_internal_unlock s') = lock_depth s \<and> pend (world (val_internal_unlock s')) \<le> pend (world s)"
  using stays_unlock [OF assms(2)] assms(1) by (auto simp: settles_def sess_defs)

text \<open>
  C6. Receiving files returns, whatever the peer sends: garbage, packets out of place, half a file or
  nothing. It is enough that the peer sends finitely many bytes in all, that a receive without data waits for its
  timeout, that file hooks and callbacks do not make the peer send, and, unless the handshake is done, that hooks take a bounded time and
  the clock neither reads 0 nor wraps around during the handshake. The lock is released once, the
  configuration is unchanged and the session is well-formed afterwards.
\<close>

theorem receive_files_returns:
  assumes "attending clk pend s" and "handshake_done s \<or> prompt clk pend lat s"
  shows "\<exists>st s'. val_receive_files s out_dir = Some (st, s') \<and> session_ok s' \<and> cfg s' = cfg s \<and>
     lock_depth s' = lock_depth s \<and> pend (world s') \<le> pend (world s)"
proof -
  define dir where "dir = (case out_dir of Some d \<Rightarrow> take (val_internal_strnlen (Some d) VAL_MAX_PATH) d | None \<Rightarrow> [])"
  obtain hs s1 where h: "val_internal_do_handshake_receiver ((val_internal_lock s)\<lparr>output_directory := dir\<rparr>) = Some (hs, s1)"
    and s1: "settles clk pend ((val_internal_lock s)\<lparr>output_directory := dir\<rparr>) s1"
    using handshake_receiver_wp [OF call_starts [OF assms, of dir]] by (auto simp: wp_def)
  show ?thesis
    using receive_files_wp [OF h settles_attending [OF s1] dir_def] call_ends [OF s1] by (auto simp: wp_def)
qed

text \<open>
  C7. Sending files returns under the same conditions, whatever acknowledgements, refusals or silence the
  peer answers with: the handshake ends with its budget, each window ends with a packet of the peer or uses up a try, and no window is filled
  without end.
\<close>

theorem send_files_returns:
  assumes "attending clk pend s" and "handshake_done s \<or> prompt clk pend lat s" and "ps \<noteq> []"
  shows "\<exists>st s'. val_send_files s (Some ps) path = Some (st, s') \<and> session_ok s' \<and> cfg s' = cfg s \<and>
     lock_depth s' = lock_depth s \<and> pend (world s') \<le> pend (world s)"
proof -
  have l: "(val_internal_lock s)\<lparr>output_directory := output_directory s\<rparr> = val_internal_lock s" by (simp add: sess_defs)
  obtain hs s1 where h: "val_internal_do_handshake_sender (val_internal_lock s) = Some (hs, s1)" and s1: "settles clk pend (val_internal_lock s) s1"
    using handshake_sender_wp [OF call_starts [OF assms(1,2), of "output_directory s", unfolded l]] by (auto simp: wp_def)
  show ?thesis
    using send_files_wp [OF h settles_attending [OF s1], of ps path] call_ends [where dir = "output_directory s" and s = s, unfolded l, OF s1] assms(3)
    by (auto simp: wp_def)
qed

lemma desk_attending: "attending dk_clock (\<lambda>w. length (dk_rx w)) (desk_session mode w)"
proof -
  have "quiet (desk_config mode) dk_clock (\<lambda>w. length (dk_rx w))"
    by (auto simp: quiet_def recv_waits_def recv_bounded_def desk_config_def desk_recv_def desk_send_def unat_eq_0 split: if_splits)
  moreover have "quiet_files (desk_config mode) (\<lambda>w. length (dk_rx w))"
    by (auto simp: quiet_files_def desk_config_def desk_files_def Let_def split: if_splits)
  ultimately show ?thesis by (simp add: attending_def good_def) (simp add: desk_session_def bed_session_timing)
qed

text \<open>A session that has yet to shake hands, with a peer that sends three bytes of nothing.\<close>

definition new_desk :: "u8 list \<Rightarrow> desk val_session" where
  "new_desk src = (desk_session VAL_RESUME_TAIL (desk_world [1, 2, 3] src []))\<lparr>handshake_done := False\<rparr>"

lemma new_desk_ready:
  "attending dk_clock (\<lambda>w. length (dk_rx w)) (new_desk src)" "prompt dk_clock (\<lambda>w. length (dk_rx w)) 0 (new_desk src)"
proof -
  show "attending dk_clock (\<lambda>w. length (dk_rx w)) (new_desk src)"
    using desk_attending [of VAL_RESUME_TAIL "desk_world [1, 2, 3] src []"]
    by (simp add: new_desk_def attending_def good_def session_ok_def window_ok_def)
  have w: "within dk_clock (unat t) w (w\<lparr>dk_clock := dk_clock w + t\<rparr>)" for w t
    using no_olen_add_nat [of "dk_clock w" t] by (auto simp: within_def unat_word_ariths)
  have "timely (desk_config VAL_RESUME_TAIL) dk_clock 0"
    using w by (auto simp: timely_def desk_config_def desk_recv_def desk_send_def within_def split: if_splits)
  moreover have "val_internal_get_timeout (new_desk src) VAL_OP_HANDSHAKE \<le> 2000"
    by (simp add: new_desk_def val_internal_get_timeout_def desk_session_def bed_session_timing Let_def val_sanitize_timeouts_pair_def val__clamp_u32_def)
  ultimately show "prompt dk_clock (\<lambda>w. length (dk_rx w)) 0 (new_desk src)"
    by (simp add: prompt_def new_desk_def desk_world_def hs_pause_ms_def hs_round_ms_def hs_budget_def desk_config_def bed_config_def clamp_budget_def word_le_nat_alt)
qed

theorem receive_files_returns_witness:
  "\<exists>st s'. val_receive_files (new_desk []) None = Some (st, s') \<and> session_ok s' \<and> length (dk_rx (world s')) \<le> 3"
  using receive_files_returns [OF new_desk_ready(1) [of "[]"] disjI2 [OF new_desk_ready(2)], of None]
  by (auto simp: new_desk_def desk_world_def)

theorem send_files_returns_witness:
  "\<exists>st s'. val_send_files (new_desk [7, 8]) (Some [[97], [98]]) None = Some (st, s') \<and> session_ok s' \<and> length (dk_rx (world s')) \<le> 3"
  using send_files_returns [OF new_desk_ready(1) [of "[7, 8]"] disjI2 [OF new_desk_ready(2)], of "[[97], [98]]" None]
  by (auto simp: new_desk_def desk_world_def)

end
