(* ===== verification/Val_Socket.thy ===== *)
theory Val_Socket
  imports Val_Frames
begin

text \<open>
  The TCP helpers of the example programs, \<^verbatim>\<open>examples/tcp/common/tcp_util.c\<close> (the POSIX branch), and the adapters that
  make them the transport of a session. The system calls are parameters: a record of functions on
  the state of the outside world. Proved: the adapters implement the transport the library relies on.
\<close>

section \<open>System calls\<close>

datatype sock_option = SO_REUSEADDR | TCP_NODELAY

datatype recv_flags = NO_FLAGS | MSG_WAITALL | MSG_PEEK

text \<open>An address as its bytes in network order; \<open>INADDR_NONE\<close> is the failure value of \<^verbatim>\<open>inet_addr\<close>.\<close>

record sockaddr_in =
  sin_addr :: "u8 list"
  sin_port :: u16

definition INADDR_NONE :: "u8 list" where "INADDR_NONE = [255, 255, 255, 255]"
definition INADDR_ANY :: "u8 list" where "INADDR_ANY = [0, 0, 0, 0]"
definition INADDR_LOOPBACK :: "u8 list" where "INADDR_LOOPBACK = [127, 0, 0, 1]"

text \<open>
  Results are those of the calls: \<^verbatim>\<open>recv\<close> returns the bytes it stored, \<open>None\<close> for an error, \<^verbatim>\<open>getsockopt\<close> its
  result and the pending error, \<^verbatim>\<open>select\<close> for one descriptor takes a timeout in seconds and microseconds or
  none, \<^verbatim>\<open>ioctl(FIONREAD)\<close> the number it stored.
\<close>

record 'w sys_calls =
  c_socket :: "'w \<Rightarrow> int \<times> 'w"
  c_setsockopt :: "'w \<Rightarrow> int \<Rightarrow> sock_option \<Rightarrow> 'w"
  c_so_error :: "'w \<Rightarrow> int \<Rightarrow> (int \<times> int) \<times> 'w"
  c_bind :: "'w \<Rightarrow> int \<Rightarrow> sockaddr_in \<Rightarrow> int \<times> 'w"
  c_listen :: "'w \<Rightarrow> int \<Rightarrow> int \<Rightarrow> int \<times> 'w"
  c_accept :: "'w \<Rightarrow> int \<Rightarrow> int \<times> 'w"
  c_connect :: "'w \<Rightarrow> int \<Rightarrow> sockaddr_in \<Rightarrow> int \<times> 'w"
  c_inet_addr :: "cstr \<Rightarrow> u8 list"
  c_gethostbyname :: "'w \<Rightarrow> cstr \<Rightarrow> u8 list option \<times> 'w"
  c_close :: "'w \<Rightarrow> int \<Rightarrow> 'w"
  c_select :: "'w \<Rightarrow> int \<Rightarrow> (u32 \<times> u32) option \<Rightarrow> int \<times> 'w"
  c_send :: "'w \<Rightarrow> int \<Rightarrow> u8 list \<Rightarrow> int \<times> 'w"
  c_recv :: "'w \<Rightarrow> int \<Rightarrow> nat \<Rightarrow> recv_flags \<Rightarrow> u8 list option \<times> 'w"
  c_fionread :: "'w \<Rightarrow> int \<Rightarrow> int \<times> 'w"
  c_clock_gettime :: "'w \<Rightarrow> (u64 \<times> u64) \<times> 'w"
  c_nanosleep :: "'w \<Rightarrow> u32 \<times> u32 \<Rightarrow> 'w"

section \<open>Connections\<close>

definition tcp_is_connected :: "'w sys_calls \<Rightarrow> int \<Rightarrow> 'w \<Rightarrow> int \<times> 'w" where
  "tcp_is_connected c fd w =
     (let ((rc, err), w) = c_so_error c w fd in
      if rc < 0 then (- 1, w)
      else if err \<noteq> 0 then (0, w)
      else
        let (r, w) = c_select c w fd (Some (0, 0)) in
        if r > 0 then (let (n, w) = c_recv c w fd 1 MSG_PEEK in if n = Some [] then (0, w) else (1, w))
        else (1, w))"

definition tcp_flush :: "'w sys_calls \<Rightarrow> int \<Rightarrow> 'w \<Rightarrow> 'w" where
  "tcp_flush c fd w = c_setsockopt c w fd TCP_NODELAY"

definition tcp_now_ms :: "'w sys_calls \<Rightarrow> 'w \<Rightarrow> u32 \<times> 'w" where
  "tcp_now_ms c w =
     (let ((tv_sec, tv_nsec), w) = c_clock_gettime c w;
          ms = tv_sec * 1000 + tv_nsec div 1000000
      in (ucast (ms AND 0xFFFFFFFF), w))"

definition tcp_sleep_ms :: "'w sys_calls \<Rightarrow> u32 \<Rightarrow> 'w \<Rightarrow> 'w" where
  "tcp_sleep_ms c ms w = c_nanosleep c w (ms div 1000, (ms mod 1000) * 1000000)"

definition tcp_close :: "'w sys_calls \<Rightarrow> int \<Rightarrow> 'w \<Rightarrow> 'w" where
  "tcp_close c fd w = (if fd \<ge> 0 then c_close c w fd else w)"

definition tcp_listen :: "'w sys_calls \<Rightarrow> u16 \<Rightarrow> int \<Rightarrow> 'w \<Rightarrow> int \<times> 'w" where
  "tcp_listen c port backlog w =
     (let (fd, w) = c_socket c w in
      if fd < 0 then (- 1, w)
      else
        let w = c_setsockopt c w fd SO_REUSEADDR;
            (r, w) = c_bind c w fd \<lparr>sin_addr = INADDR_ANY, sin_port = port\<rparr>
        in if r \<noteq> 0 then (- 1, tcp_close c fd w)
           else
             let (r, w) = c_listen c w fd backlog in
             if r \<noteq> 0 then (- 1, tcp_close c fd w) else (fd, w))"

definition tcp_accept :: "'w sys_calls \<Rightarrow> int \<Rightarrow> 'w \<Rightarrow> int \<times> 'w" where
  "tcp_accept c listen_fd w = c_accept c w listen_fd"

text \<open>\<open>None\<close> is a NULL host.\<close>

definition tcp_connect :: "'w sys_calls \<Rightarrow> cstr option \<Rightarrow> u16 \<Rightarrow> 'w \<Rightarrow> int \<times> 'w" where
  "tcp_connect c host port w =
     (let (fd, w) = c_socket c w in
      if fd < 0 then (- 1, w)
      else
        let (addr, w) =
              (case host of
                 Some h \<Rightarrow>
                   if h \<noteq> [] then
                     let ip = c_inet_addr c h in
                     if ip = INADDR_NONE then c_gethostbyname c w h else (Some ip, w)
                   else (Some INADDR_LOOPBACK, w)
               | None \<Rightarrow> (Some INADDR_LOOPBACK, w))
        in case addr of
             None \<Rightarrow> (- 1, tcp_close c fd w)
           | Some a \<Rightarrow>
               let (r, w) = c_connect c w fd \<lparr>sin_addr = a, sin_port = port\<rparr> in
               if r \<noteq> 0 then (- 1, tcp_close c fd w) else (fd, w))"

section \<open>Streams\<close>

text \<open>\<open>data\<close> is what is left to send. \<^verbatim>\<open>send\<close> returns at most the number of bytes it was given.\<close>

function tcp_send_all :: "'w sys_calls \<Rightarrow> int \<Rightarrow> u8 list \<Rightarrow> 'w \<Rightarrow> int \<times> 'w" where
  "tcp_send_all c fd data w =
     (if data \<noteq> [] then
        let (n, w) = c_send c w fd data in
        if n \<le> 0 then (- 1, w) else tcp_send_all c fd (drop (nat n) data) w
      else (0, w))"
  by pat_completeness auto
termination
  by (relation "measure (\<lambda>(c, fd, data, w). length data)") (auto simp: length_greater_0_conv)

declare tcp_send_all.simps [simp del]

text \<open>A timeout in milliseconds as \<^verbatim>\<open>struct timeval\<close>.\<close>

definition timeval :: "u32 \<Rightarrow> u32 \<times> u32" where
  "timeval ms = (ms div 1000, (ms mod 1000) * 1000)"

text \<open>\<open>left\<close> bytes are missing, \<open>have\<close> is what was stored so far.\<close>

function tcp_recv_all_loop :: "'w sys_calls \<Rightarrow> int \<Rightarrow> u32 \<Rightarrow> nat \<Rightarrow> u8 list \<Rightarrow> 'w \<Rightarrow> int \<times> u8 list \<times> 'w" where
  "tcp_recv_all_loop c fd timeout_ms left have w =
     (if left \<noteq> 0 then
        let (r, w) = c_select c w fd (if timeout_ms \<noteq> 0 then Some (timeval timeout_ms) else None) in
        if r \<le> 0 then (- 1, have, w)
        else
          case c_recv c w fd left MSG_WAITALL of
            (None, w) \<Rightarrow> (- 1, have, w)
          | (Some bs, w) \<Rightarrow>
              if bs = [] then (- 1, have, w) else tcp_recv_all_loop c fd timeout_ms (left - length bs) (have @ bs) w
      else (0, have, w))"
  by pat_completeness auto
termination
  by (relation "measure (\<lambda>(c, fd, t, left, have, w). left)") auto

declare tcp_recv_all_loop.simps [simp del]

definition tcp_recv_all :: "'w sys_calls \<Rightarrow> int \<Rightarrow> nat \<Rightarrow> u32 \<Rightarrow> 'w \<Rightarrow> int \<times> u8 list \<times> 'w" where
  "tcp_recv_all c fd len timeout_ms w = tcp_recv_all_loop c fd timeout_ms len [] w"

text \<open>The time since the start; a clock that has wrapped around counts as no time at all.\<close>

definition elapsed_ms :: "u32 \<Rightarrow> u32 \<Rightarrow> u32" where
  "elapsed_ms now start = (if now \<ge> start then now - start else 0)"

text \<open>The result is the content of the buffer; the return value is always zero.\<close>

function tcp_recv_up_to_loop :: "'w sys_calls \<Rightarrow> int \<Rightarrow> nat \<Rightarrow> u32 \<Rightarrow> u32 \<Rightarrow> u8 list \<Rightarrow> 'w \<Rightarrow> u8 list \<times> 'w" where
  "tcp_recv_up_to_loop c fd len timeout_ms start got w =
     (let (now, w) = tcp_now_ms c w;
          elapsed = elapsed_ms now start;
          remaining = (if timeout_ms \<noteq> 0 then (if elapsed \<ge> timeout_ms then 0 else timeout_ms - elapsed) else timeout_ms);
          (r, w) = c_select c w fd (if timeout_ms \<noteq> 0 then Some (timeval remaining) else None)
      in if r \<le> 0 then (got, w)
         else
           case c_recv c w fd (len - length got) NO_FLAGS of
             (None, w) \<Rightarrow> (got, w)
           | (Some bs, w) \<Rightarrow>
               if bs = [] then (got, w)
               else if length got + length bs \<ge> len then (got @ bs, w)
               else tcp_recv_up_to_loop c fd len timeout_ms start (got @ bs) w)"
  by pat_completeness auto
termination
proof (relation "measure (\<lambda>(c, fd, len, t, st, got, w). len - length got)", goal_cases)
  case (2 c fd len timeout_ms start got w a now w1 el rem b r w2 d n bs)
  then have "0 < length bs" "length got + length bs < len" by (auto simp: not_le)
  then show ?case by (simp only: in_measure split_conv length_append)
qed simp_all

declare tcp_recv_up_to_loop.simps [simp del]

definition tcp_recv_up_to :: "'w sys_calls \<Rightarrow> int \<Rightarrow> nat \<Rightarrow> u32 \<Rightarrow> 'w \<Rightarrow> int \<times> u8 list \<times> 'w" where
  "tcp_recv_up_to c fd len timeout_ms w =
     (let (start, w) = tcp_now_ms c w;
          (got, w) = tcp_recv_up_to_loop c fd len timeout_ms start [] w
      in (0, got, w))"

text \<open>\<^verbatim>\<open>(int)len\<close> for a length of 64 bits.\<close>

definition int_of_size :: "size_t \<Rightarrow> int" where
  "int_of_size len = sint (ucast len :: u32)"

partial_function (option) tcp_recv_exact_loop ::
    "'w sys_calls \<Rightarrow> int \<Rightarrow> size_t \<Rightarrow> u32 \<Rightarrow> u32 \<Rightarrow> 'w \<Rightarrow> (int \<times> u8 list \<times> 'w) option" where
  "tcp_recv_exact_loop c fd len timeout_ms start w =
     (let (elapsed, w) = (if timeout_ms \<noteq> 0 then let (now, w) = tcp_now_ms c w in (elapsed_ms now start, w) else (0, w)) in
      if timeout_ms \<noteq> 0 \<and> elapsed \<ge> timeout_ms then Some (- 1, [], w)
      else
        let remaining = (if timeout_ms \<noteq> 0 then timeout_ms - elapsed else timeout_ms);
            (avail, w) = c_fionread c w fd
        in if avail < int_of_size len then
             let (r, w) = c_select c w fd (if timeout_ms \<noteq> 0 then Some (timeval remaining) else None) in
             if r \<le> 0 then Some (- 1, [], w) else tcp_recv_exact_loop c fd len timeout_ms start w
           else
             case c_recv c w fd (unat len) MSG_WAITALL of
               (None, w) \<Rightarrow> Some (- 1, [], w)
             | (Some bs, w) \<Rightarrow> Some (if length bs = unat len then 0 else - 1, bs, w))"

definition tcp_recv_exact :: "'w sys_calls \<Rightarrow> int \<Rightarrow> size_t \<Rightarrow> u32 \<Rightarrow> 'w \<Rightarrow> (int \<times> u8 list \<times> 'w) option" where
  "tcp_recv_exact c fd len timeout_ms w =
     (if len = 0 then Some (0, [], w)
      else let (start, w) = tcp_now_ms c w in tcp_recv_exact_loop c fd len timeout_ms start w)"

section \<open>The adapters\<close>

definition tp_send :: "'w sys_calls \<Rightarrow> int \<Rightarrow> 'w \<Rightarrow> u8 list \<Rightarrow> int \<times> 'w" where
  "tp_send c fd w data =
     (let (rc, w) = tcp_send_all c fd data w in (if rc = 0 then int_of_size (of_nat (length data)) else - 1, w))"

text \<open>Every failure, a lost connection too, is reported as a read of no bytes.\<close>

definition tp_recv :: "'w sys_calls \<Rightarrow> int \<Rightarrow> 'w \<Rightarrow> size_t \<Rightarrow> u32 \<Rightarrow> (int \<times> u8 list \<times> 'w) option" where
  "tp_recv c fd w buffer_size timeout_ms =
     map_option (\<lambda>(rc, bs, w). (0, if rc \<noteq> 0 then [] else bs, w)) (tcp_recv_exact c fd buffer_size timeout_ms w)"

definition tp_is_connected :: "'w sys_calls \<Rightarrow> int \<Rightarrow> 'w \<Rightarrow> int \<times> 'w" where
  "tp_is_connected c fd w = tcp_is_connected c fd w"

definition tp_flush :: "'w sys_calls \<Rightarrow> int \<Rightarrow> 'w \<Rightarrow> 'w" where
  "tp_flush c fd w = tcp_flush c fd w"

text \<open>
  The transport a program configures. A hook of the library returns a value: the transport is meaningful where
  the receive returns.
\<close>

definition tcp_transport :: "'w sys_calls \<Rightarrow> int \<Rightarrow> 'w val_transport" where
  "tcp_transport c fd =
     \<lparr>tr_send = Some (tp_send c fd), tr_recv = Some (\<lambda>w n t. the (tp_recv c fd w n t)),
      tr_is_connected = Some (tp_is_connected c fd), tr_flush = Some (tp_flush c fd)\<rparr>"


section \<open>Contracts\<close>

text \<open>
  What a read can see of the outside world: the bytes the peer will have sent and that have not been read, how many of them have arrived, the time in
  milliseconds, by how much a call can outlast the time it is given, and how many calls have failed or were cut short so far. \<open>v_spins\<close> bounds the calls
  that return at once.
\<close>

record 'w view =
  v_unread :: "'w \<Rightarrow> u8 list"
  v_here :: "'w \<Rightarrow> nat"
  v_time :: "'w \<Rightarrow> nat"
  v_late :: nat
  v_failures :: "'w \<Rightarrow> nat"
  v_spins :: "'w \<Rightarrow> nat"

text \<open>A call that takes up to \<open>d\<close> milliseconds and \<open>v_late\<close> more: time, failures and what has arrived only grow.\<close>

definition passes :: "'w view \<Rightarrow> nat \<Rightarrow> 'w \<Rightarrow> 'w \<Rightarrow> bool" where
  "passes v d w w' \<longleftrightarrow>
     v_time v w \<le> v_time v w' \<and> v_time v w' \<le> v_time v w + d + v_late v \<and> v_failures v w \<le> v_failures v w'"

definition leaves :: "'w view \<Rightarrow> 'w \<Rightarrow> 'w \<Rightarrow> bool" where
  "leaves v w w' \<longleftrightarrow>
     v_unread v w' = v_unread v w \<and> v_here v w \<le> v_here v w' \<and> (v_time v w' = v_time v w \<longrightarrow> v_spins v w' \<le> v_spins v w)"

text \<open>The clock shows a moment of the call that reads it, in 32 bits.\<close>

definition reads_clock :: "'w view \<Rightarrow> ('w \<Rightarrow> u32 \<times> 'w) \<Rightarrow> bool" where
  "reads_clock v now \<longleftrightarrow>
     (\<forall>w t w'. now w = (t, w') \<longrightarrow>
        passes v 0 w w' \<and> leaves v w w' \<and> v_failures v w' = v_failures v w \<and>
        (\<exists>m. t = of_nat m \<and> v_time v w \<le> m \<and> m \<le> v_time v w'))"

text \<open>
  \<^verbatim>\<open>select\<close> as documented: zero means that the timeout has expired, which can be noticed late; less than zero is an error or an interruption, and
  comes at any time; otherwise there is something to read, or the end of the stream.
\<close>

definition waits_readable :: "'w view \<Rightarrow> ('w \<Rightarrow> u32 \<times> u32 \<Rightarrow> int \<times> 'w) \<Rightarrow> bool" where
  "waits_readable v sel \<longleftrightarrow>
     (\<forall>w ms r w'. sel w (timeval ms) = (r, w') \<longrightarrow>
        passes v (unat ms) w w' \<and> leaves v w w' \<and> (r = 0 \<longrightarrow> v_time v w + unat ms \<le> v_time v w') \<and>
        (r < 0 \<longrightarrow> v_failures v w < v_failures v w') \<and> (0 < r \<longrightarrow> v_time v w' = v_time v w \<longrightarrow> v_spins v w' < v_spins v w))"

text \<open>
  What the programs rely on of a connected stream socket. \<^verbatim>\<open>ioctl(FIONREAD)\<close> tells how many bytes have arrived, or fails. A \<^verbatim>\<open>recv\<close> with \<^verbatim>\<open>MSG_WAITALL\<close> of
  bytes that are there takes them from the front of the stream; it can fail and, after a signal or an error, return fewer.
\<close>

definition stream_socket :: "'w sys_calls \<Rightarrow> int \<Rightarrow> 'w view \<Rightarrow> bool" where
  "stream_socket c fd v \<longleftrightarrow>
     reads_clock v (tcp_now_ms c) \<and> waits_readable v (\<lambda>w tv. c_select c w fd (Some tv)) \<and>
     (\<forall>w k w'. c_fionread c w fd = (k, w') \<longrightarrow>
        passes v 0 w w' \<and> leaves v w w' \<and> k \<le> int (v_here v w') \<and> (k < int (v_here v w) \<longrightarrow> v_failures v w < v_failures v w')) \<and>
     (\<forall>w n bs w'. 0 < n \<longrightarrow> n \<le> v_here v w \<longrightarrow> c_recv c w fd n MSG_WAITALL = (Some bs, w') \<longrightarrow>
        passes v 0 w w' \<and> v_unread v w = bs @ v_unread v w' \<and> length bs \<le> n \<and> (length bs < n \<longrightarrow> v_failures v w < v_failures v w')) \<and>
     (\<forall>w n w'. 0 < n \<longrightarrow> n \<le> v_here v w \<longrightarrow> c_recv c w fd n MSG_WAITALL = (None, w') \<longrightarrow>
        passes v 0 w w' \<and> v_unread v w' = v_unread v w \<and> v_failures v w < v_failures v w')"

lemma int_of_size_small:
  assumes "unat len < 2 ^ 31"
  shows "int_of_size len = int (unat len)"
proof -
  have u: "uint len = int (unat len)" by (rule uint_nat)
  have "uint len < int (2 ^ 31)" unfolding u using assms by (simp only: of_nat_less_iff)
  then have "uint len < 2 ^ 31" by simp
  moreover have "- (2 ^ 31) \<le> uint len" by (rule order_trans [OF _ uint_ge_0]) simp
  ultimately show ?thesis
    unfolding int_of_size_def u [symmetric]
    by (simp add: sint_uint unsigned_ucast_eq take_bit_int_eq_self signed_take_bit_int_eq_self)
qed

lemma avail_less: "unat len < 2 ^ 31 \<Longrightarrow> int n < int_of_size len \<longleftrightarrow> n < unat len"
  by (simp only: int_of_size_small of_nat_less_iff)

text \<open>Two readings of a clock that has not wrapped around in between; \<open>m0 - m0 mod 2 ^ 32\<close> is when it last did.\<close>

lemma elapsed_no_wrap:
  assumes "m0 \<le> m" "b * 2 ^ 32 \<le> m0" "m < b * 2 ^ 32 + 2 ^ 32"
  shows "elapsed_ms (of_nat m) (of_nat m0) = of_nat (m - m0)"
    and "unat (elapsed_ms (of_nat m) (of_nat m0)) = m - m0"
proof -
  have low: "unat (of_nat k :: u32) = k - b * 2 ^ 32" if "b * 2 ^ 32 \<le> k" "k < b * 2 ^ 32 + 2 ^ 32" for k
  proof -
    have "k = (k - b * 2 ^ 32) + b * 2 ^ 32" "k - b * 2 ^ 32 < 2 ^ 32" using that by linarith+
    then have "k mod 2 ^ 32 = k - b * 2 ^ 32" by (metis mod_less mod_mult_self1)
    then show ?thesis by (simp add: unat_of_nat)
  qed
  have "(of_nat m0 :: u32) \<le> of_nat m" using assms low [of m0] low [of m] by (simp add: word_le_nat_alt diff_le_mono)
  then show *: "elapsed_ms (of_nat m) (of_nat m0) = of_nat (m - m0)"
    using assms(1) by (simp add: elapsed_ms_def of_nat_diff)
  have "m - m0 < 2 ^ 32" using assms by linarith
  then show "unat (elapsed_ms (of_nat m) (of_nat m0)) = m - m0" unfolding * by (simp add: unat_of_nat)
qed

text \<open>A clock that wraps around during the wait makes the time that has passed zero, whatever it was.\<close>

lemma elapsed_lost_at_wrap:
  assumes "2 ^ 32 \<le> unat s + unat d"
  shows "elapsed_ms (s + d) s = 0"
  using assms by (simp add: elapsed_ms_def no_olen_add_nat)

lemma reads_clockD:
  assumes "reads_clock v now" "now w = (t, w')"
  shows "passes v 0 w w'" "leaves v w w'" "v_failures v w' = v_failures v w" "\<exists>m. t = of_nat m \<and> v_time v w \<le> m \<and> m \<le> v_time v w'"
  using assms unfolding reads_clock_def by blast+

lemma waits_readableD:
  assumes "waits_readable v sel" "sel w (timeval ms) = (r, w')"
  shows "passes v (unat ms) w w'" "leaves v w w'" "r = 0 \<Longrightarrow> v_time v w + unat ms \<le> v_time v w'"
    "r < 0 \<Longrightarrow> v_failures v w < v_failures v w'" "0 < r \<Longrightarrow> v_time v w' = v_time v w \<Longrightarrow> v_spins v w' < v_spins v w"
  using assms unfolding waits_readable_def by blast+

lemma stream_socketD:
  assumes "stream_socket c fd v"
  shows "reads_clock v (tcp_now_ms c)" "waits_readable v (\<lambda>w tv. c_select c w fd (Some tv))"
    "c_fionread c w fd = (k, w') \<Longrightarrow>
       passes v 0 w w' \<and> leaves v w w' \<and> k \<le> int (v_here v w') \<and> (k < int (v_here v w) \<longrightarrow> v_failures v w < v_failures v w')"
    "0 < n \<Longrightarrow> n \<le> v_here v w \<Longrightarrow> c_recv c w fd n MSG_WAITALL = (Some bs, w') \<Longrightarrow>
       passes v 0 w w' \<and> v_unread v w = bs @ v_unread v w' \<and> length bs \<le> n \<and> (length bs < n \<longrightarrow> v_failures v w < v_failures v w')"
    "0 < n \<Longrightarrow> n \<le> v_here v w \<Longrightarrow> c_recv c w fd n MSG_WAITALL = (None, w') \<Longrightarrow>
       passes v 0 w w' \<and> v_unread v w' = v_unread v w \<and> v_failures v w < v_failures v w'"
  using assms unfolding stream_socket_def by blast+

text \<open>
  How the wait of \<open>tcp_recv_exact\<close> for \<open>n\<close> bytes until \<open>e\<close> ends when it is in \<open>w\<close>. A result other than zero with bytes in the buffer is a \<^verbatim>\<open>recv\<close> that
  was cut short.
\<close>

definition exact_end :: "'w view \<Rightarrow> nat \<Rightarrow> nat \<Rightarrow> 'w \<Rightarrow> int \<times> u8 list \<times> 'w \<Rightarrow> bool" where
  "exact_end v n e w = (\<lambda>(rc, bs, w').
     v_unread v w = bs @ v_unread v w' \<and> v_failures v w \<le> v_failures v w' \<and> v_time v w' \<le> e + 4 * v_late v \<and>
     (rc = 0 \<and> length bs = n \<or>
      rc = - 1 \<and> length bs < n \<and>
      (v_failures v w' = v_failures v w \<longrightarrow> bs = [] \<and> e \<le> v_time v w' \<and> \<not> (n \<le> v_here v w \<and> v_time v w + v_late v < e))))"

text \<open>A round either ends the wait or goes on to the next one, later or after one of the calls that return at once.\<close>

lemma recv_exact_round:
  assumes sock: "stream_socket c fd v" and t: "t \<noteq> 0" "len \<noteq> 0" "unat len < 2 ^ 31"
    and clock: "b * 2 ^ 32 \<le> m0" "m0 + unat t + 4 * v_late v < b * 2 ^ 32 + 2 ^ 32"
    and w: "m0 \<le> v_time v w" "v_time v w \<le> m0 + unat t + 3 * v_late v"
  shows "(\<exists>z. tcp_recv_exact_loop c fd len t (of_nat m0) w = Some z \<and> exact_end v (unat len) (m0 + unat t) w z) \<or>
    (\<exists>w'. tcp_recv_exact_loop c fd len t (of_nat m0) w = tcp_recv_exact_loop c fd len t (of_nat m0) w' \<and> v_unread v w' = v_unread v w \<and>
       v_failures v w \<le> v_failures v w' \<and> (unat len \<le> v_here v w \<longrightarrow> v_failures v w < v_failures v w') \<and>
       m0 \<le> v_time v w' \<and> v_time v w' \<le> m0 + unat t + 3 * v_late v \<and>
       (v_time v w < v_time v w' \<or> v_time v w' = v_time v w \<and> v_spins v w' < v_spins v w))"
    (is "?ends \<or> ?again")
proof -
  note sockD = stream_socketD [OF sock]
  have len: "0 < unat len" using t(2) by (simp add: unat_gt_0)
  obtain now w1 where now: "tcp_now_ms c w = (now, w1)" by fastforce
  obtain m where m: "now = of_nat m" "v_time v w \<le> m" "m \<le> v_time v w1" using reads_clockD(4) [OF sockD(1) now] by blast
  note n1 = reads_clockD(1-3) [OF sockD(1) now, unfolded passes_def leaves_def]
  have m_le: "m0 \<le> m" "m < b * 2 ^ 32 + 2 ^ 32" using m n1 w clock by linarith+
  note el = elapsed_no_wrap [OF m_le(1) clock(1) m_le(2)]
  have tm: "t \<le> of_nat (m - m0) \<longleftrightarrow> m0 + unat t \<le> m" using el m_le by (simp add: word_le_nat_alt) linarith
  obtain k w2 where k: "c_fionread c w1 fd = (k, w2)" by fastforce
  note n2 = sockD(3) [OF k, unfolded passes_def leaves_def]
  consider (late) "m0 + unat t \<le> m" | (here) "m < m0 + unat t" "int (unat len) \<le> k" | (few) "m < m0 + unat t" "k < int (unat len)"
    by linarith
  then show ?thesis
  proof cases
    case late
    then have "tcp_recv_exact_loop c fd len t (of_nat m0) w = Some (- 1, [], w1)"
      using t(1) tm by (subst tcp_recv_exact_loop.simps) (simp add: now m(1) el(1) Let_def)
    then show ?thesis using late m n1 w len by (auto simp: exact_end_def)
  next
    case here
    obtain r w3 where r: "c_recv c w2 fd (unat len) MSG_WAITALL = (r, w3)" by fastforce
    have "tcp_recv_exact_loop c fd len t (of_nat m0) w =
        Some (case r of None \<Rightarrow> (- 1, [], w3) | Some bs \<Rightarrow> (if length bs = unat len then 0 else - 1, bs, w3))"
      using t(1) here tm by (subst tcp_recv_exact_loop.simps)
        (simp add: now m(1) el(1) k r int_of_size_small [OF t(3)] Let_def split: option.split)
    moreover have "unat len \<le> v_here v w2" using here n2 by linarith
    moreover have w2: "v_unread v w2 = v_unread v w" "v_failures v w \<le> v_failures v w2" "v_time v w2 \<le> m0 + unat t + 2 * v_late v"
      using n1 n2 m here(1) by auto
    moreover note sockD(4) [OF len, of w2] sockD(5) [OF len, of w2]
    ultimately show ?thesis using r len by (cases r) (auto simp: passes_def exact_end_def)
  next
    case few
    define ms where "ms = t - of_nat (m - m0)"
    have ms: "unat ms = m0 + unat t - m" using tm few el m_le by (simp add: ms_def unat_sub not_le)
    obtain r w3 where sel: "c_select c w2 fd (Some (timeval ms)) = (r, w3)" by fastforce
    note n3 = waits_readableD [OF sockD(2), of w2 ms r w3, OF sel, unfolded passes_def leaves_def ms]
    have time: "v_time v w3 \<le> m0 + unat t + 3 * v_late v" "m0 \<le> v_time v w3" using m n1 n2 n3(1) few(1) w(1) by linarith+
    have un: "v_unread v w3 = v_unread v w" "v_failures v w \<le> v_failures v w3" using n1 n2 n3(1,2) by auto
    have fails: "v_failures v w < v_failures v w3" if "unat len \<le> v_here v w" using that few n1 n2 n3(1) by linarith
    have step: "tcp_recv_exact_loop c fd len t (of_nat m0) w =
        (if r \<le> 0 then Some (- 1, [], w3) else tcp_recv_exact_loop c fd len t (of_nat m0) w3)"
      using t(1) few tm sel by (subst tcp_recv_exact_loop.simps)
        (simp add: now m(1) el(1) k int_of_size_small [OF t(3)] Let_def ms_def)
    show ?thesis
    proof (cases "r \<le> 0")
      case True
      have "v_failures v w3 = v_failures v w \<longrightarrow> m0 + unat t \<le> v_time v w3"
        using True n3 n1 n2 few(1) m by (cases "r = 0") auto
      then show ?thesis using True step un fails time len by (auto simp: exact_end_def)
    next
      case False
      have "v_time v w < v_time v w3 \<or> v_time v w3 = v_time v w \<and> v_spins v w3 < v_spins v w"
        using False n1 n2 n3 m by (cases "v_time v w3 = v_time v w") auto
      then have ?again using False step un fails time by (intro exI [of _ w3]) simp
      then show ?thesis ..
    qed
  qed
qed

lemma recv_exact_loop:
  assumes sock: "stream_socket c fd v" and t: "t \<noteq> 0" "len \<noteq> 0" "unat len < 2 ^ 31"
    and clock: "b * 2 ^ 32 \<le> m0" "m0 + unat t + 4 * v_late v < b * 2 ^ 32 + 2 ^ 32"
    and w: "m0 \<le> v_time v w" "v_time v w \<le> m0 + unat t + 3 * v_late v"
  shows "\<exists>z. tcp_recv_exact_loop c fd len t (of_nat m0) w = Some z \<and> exact_end v (unat len) (m0 + unat t) w z"
  using w
proof (induction "(m0 + unat t + 4 * v_late v - v_time v w, v_spins v w)" arbitrary: w
    rule: wf_induct_rule [OF wf_lex_prod [OF wf_less wf_less]])
  case (1 w)
  from recv_exact_round [OF sock t clock 1(2,3)] show ?case
  proof (rule disjE)
    assume "\<exists>w'. tcp_recv_exact_loop c fd len t (of_nat m0) w = tcp_recv_exact_loop c fd len t (of_nat m0) w' \<and> v_unread v w' = v_unread v w \<and>
       v_failures v w \<le> v_failures v w' \<and> (unat len \<le> v_here v w \<longrightarrow> v_failures v w < v_failures v w') \<and>
       m0 \<le> v_time v w' \<and> v_time v w' \<le> m0 + unat t + 3 * v_late v \<and>
       (v_time v w < v_time v w' \<or> v_time v w' = v_time v w \<and> v_spins v w' < v_spins v w)"
    then obtain w' where w': "tcp_recv_exact_loop c fd len t (of_nat m0) w = tcp_recv_exact_loop c fd len t (of_nat m0) w'"
      "v_unread v w' = v_unread v w" "v_failures v w \<le> v_failures v w'" "unat len \<le> v_here v w \<longrightarrow> v_failures v w < v_failures v w'"
      "m0 \<le> v_time v w'" "v_time v w' \<le> m0 + unat t + 3 * v_late v"
      "v_time v w < v_time v w' \<or> v_time v w' = v_time v w \<and> v_spins v w' < v_spins v w" by blast
    have "((m0 + unat t + 4 * v_late v - v_time v w', v_spins v w'), m0 + unat t + 4 * v_late v - v_time v w, v_spins v w)
        \<in> {(x, y). x < y} <*lex*> {(x, y). x < y}" using w'(6,7) by auto
    from 1(1) [OF this w'(5,6)] obtain z where
      "tcp_recv_exact_loop c fd len t (of_nat m0) w = Some z" "exact_end v (unat len) (m0 + unat t) w' z" unfolding w'(1) by blast
    moreover have "exact_end v (unat len) (m0 + unat t) w z" using calculation(2) w'(2-4) by (auto simp: exact_end_def)
    ultimately show ?thesis by blast
  qed blast
qed

text \<open>
  C33. The receive hook of the TCP programs keeps the contract of the library on a stream socket whose calls behave as documented: \<^verbatim>\<open>select\<close> can outlast its
  timeout, every call can take time, and any of them can fail or be interrupted. For a timeout other than zero in which the 32-bit millisecond clock does
  not wrap around, lateness included, the hook returns within the timeout and five times the lateness of a call, and hands out exactly the requested bytes,
  the next ones of the stream, or none. It hands out none only after the whole timeout, or when a call failed or was interrupted, which it does not retry;
  then fewer than the requested bytes can have been read and thrown away, by a \<^verbatim>\<open>recv\<close> that was cut short. If no call fails, nothing is lost, and bytes that have
  arrived are handed out, unless reading the clock twice takes the whole timeout.
\<close>

theorem tp_recv_contract:
  assumes sock: "stream_socket c fd v" and n: "n \<noteq> 0" "unat n < 2 ^ 31"
    and t: "t \<noteq> 0" "v_time v w mod 2 ^ 32 + unat t + 5 * v_late v < 2 ^ 32"
  shows "\<exists>lost bs w'. tp_recv c fd w n t = Some (0, bs, w') \<and> v_unread v w = lost @ bs @ v_unread v w' \<and>
    v_time v w' \<le> v_time v w + unat t + 5 * v_late v \<and> v_failures v w \<le> v_failures v w' \<and>
    (length bs = unat n \<and> lost = [] \<or>
     bs = [] \<and> length lost < unat n \<and>
     (v_failures v w' = v_failures v w \<longrightarrow>
        lost = [] \<and> v_time v w + unat t \<le> v_time v w' \<and> (2 * v_late v < unat t \<longrightarrow> v_here v w < unat n)))"
proof -
  obtain start w1 where now: "tcp_now_ms c w = (start, w1)" by fastforce
  note clock = reads_clockD [OF stream_socketD(1) [OF sock] now, unfolded passes_def leaves_def]
  obtain m0 where m0: "start = of_nat m0" "v_time v w \<le> m0" "m0 \<le> v_time v w1" using clock(4) by blast
  define b where "b = v_time v w div 2 ^ 32"
  have "v_time v w = b * 2 ^ 32 + v_time v w mod 2 ^ 32" unfolding b_def by (rule div_mult_mod_eq [symmetric])
  then have bound: "b * 2 ^ 32 \<le> m0" "m0 + unat t + 4 * v_late v < b * 2 ^ 32 + 2 ^ 32" "v_time v w1 \<le> m0 + unat t + 3 * v_late v"
    using m0 clock(1) t(2) by linarith+
  obtain rc bs w' where r: "tcp_recv_exact_loop c fd n t (of_nat m0) w1 = Some (rc, bs, w')"
    and e: "exact_end v (unat n) (m0 + unat t) w1 (rc, bs, w')"
    using recv_exact_loop [OF sock t(1) n bound(1,2) m0(3) bound(3)] by (auto simp: split_paired_Ex)
  note e = e [unfolded exact_end_def split_conv]
  have tp: "tp_recv c fd w n t = Some (0, if rc \<noteq> 0 then [] else bs, w')"
    using r n(1) by (simp add: tp_recv_def tcp_recv_exact_def now m0(1))
  have time: "v_time v w' \<le> v_time v w + unat t + 5 * v_late v" "v_failures v w \<le> v_failures v w'" using e m0(2,3) clock(1,3) by linarith+
  show ?thesis
  proof (cases "rc = 0")
    case True
    then show ?thesis using tp time e clock(2) by (intro exI [of _ "[]"] exI [of _ bs] exI [of _ w']) auto
  next
    case False
    then have "bs = [] \<and> v_time v w + unat t \<le> v_time v w' \<and> (2 * v_late v < unat t \<longrightarrow> v_here v w < unat n)"
      if "v_failures v w' = v_failures v w" using that e m0(2,3) clock(1-3) by auto
    then show ?thesis using False tp time e clock(2) by (intro exI [of _ bs] exI [of _ "[]"] exI [of _ w']) auto
  qed
qed

text \<open>What the programs rely on of \<^verbatim>\<open>send\<close>: the bytes it counts are the first of the buffer and follow what was sent before.\<close>

definition sends_stream :: "'w sys_calls \<Rightarrow> int \<Rightarrow> ('w \<Rightarrow> u8 list) \<Rightarrow> bool" where
  "sends_stream c fd sent \<longleftrightarrow>
     (\<forall>w d n w'. c_send c w fd d = (n, w') \<longrightarrow> n \<le> int (length d) \<and> sent w' = sent w @ take (nat n) d)"

lemma send_all_stream:
  assumes law: "sends_stream c fd sent" and r: "tcp_send_all c fd data w = (rc, w')"
  shows "\<exists>k. sent w' = sent w @ take k data \<and> (rc = 0 \<and> k = length data \<or> rc = - 1 \<and> k < length data)"
  using r
proof (induction data arbitrary: w rule: length_induct)
  case (1 data)
  obtain n w1 where snd: "c_send c w fd data = (n, w1)" by fastforce
  then have n: "n \<le> int (length data)" "sent w1 = sent w @ take (nat n) data" using law by (auto simp: sends_stream_def)
  consider "data = []" | "data \<noteq> []" "n \<le> 0" | "data \<noteq> []" "0 < n" by fastforce
  then show ?case
  proof cases
    case 3
    then have rest: "tcp_send_all c fd (drop (nat n) data) w1 = (rc, w')"
      using 1(2) snd by (simp add: tcp_send_all.simps [of c fd data])
    have "length (drop (nat n) data) < length data" using 3 by simp
    then obtain k where k: "sent w' = sent w1 @ take k (drop (nat n) data)"
        "rc = 0 \<and> k = length (drop (nat n) data) \<or> rc = - 1 \<and> k < length (drop (nat n) data)"
      using 1(1) rest by blast
    show ?thesis
      by (rule exI [of _ "nat n + k"]) (use k n 3 in \<open>auto simp: take_add\<close>)
  next
    case 1
    then show ?thesis using \<open>tcp_send_all c fd data w = (rc, w')\<close> by (simp add: tcp_send_all.simps)
  next
    case 2
    then show ?thesis
      using \<open>tcp_send_all c fd data w = (rc, w')\<close> snd n by (auto simp: tcp_send_all.simps [of c fd data])
  qed
qed

lemma send_all_accepts:
  assumes "\<And>w d. d \<noteq> [] \<Longrightarrow> 0 < fst (c_send c w fd d)"
  shows "fst (tcp_send_all c fd data w) = 0"
proof (induction data arbitrary: w rule: length_induct)
  case (1 data)
  show ?case
  proof (cases "data = []")
    case False
    then show ?thesis using assms [OF False, of w] 1 by (subst tcp_send_all.simps) (auto split: prod.splits)
  qed (simp add: tcp_send_all.simps)
qed

text \<open>
  C34. The send hook of the TCP programs: it reports the whole length exactly when every byte of the packet has been handed to the stream, in order and
  after what was sent before; otherwise it reports an error, and what was handed over is a proper prefix of the packet. While \<^verbatim>\<open>send\<close> accepts at least one
  byte per call, it succeeds.
\<close>

theorem tp_send_contract:
  assumes law: "sends_stream c fd sent" and len: "length data < 2 ^ 31" and r: "tp_send c fd w data = (rc, w')"
  shows "(rc = int (length data) \<and> sent w' = sent w @ data \<or> rc = - 1 \<and> (\<exists>k < length data. sent w' = sent w @ take k data)) \<and>
    ((\<forall>w d. d \<noteq> [] \<longrightarrow> 0 < fst (c_send c w fd d)) \<longrightarrow> rc = int (length data))"
proof -
  obtain rc' where all: "tcp_send_all c fd data w = (rc', w')" using r by (auto simp: tp_send_def split: prod.splits)
  have u: "unat (of_nat (length data) :: size_t) = length data" using len by (simp add: unat_of_nat_small)
  have "int_of_size (of_nat (length data)) = int (length data)"
    using int_of_size_small [of "of_nat (length data)"] len unfolding u by blast
  then have "rc = (if rc' = 0 then int (length data) else - 1)" using r all by (auto simp: tp_send_def)
  moreover have "rc' = 0" if "\<forall>w d. d \<noteq> [] \<longrightarrow> 0 < fst (c_send c w fd d)"
    using send_all_accepts [of c fd data w] that all by simp
  ultimately show ?thesis using send_all_stream [OF law all] by auto
qed

section \<open>A connection\<close>

text \<open>
  A connection for the witnesses: the time, the bytes of the peer and how many of them are here, what was sent, seven bytes at a time, whether a signal is
  pending and how many waits were interrupted. A wait that times out is three milliseconds late.
\<close>

record pipe =
  pipe_time :: nat
  pipe_in :: "u8 list"
  pipe_here :: nat
  pipe_out :: "u8 list"
  pipe_signal :: bool
  pipe_failures :: nat

definition pipe_select :: "pipe \<Rightarrow> (u32 \<times> u32) option \<Rightarrow> int \<times> pipe" where
  "pipe_select w tv =
     (let ms = (case tv of Some (s, us) \<Rightarrow> unat (s * 1000 + us div 1000) | None \<Rightarrow> 0) in
      if pipe_signal w then (- 1, w\<lparr>pipe_signal := False, pipe_failures := pipe_failures w + 1\<rparr>)
      else if pipe_here w < length (pipe_in w) then (1, w\<lparr>pipe_here := length (pipe_in w)\<rparr>)
      else if pipe_in w \<noteq> [] then (1, w\<lparr>pipe_time := pipe_time w + 1\<rparr>)
      else (0, w\<lparr>pipe_time := pipe_time w + ms + 3\<rparr>))"

definition pipe_recv :: "pipe \<Rightarrow> nat \<Rightarrow> recv_flags \<Rightarrow> u8 list option \<times> pipe" where
  "pipe_recv w n flags =
     (let k = min n (pipe_here w) in
      (Some (take k (pipe_in w)),
       if flags = MSG_PEEK then w else w\<lparr>pipe_in := drop k (pipe_in w), pipe_here := pipe_here w - k\<rparr>))"

definition pipe_send :: "pipe \<Rightarrow> u8 list \<Rightarrow> int \<times> pipe" where
  "pipe_send w data = (int (min 7 (length data)), w\<lparr>pipe_out := pipe_out w @ take 7 data\<rparr>)"

definition pipe_calls :: "pipe sys_calls" where
  "pipe_calls =
    \<lparr>c_socket = \<lambda>w. (3, w), c_setsockopt = \<lambda>w _ _. w, c_so_error = \<lambda>w _. ((0, 0), w), c_bind = \<lambda>w _ _. (0, w),
     c_listen = \<lambda>w _ _. (0, w), c_accept = \<lambda>w _. (4, w), c_connect = \<lambda>w _ _. (0, w), c_inet_addr = \<lambda>_. INADDR_LOOPBACK,
     c_gethostbyname = \<lambda>w _. (None, w), c_close = \<lambda>w _. w, c_select = \<lambda>w _. pipe_select w, c_send = \<lambda>w _. pipe_send w,
     c_recv = \<lambda>w _. pipe_recv w, c_fionread = \<lambda>w _. (int (min (pipe_here w) (length (pipe_in w))), w),
     c_clock_gettime = \<lambda>w. ((of_nat (pipe_time w) div 1000, (of_nat (pipe_time w) mod 1000) * 1000000), w),
     c_nanosleep = \<lambda>w (s, ns). w\<lparr>pipe_time := pipe_time w + unat s * 1000 + unat ns div 1000000\<rparr>\<rparr>"

definition pipe_view :: "pipe view" where
  "pipe_view =
    \<lparr>v_unread = pipe_in, v_here = \<lambda>w. min (pipe_here w) (length (pipe_in w)), v_time = pipe_time, v_late = 3,
     v_failures = pipe_failures, v_spins = \<lambda>w. length (pipe_in w) - pipe_here w\<rparr>"

lemma pipe_view_simps [simp]:
  "v_unread pipe_view = pipe_in" "v_here pipe_view = (\<lambda>w. min (pipe_here w) (length (pipe_in w)))" "v_time pipe_view = pipe_time"
  "v_late pipe_view = 3" "v_failures pipe_view = pipe_failures" "v_spins pipe_view = (\<lambda>w. length (pipe_in w) - pipe_here w)"
  by (simp_all add: pipe_view_def)

lemma mult_div_word:
  fixes m k :: "'a :: len word"
  assumes "unat m * unat k < 2 ^ LENGTH('a)" "k \<noteq> 0"
  shows "m * k div k = m"
  using assms by (simp add: word_unat_eq_iff unat_div unat_word_ariths)

lemma pipe_calls_simps [simp]:
  "c_select pipe_calls = (\<lambda>w _. pipe_select w)" "c_send pipe_calls = (\<lambda>w _. pipe_send w)"
  "c_recv pipe_calls = (\<lambda>w _. pipe_recv w)"
  "c_fionread pipe_calls = (\<lambda>w _. (int (min (pipe_here w) (length (pipe_in w))), w))"
  by (simp_all add: pipe_calls_def)

lemma mod_1000: "unat ((x :: u32) mod 1000) < 1000" "unat ((y :: u64) mod 1000) < 1000"
  by (simp_all add: unat_mod)

lemma ms_of_timespec:
  fixes t :: u64
  shows "t div 1000 * 1000 + t mod 1000 * 1000000 div 1000000 = t"
proof -
  have "t mod 1000 * 1000000 div 1000000 = t mod 1000" using mod_1000(2) [of t] by (intro mult_div_word) simp_all
  then show ?thesis by (simp add: div_mult_mod_eq)
qed

lemma pipe_now: "tcp_now_ms pipe_calls w = (of_nat (pipe_time w), w)"
proof -
  have "ucast (of_nat k AND 0xFFFFFFFF :: u64) = (of_nat k :: u32)" for k
    by (rule bit_word_eqI) (auto simp: low32_and low32_def bit_simps)
  then show ?thesis by (simp add: tcp_now_ms_def pipe_calls_def Let_def ms_of_timespec)
qed

lemma timeval_ms:
  assumes "timeval ms = (s, us)"
  shows "s * 1000 + us div 1000 = ms"
proof -
  have "ms mod 1000 * 1000 div 1000 = ms mod 1000"
    using mod_1000(1) [of ms] by (intro mult_div_word) simp_all
  then show ?thesis using assms by (auto simp: timeval_def div_mult_mod_eq)
qed

lemma pipe_waits: "waits_readable pipe_view (\<lambda>w tv. pipe_select w (Some tv))"
proof -
  have "pipe_select w (Some (timeval ms)) =
     (if pipe_signal w then (- 1, w\<lparr>pipe_signal := False, pipe_failures := pipe_failures w + 1\<rparr>)
      else if pipe_here w < length (pipe_in w) then (1, w\<lparr>pipe_here := length (pipe_in w)\<rparr>)
      else if pipe_in w \<noteq> [] then (1, w\<lparr>pipe_time := pipe_time w + 1\<rparr>)
      else (0, w\<lparr>pipe_time := pipe_time w + unat ms + 3\<rparr>))" for w ms
    by (cases "timeval ms") (simp add: pipe_select_def timeval_ms)
  then show ?thesis by (auto simp: waits_readable_def passes_def leaves_def)
qed

lemma pipe_socket: "stream_socket pipe_calls fd pipe_view"
  unfolding stream_socket_def using pipe_waits
  by (auto simp: reads_clock_def passes_def leaves_def pipe_now pipe_recv_def Let_def)

text \<open>Three bytes of five are here when a read of four begins, which a signal can interrupt.\<close>

definition pipe_world :: pipe where
  "pipe_world =
    \<lparr>pipe_time = 1000, pipe_in = [1, 2, 3, 4, 5], pipe_here = 3, pipe_out = [9], pipe_signal = False, pipe_failures = 0\<rparr>"

theorem tp_recv_contract_witness:
  "\<exists>lost bs w'. tp_recv pipe_calls 3 pipe_world 4 250 = Some (0, bs, w') \<and> pipe_in pipe_world = lost @ bs @ pipe_in w' \<and>
    pipe_time w' \<le> 1265 \<and> (length bs = 4 \<and> lost = [] \<or> bs = [] \<and> length lost < 4 \<and> (pipe_failures w' = 0 \<longrightarrow> lost = [] \<and> 1250 \<le> pipe_time w'))"
  using tp_recv_contract [OF pipe_socket, of 4 250 pipe_world 3] by (auto simp: pipe_world_def)

theorem tp_send_contract_witness:
  "fst (tp_send pipe_calls 3 pipe_world (replicate 20 7)) = 20"
proof -
  obtain rc w' where r: "tp_send pipe_calls 3 pipe_world (replicate 20 7) = (rc, w')" by fastforce
  have "sends_stream pipe_calls 3 pipe_out" by (auto simp: sends_stream_def pipe_send_def min_def)
  from tp_send_contract [OF this _ r] show ?thesis by (simp add: r pipe_send_def)
qed

end
