(* ===== verification/Val_Options.thy ===== *)
theory Val_Options
  imports Val_Packet
begin

text \<open>
  The command lines of the example programs, \<^verbatim>\<open>examples/tcp\<close>: numbers, names of modes and levels, and the loops over
  the options of the four programs. Messages on the console are left out. Proved: which numbers are accepted and with which value, and
  that the TCP programs accept only packet sizes the library accepts.
\<close>

section \<open>Parsers\<close>

text \<open>A string literal as bytes.\<close>

definition str :: "string \<Rightarrow> cstr" where
  "str s = map of_char s"

text \<open>The overflow test compares with the value before.\<close>

fun parse_uint_loop :: "u32 \<Rightarrow> cstr \<Rightarrow> u32 option" where
  "parse_uint_loop v [] = Some v"
| "parse_uint_loop v (p # ps) =
     (if p < 48 \<or> p > 57 then None
      else
        let d = ucast (p - 48);
            nv = v * 10 + d
        in if nv < v then None else parse_uint_loop nv ps)"

definition parse_uint :: "cstr option \<Rightarrow> u32 option" where
  "parse_uint s = (case s of None \<Rightarrow> None | Some s \<Rightarrow> if s = [] then None else parse_uint_loop 0 s)"

definition tolower :: "u8 \<Rightarrow> u8" where
  "tolower b = (if 65 \<le> b \<and> b \<le> 90 then b + 32 else b)"

fun strieq_loop :: "cstr \<Rightarrow> cstr \<Rightarrow> bool" where
  "strieq_loop (a # as) (b # bs) = (if tolower a \<noteq> tolower b then False else strieq_loop as bs)"
| "strieq_loop as bs = (as = [] \<and> bs = [])"

definition strieq :: "cstr option \<Rightarrow> cstr option \<Rightarrow> bool" where
  "strieq a b = (case (a, b) of (Some a, Some b) \<Rightarrow> strieq_loop a b | _ \<Rightarrow> False)"

definition parse_resume_mode :: "cstr option \<Rightarrow> val_resume_mode_t option" where
  "parse_resume_mode s =
     (if s = None then None
      else if strieq s (Some (str ''never'')) then Some VAL_RESUME_NEVER
      else if strieq s (Some (str ''skip'')) \<or> strieq s (Some (str ''skip_existing'')) then Some VAL_RESUME_SKIP_EXISTING
      else if strieq s (Some (str ''tail'')) then Some VAL_RESUME_TAIL
      else None)"

text \<open>\<^verbatim>\<open>isdigit\<close> and \<^verbatim>\<open>atoi\<close> of the C library; a number too large for an \<^verbatim>\<open>int\<close> is undefined there and a large number here.\<close>

definition isdigit :: "u8 \<Rightarrow> bool" where
  "isdigit b \<longleftrightarrow> 48 \<le> b \<and> b \<le> 57"

definition isspace :: "u8 \<Rightarrow> bool" where
  "isspace b \<longleftrightarrow> b = 32 \<or> 9 \<le> b \<and> b \<le> 13"

definition digits_value :: "cstr \<Rightarrow> nat" where
  "digits_value s = foldl (\<lambda>v p. v * 10 + (unat p - 48)) 0 s"

definition atoi :: "cstr \<Rightarrow> int" where
  "atoi s =
     (let s = dropWhile isspace s;
          number = (\<lambda>s. int (digits_value (takeWhile isdigit s)))
      in case s of
           [] \<Rightarrow> 0
         | b # bs \<Rightarrow> if b = 45 then - number bs else if b = 43 then number bs else number s)"

definition parse_level :: "cstr option \<Rightarrow> int" where
  "parse_level s =
     (case s of
        None \<Rightarrow> 0
      | Some t \<Rightarrow>
          if t \<noteq> [] \<and> isdigit (hd t) then
            let v = atoi t;
                v = (if v < 0 then 0 else v)
            in if v > 5 then 5 else v
          else if strieq s (Some (str ''off'')) then 0
          else if strieq s (Some (str ''crit'')) \<or> strieq s (Some (str ''critical'')) then 1
          else if strieq s (Some (str ''warn'')) \<or> strieq s (Some (str ''warning'')) then 2
          else if strieq s (Some (str ''info'')) then 3
          else if strieq s (Some (str ''debug'')) then 4
          else if strieq s (Some (str ''trace'')) \<or> strieq s (Some (str ''verbose'')) then 5
          else 0)"

section \<open>Options\<close>

text \<open>The local variables the options set. The serial programs use some of them.\<close>

record example_opts =
  opt_packet :: size_t
  opt_resume :: val_resume_mode_t
  opt_tail_bytes :: u32
  opt_log_level :: int
  opt_log_file :: "cstr option"
  opt_degrade :: u32
  opt_upgrade :: u32
  opt_min_timeout :: u32
  opt_max_timeout :: u32
  opt_meta_retries :: u32
  opt_data_retries :: u32
  opt_ack_retries :: u32
  opt_backoff_ms :: u32
  opt_serial_verbose :: bool
  opt_host_mode :: bool

text \<open>What the body of the option loop does: return from \<^verbatim>\<open>main\<close>, or go on, having taken the next argument as a value or not.\<close>

datatype flag = Exit int | Plain example_opts | Valued example_opts

definition text_flag :: "cstr option \<Rightarrow> (cstr \<Rightarrow> flag) \<Rightarrow> flag" where
  "text_flag v f = (case v of None \<Rightarrow> Exit 1 | Some s \<Rightarrow> f s)"

definition uint_flag :: "cstr option \<Rightarrow> (u32 \<Rightarrow> flag) \<Rightarrow> flag" where
  "uint_flag v f = text_flag v (\<lambda>s. case parse_uint (Some s) of None \<Rightarrow> Exit 1 | Some n \<Rightarrow> f n)"

definition mode_flag :: "cstr option \<Rightarrow> (val_resume_mode_t \<Rightarrow> flag) \<Rightarrow> flag" where
  "mode_flag v f = text_flag v (\<lambda>s. case parse_resume_mode (Some s) of None \<Rightarrow> Exit 1 | Some m \<Rightarrow> f m)"

text \<open>The loop: options start with a minus; \<open>Inl\<close> is the exit code of the program, \<open>Inr\<close> the options and the arguments that are left.\<close>

function flags_loop ::
    "(cstr \<Rightarrow> cstr option \<Rightarrow> example_opts \<Rightarrow> flag) \<Rightarrow> example_opts \<Rightarrow> cstr list \<Rightarrow> int + example_opts \<times> cstr list" where
  "flags_loop step opts args =
     (case args of
        [] \<Rightarrow> Inr (opts, [])
      | arg # rest \<Rightarrow>
          if take 1 arg \<noteq> str ''-'' then Inr (opts, args)
          else
            case step arg (case rest of [] \<Rightarrow> None | v # _ \<Rightarrow> Some v) opts of
              Exit rc \<Rightarrow> Inl rc
            | Plain opts \<Rightarrow> flags_loop step opts rest
            | Valued opts \<Rightarrow> flags_loop step opts (tl rest))"
  by pat_completeness auto
termination
  by (relation "measure (\<lambda>(step, opts, args). length args)") auto

declare flags_loop.simps [simp del]

definition tcp_defaults :: example_opts where
  "tcp_defaults =
    \<lparr>opt_packet = 4096, opt_resume = VAL_RESUME_TAIL, opt_tail_bytes = 16384, opt_log_level = - 1, opt_log_file = None,
     opt_degrade = 3, opt_upgrade = 10, opt_min_timeout = 100, opt_max_timeout = 10000, opt_meta_retries = 4,
     opt_data_retries = 3, opt_ack_retries = 3, opt_backoff_ms = 100, opt_serial_verbose = False, opt_host_mode = False\<rparr>"

definition send_tcp_flag :: "cstr \<Rightarrow> cstr option \<Rightarrow> example_opts \<Rightarrow> flag" where
  "send_tcp_flag arg v opts =
     (if arg = str ''--mtu'' then
        uint_flag v (\<lambda>n. if ucast n < VAL_MIN_PACKET_SIZE \<or> ucast n > VAL_MAX_PACKET_SIZE then Exit 1
                         else Valued (opts\<lparr>opt_packet := ucast n\<rparr>))
      else if arg = str ''--resume'' then mode_flag v (\<lambda>m. Valued (opts\<lparr>opt_resume := m\<rparr>))
      else if arg = str ''--tail-bytes'' then uint_flag v (\<lambda>n. Valued (opts\<lparr>opt_tail_bytes := n\<rparr>))
      else if arg = str ''--log-level'' then text_flag v (\<lambda>s. Valued (opts\<lparr>opt_log_level := parse_level (Some s)\<rparr>))
      else if arg = str ''--log-file'' then text_flag v (\<lambda>s. Valued (opts\<lparr>opt_log_file := Some s\<rparr>))
      else if arg = str ''--verbose'' then Plain (opts\<lparr>opt_log_level := 4\<rparr>)
      else if arg = str ''--degrade'' then uint_flag v (\<lambda>n. Valued (opts\<lparr>opt_degrade := n\<rparr>))
      else if arg = str ''--upgrade'' then uint_flag v (\<lambda>n. Valued (opts\<lparr>opt_upgrade := n\<rparr>))
      else if arg = str ''--min-timeout'' then uint_flag v (\<lambda>n. Valued (opts\<lparr>opt_min_timeout := n\<rparr>))
      else if arg = str ''--max-timeout'' then uint_flag v (\<lambda>n. Valued (opts\<lparr>opt_max_timeout := n\<rparr>))
      else if arg = str ''--meta-retries'' then uint_flag v (\<lambda>n. Valued (opts\<lparr>opt_meta_retries := n\<rparr>))
      else if arg = str ''--data-retries'' then uint_flag v (\<lambda>n. Valued (opts\<lparr>opt_data_retries := n\<rparr>))
      else if arg = str ''--ack-retries'' then uint_flag v (\<lambda>n. Valued (opts\<lparr>opt_ack_retries := n\<rparr>))
      else if arg = str ''--backoff'' then uint_flag v (\<lambda>n. Valued (opts\<lparr>opt_backoff_ms := n\<rparr>))
      else if arg = str ''--help'' \<or> arg = str ''-h'' then Exit 0
      else Exit 1)"

definition receive_tcp_flag :: "cstr \<Rightarrow> cstr option \<Rightarrow> example_opts \<Rightarrow> flag" where
  "receive_tcp_flag arg v opts =
     (if arg = str ''--mtu'' then
        uint_flag v (\<lambda>n. if ucast n < VAL_MIN_PACKET_SIZE \<or> ucast n > VAL_MAX_PACKET_SIZE then Exit 1
                         else Valued (opts\<lparr>opt_packet := ucast n\<rparr>))
      else if arg = str ''--resume'' then mode_flag v (\<lambda>m. Valued (opts\<lparr>opt_resume := m\<rparr>))
      else if arg = str ''--tail-bytes'' then uint_flag v (\<lambda>n. Valued (opts\<lparr>opt_tail_bytes := n\<rparr>))
      else if arg = str ''--validation'' then Plain opts
      else if arg = str ''--log-level'' then text_flag v (\<lambda>s. Valued (opts\<lparr>opt_log_level := parse_level (Some s)\<rparr>))
      else if arg = str ''--min-timeout'' then uint_flag v (\<lambda>n. Valued (opts\<lparr>opt_min_timeout := n\<rparr>))
      else if arg = str ''--max-timeout'' then uint_flag v (\<lambda>n. Valued (opts\<lparr>opt_max_timeout := n\<rparr>))
      else if arg = str ''--meta-retries'' then uint_flag v (\<lambda>n. Valued (opts\<lparr>opt_meta_retries := n\<rparr>))
      else if arg = str ''--data-retries'' then uint_flag v (\<lambda>n. Valued (opts\<lparr>opt_data_retries := n\<rparr>))
      else if arg = str ''--ack-retries'' then uint_flag v (\<lambda>n. Valued (opts\<lparr>opt_ack_retries := n\<rparr>))
      else if arg = str ''--backoff'' then uint_flag v (\<lambda>n. Valued (opts\<lparr>opt_backoff_ms := n\<rparr>))
      else if arg = str ''--log-file'' then text_flag v (\<lambda>s. Valued (opts\<lparr>opt_log_file := Some s\<rparr>))
      else if arg = str ''--verbose'' then Plain (opts\<lparr>opt_log_level := 4\<rparr>)
      else if arg = str ''--degrade'' then uint_flag v (\<lambda>n. Valued (opts\<lparr>opt_degrade := n\<rparr>))
      else if arg = str ''--upgrade'' then uint_flag v (\<lambda>n. Valued (opts\<lparr>opt_upgrade := n\<rparr>))
      else if arg = str ''--help'' \<or> arg = str ''-h'' then Exit 0
      else Exit 1)"

text \<open>The serial programs take the size as it is, know fewer options and compare the names of the modes exactly.\<close>

definition com_mode_flag :: "cstr option \<Rightarrow> example_opts \<Rightarrow> flag" where
  "com_mode_flag v opts =
     text_flag v (\<lambda>mode.
       if mode = str ''never'' then Valued (opts\<lparr>opt_resume := VAL_RESUME_NEVER\<rparr>)
       else if mode = str ''skip'' then Valued (opts\<lparr>opt_resume := VAL_RESUME_SKIP_EXISTING\<rparr>)
       else if mode = str ''tail'' then Valued (opts\<lparr>opt_resume := VAL_RESUME_TAIL\<rparr>)
       else Exit 1)"

definition com_defaults :: example_opts where
  "com_defaults = tcp_defaults\<lparr>opt_tail_bytes := 1024\<rparr>"

definition send_com_flag :: "cstr \<Rightarrow> cstr option \<Rightarrow> example_opts \<Rightarrow> flag" where
  "send_com_flag arg v opts =
     (if arg = str ''--mtu'' then uint_flag v (\<lambda>n. Valued (opts\<lparr>opt_packet := ucast n\<rparr>))
      else if arg = str ''--resume'' then com_mode_flag v opts
      else if arg = str ''--tail-bytes'' then uint_flag v (\<lambda>n. Valued (opts\<lparr>opt_tail_bytes := n\<rparr>))
      else if arg = str ''--log-level'' then text_flag v (\<lambda>s. Valued (opts\<lparr>opt_log_level := parse_level (Some s)\<rparr>))
      else if arg = str ''--log-file'' then text_flag v (\<lambda>s. Valued (opts\<lparr>opt_log_file := Some s\<rparr>))
      else if arg = str ''--verbose'' then Plain (opts\<lparr>opt_log_level := 4\<rparr>)
      else if arg = str ''--serial-verbose'' then Plain (opts\<lparr>opt_serial_verbose := True\<rparr>)
      else if arg = str ''--help'' \<or> arg = str ''-h'' then Exit 0
      else Exit 1)"

definition receive_com_flag :: "cstr \<Rightarrow> cstr option \<Rightarrow> example_opts \<Rightarrow> flag" where
  "receive_com_flag arg v opts =
     (if arg = str ''--mtu'' then uint_flag v (\<lambda>n. Valued (opts\<lparr>opt_packet := ucast n\<rparr>))
      else if arg = str ''--resume'' then com_mode_flag v opts
      else if arg = str ''--tail-bytes'' then uint_flag v (\<lambda>n. Valued (opts\<lparr>opt_tail_bytes := n\<rparr>))
      else if arg = str ''--log-level'' then text_flag v (\<lambda>s. Valued (opts\<lparr>opt_log_level := parse_level (Some s)\<rparr>))
      else if arg = str ''--log-file'' then text_flag v (\<lambda>s. Valued (opts\<lparr>opt_log_file := Some s\<rparr>))
      else if arg = str ''--verbose'' then Plain (opts\<lparr>opt_log_level := 4\<rparr>)
      else if arg = str ''--serial-verbose'' then Plain (opts\<lparr>opt_serial_verbose := True\<rparr>)
      else if arg = str ''--host'' then Plain (opts\<lparr>opt_host_mode := True\<rparr>)
      else if arg = str ''--validation'' then Plain opts
      else if arg = str ''--help'' \<or> arg = str ''-h'' then Exit 0
      else Exit 1)"

section \<open>Commands\<close>

text \<open>
  The command line as a whole, without the name of the program: the options, then the positional arguments. The port is cut to
  16 bits.
\<close>

definition send_tcp_command :: "cstr list \<Rightarrow> int + example_opts \<times> cstr \<times> u16 \<times> cstr list" where
  "send_tcp_command args =
     (case flags_loop send_tcp_flag tcp_defaults args of
        Inl rc \<Rightarrow> Inl rc
      | Inr (opts, host # port # f # fs) \<Rightarrow> Inr (opts, host, of_int (atoi port), f # fs)
      | Inr _ \<Rightarrow> Inl 1)"

definition receive_tcp_command :: "cstr list \<Rightarrow> int + example_opts \<times> u16 \<times> cstr" where
  "receive_tcp_command args =
     (case flags_loop receive_tcp_flag tcp_defaults args of
        Inl rc \<Rightarrow> Inl rc
      | Inr (opts, port # outdir # _) \<Rightarrow> Inr (opts, of_int (atoi port), outdir)
      | Inr _ \<Rightarrow> Inl 1)"

definition send_com_command :: "cstr list \<Rightarrow> int + example_opts \<times> cstr \<times> u32 \<times> cstr list" where
  "send_com_command args =
     (case flags_loop send_com_flag com_defaults args of
        Inl rc \<Rightarrow> Inl rc
      | Inr (opts, port # baud # f # fs) \<Rightarrow>
          (case parse_uint (Some baud) of None \<Rightarrow> Inl 1 | Some b \<Rightarrow> Inr (opts, port, b, f # fs))
      | Inr _ \<Rightarrow> Inl 1)"

text \<open>With \<^verbatim>\<open>--host\<close> there is no port (\<open>None\<close>) and no baud rate.\<close>

definition receive_com_command :: "cstr list \<Rightarrow> int + example_opts \<times> cstr option \<times> u32 \<times> cstr" where
  "receive_com_command args =
     (case flags_loop receive_com_flag com_defaults args of
        Inl rc \<Rightarrow> Inl rc
      | Inr (opts, rest) \<Rightarrow>
          if opt_host_mode opts then (case rest of [] \<Rightarrow> Inl 1 | outdir # _ \<Rightarrow> Inr (opts, None, 0, outdir))
          else
            case rest of
              port # baud # outdir # _ \<Rightarrow>
                (case parse_uint (Some baud) of None \<Rightarrow> Inl 1 | Some b \<Rightarrow> Inr (opts, Some port, b, outdir))
            | _ \<Rightarrow> Inl 1)"

text \<open>Whether \<^verbatim>\<open>--validation\<close> is given: the receivers look for it among all arguments.\<close>

definition use_validation :: "cstr list \<Rightarrow> bool" where
  "use_validation args \<longleftrightarrow> str ''--validation'' \<in> set args"

section \<open>Numbers: properties\<close>

lemma digits_value_snoc: "digits_value (s @ [p]) = digits_value s * 10 + (unat p - 48)"
  by (simp add: digits_value_def)

lemma digits_value_mono: "digits_value s \<le> digits_value (s @ t)"
proof (induction t rule: rev_induct)
  case (snoc x t)
  then show ?case using digits_value_snoc [of "s @ t" x] by simp
qed simp

text \<open>The digit of a character.\<close>

lemma digit_word:
  assumes "isdigit p"
  shows "(ucast (p - 48) :: u32) = of_nat (unat p - 48)"
proof -
  have "unat (p - 48) = unat p - 48" using assms by (simp add: isdigit_def unat_sub)
  then show ?thesis by (simp add: word_unat_eq_iff unsigned_ucast_eq unsigned_of_nat)
qed

text \<open>What was read so far is \<open>s\<close>.\<close>

lemma parse_uint_loop_value:
  "parse_uint_loop (of_nat (digits_value s)) t = Some v \<Longrightarrow> list_all isdigit t \<and> v = of_nat (digits_value (s @ t))"
proof (induction t arbitrary: s)
  case (Cons p t)
  then have p: "isdigit p" by (auto simp: isdigit_def not_less split: if_splits)
  have "of_nat (digits_value (s @ [p])) = of_nat (digits_value s) * 10 + (ucast (p - 48) :: u32)"
    by (simp add: digits_value_snoc digit_word [OF p])
  then show ?case using Cons.prems Cons.IH [of "s @ [p]"] p by (auto simp: Let_def split: if_splits)
qed simp

lemma parse_uint_loop_accepts:
  "list_all isdigit t \<Longrightarrow> digits_value (s @ t) < 2 ^ 32 \<Longrightarrow>
    parse_uint_loop (of_nat (digits_value s)) t = Some (of_nat (digits_value (s @ t)))"
proof (induction t arbitrary: s)
  case (Cons p t)
  then have p: "isdigit p" by simp
  have eq: "of_nat (digits_value (s @ [p])) = of_nat (digits_value s) * 10 + (ucast (p - 48) :: u32)"
    by (simp add: digits_value_snoc digit_word [OF p])
  have "digits_value s \<le> digits_value (s @ [p])" "digits_value (s @ [p]) < 2 ^ 32"
    using Cons.prems(2) digits_value_mono [of s "[p]"] digits_value_mono [of "s @ [p]" t] by simp_all
  then have "(of_nat (digits_value s) :: u32) \<le> of_nat (digits_value (s @ [p]))"
    by (simp add: word_le_nat_alt unat_of_nat_small)
  then show ?case
    using Cons.IH [of "s @ [p]"] Cons.prems p by (simp add: isdigit_def Let_def eq not_less)
qed simp

text \<open>
  C40. Numbers of the command line. What \<^verbatim>\<open>parse_uint\<close> accepts is a non-empty string of decimal digits, and the result is its value modulo \<open>2 ^ 32\<close>; every such
  string whose value fits 32 bits is accepted, with its value. The overflow test is weaker than it means to be: five
  thousand million is accepted, as 705032704.
\<close>

theorem parse_uint_value:
  "(parse_uint (Some s) = Some v \<longrightarrow> s \<noteq> [] \<and> list_all isdigit s \<and> unat v = digits_value s mod 2 ^ 32) \<and>
   (s \<noteq> [] \<and> list_all isdigit s \<and> digits_value s < 2 ^ 32 \<longrightarrow> parse_uint (Some s) = Some (of_nat (digits_value s))) \<and>
   parse_uint (Some (str ''5000000000'')) = Some 705032704"
proof (intro conjI impI)
  have nil: "of_nat (digits_value []) = (0 :: u32)" by (simp add: digits_value_def)
  assume p: "parse_uint (Some s) = Some v"
  then show "s \<noteq> []" by (auto simp: parse_uint_def)
  have "list_all isdigit s \<and> v = of_nat (digits_value s)"
    using p parse_uint_loop_value [of "[]" s v] nil by (simp add: parse_uint_def split: if_splits)
  then show "list_all isdigit s" "unat v = digits_value s mod 2 ^ 32"
    by (simp_all add: unsigned_of_nat take_bit_eq_mod)
next
  assume "s \<noteq> [] \<and> list_all isdigit s \<and> digits_value s < 2 ^ 32"
  then show "parse_uint (Some s) = Some (of_nat (digits_value s))"
    using parse_uint_loop_accepts [of s "[]"] by (simp add: parse_uint_def digits_value_def)
next
  show "parse_uint (Some (str ''5000000000'')) = Some 705032704"
    by (simp add: parse_uint_def str_def Let_def)
qed

theorem parse_uint_value_witness: "parse_uint (Some (str ''1500'')) = Some 1500"
proof -
  have "str ''1500'' \<noteq> [] \<and> list_all isdigit (str ''1500'') \<and> digits_value (str ''1500'') < 2 ^ 32"
    by (simp add: str_def isdigit_def digits_value_def)
  with parse_uint_value [of "str ''1500''"] have "parse_uint (Some (str ''1500'')) = Some (of_nat (digits_value (str ''1500'')))" by blast
  then show ?thesis by (simp add: str_def digits_value_def)
qed

section \<open>Names: properties\<close>

lemma strieq_eq: "strieq (Some a) (Some b) \<longleftrightarrow> map tolower a = map tolower b"
proof -
  have "strieq_loop a b \<longleftrightarrow> map tolower a = map tolower b" by (induction a b rule: strieq_loop.induct) auto
  then show ?thesis by (simp add: strieq_def)
qed

lemma parse_level_range: "0 \<le> parse_level s \<and> parse_level s \<le> 5"
  by (simp add: parse_level_def Let_def split: option.split)

section \<open>Options: properties\<close>

text \<open>The contract of a loop body: what it keeps of the options, and the codes it exits with.\<close>

locale option_step =
  fixes step :: "cstr \<Rightarrow> cstr option \<Rightarrow> example_opts \<Rightarrow> flag" and good_opts :: "example_opts \<Rightarrow> bool"
  assumes plain: "good_opts opts \<Longrightarrow> step arg v opts = Plain opts' \<Longrightarrow> good_opts opts'"
    and valued: "good_opts opts \<Longrightarrow> step arg v opts = Valued opts' \<Longrightarrow> v \<noteq> None \<and> good_opts opts'"
    and exits: "step arg v opts = Exit rc \<Longrightarrow> rc = 0 \<or> rc = 1"
begin

text \<open>The loop keeps it too, never takes a value that is not there, and leaves the last arguments.\<close>

lemma loop_keeps:
  "good_opts opts \<Longrightarrow> flags_loop step opts args = Inr (opts', rest) \<Longrightarrow>
    good_opts opts' \<and> (\<exists>used. args = used @ rest) \<and> (rest \<noteq> [] \<longrightarrow> take 1 (hd rest) \<noteq> str ''-'')"
proof (induction args arbitrary: opts rule: length_induct)
  case (1 args)
  show ?case
  proof (cases args)
    case Nil
    then show ?thesis using 1(2,3) by (simp add: flags_loop.simps)
  next
    case (Cons arg more)
    note eq = flags_loop.simps [of step opts args, unfolded Cons list.case]
    show ?thesis
    proof (cases "take 1 arg \<noteq> str ''-''")
      case True
      then show ?thesis using 1(2,3) Cons by (auto simp: eq)
    next
      case False
      define v where "v = (case more of [] \<Rightarrow> None | v # _ \<Rightarrow> Some v)"
      have loop: "(case step arg v opts of Exit rc \<Rightarrow> Inl rc | Plain o1 \<Rightarrow> flags_loop step o1 more
          | Valued o1 \<Rightarrow> flags_loop step o1 (tl more)) = Inr (opts', rest)"
        using 1(3) False unfolding Cons eq v_def by simp
      show ?thesis
      proof (cases "step arg v opts")
        case (Plain o1)
        then obtain used where "good_opts opts'" "more = used @ rest" "rest \<noteq> [] \<longrightarrow> take 1 (hd rest) \<noteq> str ''-''"
          using 1(1) [rule_format, of more o1] loop plain [OF 1(2) Plain] Cons by auto
        then show ?thesis using Cons by (auto intro: exI [of _ "arg # used"])
      next
        case (Valued o1)
        then have "v \<noteq> None" "good_opts o1" using valued [OF 1(2) Valued] by simp_all
        then obtain x xs where more: "more = x # xs" by (auto simp: v_def split: list.splits)
        then obtain used where "good_opts opts'" "xs = used @ rest" "rest \<noteq> [] \<longrightarrow> take 1 (hd rest) \<noteq> str ''-''"
          using 1(1) [rule_format, of xs o1] loop Valued \<open>good_opts o1\<close> Cons by auto
        then show ?thesis using Cons more by (auto intro: exI [of _ "arg # x # used"])
      qed (use loop in simp)
    qed
  qed
qed

lemma loop_exits: "flags_loop step opts args = Inl rc \<Longrightarrow> rc = 0 \<or> rc = 1"
proof (induction args arbitrary: opts rule: measure_induct_rule [of length])
  case (less args)
  have ih: "rc = 0 \<or> rc = 1" if "flags_loop step o1 xs = Inl rc" "length xs < length args" for o1 xs
    using less.IH that by blast
  show ?case
    using less.prems unfolding flags_loop.simps [of step opts args]
    by (auto split: list.splits if_splits flag.splits dest: exits ih)
qed

end

definition packet_allowed :: "example_opts \<Rightarrow> bool" where
  "packet_allowed opts \<longleftrightarrow> VAL_MIN_PACKET_SIZE \<le> opt_packet opts \<and> opt_packet opts \<le> VAL_MAX_PACKET_SIZE"

lemmas flag_defs = uint_flag_def mode_flag_def text_flag_def com_mode_flag_def

interpretation send_tcp: option_step send_tcp_flag packet_allowed
  by unfold_locales (auto simp: send_tcp_flag_def flag_defs packet_allowed_def not_less split: if_splits option.splits)

interpretation receive_tcp: option_step receive_tcp_flag packet_allowed
  by unfold_locales (auto simp: receive_tcp_flag_def flag_defs packet_allowed_def not_less split: if_splits option.splits)

interpretation send_com: option_step send_com_flag "\<lambda>opts. unat (opt_packet opts) < 2 ^ 32"
  by unfold_locales (auto simp: send_com_flag_def flag_defs unat_less_2p32 [simplified] split: if_splits option.splits)

interpretation receive_com: option_step receive_com_flag "\<lambda>opts. unat (opt_packet opts) < 2 ^ 32"
  by unfold_locales (auto simp: receive_com_flag_def flag_defs unat_less_2p32 [simplified] split: if_splits option.splits)

end
