(* ===== verification/Val_Summary.thy ===== *)
theory Val_Summary
  imports Val_Session
begin

text \<open>
  The end-of-run summary of the example programs: lists of names and a table of timings, filled by the callbacks
  \<^verbatim>\<open>on_file_start\<close> and \<^verbatim>\<open>on_file_complete\<close>. Arrays are lists of their allocated length, and a write outside of one sets \<open>sm_fault\<close>.
  Counters are natural numbers. Proved: the TCP programs write inside their arrays, if they have them, and report what happened; the serial receiver
  does not.
\<close>

section \<open>State\<close>

text \<open>Whether an allocation of the given size succeeds, and the clock.\<close>

record 'w app_env =
  env_alloc :: "'w \<Rightarrow> nat \<Rightarrow> bool \<times> 'w"
  env_now :: "'w \<Rightarrow> u32 \<times> 'w"

text \<open>A name is \<open>None\<close> when its copy could not be allocated.\<close>

record file_stat =
  st_name :: "cstr option"
  st_bytes :: u64
  st_start_ms :: u32
  st_elapsed_ms :: u32
  st_result :: int

definition blank_stat :: file_stat where
  "blank_stat = \<lparr>st_name = None, st_bytes = 0, st_start_ms = 0, st_elapsed_ms = 0, st_result = 0\<rparr>"

text \<open>\<open>sm_done\<close> is \<^verbatim>\<open>sent\<close> of a sender and \<^verbatim>\<open>received\<close> of a receiver.\<close>

record summary =
  sm_done :: "cstr option list"
  sm_done_count :: nat
  sm_skipped :: "cstr option list"
  sm_skipped_count :: nat
  sm_capacity :: nat
  sm_stats :: "file_stat list"
  sm_stats_count :: nat
  sm_stats_cap :: nat
  sm_fault :: bool

definition empty_summary :: summary where
  "empty_summary =
    \<lparr>sm_done = [], sm_done_count = 0, sm_skipped = [], sm_skipped_count = 0, sm_capacity = 0,
     sm_stats = [], sm_stats_count = 0, sm_stats_cap = 0, sm_fault = False\<rparr>"

text \<open>\<^verbatim>\<open>realloc\<close>: a block of \<open>n\<close> elements that starts with the old ones.\<close>

definition resize :: "nat \<Rightarrow> 'a \<Rightarrow> 'a list \<Rightarrow> 'a list" where
  "resize n x xs = take n xs @ replicate (n - length xs) x"

section \<open>Lists of names\<close>

text \<open>An array of names with its count, and whether a write went outside.\<close>

type_synonym names = "cstr option list \<times> nat \<times> bool"

definition dup_cstr :: "'w app_env \<Rightarrow> cstr \<Rightarrow> 'w \<Rightarrow> cstr option \<times> 'w" where
  "dup_cstr e s w = (let (ok, w) = env_alloc e w (length s + 1) in (if ok then Some s else None, w))"

definition tx_summary_add :: "'w app_env \<Rightarrow> cstr option list \<Rightarrow> nat \<Rightarrow> nat \<Rightarrow> cstr \<Rightarrow> 'w \<Rightarrow> names \<times> 'w" where
  "tx_summary_add e arr count cap name w =
     (if count \<ge> cap then ((arr, count, False), w)
      else
        case dup_cstr e name w of
          (None, w) \<Rightarrow> ((arr, count, False), w)
        | (Some cp, w) \<Rightarrow> ((arr[count := Some cp], count + 1, count \<ge> length arr), w))"

definition arr_push :: "'w app_env \<Rightarrow> cstr option list \<Rightarrow> nat \<Rightarrow> cstr \<Rightarrow> 'w \<Rightarrow> names \<times> 'w" where
  "arr_push e arr count name w =
     (let idx = count;
          (ok, cur, w) =
            (if idx mod 8 = 0 then
               let newcap = idx + 8; (ok, w) = env_alloc e w (newcap * 8) in
               (ok, if ok then resize newcap None arr else arr, w)
             else (True, arr, w))
      in if \<not> ok then ((arr, count, False), w)
         else
           case dup_cstr e name w of
             (None, w) \<Rightarrow> ((cur, count, False), w)
           | (Some cp, w) \<Rightarrow> ((cur[idx := Some cp], idx + 1, idx \<ge> length cur), w))"

text \<open>The serial programs use \<^verbatim>\<open>strdup\<close> and store its result as it is.\<close>

definition com_summary_add :: "'w app_env \<Rightarrow> cstr option list \<Rightarrow> nat \<Rightarrow> nat \<Rightarrow> cstr \<Rightarrow> 'w \<Rightarrow> names \<times> 'w" where
  "com_summary_add e arr count cap name w =
     (if count \<ge> cap then ((arr, count, False), w)
      else
        let (cp, w) = dup_cstr e name w
        in ((arr[count := cp], count + 1, count \<ge> length arr), w))"

section \<open>Timings\<close>

definition put_stat :: "nat \<Rightarrow> file_stat \<Rightarrow> summary \<Rightarrow> summary" where
  "put_stat idx st sm = sm\<lparr>sm_stats := (sm_stats sm)[idx := st], sm_fault := sm_fault sm \<or> idx \<ge> length (sm_stats sm)\<rparr>"

definition stats_start :: "'w app_env \<Rightarrow> nat \<Rightarrow> cstr \<Rightarrow> u64 \<Rightarrow> summary \<Rightarrow> 'w \<Rightarrow> summary \<times> 'w" where
  "stats_start e sizeof_stat filename bytes sm w =
     (let (ok, sm, w) =
            (if sm_stats_count sm = sm_stats_cap sm then
               let newcap = (if sm_stats_cap sm \<noteq> 0 then sm_stats_cap sm * 2 else 8);
                   (ok, w) = env_alloc e w (newcap * sizeof_stat)
               in (ok, if ok then sm\<lparr>sm_stats := resize newcap blank_stat (sm_stats sm), sm_stats_cap := newcap\<rparr> else sm, w)
             else (True, sm, w))
      in if \<not> ok then (sm, w)
         else
           let idx = sm_stats_count sm;
               sm = sm\<lparr>sm_stats_count := sm_stats_count sm + 1\<rparr>;
               (name, w) = dup_cstr e filename w;
               (now, w) = env_now e w
           in (put_stat idx \<lparr>st_name = name, st_bytes = bytes, st_start_ms = now, st_elapsed_ms = 0, st_result = 0\<rparr> sm, w))"

text \<open>The serial programs grow the table by one and do not look at the result of \<^verbatim>\<open>realloc\<close>: then the table is NULL.\<close>

definition com_stats_start :: "'w app_env \<Rightarrow> nat \<Rightarrow> cstr \<Rightarrow> u64 \<Rightarrow> summary \<Rightarrow> 'w \<Rightarrow> summary \<times> 'w" where
  "com_stats_start e sizeof_stat filename bytes sm w =
     (let idx = sm_stats_count sm;
          (ok, w) = env_alloc e w (sizeof_stat * (idx + 1));
          sm = sm\<lparr>sm_stats_count := idx + 1, sm_stats := if ok then resize (idx + 1) blank_stat (sm_stats sm) else []\<rparr>;
          (name, w) = dup_cstr e filename w;
          (now, w) = env_now e w
      in (put_stat idx \<lparr>st_name = name, st_bytes = bytes, st_start_ms = now, st_elapsed_ms = 0, st_result = - 1\<rparr> sm, w))"

text \<open>The entry the end of a file belongs to: the latest of that name whose time is still zero; in the serial programs the first of that name.\<close>

fun find_open :: "file_stat list \<Rightarrow> cstr \<Rightarrow> nat \<Rightarrow> nat option" where
  "find_open stats filename 0 = None"
| "find_open stats filename (Suc idx) =
     (if st_name (stats ! idx) = Some filename \<and> st_elapsed_ms (stats ! idx) = 0 then Some idx
      else find_open stats filename idx)"

function find_first :: "file_stat list \<Rightarrow> cstr \<Rightarrow> nat \<Rightarrow> nat \<Rightarrow> nat option" where
  "find_first stats filename count i =
     (if i < count then
        if st_name (stats ! i) = Some filename then Some i else find_first stats filename count (i + 1)
      else None)"
  by pat_completeness auto
termination
  by (relation "measure (\<lambda>(stats, filename, count, i). count - i)") auto

declare find_first.simps [simp del]

definition close_stat :: "'w app_env \<Rightarrow> nat option \<Rightarrow> int \<Rightarrow> summary \<Rightarrow> 'w \<Rightarrow> summary \<times> 'w" where
  "close_stat e found result sm w =
     (case found of
        None \<Rightarrow> (sm, w)
      | Some idx \<Rightarrow>
          let (now, w) = env_now e w;
              st = sm_stats sm ! idx;
              start = st_start_ms st
          in (put_stat idx (st\<lparr>st_elapsed_ms := if now \<ge> start then now - start else 0, st_result := result\<rparr>) sm, w))"

definition stats_complete :: "'w app_env \<Rightarrow> cstr \<Rightarrow> int \<Rightarrow> summary \<Rightarrow> 'w \<Rightarrow> summary \<times> 'w" where
  "stats_complete e filename result sm w = close_stat e (find_open (sm_stats sm) filename (sm_stats_count sm)) result sm w"

definition com_stats_complete :: "'w app_env \<Rightarrow> cstr \<Rightarrow> int \<Rightarrow> summary \<Rightarrow> 'w \<Rightarrow> summary \<times> 'w" where
  "com_stats_complete e filename result sm w =
     close_stat e (find_first (sm_stats sm) filename (sm_stats_count sm) 0) result sm w"

section \<open>Callbacks\<close>

definition set_done :: "names \<Rightarrow> summary \<Rightarrow> summary" where
  "set_done n sm = (case n of (arr, count, bad) \<Rightarrow> sm\<lparr>sm_done := arr, sm_done_count := count, sm_fault := sm_fault sm \<or> bad\<rparr>)"

definition set_skipped :: "names \<Rightarrow> summary \<Rightarrow> summary" where
  "set_skipped n sm =
     (case n of (arr, count, bad) \<Rightarrow> sm\<lparr>sm_skipped := arr, sm_skipped_count := count, sm_fault := sm_fault sm \<or> bad\<rparr>)"

definition left_bytes :: "u64 \<Rightarrow> u64 \<Rightarrow> u64" where
  "left_bytes file_size resume_offset = (if file_size > resume_offset then file_size - resume_offset else 0)"

definition on_file_start_tcp :: "'w app_env \<Rightarrow> nat \<Rightarrow> cstr \<Rightarrow> u64 \<Rightarrow> u64 \<Rightarrow> summary \<Rightarrow> 'w \<Rightarrow> summary \<times> 'w" where
  "on_file_start_tcp e sizeof_stat filename file_size resume_offset sm w =
     stats_start e sizeof_stat filename (left_bytes file_size resume_offset) sm w"

definition on_file_complete_tx :: "'w app_env \<Rightarrow> cstr \<Rightarrow> val_status_t \<Rightarrow> summary \<Rightarrow> 'w \<Rightarrow> summary \<times> 'w" where
  "on_file_complete_tx e filename result sm w =
     (let (sm, w) =
            (if result = VAL_OK then
               let (n, w) = tx_summary_add e (sm_done sm) (sm_done_count sm) (sm_capacity sm) filename w in (set_done n sm, w)
             else if result = VAL_SKIPPED then
               let (n, w) = tx_summary_add e (sm_skipped sm) (sm_skipped_count sm) (sm_capacity sm) filename w in (set_skipped n sm, w)
             else (sm, w))
      in stats_complete e filename (status_code result) sm w)"

definition on_file_complete_rx :: "'w app_env \<Rightarrow> cstr \<Rightarrow> val_status_t \<Rightarrow> summary \<Rightarrow> 'w \<Rightarrow> summary \<times> 'w" where
  "on_file_complete_rx e filename result sm w =
     (let (sm, w) =
            (if result = VAL_OK then
               let (n, w) = arr_push e (sm_done sm) (sm_done_count sm) filename w in (set_done n sm, w)
             else if result = VAL_SKIPPED then
               let (n, w) = arr_push e (sm_skipped sm) (sm_skipped_count sm) filename w in (set_skipped n sm, w)
             else (sm, w))
      in stats_complete e filename (status_code result) sm w)"

definition on_file_start_com :: "'w app_env \<Rightarrow> nat \<Rightarrow> cstr \<Rightarrow> u64 \<Rightarrow> u64 \<Rightarrow> summary \<Rightarrow> 'w \<Rightarrow> summary \<times> 'w" where
  "on_file_start_com e sizeof_stat filename file_size resume_offset sm w =
     com_stats_start e sizeof_stat filename (left_bytes file_size resume_offset) sm w"

definition on_file_complete_com :: "'w app_env \<Rightarrow> cstr \<Rightarrow> val_status_t \<Rightarrow> summary \<Rightarrow> 'w \<Rightarrow> summary \<times> 'w" where
  "on_file_complete_com e filename result sm w =
     (let (sm, w) =
            (if result = VAL_OK then
               let (n, w) = com_summary_add e (sm_done sm) (sm_done_count sm) (sm_capacity sm) filename w in (set_done n sm, w)
             else if result = VAL_SKIPPED then
               let (n, w) = com_summary_add e (sm_skipped sm) (sm_skipped_count sm) (sm_capacity sm) filename w in (set_skipped n sm, w)
             else (sm, w))
      in com_stats_complete e filename (status_code result) sm w)"

text \<open>
  The summary the programs start with. Nobody looks at the result of \<^verbatim>\<open>calloc\<close>: an array that could not be allocated is NULL and has no elements, whatever
  the capacity says. The serial receiver allocates one element and says sixteen.
\<close>

definition calloc_names :: "'w app_env \<Rightarrow> nat \<Rightarrow> 'w \<Rightarrow> cstr option list \<times> 'w" where
  "calloc_names e n w = (let (ok, w) = env_alloc e w (n * 8) in (if ok then replicate n None else [], w))"

definition tx_summary_start :: "'w app_env \<Rightarrow> nat \<Rightarrow> summary \<Rightarrow> 'w \<Rightarrow> summary \<times> 'w" where
  "tx_summary_start e nfiles sm w =
     (let n = (if nfiles \<noteq> 0 then nfiles else 1);
          (sent, w) = calloc_names e n w;
          (skipped, w) = calloc_names e n w
      in (sm\<lparr>sm_capacity := nfiles, sm_done := sent, sm_skipped := skipped\<rparr>, w))"

definition rx_com_summary_start :: "'w app_env \<Rightarrow> summary \<Rightarrow> 'w \<Rightarrow> summary \<times> 'w" where
  "rx_com_summary_start e sm w =
     (let (received, w) = calloc_names e 1 w;
          (skipped, w) = calloc_names e 1 w
      in (sm\<lparr>sm_capacity := 16, sm_done := received, sm_skipped := skipped\<rparr>, w))"

section \<open>Bounds\<close>

text \<open>What the library reports of the files, in order, and the callbacks of the programs for it.\<close>

datatype file_event = Started cstr u64 u64 | Ended cstr val_status_t

definition event_with ::
    "('w app_env \<Rightarrow> nat \<Rightarrow> cstr \<Rightarrow> u64 \<Rightarrow> u64 \<Rightarrow> summary \<Rightarrow> 'w \<Rightarrow> summary \<times> 'w) \<Rightarrow>
     ('w app_env \<Rightarrow> cstr \<Rightarrow> val_status_t \<Rightarrow> summary \<Rightarrow> 'w \<Rightarrow> summary \<times> 'w) \<Rightarrow>
     'w app_env \<Rightarrow> nat \<Rightarrow> summary \<times> 'w \<Rightarrow> file_event \<Rightarrow> summary \<times> 'w" where
  "event_with start complete e sz x ev =
     (case (x, ev) of
        ((sm, w), Started n bytes off) \<Rightarrow> start e sz n bytes off sm w
      | ((sm, w), Ended n st) \<Rightarrow> complete e n st sm w)"

lemma event_with_simps [simp]:
  "event_with start complete e sz (sm, w) (Started n b off) = start e sz n b off sm w"
  "event_with start complete e sz (sm, w) (Ended n st) = complete e n st sm w"
  by (simp_all add: event_with_def)

abbreviation tx_event :: "'w app_env \<Rightarrow> nat \<Rightarrow> summary \<times> 'w \<Rightarrow> file_event \<Rightarrow> summary \<times> 'w" where
  "tx_event \<equiv> event_with on_file_start_tcp on_file_complete_tx"

abbreviation rx_event :: "'w app_env \<Rightarrow> nat \<Rightarrow> summary \<times> 'w \<Rightarrow> file_event \<Rightarrow> summary \<times> 'w" where
  "rx_event \<equiv> event_with on_file_start_tcp on_file_complete_rx"

abbreviation com_event :: "'w app_env \<Rightarrow> nat \<Rightarrow> summary \<times> 'w \<Rightarrow> file_event \<Rightarrow> summary \<times> 'w" where
  "com_event \<equiv> event_with on_file_start_com on_file_complete_com"

definition allocates :: "'w app_env \<Rightarrow> bool" where
  "allocates e \<longleftrightarrow> (\<forall>w n. fst (env_alloc e w n))"

text \<open>The names of the files that ended with a status.\<close>

definition ended :: "val_status_t \<Rightarrow> file_event list \<Rightarrow> cstr list" where
  "ended st evs = concat (map (\<lambda>ev. case ev of Ended n st' \<Rightarrow> if st' = st then [n] else [] | _ \<Rightarrow> []) evs)"

lemma ended_snoc:
  "ended st (evs @ [Started n a b]) = ended st evs"
  "ended st (evs @ [Ended n st']) = ended st evs @ (if st' = st then [n] else [])"
  by (simp_all add: ended_def)

definition stats_ok :: "summary \<Rightarrow> bool" where
  "stats_ok sm \<longleftrightarrow> sm_stats_count sm \<le> sm_stats_cap sm \<and> length (sm_stats sm) = sm_stats_cap sm"

text \<open>The part of a summary the timings leave alone.\<close>

definition lists_part :: "summary \<Rightarrow> (cstr option list \<times> nat) \<times> (cstr option list \<times> nat) \<times> nat \<times> bool" where
  "lists_part sm = ((sm_done sm, sm_done_count sm), (sm_skipped sm, sm_skipped_count sm), sm_capacity sm, sm_fault sm)"

lemma find_open_less: "find_open stats n k = Some i \<Longrightarrow> i < k"
  by (induction stats n k rule: find_open.induct) (auto split: if_splits simp: less_SucI)

lemma length_resize [simp]: "length (resize n x xs) = n"
  by (simp add: resize_def)

lemma take_resize: "k \<le> n \<Longrightarrow> k \<le> length xs \<Longrightarrow> take k (resize n x xs) = take k xs"
  by (simp add: resize_def min_def)

lemma stats_start_ok:
  assumes "stats_ok sm" "stats_start e sz n b sm w = (sm', w')"
  shows "stats_ok sm' \<and> lists_part sm' = lists_part sm"
  using assms
  by (auto simp: stats_start_def stats_ok_def lists_part_def put_stat_def Let_def split: if_splits prod.splits)

lemma stats_complete_ok:
  assumes "stats_ok sm" "stats_complete e n r sm w = (sm', w')"
  shows "stats_ok sm' \<and> lists_part sm' = lists_part sm"
  using assms find_open_less [of "sm_stats sm" n "sm_stats_count sm"]
  by (fastforce simp: stats_complete_def close_stat_def stats_ok_def lists_part_def put_stat_def Let_def
      split: option.splits prod.splits)

text \<open>The completion callback over an operation that adds a name to a list of some capacity.\<close>

definition complete_with ::
    "('w app_env \<Rightarrow> nat \<Rightarrow> cstr option list \<Rightarrow> nat \<Rightarrow> cstr \<Rightarrow> 'w \<Rightarrow> names \<times> 'w) \<Rightarrow>
     'w app_env \<Rightarrow> cstr \<Rightarrow> val_status_t \<Rightarrow> summary \<Rightarrow> 'w \<Rightarrow> summary \<times> 'w" where
  "complete_with add e filename result sm w =
     (let (sm, w) =
            (if result = VAL_OK then
               let (n, w) = add e (sm_capacity sm) (sm_done sm) (sm_done_count sm) filename w in (set_done n sm, w)
             else if result = VAL_SKIPPED then
               let (n, w) = add e (sm_capacity sm) (sm_skipped sm) (sm_skipped_count sm) filename w in (set_skipped n sm, w)
             else (sm, w))
      in stats_complete e filename (status_code result) sm w)"

lemma on_file_complete_with:
  "on_file_complete_tx = complete_with (\<lambda>e cap arr count. tx_summary_add e arr count cap)"
  "on_file_complete_rx = complete_with (\<lambda>e cap. arr_push e)"
  unfolding on_file_complete_tx_def on_file_complete_rx_def complete_with_def by simp_all

text \<open>
  The contract of such an operation: \<open>fits\<close> is its invariant, a write goes outside the array only if the array is \<open>missing\<close>, and then whenever a name is added,
  and where memory lasts the array lists the names that were added, all or as many as \<open>keep\<close> says.
\<close>

locale name_list =
  fixes add :: "'w app_env \<Rightarrow> nat \<Rightarrow> cstr option list \<Rightarrow> nat \<Rightarrow> cstr \<Rightarrow> 'w \<Rightarrow> names \<times> 'w"
    and fits :: "nat \<Rightarrow> cstr option list \<Rightarrow> nat \<Rightarrow> bool"
    and missing :: "cstr option list \<Rightarrow> bool"
    and keep :: "nat \<Rightarrow> cstr list \<Rightarrow> cstr list"
  assumes add_fits: "fits cap arr count \<Longrightarrow> add e cap arr count name w = ((arr', count', bad), w') \<Longrightarrow>
      fits cap arr' count' \<and> missing arr' = missing arr \<and> count \<le> count' \<and> (bad \<longleftrightarrow> missing arr \<and> count < count')"
    and add_lists: "fits cap arr count \<Longrightarrow> add e cap arr count name w = ((arr', count', bad), w') \<Longrightarrow> allocates e \<Longrightarrow> \<not> missing arr \<Longrightarrow>
      take count arr = map Some (keep cap names) \<Longrightarrow> count \<le> length arr \<Longrightarrow>
      take count' arr' = map Some (keep cap (names @ [name])) \<and> count' \<le> length arr'"
begin

definition summary_ok :: "summary \<Rightarrow> bool" where
  "summary_ok sm \<longleftrightarrow> stats_ok sm \<and>
     (sm_fault sm \<longleftrightarrow> missing (sm_done sm) \<and> 0 < sm_done_count sm \<or> missing (sm_skipped sm) \<and> 0 < sm_skipped_count sm) \<and>
     fits (sm_capacity sm) (sm_done sm) (sm_done_count sm) \<and> fits (sm_capacity sm) (sm_skipped sm) (sm_skipped_count sm)"

text \<open>What no callback changes.\<close>

definition arrays_part :: "summary \<Rightarrow> nat \<times> bool \<times> bool" where
  "arrays_part sm = (sm_capacity sm, missing (sm_done sm), missing (sm_skipped sm))"

definition listed :: "cstr list \<Rightarrow> cstr list \<Rightarrow> summary \<Rightarrow> bool" where
  "listed ds ss sm \<longleftrightarrow> \<not> missing (sm_done sm) \<and> \<not> missing (sm_skipped sm) \<and>
     take (sm_done_count sm) (sm_done sm) = map Some (keep (sm_capacity sm) ds) \<and> sm_done_count sm \<le> length (sm_done sm) \<and>
     take (sm_skipped_count sm) (sm_skipped sm) = map Some (keep (sm_capacity sm) ss) \<and> sm_skipped_count sm \<le> length (sm_skipped sm)"

lemma name_ok:
  assumes ok: "summary_ok sm" and x:
    "(if st = VAL_OK then
        let (n, w) = add e (sm_capacity sm) (sm_done sm) (sm_done_count sm) n w in (set_done n sm, w)
      else if st = VAL_SKIPPED then
        let (n, w) = add e (sm_capacity sm) (sm_skipped sm) (sm_skipped_count sm) n w in (set_skipped n sm, w)
      else (sm, w)) = (sm1, w1)"
  shows "summary_ok sm1 \<and> arrays_part sm1 = arrays_part sm \<and>
    (allocates e \<longrightarrow> listed ds ss sm \<longrightarrow>
     listed (ds @ (if st = VAL_OK then [n] else [])) (ss @ (if st = VAL_SKIPPED then [n] else [])) sm1)"
proof -
  obtain a1 c1 b1 v1 where d: "add e (sm_capacity sm) (sm_done sm) (sm_done_count sm) n w = ((a1, c1, b1), v1)" by (metis surj_pair)
  obtain a2 c2 b2 v2 where s: "add e (sm_capacity sm) (sm_skipped sm) (sm_skipped_count sm) n w = ((a2, c2, b2), v2)" by (metis surj_pair)
  have fits: "fits (sm_capacity sm) (sm_done sm) (sm_done_count sm)" "fits (sm_capacity sm) (sm_skipped sm) (sm_skipped_count sm)"
    using ok by (simp_all add: summary_ok_def)
  consider "st = VAL_OK" "sm1 = set_done (a1, c1, b1) sm" | "st = VAL_SKIPPED" "sm1 = set_skipped (a2, c2, b2) sm"
    | "st \<noteq> VAL_OK" "st \<noteq> VAL_SKIPPED" "sm1 = sm"
    using x unfolding d s by (cases "st = VAL_OK"; cases "st = VAL_SKIPPED") simp_all
  then show ?thesis
  proof cases
    case 1
    have "summary_ok sm1 \<and> arrays_part sm1 = arrays_part sm"
      using 1 ok add_fits [OF fits(1) d] by (simp add: summary_ok_def arrays_part_def stats_ok_def set_done_def) linarith
    then show ?thesis
      using 1 add_lists [OF fits(1) d] add_fits [OF fits(1) d] by (simp add: listed_def set_done_def)
  next
    case 2
    have "summary_ok sm1 \<and> arrays_part sm1 = arrays_part sm"
      using 2 ok add_fits [OF fits(2) s] by (simp add: summary_ok_def arrays_part_def stats_ok_def set_skipped_def) linarith
    then show ?thesis
      using 2 add_lists [OF fits(2) s] add_fits [OF fits(2) s] by (simp add: listed_def set_skipped_def)
  next
    case 3
    then show ?thesis using ok by simp
  qed
qed

lemma complete_ok:
  assumes ok: "summary_ok sm" and c: "complete_with add e n st sm w = (sm', w')"
  shows "summary_ok sm' \<and> arrays_part sm' = arrays_part sm \<and>
    (allocates e \<longrightarrow> listed ds ss sm \<longrightarrow>
     listed (ds @ (if st = VAL_OK then [n] else [])) (ss @ (if st = VAL_SKIPPED then [n] else [])) sm')"
proof -
  define x where "x =
    (if st = VAL_OK then
       let (n, w) = add e (sm_capacity sm) (sm_done sm) (sm_done_count sm) n w in (set_done n sm, w)
     else if st = VAL_SKIPPED then
       let (n, w) = add e (sm_capacity sm) (sm_skipped sm) (sm_skipped_count sm) n w in (set_skipped n sm, w)
     else (sm, w))"
  obtain sm1 w1 where x: "x = (sm1, w1)" by fastforce
  note 1 = name_ok [OF ok x [unfolded x_def]]
  have c': "stats_complete e n (status_code st) sm1 w1 = (sm', w')"
    using c x unfolding complete_with_def x_def [symmetric] by simp
  have "stats_ok sm1" using 1 by (simp add: summary_ok_def)
  with stats_complete_ok [OF this c']
  have "summary_ok sm' = summary_ok sm1" "arrays_part sm' = arrays_part sm1" "\<And>a b. listed a b sm' = listed a b sm1"
    by (simp_all add: lists_part_def summary_ok_def listed_def arrays_part_def)
  then show ?thesis using 1 by simp
qed

lemma start_ok:
  assumes ok: "summary_ok sm" and c: "on_file_start_tcp e sz n b off sm w = (sm', w')"
  shows "summary_ok sm' \<and> arrays_part sm' = arrays_part sm \<and> (listed ds ss sm \<longrightarrow> listed ds ss sm')"
proof -
  have "stats_ok sm" using ok by (simp add: summary_ok_def)
  from stats_start_ok [OF this c [unfolded on_file_start_tcp_def]] show ?thesis
    using ok by (auto simp: lists_part_def summary_ok_def listed_def arrays_part_def)
qed

lemma run_ok:
  assumes "summary_ok sm"
  shows "foldl (event_with on_file_start_tcp (complete_with add) e sz) (sm, w) evs = (sm', w') \<Longrightarrow>
    summary_ok sm' \<and> arrays_part sm' = arrays_part sm \<and>
    (allocates e \<longrightarrow> listed [] [] sm \<longrightarrow> listed (ended VAL_OK evs) (ended VAL_SKIPPED evs) sm')"
proof (induction evs arbitrary: sm' w' rule: rev_induct)
  case (snoc ev evs)
  obtain sm1 w1 where r: "foldl (event_with on_file_start_tcp (complete_with add) e sz) (sm, w) evs = (sm1, w1)" by fastforce
  note 1 = snoc.IH [OF r]
  show ?case
  proof (cases ev)
    case (Started n b off)
    with snoc.prems r have "on_file_start_tcp e sz n b off sm1 w1 = (sm', w')" by simp
    from start_ok [OF _ this] 1 Started show ?thesis by (simp add: ended_snoc)
  next
    case (Ended n st)
    with snoc.prems r have "complete_with add e n st sm1 w1 = (sm', w')" by simp
    from complete_ok [OF _ this] 1 Ended show ?thesis by (simp add: ended_snoc)
  qed
qed (use assms in \<open>auto simp: ended_def\<close>)

end

lemma dup_cstr_allocates: "allocates e \<Longrightarrow> dup_cstr e s w = (cp, w') \<Longrightarrow> cp = Some s"
  by (auto simp: dup_cstr_def allocates_def split: prod.splits) (metis fst_conv)

lemma take_update_snoc: "i < length xs \<Longrightarrow> take (Suc i) (xs[i := x]) = take i xs @ [x]"
  by (simp add: take_Suc_conv_app_nth)

text \<open>The sender's arrays hold its capacity unless they could not be allocated, the receiver's the next multiple of eight names.\<close>

definition tx_fits :: "nat \<Rightarrow> cstr option list \<Rightarrow> nat \<Rightarrow> bool" where
  "tx_fits cap arr count \<longleftrightarrow> count \<le> cap \<and> (cap \<le> length arr \<or> arr = [])"

definition rx_fits :: "nat \<Rightarrow> cstr option list \<Rightarrow> nat \<Rightarrow> bool" where
  "rx_fits cap arr count \<longleftrightarrow>
     count \<le> length arr \<and> (count mod 8 \<noteq> 0 \<longrightarrow> count < length arr \<and> count div 8 * 8 + 8 \<le> length arr)"

interpretation tx_list: name_list "\<lambda>e cap arr count. tx_summary_add e arr count cap" tx_fits "\<lambda>arr. arr = []" take
proof (unfold_locales, goal_cases)
  case (1 cap arr count e name w arr' count' bad w')
  then show ?case by (auto simp: tx_fits_def tx_summary_add_def split: if_splits option.splits prod.splits)
next
  case (2 cap arr count e name w arr' count' bad w' names)
  have "length (take count arr) = length (map Some (take cap names))" using 2(5) by (rule arg_cong)
  then have len: "count = min cap (length names)" using 2(6) by (simp add: min.commute)
  show ?case
  proof (cases "count < cap")
    case True
    then show ?thesis
      using 2 len dup_cstr_allocates [OF 2(3), of name w]
      by (auto simp: tx_fits_def tx_summary_add_def take_update_snoc min_def split: if_splits option.splits prod.splits)
  next
    case False
    then show ?thesis using 2 len by (auto simp: tx_fits_def tx_summary_add_def min_def split: if_splits)
  qed
qed

interpretation rx_list: name_list "\<lambda>e cap. arr_push e" rx_fits "\<lambda>_. False" "\<lambda>cap names. names"
proof (unfold_locales, goal_cases)
  case (1 cap arr count e name w arr' count' bad w')
  have m: "Suc count mod 8 = 0 \<Longrightarrow> count mod 8 \<noteq> 0" "count < count div 8 * 8 + 8" "count mod 8 = 0 \<Longrightarrow> count div 8 * 8 = count"
    "Suc count mod 8 \<noteq> 0 \<Longrightarrow> Suc count div 8 = count div 8" by presburger+
  show ?case
  proof (cases "count mod 8 = 0")
    case True
    then show ?thesis using 1 m by (auto simp: rx_fits_def arr_push_def Let_def split: if_splits option.splits prod.splits)
  next
    case False
    then show ?thesis using 1 m by (auto simp: rx_fits_def arr_push_def Let_def split: if_splits option.splits prod.splits)
  qed
next
  case (2 cap arr count e name w arr' count' bad w' names)
  note dup = dup_cstr_allocates [OF 2(3), of name]
  have ok: "fst (env_alloc e w n)" for w n using 2(3) by (simp add: allocates_def)
  show ?case
  proof (cases "count mod 8 = 0")
    case True
    define cur where "cur = resize (count + 8) None arr"
    have cur: "take count cur = map Some names" "count < length cur" using 2(5,6) by (simp_all add: cur_def take_resize)
    show ?thesis
      using 2(2) True ok [of w "(count + 8) * 8"] dup cur(2) take_update_snoc [OF cur(2)] cur(1)
      unfolding arr_push_def Let_def cur_def [symmetric]
      by (auto split: if_splits option.splits prod.splits)
  next
    case False
    then show ?thesis
      using 2(1,2,5,6) dup take_update_snoc [of count arr]
      by (auto simp: rx_fits_def arr_push_def Let_def split: if_splits option.splits prod.splits)
  qed
qed

text \<open>
  C36. The summaries of the TCP programs, whatever the library reports and in any order. The receiver's callbacks never write outside an array, whether or
  not memory lasts. The sender's do exactly when one of the two arrays could not be allocated, which it does not check, and a name is stored in it:
  with both arrays they never do. Where memory lasts, the sender's lists are the files that were sent and those that were skipped, in order and up to the
  number of files it was started with, and the receiver's lists are all of them.
\<close>

theorem tcp_summaries:
  assumes start: "tx_summary_start e k empty_summary w = (sm0, w0)"
    and runs: "foldl (tx_event e sz) (sm0, w0) evs = (tx, w1)" "foldl (rx_event e sz) (empty_summary, w) evs = (rx, w2)"
  shows "\<not> sm_fault rx \<and>
    (sm_fault tx \<longleftrightarrow> sm_done sm0 = [] \<and> 0 < sm_done_count tx \<or> sm_skipped sm0 = [] \<and> 0 < sm_skipped_count tx) \<and>
    (allocates e \<longrightarrow> \<not> sm_fault tx \<and>
       take (sm_done_count tx) (sm_done tx) = map Some (take k (ended VAL_OK evs)) \<and>
       take (sm_skipped_count tx) (sm_skipped tx) = map Some (take k (ended VAL_SKIPPED evs)) \<and>
       take (sm_done_count rx) (sm_done rx) = map Some (ended VAL_OK evs) \<and>
       take (sm_skipped_count rx) (sm_skipped rx) = map Some (ended VAL_SKIPPED evs))"
proof -
  have sm0: "tx_list.summary_ok sm0" "sm_capacity sm0 = k" "allocates e \<longrightarrow> tx_list.listed [] [] sm0"
    using start
    by (auto simp: tx_summary_start_def calloc_names_def empty_summary_def tx_list.summary_ok_def tx_list.listed_def stats_ok_def tx_fits_def allocates_def
        Let_def split: prod.splits if_splits) (metis fst_conv)+
  from tx_list.run_ok [OF sm0(1) runs(1) [unfolded on_file_complete_with]] sm0(2)
  have tx: "tx_list.summary_ok tx" "sm_capacity tx = k" "sm_done tx = [] \<longleftrightarrow> sm_done sm0 = []" "sm_skipped tx = [] \<longleftrightarrow> sm_skipped sm0 = []"
    "allocates e \<longrightarrow> tx_list.listed [] [] sm0 \<longrightarrow> tx_list.listed (ended VAL_OK evs) (ended VAL_SKIPPED evs) tx"
    by (simp_all add: tx_list.arrays_part_def)
  have "rx_list.summary_ok empty_summary" "rx_list.listed [] [] empty_summary"
    by (simp_all add: rx_list.summary_ok_def rx_list.listed_def stats_ok_def empty_summary_def rx_fits_def)
  with rx_list.run_ok [OF _ runs(2) [unfolded on_file_complete_with]]
  have rx: "\<not> sm_fault rx" "allocates e \<Longrightarrow> rx_list.listed (ended VAL_OK evs) (ended VAL_SKIPPED evs) rx"
    by (simp_all add: rx_list.summary_ok_def)
  show ?thesis using tx rx sm0(3) by (auto simp: tx_list.summary_ok_def tx_list.listed_def rx_list.listed_def)
qed

definition vast_env :: "u32 app_env" where
  "vast_env = \<lparr>env_alloc = \<lambda>w n. (True, w), env_now = \<lambda>w. (w, w + 5)\<rparr>"

text \<open>With memory for names only, the first file that was sent is written through NULL; with memory, three files for a capacity of two stay inside.\<close>

definition tight_env :: "u32 app_env" where
  "tight_env = vast_env\<lparr>env_alloc := \<lambda>w n. (n < 8, w)\<rparr>"

theorem tcp_summaries_witness:
  "\<not> sm_fault (fst (foldl (tx_event vast_env 40) (tx_summary_start vast_env 2 empty_summary 7)
      [Started [97] 10 0, Ended [97] VAL_OK, Started [98] 10 4, Ended [98] VAL_SKIPPED, Ended [99] VAL_OK])) \<and>
   sm_fault (fst (foldl (tx_event tight_env 40) (tx_summary_start tight_env 2 empty_summary 7) [Ended [97] VAL_OK]))"
proof (rule conjI)
  let ?evs = "[Started [97] 10 0, Ended [97] VAL_OK, Started [98] 10 4, Ended [98] VAL_SKIPPED, Ended [99] VAL_OK]"
  obtain sm0 w0 where st: "tx_summary_start vast_env 2 empty_summary 7 = (sm0, w0)" by fastforce
  obtain tx w1 rx w2 where r: "foldl (tx_event vast_env 40) (sm0, w0) ?evs = (tx, w1)"
    "foldl (rx_event vast_env 40) (empty_summary, 7) ?evs = (rx, w2)" by fastforce
  have "allocates vast_env" by (simp add: allocates_def vast_env_def)
  with tcp_summaries [OF st r] have "\<not> sm_fault tx" by (elim conjE) simp
  then show "\<not> sm_fault (fst (foldl (tx_event vast_env 40) (tx_summary_start vast_env 2 empty_summary 7) ?evs))"
    unfolding st r(1) by simp
next
  obtain sm0 w0 where st: "tx_summary_start tight_env 2 empty_summary 7 = (sm0, w0)" by fastforce
  obtain tx w1 rx w2 where r: "foldl (tx_event tight_env 40) (sm0, w0) [Ended [97] VAL_OK] = (tx, w1)"
    "foldl (rx_event tight_env 40) (empty_summary, 7) [Ended [97] VAL_OK] = (rx, w2)" by fastforce
  have sm0: "sm_done sm0 = []" "sm_done_count sm0 = 0" "sm_capacity sm0 = 2" "sm_stats_count sm0 = 0"
    using st by (auto simp: tx_summary_start_def calloc_names_def tight_env_def vast_env_def empty_summary_def Let_def)
  have "sm_done_count tx = 1"
    using r(1) sm0 by (auto simp: on_file_complete_tx_def tx_summary_add_def dup_cstr_def tight_env_def vast_env_def set_done_def stats_complete_def close_stat_def Let_def)
  with tcp_summaries [OF st r] st r(1) sm0(1)
  show "sm_fault (fst (foldl (tx_event tight_env 40) (tx_summary_start tight_env 2 empty_summary 7) [Ended [97] VAL_OK]))"
    by simp
qed

section \<open>The serial receiver\<close>

text \<open>
  What the callbacks of the serial programs do to the receiver's summary when memory lasts: the arrays keep their one element while the counts go up to the
  capacity.
\<close>

definition com_state :: "nat \<Rightarrow> nat \<Rightarrow> summary \<Rightarrow> bool" where
  "com_state d k sm \<longleftrightarrow> sm_capacity sm = 16 \<and> length (sm_done sm) = 1 \<and> length (sm_skipped sm) = 1 \<and>
     sm_done_count sm = min 16 d \<and> sm_skipped_count sm = min 16 k \<and> length (sm_stats sm) = sm_stats_count sm \<and>
     (sm_fault sm \<longleftrightarrow> 2 \<le> d \<or> 2 \<le> k)"

lemma find_first_less: "find_first stats n c i = Some j \<Longrightarrow> j < c"
  by (induction stats n c i rule: find_first.induct) (subst (asm) (2) find_first.simps, auto split: if_splits)

lemma com_start_state:
  assumes "allocates e" "com_state d k sm" "on_file_start_com e sz n b off sm w = (sm', w')"
  shows "com_state d k sm'"
proof -
  have "fst (env_alloc e w (sz * (sm_stats_count sm + 1)))" using assms(1) by (simp add: allocates_def)
  then obtain w1 where "env_alloc e w (sz * (sm_stats_count sm + 1)) = (True, w1)" by (metis (full_types) prod.collapse)
  then show ?thesis
    using assms(2,3)
    by (auto simp: on_file_start_com_def com_stats_start_def com_state_def put_stat_def Let_def split: prod.splits)
qed

lemma com_stats_state:
  assumes "com_state d k sm" "com_stats_complete e n r sm w = (sm', w')"
  shows "com_state d k sm'"
  using assms find_first_less [of "sm_stats sm" n "sm_stats_count sm" 0]
  by (auto simp: com_stats_complete_def close_stat_def com_state_def put_stat_def Let_def not_le split: option.splits prod.splits)

lemma com_complete_state:
  assumes "com_state d k sm" "on_file_complete_com e n st sm w = (sm', w')"
  shows "com_state (d + (if st = VAL_OK then 1 else 0)) (k + (if st = VAL_SKIPPED then 1 else 0)) sm'"
proof -
  define x where "x =
    (if st = VAL_OK then
       let (n, w) = com_summary_add e (sm_done sm) (sm_done_count sm) (sm_capacity sm) n w in (set_done n sm, w)
     else if st = VAL_SKIPPED then
       let (n, w) = com_summary_add e (sm_skipped sm) (sm_skipped_count sm) (sm_capacity sm) n w in (set_skipped n sm, w)
     else (sm, w))"
  obtain sm1 w1 where x: "x = (sm1, w1)" by fastforce
  have "com_state (d + (if st = VAL_OK then 1 else 0)) (k + (if st = VAL_SKIPPED then 1 else 0)) sm1"
    using x assms(1) unfolding x_def
    by (auto simp: com_state_def com_summary_add_def set_done_def set_skipped_def Let_def min_def split: if_splits prod.splits)
  moreover have "com_stats_complete e n (status_code st) sm1 w1 = (sm', w')"
    using assms(2) x unfolding on_file_complete_com_def x_def [symmetric] by simp
  ultimately show ?thesis by (rule com_stats_state)
qed

text \<open>
  C37. The summary of the serial receiver, which has arrays of one element and a capacity of sixteen. While memory lasts, a callback
  writes outside an array exactly when a second file has been received or a second one skipped.
\<close>

theorem serial_summary_overflows:
  assumes "allocates e" "foldl (com_event e sz) (rx_com_summary_start e empty_summary w) evs = (sm, w')"
  shows "sm_fault sm \<longleftrightarrow> 2 \<le> length (ended VAL_OK evs) \<or> 2 \<le> length (ended VAL_SKIPPED evs)"
proof -
  have "com_state (length (ended VAL_OK evs)) (length (ended VAL_SKIPPED evs)) sm"
    using assms(2)
  proof (induction evs arbitrary: sm w' rule: rev_induct)
    case Nil
    have "fst (env_alloc e v n)" for v n using assms(1) by (simp add: allocates_def)
    then have "fst (calloc_names e 1 v) = [None]" for v by (simp add: calloc_names_def Let_def split_beta)
    then show ?case using Nil by (auto simp: rx_com_summary_start_def empty_summary_def com_state_def ended_def Let_def split_beta)
  next
    case (snoc ev evs)
    obtain sm1 w1 where r: "foldl (com_event e sz) (rx_com_summary_start e empty_summary w) evs = (sm1, w1)" by fastforce
    show ?case
    proof (cases ev)
      case (Started n b off)
      with snoc r com_start_state [OF assms(1)] show ?thesis by (simp add: ended_snoc)
    next
      case (Ended n st)
      with snoc.prems r have "on_file_complete_com e n st sm1 w1 = (sm, w')" by simp
      from com_complete_state [OF snoc.IH [OF r] this] Ended show ?thesis by (simp add: ended_snoc split: if_splits)
    qed
  qed
  then show ?thesis by (simp add: com_state_def)
qed

theorem serial_summary_overflows_witness:
  "sm_fault (fst (foldl (com_event vast_env 40) (rx_com_summary_start vast_env empty_summary 7)
      [Started [97] 10 0, Ended [97] VAL_OK, Started [98] 10 4, Ended [98] VAL_OK]))"
proof -
  let ?evs = "[Started [97] 10 0, Ended [97] VAL_OK, Started [98] 10 4, Ended [98] VAL_OK]"
  have al: "allocates vast_env" by (simp add: allocates_def vast_env_def)
  obtain sm w' where r: "foldl (com_event vast_env 40) (rx_com_summary_start vast_env empty_summary 7) ?evs = (sm, w')" by fastforce
  have "2 \<le> length (ended VAL_OK ?evs)" by (simp add: ended_def)
  with serial_summary_overflows [OF al r] r show ?thesis by simp
qed

end
