(* ===== verification/Val_Programs.thy ===== *)
theory Val_Programs
  imports Val_Socket Val_Options Val_Summary Val_Sender Val_Receiver
begin

text \<open>
  The TCP programs, \<^verbatim>\<open>examples/tcp/val_example_send_tcp.c\<close> and \<^verbatim>\<open>val_example_receive_tcp.c\<close>: the configuration they build and \<^verbatim>\<open>main\<close>,
  up to its exit code. Console output and the reading of values for it are left out. Proved: every configuration they build is one the library accepts,
  and what the exit codes mean.
\<close>

section \<open>The world of a program\<close>

text \<open>The globals the callbacks change, and the world outside.\<close>

record 'w app =
  app_summary :: summary
  app_world :: 'w

definition on_world :: "('w \<Rightarrow> 'r \<times> 'w) \<Rightarrow> 'w app \<Rightarrow> 'r \<times> 'w app" where
  "on_world f a = (let (r, w) = f (app_world a) in (r, a\<lparr>app_world := w\<rparr>))"

definition on_world_only :: "('w \<Rightarrow> 'w) \<Rightarrow> 'w app \<Rightarrow> 'w app" where
  "on_world_only f a = a\<lparr>app_world := f (app_world a)\<rparr>"

definition on_summary :: "(summary \<Rightarrow> 'w \<Rightarrow> summary \<times> 'w) \<Rightarrow> 'w app \<Rightarrow> 'w app" where
  "on_summary f a = (let (sm, w) = f (app_summary a) (app_world a) in a\<lparr>app_summary := sm, app_world := w\<rparr>)"

text \<open>
  The system and the C library: system calls, \<^verbatim>\<open>stdio\<close>, the environment, allocation (\<open>os_malloc\<close> gives the memory, its content is whatever
  it was; \<open>os_alloc\<close> says whether an allocation succeeds), the sizes the compiler chose, and what is printed for a captured packet and for progress.
\<close>

record 'w os =
  os_calls :: "'w sys_calls"
  os_fopen :: "'w \<Rightarrow> cstr \<Rightarrow> string \<Rightarrow> nat option \<times> 'w"
  os_fread :: "'w \<Rightarrow> size_t \<Rightarrow> nat \<Rightarrow> u8 list \<times> 'w"
  os_fwrite :: "'w \<Rightarrow> u8 list \<Rightarrow> nat \<Rightarrow> size_t \<times> 'w"
  os_fseeko :: "'w \<Rightarrow> nat \<Rightarrow> int \<Rightarrow> whence \<Rightarrow> int \<times> 'w"
  os_ftello :: "'w \<Rightarrow> nat \<Rightarrow> int \<times> 'w"
  os_fclose :: "'w \<Rightarrow> nat \<Rightarrow> int \<times> 'w"
  os_getenv :: "cstr \<Rightarrow> cstr option"
  os_malloc :: "'w \<Rightarrow> size_t \<Rightarrow> u8 list option \<times> 'w"
  os_alloc :: "'w \<Rightarrow> nat \<Rightarrow> bool \<times> 'w"
  os_free :: "'w \<Rightarrow> 'w"
  os_sizes :: "size_t \<times> size_t"
  os_sizeof_stat :: nat
  os_build :: val_build
  os_print_packet :: "'w \<Rightarrow> val_packet_record_t \<Rightarrow> 'w"
  os_print_progress :: "'w \<Rightarrow> val_progress_info_t \<Rightarrow> 'w"

text \<open>\<^verbatim>\<open>malloc\<close> returns a block of the size it was asked for.\<close>

definition mallocs :: "'w os \<Rightarrow> bool" where
  "mallocs os \<longleftrightarrow> (\<forall>w n m. fst (os_malloc os w n) = Some m \<longrightarrow> length m = unat n)"

definition app_libc :: "'w os \<Rightarrow> 'w app libc" where
  "app_libc os =
    \<lparr>libc_calloc = \<lambda>a n. on_world (\<lambda>w. os_alloc os w (unat n)) a, libc_free = on_world_only (os_free os),
     sizeof_session = fst (os_sizes os), sizeof_inflight = snd (os_sizes os)\<rparr>"

definition app_env_of :: "'w os \<Rightarrow> ('w \<Rightarrow> u32 \<times> 'w) \<Rightarrow> 'w app_env" where
  "app_env_of os now = \<lparr>env_alloc = os_alloc os, env_now = now\<rparr>"

section \<open>Hooks\<close>

text \<open>The adapters of \<open>Val_Socket\<close> on the world of the program.\<close>

definition app_transport :: "'w os \<Rightarrow> int \<Rightarrow> 'w app val_transport" where
  "app_transport os fd =
    \<lparr>tr_send = Some (\<lambda>a data. on_world (\<lambda>w. tp_send (os_calls os) fd w data) a),
     tr_recv = Some (\<lambda>a n t. case the (tp_recv (os_calls os) fd (app_world a) n t) of (r, bs, w) \<Rightarrow> (r, bs, a\<lparr>app_world := w\<rparr>)),
     tr_is_connected = Some (on_world (tp_is_connected (os_calls os) fd)),
     tr_flush = Some (on_world_only (tp_flush (os_calls os) fd))\<rparr>"

text \<open>The file adapters hand their arguments to \<^verbatim>\<open>stdio\<close>.\<close>

definition app_filesystem :: "'w os \<Rightarrow> 'w app val_filesystem" where
  "app_filesystem os =
    \<lparr>fs_fopen = Some (\<lambda>a path mode. on_world (\<lambda>w. os_fopen os w path mode) a),
     fs_fread = Some (\<lambda>a n f. on_world (\<lambda>w. os_fread os w n f) a),
     fs_fwrite = Some (\<lambda>a data f. on_world (\<lambda>w. os_fwrite os w data f) a),
     fs_fseek = Some (\<lambda>a f off wh. on_world (\<lambda>w. os_fseeko os w f off wh) a),
     fs_ftell = Some (\<lambda>a f. on_world (\<lambda>w. os_ftello os w f) a),
     fs_fclose = Some (\<lambda>a f. on_world (\<lambda>w. os_fclose os w f) a)\<rparr>"

section \<open>The example validator\<close>

definition c_string :: "u8 list \<Rightarrow> cstr" where
  "c_string bs = takeWhile (\<lambda>b. b \<noteq> 0) bs"

fun strrchr :: "cstr \<Rightarrow> u8 \<Rightarrow> cstr option" where
  "strrchr [] c = None"
| "strrchr (b # bs) c = (case strrchr bs c of Some r \<Rightarrow> Some r | None \<Rightarrow> if b = c then Some (b # bs) else None)"

fun strstr :: "cstr \<Rightarrow> cstr \<Rightarrow> bool" where
  "strstr [] needle = (needle = [])"
| "strstr (b # bs) needle = (take (length needle) (b # bs) = needle \<or> strstr bs needle)"

definition example_validator :: "'w \<Rightarrow> val_meta_payload_t \<Rightarrow> cstr \<Rightarrow> val_validation_action_t \<times> 'w" where
  "example_validator w meta target_path =
     (let name = c_string (meta_filename meta) in
      if meta_file_size meta > 10 * 1024 * 1024 then (VAL_VALIDATION_SKIP, w)
      else
        let ext = strrchr name 46 in
        if ext \<noteq> None \<and> (strieq ext (Some (str ''.exe'')) \<or> strieq ext (Some (str ''.bat''))) then (VAL_VALIDATION_ABORT, w)
        else if strstr name (str ''temp'') \<or> strstr name (str ''.tmp'') then (VAL_VALIDATION_SKIP, w)
        else (VAL_VALIDATION_ACCEPT, w))"

section \<open>Configurations\<close>

text \<open>The level and the file of the log, the options first and the environment behind them.\<close>

definition log_level_of :: "'w os \<Rightarrow> example_opts \<Rightarrow> int" where
  "log_level_of os opts =
     (if opt_log_level opts < 0 then
        (case os_getenv os (str ''VAL_LOG_LEVEL'') of Some s \<Rightarrow> parse_level (Some s) | None \<Rightarrow> opt_log_level opts)
      else opt_log_level opts)"

definition open_log :: "'w os \<Rightarrow> example_opts \<Rightarrow> 'w app \<Rightarrow> 'w app" where
  "open_log os opts a =
     (let path = (case opt_log_file opts of Some p \<Rightarrow> Some p | None \<Rightarrow> os_getenv os (str ''VAL_LOG_FILE''))
      in case path of
           Some p \<Rightarrow> if p \<noteq> [] then snd (on_world (\<lambda>w. os_fopen os w p ''a'') a) else a
         | None \<Rightarrow> a)"

definition capture_wanted :: "'w os \<Rightarrow> bool" where
  "capture_wanted os =
     (case os_getenv os (str ''VAL_CAPTURE'') of
        Some (b # _) \<Rightarrow> b = 49 \<or> b = 121 \<or> b = 89 \<or> b = 116 \<or> b = 84
      | _ \<Rightarrow> False)"

definition send_tcp_config :: "'w os \<Rightarrow> example_opts \<Rightarrow> int \<Rightarrow> u8 list \<Rightarrow> u8 list \<Rightarrow> 'w app val_config" where
  "send_tcp_config os opts fd sbuf rbuf =
    \<lparr>transport = app_transport os fd,
     filesystem = app_filesystem os,
     crc32_provider = None,
     system = \<lparr>sys_get_ticks_ms = Some (on_world (tcp_now_ms (os_calls os))),
               sys_delay_ms = Some (\<lambda>a ms. on_world_only (tcp_sleep_ms (os_calls os) ms) a)\<rparr>,
     timeouts = \<lparr>to_min_timeout_ms = opt_min_timeout opts, to_max_timeout_ms = opt_max_timeout opts, to_handshake_budget_ms = 0\<rparr>,
     features = \<lparr>feat_required = 0, feat_requested = 0\<rparr>,
     retries = \<lparr>meta_retries = ucast (opt_meta_retries opts), data_retries = ucast (opt_data_retries opts),
                ack_retries = ucast (opt_ack_retries opts), handshake_retries = 4, backoff_ms_base = opt_backoff_ms opts\<rparr>,
     buffers = \<lparr>send_buffer = Some sbuf, recv_buffer = Some rbuf, packet_size = opt_packet opts\<rparr>,
     resume = \<lparr>rc_mode = opt_resume opts, rc_tail_cap_bytes = opt_tail_bytes opts, rc_min_verify_bytes = 0, rc_mismatch_skip = False\<rparr>,
     tx_flow = \<lparr>window_cap_packets = 512, initial_cwnd_packets = 0, retransmit_cache_enabled = False,
                degrade_error_threshold = ucast (opt_degrade opts), recovery_success_threshold = ucast (opt_upgrade opts),
                al_alloc = None, al_free = None\<rparr>,
     callbacks =
      \<lparr>on_file_start = Some (\<lambda>a name path n off.
         on_summary (on_file_start_tcp (app_env_of os (tcp_now_ms (os_calls os))) (os_sizeof_stat os) name n off) a),
       on_file_complete = Some (\<lambda>a name path st.
         on_summary (on_file_complete_tx (app_env_of os (tcp_now_ms (os_calls os))) name st) a),
       on_progress = Some (\<lambda>a info. (False, on_world_only (\<lambda>w. os_print_progress os w info) a))\<rparr>,
     validator = None,
     capture = (if capture_wanted os then Some (\<lambda>a rec. on_world_only (\<lambda>w. os_print_packet os w rec) a) else None),
     debug_min_level = (if log_level_of os opts \<ge> 0 then log_level_of os opts else 3)\<rparr>"

text \<open>The receiver differs in its callback for the end of a file, and may have the validator.\<close>

definition receive_tcp_config :: "'w os \<Rightarrow> example_opts \<Rightarrow> bool \<Rightarrow> int \<Rightarrow> u8 list \<Rightarrow> u8 list \<Rightarrow> 'w app val_config" where
  "receive_tcp_config os opts validate fd sbuf rbuf =
     (let c = (send_tcp_config os opts fd sbuf rbuf)
            \<lparr>callbacks :=
              \<lparr>on_file_start = Some (\<lambda>a name path n off.
                 on_summary (on_file_start_tcp (app_env_of os (tcp_now_ms (os_calls os))) (os_sizeof_stat os) name n off) a),
               on_file_complete = Some (\<lambda>a name path st.
                 on_summary (on_file_complete_rx (app_env_of os (tcp_now_ms (os_calls os))) name st) a),
               on_progress = Some (\<lambda>a info. (False, on_world_only (\<lambda>w. os_print_progress os w info) a))\<rparr>\<rparr>
      in the (if validate then val_config_set_validator (Some c) (Some example_validator) else val_config_validation_disabled (Some c)))"

section \<open>main\<close>

definition two_buffers :: "'w os \<Rightarrow> size_t \<Rightarrow> 'w app \<Rightarrow> (u8 list \<times> u8 list) option \<times> 'w app" where
  "two_buffers os n a =
     (let (sb, a) = on_world (\<lambda>w. os_malloc os w n) a;
          (rb, a) = on_world (\<lambda>w. os_malloc os w n) a
      in case (sb, rb) of (Some s, Some r) \<Rightarrow> (Some (s, r), a) | _ \<Rightarrow> (None, a))"

text \<open>The arrays of the sender's summary.\<close>

definition prepare_summary :: "'w os \<Rightarrow> nat \<Rightarrow> 'w app \<Rightarrow> 'w app" where
  "prepare_summary os nfiles a = on_summary (tx_summary_start (app_env_of os (tcp_now_ms (os_calls os))) nfiles) a"

text \<open>The exit code; \<open>None\<close> when the transfer never ends.\<close>

definition send_tcp_main :: "'w os \<Rightarrow> cstr list \<Rightarrow> 'w \<Rightarrow> (int \<times> 'w app) option" where
  "send_tcp_main os args w =
     (let a = \<lparr>app_summary = empty_summary, app_world = w\<rparr> in
      case send_tcp_command args of
        Inl rc \<Rightarrow> Some (rc, a)
      | Inr (opts, host, port, files) \<Rightarrow>
          let (fd, a) = on_world (tcp_connect (os_calls os) (Some host) port) a in
          if fd < 0 then Some (2, a)
          else
            case two_buffers os (opt_packet opts) a of
              (None, a) \<Rightarrow> Some (3, a)
            | (Some (sbuf, rbuf), a) \<Rightarrow>
                let c = send_tcp_config os opts fd sbuf rbuf;
                    a = open_log os opts a
                in case val_session_create (os_build os) (app_libc os) (Some c) True a of
                     (_, None, _, a) \<Rightarrow> Some (4, a)
                   | (init_rc, Some s, _, a) \<Rightarrow>
                       if init_rc \<noteq> VAL_OK then Some (4, a)
                       else do {
                         (st, s) \<leftarrow> val_send_files (s\<lparr>world := prepare_summary os (length files) a\<rparr>) (Some files) None;
                         let a = val_session_destroy (app_libc os) (Some s) (world s);
                             a = on_world_only (tcp_close (os_calls os) fd) a
                         in Some (if st = VAL_OK then 0 else 5, a)
                       })"

definition receive_tcp_main :: "'w os \<Rightarrow> cstr list \<Rightarrow> 'w \<Rightarrow> (int \<times> 'w app) option" where
  "receive_tcp_main os args w =
     (let a = \<lparr>app_summary = empty_summary, app_world = w\<rparr> in
      case receive_tcp_command args of
        Inl rc \<Rightarrow> Some (rc, a)
      | Inr (opts, port, outdir) \<Rightarrow>
          let (l, a) = on_world (tcp_listen (os_calls os) port 1) a in
          if l < 0 then Some (2, a)
          else
            let (fd, a) = on_world (tcp_accept (os_calls os) l) a;
                a = on_world_only (tcp_close (os_calls os) l) a
            in if fd < 0 then Some (3, a)
               else
                 case two_buffers os (opt_packet opts) a of
                   (None, a) \<Rightarrow> Some (4, a)
                 | (Some (sbuf, rbuf), a) \<Rightarrow>
                     let c = receive_tcp_config os opts (use_validation args) fd sbuf rbuf;
                         a = open_log os opts a
                     in case val_session_create (os_build os) (app_libc os) (Some c) True a of
                          (_, None, _, a) \<Rightarrow> Some (5, a)
                        | (init_rc, Some s, _, a) \<Rightarrow>
                            if init_rc \<noteq> VAL_OK then Some (5, a)
                            else do {
                              (st, s) \<leftarrow> val_receive_files (s\<lparr>world := a\<rparr>) (Some outdir);
                              let a = val_session_destroy (app_libc os) (Some s) (world s);
                                  a = on_world_only (tcp_close (os_calls os) fd) a
                              in Some (if st = VAL_OK then 0 else 6, a)
                            })"

section \<open>A system for the witnesses\<close>

text \<open>The connection \<open>pipe\<close> without any files.\<close>

definition pipe_os :: "pipe os" where
  "pipe_os =
    \<lparr>os_calls = pipe_calls, os_fopen = \<lambda>w _ _. (None, w), os_fread = \<lambda>w _ _. ([], w), os_fwrite = \<lambda>w _ _. (0, w),
     os_fseeko = \<lambda>w _ _ _. (- 1, w), os_ftello = \<lambda>w _. (- 1, w), os_fclose = \<lambda>w _. (0, w), os_getenv = \<lambda>_. None,
     os_malloc = \<lambda>w n. (Some (replicate (unat n) 0), w), os_alloc = \<lambda>w n. (True, w), os_free = \<lambda>w. w, os_sizes = (1024, 32),
     os_sizeof_stat = 32, os_build = bed_build, os_print_packet = \<lambda>w _. w, os_print_progress = \<lambda>w _. w\<rparr>"

lemma pipe_mallocs: "mallocs pipe_os"
  by (simp add: mallocs_def pipe_os_def)

definition example_args :: "cstr list" where
  "example_args = [str ''--mtu'', str ''1024'', str ''localhost'', str ''9000'', str ''a.txt'']"

definition example_opts_1024 :: example_opts where
  "example_opts_1024 = tcp_defaults\<lparr>opt_packet := 1024\<rparr>"

lemma example_command: "send_tcp_command example_args = Inr (example_opts_1024, str ''localhost'', 9000, [str ''a.txt''])"
proof -
  have "flags_loop send_tcp_flag tcp_defaults example_args = Inr (example_opts_1024, drop 2 example_args)"
    by (simp add: example_args_def example_opts_1024_def flags_loop.simps send_tcp_flag_def str_def uint_flag_def text_flag_def
        parse_uint_def Let_def)
  moreover have "atoi (str ''9000'') = 9000" by (simp add: atoi_def str_def isspace_def isdigit_def digits_value_def Let_def)
  ultimately show ?thesis by (simp add: send_tcp_command_def example_args_def)
qed

section \<open>Properties\<close>

lemma send_tcp_command_ok:
  assumes "send_tcp_command args = Inr (opts, host, port, files)"
  shows "packet_allowed opts" "files \<noteq> []"
proof -
  obtain rest where "flags_loop send_tcp_flag tcp_defaults args = Inr (opts, rest)" "files \<noteq> []"
    using assms by (auto simp: send_tcp_command_def split: sum.splits prod.splits list.splits)
  then show "packet_allowed opts" "files \<noteq> []"
    using send_tcp.loop_keeps [of tcp_defaults args opts rest] by (simp_all add: packet_allowed_def tcp_defaults_def)
qed

lemma receive_tcp_command_ok:
  assumes "receive_tcp_command args = Inr (opts, port, outdir)"
  shows "packet_allowed opts"
proof -
  obtain rest where "flags_loop receive_tcp_flag tcp_defaults args = Inr (opts, rest)"
    using assms by (auto simp: receive_tcp_command_def split: sum.splits prod.splits list.splits)
  then show ?thesis
    using receive_tcp.loop_keeps [of tcp_defaults args opts rest] by (simp add: packet_allowed_def tcp_defaults_def)
qed

lemma tcp_config_ok:
  assumes "packet_allowed opts" "length sb = unat (opt_packet opts)" "length rb = unat (opt_packet opts)"
  shows "config_ok (send_tcp_config os opts fd sb rb)" "buffers_fit (send_tcp_config os opts fd sb rb)"
    "config_ok (receive_tcp_config os opts v fd sb rb)" "buffers_fit (receive_tcp_config os opts v fd sb rb)"
  using assms
  by (auto simp: config_ok_def config_missing_def buffers_fit_def packet_allowed_def send_tcp_config_def receive_tcp_config_def
      app_transport_def val_config_set_validator_def val_config_validation_disabled_def Let_def)

lemma create_accepts:
  assumes "config_ok c" "buffers_fit c" "val_session_create b lib (Some c) True w = (st, ss, d, w')"
  shows "st = VAL_OK \<and> (\<exists>s. ss = Some s \<and> session_ok s \<and> cfg s = c\<lparr>timeouts := clamp_budget (timeouts c)\<rparr>) \<or>
    st = VAL_ERR_NO_MEMORY \<and> ss = None"
proof -
  have "cfg (clear_slots ((session_init b c x)\<lparr>world := y\<rparr>)) = c\<lparr>timeouts := clamp_budget (timeouts c)\<rparr>" for x y
    by (simp add: session_init_def sess_defs Let_def val_internal_init_timing_def split: prod.splits)
  then show ?thesis
    using assms session_init_ok [OF assms(1,2)]
    by (auto simp: val_session_create_def config_ok_def not_less [symmetric] Let_def split: if_splits prod.splits)
qed

lemma two_buffers_sizes:
  assumes "mallocs os" "two_buffers os n a = (Some (sb, rb), a')"
  shows "length sb = unat n" "length rb = unat n"
  using assms by (auto simp: two_buffers_def on_world_def mallocs_def split: prod.splits option.splits) (metis fst_conv)+

text \<open>
  C38. The TCP programs configure the library correctly: whatever command line they accept, with the buffers they allocated for it, the session is
  created and is well formed, or there was no memory for it. No command line leads to a configuration the library refuses.
\<close>

theorem tcp_programs_configure:
  assumes "mallocs os" "two_buffers os (opt_packet opts) a = (Some (sb, rb), a')"
    and "send_tcp_command args = Inr (opts, host, sport, files) \<and> c = send_tcp_config os opts fd sb rb \<or>
      receive_tcp_command args = Inr (opts, rport, outdir) \<and> c = receive_tcp_config os opts (use_validation args) fd sb rb"
    and "val_session_create b lib (Some c) True x = (st, session, detail, y)"
  shows "st = VAL_OK \<and> session \<noteq> None \<and> session_ok (the session) \<or> st = VAL_ERR_NO_MEMORY \<and> session = None"
proof -
  note sizes = two_buffers_sizes [OF assms(1,2)]
  have "packet_allowed opts" using assms(3) send_tcp_command_ok(1) receive_tcp_command_ok by blast
  then have "config_ok c" "buffers_fit c" using assms(3) tcp_config_ok [OF _ sizes] by blast+
  from create_accepts [OF this assms(4)] show ?thesis by auto
qed

lemma session_ok_world [simp]: "session_ok (s\<lparr>world := w\<rparr>) = session_ok s"
  by (simp add: session_ok_def window_ok_def)

text \<open>The rest of the sender's \<^verbatim>\<open>main\<close> once the steps up to the session have succeeded, and that of the receiver.\<close>

lemma send_tcp_main_session:
  assumes cmd: "send_tcp_command args = Inr (opts, host, port, files)"
    and conn: "on_world (tcp_connect (os_calls os) (Some host) port) \<lparr>app_summary = empty_summary, app_world = w\<rparr> = (fd, a1)" "\<not> fd < 0"
    and bufs: "two_buffers os (opt_packet opts) a1 = (Some (sb, rb), a2)"
    and create: "val_session_create (os_build os) (app_libc os) (Some (send_tcp_config os opts fd sb rb)) True (open_log os opts a2) = (irc, ss, d, a3)"
  shows "send_tcp_main os args w =
    (case ss of None \<Rightarrow> Some (4, a3)
     | Some s \<Rightarrow> if irc \<noteq> VAL_OK then Some (4, a3)
       else Option.bind (val_send_files (s\<lparr>world := prepare_summary os (length files) a3\<rparr>) (Some files) None)
         (\<lambda>(st, s). Some (if st = VAL_OK then 0 else 5,
            on_world_only (tcp_close (os_calls os) fd) (val_session_destroy (app_libc os) (Some s) (world s)))))"
  using conn by (cases ss) (simp_all add: send_tcp_main_def cmd bufs create Let_def)

lemma receive_tcp_main_session:
  assumes cmd: "receive_tcp_command args = Inr (opts, port, outdir)"
    and acc: "on_world (tcp_listen (os_calls os) port 1) \<lparr>app_summary = empty_summary, app_world = w\<rparr> = (l, a0)" "\<not> l < 0"
      "on_world (tcp_accept (os_calls os) l) a0 = (fd, a1)" "\<not> fd < 0"
    and bufs: "two_buffers os (opt_packet opts) (on_world_only (tcp_close (os_calls os) l) a1) = (Some (sb, rb), a2)"
    and create: "val_session_create (os_build os) (app_libc os) (Some (receive_tcp_config os opts (use_validation args) fd sb rb)) True
        (open_log os opts a2) = (irc, ss, d, a3)"
  shows "receive_tcp_main os args w =
    (case ss of None \<Rightarrow> Some (5, a3)
     | Some s \<Rightarrow> if irc \<noteq> VAL_OK then Some (5, a3)
       else Option.bind (val_receive_files (s\<lparr>world := a3\<rparr>) (Some outdir))
         (\<lambda>(st, s). Some (if st = VAL_OK then 0 else 6,
            on_world_only (tcp_close (os_calls os) fd) (val_session_destroy (app_libc os) (Some s) (world s)))))"
  using acc by (cases ss) (simp_all add: receive_tcp_main_def cmd bufs create Let_def)

text \<open>
  The receiver: 2 and 3 when nobody can connect or has, 4 without buffers, 5 when there is no memory for a session; otherwise it has received into the
  directory of its command line with the session it created, and returns 0 if the library reported success and 6 if not.
\<close>

lemma receive_tcp_exit_codes:
  assumes m: "mallocs os" and cmd: "receive_tcp_command args = Inr (opts, port, outdir)"
    and acc: "on_world (tcp_listen (os_calls os) port 1) \<lparr>app_summary = empty_summary, app_world = w\<rparr> = (l, a0)"
      "on_world (tcp_accept (os_calls os) l) a0 = (fd, a1)"
    and bufs: "two_buffers os (opt_packet opts) (on_world_only (tcp_close (os_calls os) l) a1) = (tb, a2)"
    and create: "val_session_create (os_build os) (app_libc os)
        (Some (receive_tcp_config os opts (use_validation args) fd (fst (the tb)) (snd (the tb)))) True (open_log os opts a2) = (irc, ss, d, a3)"
  shows "receive_tcp_main os args w =
    (if l < 0 then Some (2, a0) else if fd < 0 then Some (3, on_world_only (tcp_close (os_calls os) l) a1)
     else if tb = None then Some (4, a2) else if irc = VAL_ERR_NO_MEMORY then Some (5, a3)
     else map_option (\<lambda>(st, s). (if st = VAL_OK then 0 else 6,
         on_world_only (tcp_close (os_calls os) fd) (val_session_destroy (app_libc os) (Some s) (world s))))
       (val_receive_files ((the ss)\<lparr>world := a3\<rparr>) (Some outdir)))"
    and "tb \<noteq> None \<Longrightarrow> irc \<noteq> VAL_ERR_NO_MEMORY \<Longrightarrow> session_ok (the ss)"
proof -
  consider "l < 0" | "\<not> l < 0" "fd < 0" | "\<not> l < 0" "\<not> fd < 0" "tb = None" | sb rb where "\<not> l < 0" "\<not> fd < 0" "tb = Some (sb, rb)" by force
  note cases = this
  have session: "irc = VAL_OK \<and> (\<exists>s. ss = Some s \<and> session_ok s) \<or> irc = VAL_ERR_NO_MEMORY \<and> ss = None" if "tb = Some (sb, rb)" for sb rb
  proof -
    note sizes = two_buffers_sizes [OF m bufs [unfolded that]]
    from create_accepts [OF tcp_config_ok(3,4) [OF receive_tcp_command_ok [OF cmd] sizes]] create that show ?thesis by fastforce
  qed
  then show "tb \<noteq> None \<Longrightarrow> irc \<noteq> VAL_ERR_NO_MEMORY \<Longrightarrow> session_ok (the ss)" by fastforce
  show "receive_tcp_main os args w =
    (if l < 0 then Some (2, a0) else if fd < 0 then Some (3, on_world_only (tcp_close (os_calls os) l) a1)
     else if tb = None then Some (4, a2) else if irc = VAL_ERR_NO_MEMORY then Some (5, a3)
     else map_option (\<lambda>(st, s). (if st = VAL_OK then 0 else 6,
         on_world_only (tcp_close (os_calls os) fd) (val_session_destroy (app_libc os) (Some s) (world s))))
       (val_receive_files ((the ss)\<lparr>world := a3\<rparr>) (Some outdir)))"
  proof (cases rule: cases)
    case (4 sb rb)
    have "val_session_create (os_build os) (app_libc os) (Some (receive_tcp_config os opts (use_validation args) fd sb rb)) True
        (open_log os opts a2) = (irc, ss, d, a3)" using create 4 by simp
    note main = receive_tcp_main_session [OF cmd acc(1) 4(1) acc(2) 4(2) bufs [unfolded 4(3)] this]
    show ?thesis
      using session [OF 4(3)] 4 unfolding main
      by (cases "val_receive_files ((the ss)\<lparr>world := a3\<rparr>) (Some outdir)") (auto split: prod.splits)
  qed (simp_all add: receive_tcp_main_def cmd acc bufs)
qed

text \<open>
  C39. What the exit codes of the TCP sender mean, for an accepted command line. With \<open>fd\<close> the connection it opened, \<open>tb\<close> its two buffers and \<open>irc\<close>, \<open>ss\<close> what creating
  the session with the configuration of the command line gave: it returns 2 exactly when the connection failed, 3 exactly when a buffer could not be allocated, 4 exactly
  when there was no memory for the session, in the state reached then, before any transfer. Otherwise the session it created is well formed, it has
  sent exactly the files of the command line with it, and returns 0 if and only if the library reported success for them, and 5 if it reported anything else. It does not
  return only if the library does not.
\<close>

theorem tcp_exit_codes:
  fixes os :: "'w os"
  assumes m: "mallocs os" and cmd: "send_tcp_command args = Inr (opts, host, port, files)"
    and conn: "on_world (tcp_connect (os_calls os) (Some host) port) \<lparr>app_summary = empty_summary, app_world = w\<rparr> = (fd, a1)"
    and bufs: "two_buffers os (opt_packet opts) a1 = (tb, a2)"
    and create: "val_session_create (os_build os) (app_libc os)
        (Some (send_tcp_config os opts fd (fst (the tb)) (snd (the tb)))) True (open_log os opts a2) = (irc, ss, d, a3)"
  shows "case send_tcp_main os args w of
      None \<Rightarrow> 0 \<le> fd \<and> tb \<noteq> None \<and> irc = VAL_OK \<and>
        val_send_files ((the ss)\<lparr>world := prepare_summary os (length files) a3\<rparr>) (Some files) None = None
    | Some (rc, a) \<Rightarrow>
        (rc = 2 \<longleftrightarrow> fd < 0) \<and> (rc = 3 \<longleftrightarrow> 0 \<le> fd \<and> tb = None) \<and> (rc = 4 \<longleftrightarrow> 0 \<le> fd \<and> tb \<noteq> None \<and> irc = VAL_ERR_NO_MEMORY) \<and>
        (rc \<in> {2, 3, 4} \<longrightarrow> a = (if fd < 0 then a1 else if tb = None then a2 else a3)) \<and>
        (rc \<notin> {2, 3, 4} \<longrightarrow> irc = VAL_OK \<and> session_ok (the ss) \<and> files \<noteq> [] \<and>
           (\<exists>st s'. val_send_files ((the ss)\<lparr>world := prepare_summary os (length files) a3\<rparr>) (Some files) None = Some (st, s') \<and>
              rc = (if st = VAL_OK then 0 else 5)))"
proof -
  consider "fd < 0" | "\<not> fd < 0" "tb = None" | sb rb where "\<not> fd < 0" "tb = Some (sb, rb)" by force
  then show ?thesis
  proof cases
    case (3 sb rb)
    note sizes = two_buffers_sizes [OF m bufs [unfolded 3(2)]]
    have cr: "val_session_create (os_build os) (app_libc os) (Some (send_tcp_config os opts fd sb rb)) True (open_log os opts a2) = (irc, ss, d, a3)"
      using create 3 by simp
    note main = send_tcp_main_session [OF cmd conn 3(1) bufs [unfolded 3(2)] cr]
    from create_accepts [OF tcp_config_ok(1,2) [OF send_tcp_command_ok(1) [OF cmd] sizes] cr] show ?thesis
    proof (elim disjE conjE exE)
      fix s
      assume "irc = VAL_OK" "ss = Some s" "session_ok s"
      then show ?thesis
        using 3 send_tcp_command_ok(2) [OF cmd] unfolding main
        by (cases "val_send_files (s\<lparr>world := prepare_summary os (length files) a3\<rparr>) (Some files) None") (auto split: prod.splits)
    qed (use 3 main in \<open>simp_all\<close>)
  qed (simp_all add: send_tcp_main_def cmd conn bufs)
qed

text \<open>A peer that hangs up after the connection was made: the transfer is tried and fails.\<close>

definition hung_os :: "pipe os" where
  "hung_os = pipe_os\<lparr>os_calls := pipe_calls\<lparr>c_so_error := \<lambda>w _. ((0, 104), w)\<rparr>\<rparr>"

lemma hung_link: "transport c = app_transport hung_os fd \<Longrightarrow> link_state c a = (False, a)"
  by (simp add: link_state_def app_transport_def hung_os_def tp_is_connected_def tcp_is_connected_def on_world_def Let_def)

lemma send_files_down:
  assumes "\<And>w. fst (link_state (cfg s) w) = False" "\<not> handshake_done s" "feat_required (features (cfg s)) = 0" "ps \<noteq> []"
  shows "\<exists>s'. val_send_files s (Some ps) None = Some (VAL_ERR_IO, s')"
proof -
  have down: "\<exists>s2. val_internal_send_packet s1 t p n off = (VAL_ERR_IO, s2)" if "cfg s1 = cfg s" for s1 t p n off
  proof -
    obtain u w' where l: "link_state (cfg s1) (world s1) = (u, w')" by fastforce
    then have "\<not> u" using assms(1) [of "world s1"] that by simp
    with is_connected_link [OF l] show ?thesis by (simp add: val_internal_send_packet_def val__internal_send_packet_core_def)
  qed
  let ?l = "val_internal_lock s"
  obtain now s1 where t: "ticks ?l = (now, s1)" by fastforce
  then have "cfg s1 = cfg s" by (auto simp: ticks_def sess_defs split: option.splits prod.splits)
  from down [OF this] obtain s2 where
    "val_internal_send_packet s1 VAL_PKT_HELLO (P_BYTES (local_hello_wire ?l (packet_size (buffers (cfg ?l))))) (of_nat VAL_WIRE_HANDSHAKE_SIZE) 0 =
       (VAL_ERR_IO, s2)" by blast
  moreover have "\<not> handshake_done ?l" "feat_required (features (cfg ?l)) = 0" using assms(2,3) by (simp_all add: sess_defs)
  ultimately have "val_internal_do_handshake_sender ?l = Some (VAL_ERR_IO, s2)"
    using t by (simp add: val_internal_do_handshake_sender_def val_internal_validate_local_features_def Let_def)
  then show ?thesis using assms(4) by (simp add: val_send_files_def)
qed

theorem tcp_exit_codes_witness:
  "map_option fst (send_tcp_main hung_os example_args pipe_world) = Some 5"
proof -
  let ?a = "\<lparr>app_summary = empty_summary, app_world = pipe_world\<rparr>" and ?b = "replicate 1024 0 :: u8 list"
  let ?c = "send_tcp_config hung_os example_opts_1024 3 ?b ?b"
  have m: "mallocs hung_os" by (simp add: mallocs_def hung_os_def pipe_os_def)
  have conn: "on_world (tcp_connect (os_calls hung_os) (Some (str ''localhost'')) 9000) ?a = (3, ?a)"
    by (simp add: on_world_def tcp_connect_def hung_os_def pipe_os_def pipe_calls_def tcp_close_def INADDR_NONE_def INADDR_LOOPBACK_def
        str_def Let_def)
  have bufs: "two_buffers hung_os (opt_packet example_opts_1024) ?a = (Some (?b, ?b), ?a)"
    by (simp add: two_buffers_def on_world_def hung_os_def pipe_os_def example_opts_1024_def)
  have lg: "open_log hung_os example_opts_1024 ?a = ?a"
    by (simp add: open_log_def hung_os_def pipe_os_def example_opts_1024_def tcp_defaults_def)
  have al: "session_alloc (app_libc hung_os) (tx_flow ?c) n a = (True, a)" for n a
    by (simp add: session_alloc_def app_libc_def on_world_def send_tcp_config_def hung_os_def pipe_os_def)
  have ok: "config_ok ?c" "buffers_fit ?c"
    by (rule tcp_config_ok; simp add: packet_allowed_def example_opts_1024_def tcp_defaults_def)+
  define s where "s = clear_slots (session_init (os_build hung_os) ?c ?a)"
  have "world (session_init (os_build hung_os) ?c ?a) = ?a"
    by (simp add: session_init_def val_internal_init_timing_def Let_def split: prod.splits)
  with ok(1) have cr: "val_session_create (os_build hung_os) (app_libc hung_os) (Some ?c) True (open_log hung_os example_opts_1024 ?a) = (VAL_OK, Some s, 0, ?a)"
    by (simp add: lg val_session_create_def config_ok_def not_less [symmetric] al Let_def s_def)
  have s: "\<not> handshake_done s" "cfg s = ?c\<lparr>timeouts := clamp_budget (timeouts ?c)\<rparr>"
    by (simp_all add: s_def session_init_def sess_defs Let_def val_internal_init_timing_def split: prod.splits)
  have "\<exists>s'. val_send_files (s\<lparr>world := prepare_summary hung_os 1 ?a\<rparr>) (Some [str ''a.txt'']) None = Some (VAL_ERR_IO, s')"
    by (rule send_files_down) (simp_all add: s hung_link [where fd = 3] send_tcp_config_def)
  then show ?thesis
    using tcp_exit_codes [OF m example_command conn bufs, unfolded option.sel fst_conv snd_conv, OF cr] by (auto split: option.splits)
qed

theorem tcp_programs_configure_witness:
  "fst (val_session_create bed_build (app_libc pipe_os)
      (Some (send_tcp_config pipe_os example_opts_1024 3 (replicate 1024 0) (replicate 1024 0))) True
      \<lparr>app_summary = empty_summary, app_world = pipe_world\<rparr>) \<in> {VAL_OK, VAL_ERR_NO_MEMORY}"
proof -
  let ?a = "\<lparr>app_summary = empty_summary, app_world = pipe_world\<rparr>"
  have tb: "two_buffers pipe_os (opt_packet example_opts_1024) ?a = (Some (replicate 1024 0, replicate 1024 0), ?a)"
    by (simp add: two_buffers_def on_world_def pipe_os_def example_opts_1024_def)
  obtain st session detail y where cr: "val_session_create bed_build (app_libc pipe_os)
      (Some (send_tcp_config pipe_os example_opts_1024 3 (replicate 1024 0) (replicate 1024 0))) True ?a = (st, session, detail, y)"
    by (metis prod_cases4)
  have "send_tcp_command example_args = Inr (example_opts_1024, str ''localhost'', 9000, [str ''a.txt'']) \<and>
      send_tcp_config pipe_os example_opts_1024 3 (replicate 1024 0) (replicate 1024 0) =
      send_tcp_config pipe_os example_opts_1024 3 (replicate 1024 0) (replicate 1024 0)"
    using example_command by simp
  from tcp_programs_configure [OF pipe_mallocs tb disjI1 [OF this] cr] show ?thesis unfolding cr by auto
qed

end
