(* ===== verification/Val_Serial.thy ===== *)
theory Val_Serial
  imports Val_Programs
begin

text \<open>
  The serial programs, \<^verbatim>\<open>examples/tcp/val_example_send_com.c\<close> and \<^verbatim>\<open>val_example_receive_com.c\<close> (the POSIX branches, which agree where
  both have a function): reading and writing the port, the transport made of them, the watchdog, the configurations and \<^verbatim>\<open>main\<close>. Opening the port,
  which sets terminal attributes, is a parameter. Proved: the receive hook loses no byte and returns in time, or early when a call fails.
\<close>

section \<open>The port\<close>

datatype errno = EINTR | EAGAIN | EOTHER

datatype 'a outcome = Done 'a | Failed errno

record 'w tty_calls =
  y_open :: "'w \<Rightarrow> cstr option \<Rightarrow> u32 \<Rightarrow> bool \<Rightarrow> (int \<times> int) \<times> 'w"
  y_close :: "'w \<Rightarrow> int \<Rightarrow> 'w"
  y_write :: "'w \<Rightarrow> int \<Rightarrow> u8 list \<Rightarrow> nat outcome \<times> 'w"
  y_read :: "'w \<Rightarrow> int \<Rightarrow> nat \<Rightarrow> u8 list outcome \<times> 'w"
  y_select :: "'w \<Rightarrow> int \<Rightarrow> u32 \<times> u32 \<Rightarrow> int \<times> 'w"
  y_usleep :: "'w \<Rightarrow> nat \<Rightarrow> 'w"
  y_clock :: "'w \<Rightarrow> (u64 \<times> u64) option \<times> 'w"
  y_realtime :: "'w \<Rightarrow> (u64 \<times> u64) \<times> 'w"
  y_nanosleep :: "'w \<Rightarrow> u32 \<times> u32 \<Rightarrow> 'w"

text \<open>The wall clock stands in where the monotonic clock cannot be read.\<close>

definition get_ticks_ms :: "'w tty_calls \<Rightarrow> 'w \<Rightarrow> u32 \<times> 'w" where
  "get_ticks_ms c w =
     (let (ts, w) = y_clock c w;
          ((tv_sec, tv_nsec), w) = (case ts of Some ts \<Rightarrow> (ts, w) | None \<Rightarrow> y_realtime c w)
      in (ucast (tv_sec * 1000 + tv_nsec div 1000000), w))"

definition delay_ms :: "'w tty_calls \<Rightarrow> u32 \<Rightarrow> 'w \<Rightarrow> 'w" where
  "delay_ms c ms w = y_nanosleep c w (ms div 1000, (ms mod 1000) * 1000000)"

definition serial_close :: "'w tty_calls \<Rightarrow> int \<Rightarrow> 'w \<Rightarrow> 'w" where
  "serial_close c fd w = (if fd \<ge> 0 then y_close c w fd else w)"

text \<open>\<open>data\<close> is what is left to write.\<close>

partial_function (option) serial_write_loop :: "'w tty_calls \<Rightarrow> int \<Rightarrow> u8 list \<Rightarrow> 'w \<Rightarrow> (int \<times> 'w) option" where
  "serial_write_loop c fd data w =
     (if data \<noteq> [] then
        (case y_write c w fd data of
           (Done n, w) \<Rightarrow>
             if n > 0 then serial_write_loop c fd (drop n data) w else serial_write_loop c fd data (y_usleep c w 1000)
         | (Failed err, w) \<Rightarrow>
             if err = EINTR then serial_write_loop c fd data w
             else if err = EAGAIN then serial_write_loop c fd data (y_usleep c w 1000)
             else let (now, w) = get_ticks_ms c w in Some (- 1, w))
      else Some (0, w))"

definition serial_write :: "'w tty_calls \<Rightarrow> int \<Rightarrow> u8 list \<Rightarrow> 'w \<Rightarrow> (int \<times> 'w) option" where
  "serial_write c fd data w =
     map_option (\<lambda>(rc, w). (if rc < 0 then rc else int_of_size (of_nat (length data)), w)) (serial_write_loop c fd data w)"

text \<open>\<open>got\<close> is what has been stored; the result is all of it.\<close>

partial_function (option) serial_read_loop ::
    "'w tty_calls \<Rightarrow> int \<Rightarrow> nat \<Rightarrow> u32 \<Rightarrow> u32 \<Rightarrow> u8 list \<Rightarrow> 'w \<Rightarrow> (u8 list \<times> 'w) option" where
  "serial_read_loop c fd len timeout_ms start got w =
     (let (now, w) = get_ticks_ms c w;
          elapsed = elapsed_ms now start
      in if elapsed \<ge> timeout_ms then Some (got, w)
         else
           let remain_ms = timeout_ms - elapsed;
               (sel_ret, w) = y_select c w fd (timeval remain_ms)
           in if sel_ret \<le> 0 then Some (got, w)
              else
                case y_read c w fd (len - length got) of
                  (Done bs, w) \<Rightarrow>
                    if bs \<noteq> [] \<and> length got + length bs \<ge> len then Some (got @ bs, w)
                    else serial_read_loop c fd len timeout_ms start (got @ bs) w
                | (Failed err, w) \<Rightarrow>
                    if err = EINTR then serial_read_loop c fd len timeout_ms start got w
                    else if err = EAGAIN then serial_read_loop c fd len timeout_ms start got (y_usleep c w 1000)
                    else let (nowe, w) = get_ticks_ms c w in Some (got, w))"

definition serial_read :: "'w tty_calls \<Rightarrow> int \<Rightarrow> nat \<Rightarrow> u32 \<Rightarrow> 'w \<Rightarrow> (int \<times> u8 list \<times> 'w) option" where
  "serial_read c fd len timeout_ms w = do {
     let (start, w) = get_ticks_ms c w;
     (got, w) \<leftarrow> serial_read_loop c fd len timeout_ms start [] w;
     if got = [] then let (now2, w) = get_ticks_ms c w in Some (0, [], w)
     else Some (int_of_size (of_nat (length got)), got, w)
   }"

section \<open>The transport\<close>

definition com_send :: "'w tty_calls \<Rightarrow> int \<Rightarrow> 'w \<Rightarrow> u8 list \<Rightarrow> (int \<times> 'w) option" where
  "com_send c fd w data =
     map_option (\<lambda>(rc, w). (if rc = int_of_size (of_nat (length data)) then int_of_size (of_nat (length data)) else - 1, w))
       (serial_write c fd data w)"

definition com_recv :: "'w tty_calls \<Rightarrow> int \<Rightarrow> 'w \<Rightarrow> size_t \<Rightarrow> u32 \<Rightarrow> (int \<times> u8 list \<times> 'w) option" where
  "com_recv c fd w buffer_size timeout_ms =
     map_option (\<lambda>(rc, got, w). (0, if rc < 0 then [] else take (unat (of_int rc :: size_t)) got, w))
       (serial_read c fd (unat buffer_size) timeout_ms w)"

text \<open>A hook of the library returns a value: the transport is meaningful where both calls return. The port counts as connected, and flushing does nothing.\<close>

definition com_transport :: "'w tty_calls \<Rightarrow> int \<Rightarrow> 'w app val_transport" where
  "com_transport c fd =
    \<lparr>tr_send = Some (\<lambda>a data. on_world (\<lambda>w. the (com_send c fd w data)) a),
     tr_recv = Some (\<lambda>a n t. case the (com_recv c fd (app_world a) n t) of (r, bs, w) \<Rightarrow> (r, bs, a\<lparr>app_world := w\<rparr>)),
     tr_is_connected = Some (\<lambda>a. (1, a)), tr_flush = Some (\<lambda>a. a)\<rparr>"

section \<open>The watchdog\<close>

text \<open>
  One round of the watchdog thread with the metrics it read, \<open>None\<close> if it could not: whether it cancels the session, and what it remembers, the counters, the
  time of their last change and whether there were any yet. The rounds of the thread and the transfer interleave; that is not modelled.
\<close>

record watchdog =
  wd_last :: val_metrics_t
  wd_last_change_ms :: u32
  wd_first :: bool

definition watchdog_round :: "val_metrics_t option \<Rightarrow> u32 \<Rightarrow> watchdog \<Rightarrow> bool \<times> watchdog" where
  "watchdog_round mt now wd =
     (case mt of
        None \<Rightarrow> (False, wd)
      | Some cur \<Rightarrow>
          let last = wd_last wd in
          if wd_first wd \<or> packets_sent cur \<noteq> packets_sent last \<or> packets_recv cur \<noteq> packets_recv last \<or>
             bytes_sent cur \<noteq> bytes_sent last \<or> bytes_recv cur \<noteq> bytes_recv last
          then (False, \<lparr>wd_last = cur, wd_last_change_ms = now, wd_first = False\<rparr>)
          else (now - wd_last_change_ms wd > 20000, wd))"

section \<open>Configurations and main\<close>

definition send_com_config :: "'w os \<Rightarrow> 'w tty_calls \<Rightarrow> example_opts \<Rightarrow> int \<Rightarrow> u8 list \<Rightarrow> u8 list \<Rightarrow> 'w app val_config" where
  "send_com_config os c opts fd sbuf rbuf =
    \<lparr>transport = com_transport c fd,
     filesystem = app_filesystem os,
     crc32_provider = None,
     system = \<lparr>sys_get_ticks_ms = Some (on_world (get_ticks_ms c)), sys_delay_ms = Some (\<lambda>a ms. on_world_only (delay_ms c ms) a)\<rparr>,
     timeouts = \<lparr>to_min_timeout_ms = 500, to_max_timeout_ms = 20000, to_handshake_budget_ms = 0\<rparr>,
     features = \<lparr>feat_required = 0, feat_requested = 0\<rparr>,
     retries = \<lparr>meta_retries = 4, data_retries = 4, ack_retries = 4, handshake_retries = 5, backoff_ms_base = 100\<rparr>,
     buffers = \<lparr>send_buffer = Some sbuf, recv_buffer = Some rbuf, packet_size = opt_packet opts\<rparr>,
     resume = \<lparr>rc_mode = opt_resume opts, rc_tail_cap_bytes = opt_tail_bytes opts, rc_min_verify_bytes = 0, rc_mismatch_skip = False\<rparr>,
     tx_flow = \<lparr>window_cap_packets = 512, initial_cwnd_packets = 0, retransmit_cache_enabled = False,
                degrade_error_threshold = 3, recovery_success_threshold = 10, al_alloc = None, al_free = None\<rparr>,
     callbacks =
      \<lparr>on_file_start = Some (\<lambda>a name path n off.
         on_summary (on_file_start_com (app_env_of os (get_ticks_ms c)) (os_sizeof_stat os) name n off) a),
       on_file_complete = Some (\<lambda>a name path st. on_summary (on_file_complete_com (app_env_of os (get_ticks_ms c)) name st) a),
       on_progress = Some (\<lambda>a info. (False, on_world_only (\<lambda>w. os_print_progress os w info) a))\<rparr>,
     validator = None,
     capture = (if capture_wanted os then Some (\<lambda>a rec. on_world_only (\<lambda>w. os_print_packet os w rec) a) else None),
     debug_min_level = (if log_level_of os opts \<ge> 0 then log_level_of os opts else 3)\<rparr>"

text \<open>The receiver: a first window of four packets, no capture, and no validator either way, as the one it sets is NULL.\<close>

definition receive_com_config ::
    "'w os \<Rightarrow> 'w tty_calls \<Rightarrow> example_opts \<Rightarrow> bool \<Rightarrow> int \<Rightarrow> u8 list \<Rightarrow> u8 list \<Rightarrow> 'w app val_config" where
  "receive_com_config os c opts validate fd sbuf rbuf =
     (let cf = send_com_config os c opts fd sbuf rbuf;
          cf = cf\<lparr>tx_flow := (tx_flow cf)\<lparr>initial_cwnd_packets := 4\<rparr>, capture := None\<rparr>
      in the (if validate then val_config_set_validator (Some cf) None else val_config_validation_disabled (Some cf)))"

text \<open>The watchdog, which runs beside the transfer, is not part of \<^verbatim>\<open>main\<close> here. A lost port counts as success.\<close>

definition send_com_main :: "'w os \<Rightarrow> 'w tty_calls \<Rightarrow> cstr list \<Rightarrow> 'w \<Rightarrow> (int \<times> 'w app) option" where
  "send_com_main os c args w =
     (let a = \<lparr>app_summary = empty_summary, app_world = w\<rparr> in
      case send_com_command args of
        Inl rc \<Rightarrow> Some (rc, a)
      | Inr (opts, port, baud, files) \<Rightarrow>
          let ((rc, fd), a) = on_world (\<lambda>w. y_open c w (Some port) baud False) a in
          if rc \<noteq> 0 then Some (2, a)
          else
            case two_buffers os (opt_packet opts) a of
              (None, a) \<Rightarrow> Some (3, on_world_only (serial_close c fd) a)
            | (Some (sbuf, rbuf), a) \<Rightarrow>
                let cf = send_com_config os c opts fd sbuf rbuf;
                    a = prepare_summary os (length files) (open_log os opts a)
                in case val_session_create (os_build os) (app_libc os) (Some cf) True a of
                     (_, None, _, a) \<Rightarrow> Some (4, on_world_only (serial_close c fd) a)
                   | (init_rc, Some s, _, a) \<Rightarrow>
                       if init_rc \<noteq> VAL_OK then Some (4, on_world_only (serial_close c fd) a)
                       else do {
                         (st, s) \<leftarrow> val_send_files (s\<lparr>world := a\<rparr>) (Some files) None;
                         let a = val_session_destroy (app_libc os) (Some s) (world s);
                             a = on_world_only (serial_close c fd) a
                         in Some (if st = VAL_OK then 0 else if st = VAL_ERR_IO then 0 else 5, a)
                       })"

definition receive_com_main :: "'w os \<Rightarrow> 'w tty_calls \<Rightarrow> cstr list \<Rightarrow> 'w \<Rightarrow> (int \<times> 'w app) option" where
  "receive_com_main os c args w =
     (let a = \<lparr>app_summary = empty_summary, app_world = w\<rparr> in
      case receive_com_command args of
        Inl rc \<Rightarrow> Some (rc, a)
      | Inr (opts, port, baud, outdir) \<Rightarrow>
          let ((rc, fd), a) = on_world (\<lambda>w. y_open c w port baud (opt_host_mode opts)) a in
          if rc \<noteq> 0 then Some (2, a)
          else
            case two_buffers os (opt_packet opts) a of
              (None, a) \<Rightarrow> Some (3, on_world_only (serial_close c fd) a)
            | (Some (sbuf, rbuf), a) \<Rightarrow>
                let cf = receive_com_config os c opts (use_validation args) fd sbuf rbuf;
                    a = on_summary (rx_com_summary_start (app_env_of os (get_ticks_ms c))) (open_log os opts a)
                in case val_session_create (os_build os) (app_libc os) (Some cf) True a of
                     (_, None, _, a) \<Rightarrow> Some (4, on_world_only (serial_close c fd) a)
                   | (init_rc, Some s, _, a) \<Rightarrow>
                       if init_rc \<noteq> VAL_OK then Some (4, on_world_only (serial_close c fd) a)
                       else do {
                         (st, s) \<leftarrow> val_receive_files (s\<lparr>world := a\<rparr>) (Some outdir);
                         let a = on_world_only (delay_ms c 200) (world s);
                             a = val_session_destroy (app_libc os) (Some s) a;
                             a = on_world_only (serial_close c fd) a
                         in Some (if st = VAL_OK then 0 else 5, a)
                       })"

section \<open>Contracts\<close>

text \<open>
  What the programs rely on of the port: a clock and \<^verbatim>\<open>select\<close> as for sockets, and a \<^verbatim>\<open>read\<close> that takes bytes from the front of the stream, as many as were asked for
  or fewer, or none, or fails without taking one. Every call can take time, the \<^verbatim>\<open>read\<close> too (the port is set to wait for half a second), and fail.
\<close>

definition port_stream :: "'w tty_calls \<Rightarrow> int \<Rightarrow> 'w view \<Rightarrow> bool" where
  "port_stream c fd v \<longleftrightarrow>
     reads_clock v (get_ticks_ms c) \<and> waits_readable v (\<lambda>w. y_select c w fd) \<and>
     (\<forall>w n bs w'. 0 < n \<longrightarrow> y_read c w fd n = (Done bs, w') \<longrightarrow>
        passes v 0 w w' \<and> length bs \<le> n \<and> v_unread v w = bs @ v_unread v w' \<and> (bs = [] \<longrightarrow> leaves v w w')) \<and>
     (\<forall>w n err w'. 0 < n \<longrightarrow> y_read c w fd n = (Failed err, w') \<longrightarrow>
        passes v 0 w w' \<and> leaves v w w' \<and> v_failures v w < v_failures v w') \<and>
     (\<forall>w. passes v 0 w (y_usleep c w 1000) \<and> leaves v w (y_usleep c w 1000))"

lemma port_streamD:
  assumes "port_stream c fd v"
  shows "reads_clock v (get_ticks_ms c)" "waits_readable v (\<lambda>w. y_select c w fd)"
    "0 < n \<Longrightarrow> y_read c w fd n = (Done bs, w') \<Longrightarrow>
       passes v 0 w w' \<and> length bs \<le> n \<and> v_unread v w = bs @ v_unread v w' \<and> (bs = [] \<longrightarrow> leaves v w w')"
    "0 < n \<Longrightarrow> y_read c w fd n = (Failed err, w') \<Longrightarrow> passes v 0 w w' \<and> leaves v w w' \<and> v_failures v w < v_failures v w'"
    "passes v 0 w (y_usleep c w 1000)" "leaves v w (y_usleep c w 1000)"
  using assms unfolding port_stream_def by blast+

text \<open>How a read of \<open>n\<close> bytes until \<open>e\<close> that has \<open>got\<close> in \<open>w\<close> ends.\<close>

definition read_end :: "'w view \<Rightarrow> nat \<Rightarrow> nat \<Rightarrow> u8 list \<Rightarrow> 'w \<Rightarrow> u8 list \<times> 'w \<Rightarrow> bool" where
  "read_end v n e got w = (\<lambda>(all, w'). \<exists>bs. all = got @ bs \<and>
     v_unread v w = bs @ v_unread v w' \<and> v_failures v w \<le> v_failures v w' \<and> v_time v w' \<le> e + 5 * v_late v \<and> length all \<le> n \<and>
     (length all < n \<longrightarrow> v_failures v w' = v_failures v w \<longrightarrow> e \<le> v_time v w'))"

text \<open>A round leads from \<open>w\<close> to \<open>w'\<close>: later, or with fewer bytes to come, or after one of the calls that return at once.\<close>

definition moves_on :: "'w view \<Rightarrow> 'w \<Rightarrow> 'w \<Rightarrow> bool" where
  "moves_on v w w' \<longleftrightarrow>
     v_time v w < v_time v w' \<or>
     v_time v w' = v_time v w \<and>
       (length (v_unread v w') < length (v_unread v w) \<or> v_unread v w' = v_unread v w \<and> v_spins v w' < v_spins v w)"

text \<open>The part of a round after a wait that found something to read, in \<open>w\<close>.\<close>

lemma serial_read_ready:
  assumes port: "port_stream c fd v" and room: "length got < n" and w: "v_time v w \<le> e + 2 * v_late v"
    and body: "body = (case y_read c w fd (n - length got) of
          (Done bs, w) \<Rightarrow>
            if bs \<noteq> [] \<and> length got + length bs \<ge> n then Some (got @ bs, w) else serial_read_loop c fd n t start (got @ bs) w
        | (Failed err, w) \<Rightarrow>
            if err = EINTR then serial_read_loop c fd n t start got w
            else if err = EAGAIN then serial_read_loop c fd n t start got (y_usleep c w 1000)
            else case get_ticks_ms c w of (nowe, w) \<Rightarrow> Some (got, w))"
  shows "(\<exists>z. body = Some z \<and> read_end v n e got w z) \<or>
    (\<exists>bs w'. body = serial_read_loop c fd n t start (got @ bs) w' \<and> length (got @ bs) < n \<and> v_unread v w = bs @ v_unread v w' \<and>
       v_failures v w \<le> v_failures v w' \<and> v_time v w \<le> v_time v w' \<and> v_time v w' \<le> e + 4 * v_late v \<and>
       (v_time v w' = v_time v w \<longrightarrow> bs = [] \<longrightarrow> v_spins v w' \<le> v_spins v w))"
    (is "_ \<or> (\<exists>bs w'. _ bs w' \<and> ?Q bs w')")
proof -
  note portD = port_streamD [OF port]
  have pos: "0 < n - length got" using room by simp
  obtain res w1 where rd: "y_read c w fd (n - length got) = (res, w1)" by fastforce
  show ?thesis
  proof (cases res)
    case (Done bs)
    note l = portD(3) [OF pos rd [unfolded Done], unfolded passes_def leaves_def]
    show ?thesis
    proof (cases "bs \<noteq> [] \<and> n \<le> length got + length bs")
      case True
      then have "body = Some (got @ bs, w1)" by (simp add: body rd Done)
      moreover have "read_end v n e got w (got @ bs, w1)" using l True w room by (auto simp: read_end_def)
      ultimately show ?thesis by blast
    next
      case False
      then have "body = serial_read_loop c fd n t start (got @ bs) w1" by (auto simp: body rd Done)
      moreover have "?Q bs w1" using l False w room by auto
      ultimately show ?thesis by blast
    qed
  next
    case (Failed err)
    note l = portD(4) [OF pos rd [unfolded Failed], unfolded passes_def leaves_def]
    consider (intr) "err = EINTR" | (eagain) "err = EAGAIN" | (other) "err = EOTHER" by (cases err)
    then show ?thesis
    proof cases
      case intr
      then have "body = serial_read_loop c fd n t start (got @ []) w1" by (simp add: body rd Failed)
      moreover have "?Q [] w1" using l w room by auto
      ultimately show ?thesis by blast
    next
      case eagain
      then have "body = serial_read_loop c fd n t start (got @ []) (y_usleep c w1 1000)" by (simp add: body rd Failed)
      moreover have "?Q [] (y_usleep c w1 1000)"
        using l w room portD(5,6) [of w1] unfolding passes_def leaves_def by auto
      ultimately show ?thesis by blast
    next
      case other
      obtain nowe w2 where now: "get_ticks_ms c w1 = (nowe, w2)" by fastforce
      have "body = Some (got, w2)" using other by (simp add: body rd Failed now)
      moreover have "read_end v n e got w (got, w2)"
        using l w room reads_clockD(1-3) [OF portD(1) now, unfolded passes_def leaves_def] by (auto simp: read_end_def)
      ultimately show ?thesis by blast
    qed
  qed
qed

lemma serial_read_round:
  assumes port: "port_stream c fd v" and room: "length got < n"
    and clock: "b * 2 ^ 32 \<le> m0" "m0 + unat t + 5 * v_late v < b * 2 ^ 32 + 2 ^ 32"
    and w: "m0 \<le> v_time v w" "v_time v w \<le> m0 + unat t + 4 * v_late v"
  shows "(\<exists>z. serial_read_loop c fd n t (of_nat m0) got w = Some z \<and> read_end v n (m0 + unat t) got w z) \<or>
    (\<exists>bs w'. serial_read_loop c fd n t (of_nat m0) got w = serial_read_loop c fd n t (of_nat m0) (got @ bs) w' \<and> length (got @ bs) < n \<and>
       v_unread v w = bs @ v_unread v w' \<and> v_failures v w \<le> v_failures v w' \<and> m0 \<le> v_time v w' \<and>
       v_time v w' \<le> m0 + unat t + 4 * v_late v \<and> moves_on v w w')"
proof -
  note portD = port_streamD [OF port]
  obtain now w1 where now: "get_ticks_ms c w = (now, w1)" by fastforce
  obtain m where m: "now = of_nat m" "v_time v w \<le> m" "m \<le> v_time v w1" using reads_clockD(4) [OF portD(1) now] by blast
  note n1 = reads_clockD(1-3) [OF portD(1) now, unfolded passes_def leaves_def]
  have m_le: "m0 \<le> m" "m < b * 2 ^ 32 + 2 ^ 32" using m n1 w clock by linarith+
  note el = elapsed_no_wrap [OF m_le(1) clock(1) m_le(2)]
  have tm: "t \<le> of_nat (m - m0) \<longleftrightarrow> m0 + unat t \<le> m" using el m_le by (simp add: word_le_nat_alt) linarith
  show ?thesis
  proof (cases "m0 + unat t \<le> m")
    case True
    then have "serial_read_loop c fd n t (of_nat m0) got w = Some (got, w1)"
      using tm by (subst serial_read_loop.simps) (simp add: now m(1) el(1) Let_def)
    then show ?thesis using True m n1 w room by (auto simp: read_end_def)
  next
    case False
    define ms where "ms = t - of_nat (m - m0)"
    have ms: "unat ms = m0 + unat t - m" using tm False el m_le by (simp add: ms_def unat_sub not_le)
    obtain r w2 where sel: "y_select c w1 fd (timeval ms) = (r, w2)" by fastforce
    note n2 = waits_readableD [OF portD(2), of w1 ms r w2, OF sel, unfolded passes_def leaves_def ms]
    have time: "v_time v w2 \<le> m0 + unat t + 2 * v_late v" "v_time v w \<le> v_time v w2" using m n1 n2(1) False by linarith+
    have un: "v_unread v w2 = v_unread v w" "v_failures v w \<le> v_failures v w2" using n1 n2(1,2) by auto
    note loop = serial_read_loop.simps [of c fd n t "of_nat m0" got w, unfolded now m(1) Let_def split_conv el(1), folded ms_def, unfolded sel split_conv]
    show ?thesis
    proof (cases "r \<le> 0")
      case True
      have "v_failures v w2 = v_failures v w \<longrightarrow> m0 + unat t \<le> v_time v w2" using True n2 n1 False m by (cases "r = 0") auto
      moreover have "serial_read_loop c fd n t (of_nat m0) got w = Some (got, w2)" using True False tm loop by simp
      ultimately show ?thesis using un time room by (auto simp: read_end_def)
    next
      case ready: False
      have spin: "v_time v w < v_time v w2 \<or> v_time v w2 = v_time v w \<and> v_spins v w2 < v_spins v w"
        using ready n1 n2 m by (cases "v_time v w2 = v_time v w") auto
      have "serial_read_loop c fd n t (of_nat m0) got w = (case y_read c w2 fd (n - length got) of
          (Done bs, w) \<Rightarrow>
            if bs \<noteq> [] \<and> length got + length bs \<ge> n then Some (got @ bs, w) else serial_read_loop c fd n t (of_nat m0) (got @ bs) w
        | (Failed err, w) \<Rightarrow>
            if err = EINTR then serial_read_loop c fd n t (of_nat m0) got w
            else if err = EAGAIN then serial_read_loop c fd n t (of_nat m0) got (y_usleep c w 1000)
            else case get_ticks_ms c w of (nowe, w) \<Rightarrow> Some (got, w))"
        using ready False tm loop by simp
      from serial_read_ready [OF port room time(1) this] show ?thesis
      proof (rule disjE, goal_cases)
        case 1
        then show ?case using un time by (fastforce simp: read_end_def)
      next
        case 2
        then obtain bs w' where *: "serial_read_loop c fd n t (of_nat m0) got w = serial_read_loop c fd n t (of_nat m0) (got @ bs) w'"
          "length (got @ bs) < n" "v_unread v w2 = bs @ v_unread v w'" "v_failures v w2 \<le> v_failures v w'" "v_time v w2 \<le> v_time v w'"
          "v_time v w' \<le> m0 + unat t + 4 * v_late v" "v_time v w' = v_time v w2 \<longrightarrow> bs = [] \<longrightarrow> v_spins v w' \<le> v_spins v w2" by blast
        then have "moves_on v w w'" using spin un time unfolding moves_on_def by (cases "bs = []") auto
        then show ?case using * un time w(1) by (intro disjI2 exI [of _ bs] exI [of _ w']) auto
      qed
    qed
  qed
qed

lemma serial_read_stream:
  assumes port: "port_stream c fd v" and clock: "b * 2 ^ 32 \<le> m0" "m0 + unat t + 5 * v_late v < b * 2 ^ 32 + 2 ^ 32"
    and w: "length got < n" "m0 \<le> v_time v w" "v_time v w \<le> m0 + unat t + 4 * v_late v"
  shows "\<exists>z. serial_read_loop c fd n t (of_nat m0) got w = Some z \<and> read_end v n (m0 + unat t) got w z"
  using w
proof (induction "(m0 + unat t + 4 * v_late v - v_time v w, length (v_unread v w), v_spins v w)" arbitrary: w got
    rule: wf_induct_rule [OF wf_lex_prod [OF wf_less wf_lex_prod [OF wf_less wf_less]]])
  case (1 w got)
  from serial_read_round [OF port 1(2) clock 1(3,4)] show ?case
  proof (rule disjE, goal_cases)
    case 2
    then obtain bs w' where w': "serial_read_loop c fd n t (of_nat m0) got w = serial_read_loop c fd n t (of_nat m0) (got @ bs) w'"
      "length (got @ bs) < n" "v_unread v w = bs @ v_unread v w'" "v_failures v w \<le> v_failures v w'" "m0 \<le> v_time v w'"
      "v_time v w' \<le> m0 + unat t + 4 * v_late v" "moves_on v w w'" by blast
    have "((m0 + unat t + 4 * v_late v - v_time v w', length (v_unread v w'), v_spins v w'),
        m0 + unat t + 4 * v_late v - v_time v w, length (v_unread v w), v_spins v w) \<in> {(x, y). x < y} <*lex*> {(x, y). x < y} <*lex*> {(x, y). x < y}"
      using w'(6,7) unfolding moves_on_def by auto
    from 1(1) [OF this w'(2,5,6)] obtain z where
      z: "serial_read_loop c fd n t (of_nat m0) got w = Some z" "read_end v n (m0 + unat t) (got @ bs) w' z" unfolding w'(1) by blast
    then have "read_end v n (m0 + unat t) got w z" using w'(3,4) by (fastforce simp: read_end_def)
    with z(1) show ?case by blast
  qed
qed

text \<open>
  C35. The receive hook of the serial programs keeps the contract of the library on a port whose calls behave as documented: \<^verbatim>\<open>select\<close> can outlast its timeout,
  every call can take time and fail or be interrupted. With a timeout in which the 32-bit millisecond clock does not wrap around, lateness included, it returns
  within the timeout and seven times the lateness of a call, and hands out the next bytes of the stream without losing or repeating one: as many as were
  asked for, or fewer when the whole timeout has passed or when a call failed (an interrupted wait ends the read early, an interrupted read goes on).
\<close>

theorem com_recv_contract:
  assumes port: "port_stream c fd v" and n: "n \<noteq> 0" "unat n < 2 ^ 31" and t: "v_time v w mod 2 ^ 32 + unat t + 7 * v_late v < 2 ^ 32"
  shows "\<exists>bs w'. com_recv c fd w n t = Some (0, bs, w') \<and> v_unread v w = bs @ v_unread v w' \<and> length bs \<le> unat n \<and>
    v_time v w' \<le> v_time v w + unat t + 7 * v_late v \<and> v_failures v w \<le> v_failures v w' \<and>
    (length bs < unat n \<longrightarrow> v_failures v w' = v_failures v w \<longrightarrow> v_time v w + unat t \<le> v_time v w')"
proof -
  note tick = reads_clockD [OF port_streamD(1) [OF port], unfolded passes_def leaves_def]
  obtain start w1 where now: "get_ticks_ms c w = (start, w1)" by fastforce
  obtain m0 where m0: "start = of_nat m0" "v_time v w \<le> m0" "m0 \<le> v_time v w1" using tick(4) [OF now] by blast
  define b where "b = v_time v w div 2 ^ 32"
  have "v_time v w = b * 2 ^ 32 + v_time v w mod 2 ^ 32" unfolding b_def by (rule div_mult_mod_eq [symmetric])
  then have bound: "b * 2 ^ 32 \<le> m0" "m0 + unat t + 5 * v_late v < b * 2 ^ 32 + 2 ^ 32" "v_time v w1 \<le> m0 + unat t + 4 * v_late v"
    using m0 tick(1) [OF now] t by linarith+
  have "length [] < unat n" using n(1) by (simp add: unat_gt_0)
  from serial_read_stream [OF port bound(1,2) this m0(3) bound(3)] obtain bs w2 where
    r: "serial_read_loop c fd (unat n) t start [] w1 = Some (bs, w2)" and e: "read_end v (unat n) (m0 + unat t) [] w1 (bs, w2)"
    unfolding m0(1) by auto
  have small: "length bs \<le> unat n" using e by (simp add: read_end_def)
  then have u: "unat (of_nat (length bs) :: size_t) = length bs" using n(2) by (simp add: unat_of_nat_small)
  have len: "int_of_size (of_nat (length bs)) = int (length bs)"
    using int_of_size_small [of "of_nat (length bs)"] small n(2) unfolding u by linarith
  obtain now2 w3 where now2: "get_ticks_ms c w2 = (now2, w3)" by fastforce
  have rcv: "com_recv c fd w n t = Some (0, bs, if bs = [] then w3 else w2)"
    using u by (simp add: com_recv_def serial_read_def now r len now2)
  show ?thesis
    unfolding rcv using e tick(1-3) [OF now] tick(1-3) [OF now2] m0(2,3) small
    by (intro exI [of _ bs] exI [of _ "if bs = [] then w3 else w2"]) (auto simp: read_end_def)
qed

text \<open>The connection \<open>pipe\<close> as a port.\<close>

definition pipe_tty :: "pipe tty_calls" where
  "pipe_tty =
    \<lparr>y_open = \<lambda>w _ _ _. ((0, 3), w), y_close = \<lambda>w _. w, y_write = \<lambda>w _ data. (Done (length data), w\<lparr>pipe_out := pipe_out w @ data\<rparr>),
     y_read = \<lambda>w _ n. (Done (take (min n (pipe_here w)) (pipe_in w)),
        w\<lparr>pipe_in := drop (min n (pipe_here w)) (pipe_in w), pipe_here := pipe_here w - min n (pipe_here w), pipe_time := pipe_time w + 2\<rparr>),
     y_select = \<lambda>w _ tv. pipe_select w (Some tv), y_usleep = \<lambda>w us. w\<lparr>pipe_time := pipe_time w + us div 1000\<rparr>,
     y_clock = \<lambda>w. (Some (of_nat (pipe_time w) div 1000, (of_nat (pipe_time w) mod 1000) * 1000000), w),
     y_realtime = \<lambda>w. ((0, 0), w), y_nanosleep = \<lambda>w (s, ns). w\<lparr>pipe_time := pipe_time w + unat s * 1000 + unat ns div 1000000\<rparr>\<rparr>"

lemma pipe_ticks: "get_ticks_ms pipe_tty w = (of_nat (pipe_time w), w)"
proof -
  have "ucast (of_nat k :: u64) = (of_nat k :: u32)" for k by (rule bit_word_eqI) (auto simp: bit_simps)
  then show ?thesis by (simp add: get_ticks_ms_def pipe_tty_def ms_of_timespec)
qed

lemma pipe_port: "port_stream pipe_tty fd pipe_view"
proof -
  have [simp]: "y_select pipe_tty = (\<lambda>w _ tv. pipe_select w (Some tv))" "y_usleep pipe_tty = (\<lambda>w us. w\<lparr>pipe_time := pipe_time w + us div 1000\<rparr>)"
    "y_read pipe_tty = (\<lambda>w _ n. (Done (take (min n (pipe_here w)) (pipe_in w)),
        w\<lparr>pipe_in := drop (min n (pipe_here w)) (pipe_in w), pipe_here := pipe_here w - min n (pipe_here w), pipe_time := pipe_time w + 2\<rparr>))"
    by (simp_all add: pipe_tty_def)
  have "reads_clock pipe_view (get_ticks_ms pipe_tty)" by (auto simp: reads_clock_def passes_def leaves_def pipe_ticks)
  then show ?thesis
    unfolding port_stream_def using pipe_waits by (auto simp: passes_def leaves_def min_def)
qed

theorem com_recv_contract_witness:
  "\<exists>bs w'. com_recv pipe_tty 3 pipe_world 8 250 = Some (0, bs, w') \<and> pipe_in pipe_world = bs @ pipe_in w' \<and> length bs \<le> 8 \<and>
    pipe_time w' \<le> 1271 \<and> (length bs < 8 \<longrightarrow> pipe_failures w' = 0 \<longrightarrow> 1250 \<le> pipe_time w')"
  using com_recv_contract [OF pipe_port, of 8 pipe_world 250 3] by (auto simp: pipe_world_def)

section \<open>Exit codes and the watchdog\<close>

text \<open>The serial sender returns zero for a transfer that failed with an input or output error.\<close>

lemma send_com_exit:
  fixes os :: "'w os"
  assumes cmd: "send_com_command args = Inr (opts, port, baud, files)" and run: "send_com_main os c args w = Some (rc, a)"
  shows "rc \<in> {2, 3, 4} \<or>
    (\<exists>fd a1 sb rb a2 s d a3 st s'.
       on_world (\<lambda>w. y_open c w (Some port) baud False) \<lparr>app_summary = empty_summary, app_world = w\<rparr> = ((0, fd), a1) \<and>
       two_buffers os (opt_packet opts) a1 = (Some (sb, rb), a2) \<and>
       val_session_create (os_build os) (app_libc os) (Some (send_com_config os c opts fd sb rb)) True
         (prepare_summary os (length files) (open_log os opts a2)) = (VAL_OK, Some s, d, a3) \<and>
       val_send_files (s\<lparr>world := a3\<rparr>) (Some files) None = Some (st, s') \<and> rc = (if st = VAL_OK \<or> st = VAL_ERR_IO then 0 else 5))"
proof -
  obtain open_rc fd a1 where op: "on_world (\<lambda>w. y_open c w (Some port) baud False) \<lparr>app_summary = empty_summary, app_world = w\<rparr> = ((open_rc, fd), a1)"
    by (metis prod.exhaust)
  show ?thesis
    using run
    by (auto simp: send_com_main_def cmd op Let_def Option.bind_eq_Some_conv split: if_splits option.splits prod.splits)
qed

text \<open>The counters the watchdog compares, and its rounds one after the other until it cancels.\<close>

definition counters :: "val_metrics_t \<Rightarrow> u64 \<times> u64 \<times> u64 \<times> u64" where
  "counters m = (packets_sent m, packets_recv m, bytes_sent m, bytes_recv m)"

fun watchdog_run :: "watchdog \<Rightarrow> (val_metrics_t \<times> u32) list \<Rightarrow> bool" where
  "watchdog_run wd [] = False"
| "watchdog_run wd ((m, now) # rounds) =
     (case watchdog_round (Some m) now wd of (cancel, wd) \<Rightarrow> cancel \<or> watchdog_run wd rounds)"

text \<open>It cancels only when it has seen the same counters in a row for more than twenty seconds.\<close>

lemma watchdog_cancels_stalled:
  "watchdog_run wd rounds \<Longrightarrow>
    (\<exists>ys m t zs. rounds = ys @ (m, t) # zs \<and> \<not> wd_first wd \<and> (\<forall>x \<in> set (ys @ [(m, t)]). counters (fst x) = counters (wd_last wd)) \<and>
       20000 < t - wd_last_change_ms wd) \<or>
    (\<exists>xs m0 t0 ys m t zs. rounds = xs @ (m0, t0) # ys @ (m, t) # zs \<and>
       (\<forall>x \<in> set (ys @ [(m, t)]). counters (fst x) = counters m0) \<and> 20000 < t - t0)"
proof (induction wd rounds rule: watchdog_run.induct)
  case (2 wd m now rounds)
  show ?case
  proof (cases "wd_first wd \<or> counters m \<noteq> counters (wd_last wd)")
    case True
    define wd' where "wd' = \<lparr>wd_last = m, wd_last_change_ms = now, wd_first = False\<rparr>"
    have round: "watchdog_round (Some m) now wd = (False, wd')"
      using True by (auto simp: watchdog_round_def counters_def wd'_def Let_def)
    with "2.prems" have "watchdog_run wd' rounds" by simp
    from "2.IH" [OF round [symmetric] this] show ?thesis
    proof (elim disjE exE conjE)
      fix ys m' t zs
      assume "rounds = ys @ (m', t) # zs" "\<forall>x \<in> set (ys @ [(m', t)]). counters (fst x) = counters (wd_last wd')" "20000 < t - wd_last_change_ms wd'"
      then show ?thesis by (intro disjI2 exI [of _ "[]"] exI [of _ m] exI [of _ now] exI [of _ ys] exI [of _ m'] exI [of _ t] exI [of _ zs]) (simp add: wd'_def)
    next
      fix xs m0 t0 ys m' t zs
      assume "rounds = xs @ (m0, t0) # ys @ (m', t) # zs" "\<forall>x \<in> set (ys @ [(m', t)]). counters (fst x) = counters m0" "20000 < t - t0"
      then show ?thesis by (intro disjI2 exI [of _ "(m, now) # xs"] exI [of _ m0] exI [of _ t0] exI [of _ ys] exI [of _ m'] exI [of _ t] exI [of _ zs]) simp
    qed
  next
    case False
    have round: "watchdog_round (Some m) now wd = (20000 < now - wd_last_change_ms wd, wd)"
      using False by (auto simp: watchdog_round_def counters_def Let_def)
    show ?thesis
    proof (cases "20000 < now - wd_last_change_ms wd")
      case True
      then show ?thesis using False by (intro disjI1 exI [of _ "[]"] exI [of _ m] exI [of _ now] exI [of _ rounds]) simp
    next
      case quiet: False
      with "2.prems" round have "watchdog_run wd rounds" by simp
      from "2.IH" [OF round [symmetric] this] show ?thesis
      proof (elim disjE exE conjE)
        fix ys m' t zs
        assume "rounds = ys @ (m', t) # zs" "\<forall>x \<in> set (ys @ [(m', t)]). counters (fst x) = counters (wd_last wd)" "20000 < t - wd_last_change_ms wd"
        then show ?thesis using False
          by (intro disjI1 exI [of _ "(m, now) # ys"] exI [of _ m'] exI [of _ t] exI [of _ zs]) simp
      next
        fix xs m0 t0 ys m' t zs
        assume "rounds = xs @ (m0, t0) # ys @ (m', t) # zs" "\<forall>x \<in> set (ys @ [(m', t)]). counters (fst x) = counters m0" "20000 < t - t0"
        then show ?thesis by (intro disjI2 exI [of _ "(m, now) # xs"] exI [of _ m0] exI [of _ t0] exI [of _ ys] exI [of _ m'] exI [of _ t] exI [of _ zs]) simp
      qed
    qed
  qed
qed simp

end
